(* ===== verification/Prelude.thy ===== *)
theory Prelude
  imports Main "HOL-Library.AList" "HOL-Library.List_Lexorder" "HOL-Library.Char_ord"
begin

text \<open>
  Shared ground of the development: the errors of the Go code as values, stateful computations
  that may fail and the combinators that compose them, Hoare-style triples for such
  computations, and generic facts on association lists. Components import this theory and
  declare their own facts into the collections opened here.
\<close>

named_theorems io_simps \<open>unfolding of the combinators for computations that may fail\<close>
named_theorems triple_rules \<open>triples of the primitive and derived operations\<close>
named_theorems str_simps \<open>evaluation of the Go string and path functions\<close>

section \<open>Errors\<close>

text \<open>
  The error values the code distinguishes. \<open>Wrapped\<close> is \<open>fmt.Errorf\<close> with a \<open>%w\<close> verb: it
  keeps the cause, which \<open>errors.As\<close> and \<open>errors.Is\<close> see through and \<open>os.IsNotExist\<close> and
  \<open>==\<close> do not. \<open>ErrMsg\<close> is \<open>fmt.Errorf\<close> without a cause.
\<close>

datatype goerr =
    ErrNotExist          \<comment> \<open>\<open>os.ErrNotExist\<close> and the path errors that report it\<close>
  | ErrExist             \<comment> \<open>\<open>os.ErrExist\<close>\<close>
  | ErrIO                \<comment> \<open>any other failure of a system call\<close>
  | ErrDB                \<comment> \<open>failure of the database driver or connection\<close>
  | ErrNoRows            \<comment> \<open>\<open>sql.ErrNoRows\<close>\<close>
  | ErrUnique            \<comment> \<open>a UNIQUE constraint rejected the statement\<close>
  | ErrForeignKey        \<comment> \<open>a REFERENCES constraint rejected the statement\<close>
  | ErrNotFound          \<comment> \<open>\<open>store.ErrNotFound\<close>\<close>
  | SMTPError nat        \<comment> \<open>\<open>*smtp.SMTPError\<close> with its reply code\<close>
  | IMAPError string     \<comment> \<open>\<open>*imap.Error\<close> of type NO with its response code\<close>
  | ErrMsg string
  | Wrapped string goerr

section \<open>Computations with state and errors\<close>

type_synonym ('s, 'a) io = "'s \<Rightarrow> (goerr + 'a) \<times> 's"

definition io_ret :: "'a \<Rightarrow> ('s, 'a) io" where
  "io_ret x s = (Inr x, s)"

definition io_fail :: "goerr \<Rightarrow> ('s, 'a) io" where
  "io_fail e s = (Inl e, s)"

text \<open>\<open>io_either m h k\<close> runs \<open>m\<close>, then \<open>h\<close> on its error or \<open>k\<close> on its result.\<close>

definition io_either :: "('s, 'a) io \<Rightarrow> (goerr \<Rightarrow> ('s, 'b) io) \<Rightarrow> ('a \<Rightarrow> ('s, 'b) io) \<Rightarrow> ('s, 'b) io" where
  "io_either m h k s = (case m s of (Inl e, s') \<Rightarrow> h e s' | (Inr x, s') \<Rightarrow> k x s')"

definition io_bind :: "('s, 'a) io \<Rightarrow> ('a \<Rightarrow> ('s, 'b) io) \<Rightarrow> ('s, 'b) io" where
  "io_bind m k = io_either m io_fail k"

text \<open>\<open>if err != nil { return fmt.Errorf("msg: %w", err) }\<close> after a call.\<close>

definition io_wrap :: "string \<Rightarrow> ('s, 'a) io \<Rightarrow> ('s, 'a) io" where
  "io_wrap msg m = io_either m (\<lambda>e. io_fail (Wrapped msg e)) io_ret"

text \<open>\<open>_ = f()\<close>: the result and the error are both dropped.\<close>

definition io_ignore :: "('s, 'a) io \<Rightarrow> ('s, unit) io" where
  "io_ignore m = io_either m (\<lambda>_. io_ret ()) (\<lambda>_. io_ret ())"

fun io_for :: "'a list \<Rightarrow> ('a \<Rightarrow> ('s, unit) io) \<Rightarrow> ('s, unit) io" where
  "io_for [] f = io_ret ()"
| "io_for (x # xs) f = io_bind (f x) (\<lambda>_. io_for xs f)"

fun io_map :: "('a \<Rightarrow> ('s, 'b) io) \<Rightarrow> 'a list \<Rightarrow> ('s, 'b list) io" where
  "io_map f [] = io_ret []"
| "io_map f (x # xs) = io_bind (f x) (\<lambda>y. io_bind (io_map f xs) (\<lambda>ys. io_ret (y # ys)))"

definition io_gets :: "('s \<Rightarrow> 'a) \<Rightarrow> ('s, 'a) io" where
  "io_gets f s = (Inr (f s), s)"

definition io_modify :: "('s \<Rightarrow> 's) \<Rightarrow> ('s, unit) io" where
  "io_modify f s = (Inr (), f s)"

lemma io_ret_apply [io_simps]: "io_ret x s = (Inr x, s)"
  by (simp add: io_ret_def)

lemma io_fail_apply [io_simps]: "io_fail e s = (Inl e, s)"
  by (simp add: io_fail_def)

lemma io_gets_apply [io_simps]: "io_gets f s = (Inr (f s), s)"
  by (simp add: io_gets_def)

lemma io_modify_apply [io_simps]: "io_modify f s = (Inr (), f s)"
  by (simp add: io_modify_def)

lemma io_either_apply [io_simps]:
  "io_either m h k s = (case m s of (Inl e, s') \<Rightarrow> h e s' | (Inr x, s') \<Rightarrow> k x s')"
  by (simp add: io_either_def)

lemma io_bind_apply [io_simps]:
  "io_bind m k s = (case m s of (Inl e, s') \<Rightarrow> (Inl e, s') | (Inr x, s') \<Rightarrow> k x s')"
  by (simp add: io_bind_def io_either_def io_fail_def split: prod.splits sum.splits)

lemma io_wrap_apply [io_simps]:
  "io_wrap msg m s = (case m s of (Inl e, s') \<Rightarrow> (Inl (Wrapped msg e), s') | (Inr x, s') \<Rightarrow> (Inr x, s'))"
  by (simp add: io_wrap_def io_either_def io_fail_def io_ret_def split: prod.splits sum.splits)

lemma io_ignore_apply [io_simps]: "io_ignore m s = (Inr (), snd (m s))"
  by (simp add: io_ignore_def io_either_def io_ret_def split: prod.splits sum.splits)

lemma io_bind_ok:
  "io_bind m k s = (Inr y, s') \<longleftrightarrow> (\<exists>x t. m s = (Inr x, t) \<and> k x t = (Inr y, s'))"
  by (auto simp: io_bind_apply split: prod.splits sum.splits)

lemma io_bind_err:
  "io_bind m k s = (Inl e, s') \<longleftrightarrow> m s = (Inl e, s') \<or> (\<exists>x t. m s = (Inr x, t) \<and> k x t = (Inl e, s'))"
  by (auto simp: io_bind_apply split: prod.splits sum.splits)

lemma io_wrap_ok: "io_wrap msg m s = (Inr y, s') \<longleftrightarrow> m s = (Inr y, s')"
  by (auto simp: io_wrap_apply split: prod.splits sum.splits)

lemma io_ret_ok: "io_ret x s = (Inr y, s') \<longleftrightarrow> y = x \<and> s' = s"
  by (auto simp: io_ret_def)

lemma io_fail_ok: "io_fail e s = (Inr y, s') \<longleftrightarrow> False"
  by (simp add: io_fail_def)

lemma io_bind_cong_run:
  assumes "m s = m' s" and "\<And>x t. m' s = (Inr x, t) \<Longrightarrow> k x t = k' x t"
  shows "io_bind m k s = io_bind m' k' s"
  using assms by (cases "m' s"; cases "fst (m' s)") (auto simp: io_bind_apply)

lemma io_either_cong_run:
  assumes "\<And>e t. m s = (Inl e, t) \<Longrightarrow> h e t = h' e t" and "\<And>x t. m s = (Inr x, t) \<Longrightarrow> k x t = k' x t"
  shows "io_either m h k s = io_either m h' k' s"
  using assms by (cases "m s"; cases "fst (m s)") (auto simp: io_either_def)

lemma io_wrap_cong_run: "m s = m' s \<Longrightarrow> io_wrap msg m s = io_wrap msg m' s"
  by (simp add: io_wrap_apply)

lemmas io_oks = io_bind_ok io_wrap_ok io_ret_ok io_fail_ok

subsection \<open>Triples\<close>

text \<open>
  \<open>triple P m Q E\<close>: from a state with \<open>P\<close>, the computation \<open>m\<close> ends in \<open>Q\<close> of its result, or
  in \<open>E\<close> of its error. Every computation here is total, so this is total correctness.
\<close>

definition triple ::
  "('s \<Rightarrow> bool) \<Rightarrow> ('s, 'a) io \<Rightarrow> ('a \<Rightarrow> 's \<Rightarrow> bool) \<Rightarrow> (goerr \<Rightarrow> 's \<Rightarrow> bool) \<Rightarrow> bool" where
  "triple P m Q E \<longleftrightarrow>
     (\<forall>s. P s \<longrightarrow> (case m s of (Inl e, s') \<Rightarrow> E e s' | (Inr x, s') \<Rightarrow> Q x s'))"

lemma tripleI:
  assumes "\<And>s x s'. P s \<Longrightarrow> m s = (Inr x, s') \<Longrightarrow> Q x s'"
    and "\<And>s e s'. P s \<Longrightarrow> m s = (Inl e, s') \<Longrightarrow> E e s'"
  shows "triple P m Q E"
  using assms by (auto simp: triple_def split: prod.splits sum.splits)

lemma tripleD_ok: "triple P m Q E \<Longrightarrow> P s \<Longrightarrow> m s = (Inr x, s') \<Longrightarrow> Q x s'"
  by (force simp: triple_def)

lemma tripleD_err: "triple P m Q E \<Longrightarrow> P s \<Longrightarrow> m s = (Inl e, s') \<Longrightarrow> E e s'"
  by (force simp: triple_def)

lemma triple_ret: "(\<And>s. P s \<Longrightarrow> Q x s) \<Longrightarrow> triple P (io_ret x) Q E"
  by (simp add: triple_def io_ret_def)

lemma triple_fail: "(\<And>s. P s \<Longrightarrow> E e s) \<Longrightarrow> triple P (io_fail e) Q E"
  by (simp add: triple_def io_fail_def)

lemma triple_either:
  assumes "triple P m R F"
    and "\<And>e. triple (F e) (h e) Q E"
    and "\<And>x. triple (R x) (k x) Q E"
  shows "triple P (io_either m h k) Q E"
  using assms unfolding triple_def io_either_def
  by (fastforce split: prod.splits sum.splits)

lemma triple_bind:
  assumes "triple P m R E"
    and "\<And>x. triple (R x) (k x) Q E"
  shows "triple P (io_bind m k) Q E"
  unfolding io_bind_def
  by (rule triple_either [OF assms(1)]) (auto intro: triple_fail assms(2))

lemma triple_wrap:
  assumes "triple P m Q (\<lambda>e. E (Wrapped msg e))"
  shows "triple P (io_wrap msg m) Q E"
  unfolding io_wrap_def
  by (rule triple_either [OF assms]) (auto intro: triple_fail triple_ret)

lemma triple_ignore:
  assumes "triple P m (\<lambda>_. Q ()) (\<lambda>_. Q ())"
  shows "triple P (io_ignore m) Q E"
  unfolding io_ignore_def
  by (rule triple_either [OF assms]) (auto intro: triple_ret)

lemma triple_weaken:
  assumes "triple P' m Q' E'"
    and "\<And>s. P s \<Longrightarrow> P' s"
    and "\<And>x s. Q' x s \<Longrightarrow> Q x s"
    and "\<And>e s. E' e s \<Longrightarrow> E e s"
  shows "triple P m Q E"
  using assms unfolding triple_def by (fastforce split: prod.splits sum.splits)

lemma triple_True [simp]: "triple P m (\<lambda>_ _. True) (\<lambda>_ _. True)"
  by (rule tripleI) simp_all

lemma triple_ex:
  assumes "\<And>x. triple (P x) m Q E"
  shows "triple (\<lambda>s. \<exists>x. P x s) m Q E"
proof (rule tripleI)
  show "Q r s'" if "\<exists>x. P x s" "m s = (Inr r, s')" for s r s'
    using that tripleD_ok [OF assms] by blast
  show "E e s'" if "\<exists>x. P x s" "m s = (Inl e, s')" for s e s'
    using that tripleD_err [OF assms] by blast
qed

lemma triple_pure: "(b \<Longrightarrow> triple P m Q E) \<Longrightarrow> triple (\<lambda>s. P s \<and> b) m Q E"
  by (auto simp: triple_def)

lemma triple_for:
  assumes "\<And>x. x \<in> set xs \<Longrightarrow> triple I (f x) (\<lambda>_. I) (\<lambda>_. I)"
  shows "triple I (io_for xs f) (\<lambda>_. I) (\<lambda>_. I)"
  using assms
proof (induction xs)
  case Nil
  then show ?case by (auto intro: triple_ret)
next
  case (Cons x xs)
  then show ?case by (auto intro!: triple_bind [where R = "\<lambda>_. I"])
qed

lemma triple_map:
  assumes "\<And>pre x rest ys. xs = pre @ x # rest \<Longrightarrow>
      triple (I pre ys) (f x) (\<lambda>y. I (pre @ [x]) (ys @ [y])) E"
  shows "triple (I [] []) (io_map f xs) (\<lambda>ys. I xs ys) E"
proof -
  have "triple (I pre ys) (io_map f rest) (\<lambda>zs. I (pre @ rest) (ys @ zs)) E"
    if "xs = pre @ rest" for pre rest ys
    using that
  proof (induction rest arbitrary: pre ys)
    case Nil
    show ?case by (auto intro: triple_ret)
  next
    case (Cons x rest)
    show ?case
      unfolding io_map.simps
    proof (rule triple_bind [OF assms [OF Cons.prems]], rule triple_bind)
      show "triple (I (pre @ [x]) (ys @ [y])) (io_map f rest)
          (\<lambda>zs. I (pre @ x # rest) (ys @ y # zs)) E" for y
        using Cons.IH [of "pre @ [x]" "ys @ [y]"] Cons.prems by simp
    qed (auto intro: triple_ret)
  qed
  from this [of "[]" xs "[]"] show ?thesis by simp
qed

subsection \<open>Effects\<close>

text \<open>
  \<open>keeps R m\<close>: whatever \<open>m\<close> returns, its final state is related to the initial one by \<open>R\<close>.
  With \<open>R\<close> reflexive and transitive (an unchanged component of the state, a counter that
  only grows) every combination of such computations does the same.
\<close>

definition keeps :: "('s \<Rightarrow> 's \<Rightarrow> bool) \<Rightarrow> ('s, 'a) io \<Rightarrow> bool" where
  "keeps R m \<longleftrightarrow> (\<forall>s. R s (snd (m s)))"

lemma keepsD: "keeps R m \<Longrightarrow> R s (snd (m s))"
  by (simp add: keeps_def)

locale effect =
  fixes R :: "'s \<Rightarrow> 's \<Rightarrow> bool"
  assumes R_refl: "R s s"
    and R_trans: "R s t \<Longrightarrow> R t u \<Longrightarrow> R s u"
begin

lemma keeps_ret: "keeps R (io_ret x)"
  by (simp add: keeps_def io_ret_def R_refl)

lemma keeps_fail: "keeps R (io_fail e)"
  by (simp add: keeps_def io_fail_def R_refl)

lemma keeps_gets: "keeps R (io_gets f)"
  by (simp add: keeps_def io_gets_def R_refl)

lemma keeps_either:
  assumes "keeps R m" and "\<And>e. keeps R (h e)" and "\<And>x. keeps R (k x)"
  shows "keeps R (io_either m h k)"
  unfolding keeps_def
proof
  fix s
  obtain r s' where m: "m s = (r, s')" by fastforce
  with assms(1) have "R s s'" by (metis keeps_def snd_conv)
  with m assms(2,3) show "R s (snd (io_either m h k s))"
    by (cases r) (auto simp: io_either_def keeps_def intro: R_trans)
qed

lemma keeps_bind:
  "keeps R m \<Longrightarrow> (\<And>x. keeps R (k x)) \<Longrightarrow> keeps R (io_bind m k)"
  unfolding io_bind_def by (rule keeps_either) (auto intro: keeps_fail)

lemma keeps_wrap: "keeps R m \<Longrightarrow> keeps R (io_wrap msg m)"
  unfolding io_wrap_def by (rule keeps_either) (auto intro: keeps_fail keeps_ret)

lemma keeps_ignore: "keeps R m \<Longrightarrow> keeps R (io_ignore m)"
  unfolding io_ignore_def by (rule keeps_either) (auto intro: keeps_ret)

lemma keeps_for: "(\<And>x. x \<in> set xs \<Longrightarrow> keeps R (f x)) \<Longrightarrow> keeps R (io_for xs f)"
  by (induction xs) (auto intro: keeps_ret keeps_bind)

lemma keeps_map: "(\<And>x. x \<in> set xs \<Longrightarrow> keeps R (f x)) \<Longrightarrow> keeps R (io_map f xs)"
  by (induction xs) (auto intro: keeps_ret keeps_bind)

lemma keeps_if: "keeps R m \<Longrightarrow> keeps R n \<Longrightarrow> keeps R (if b then m else n)"
  by simp

lemmas keeps_rules = keeps_ret keeps_fail keeps_gets keeps_either keeps_bind
  keeps_wrap keeps_ignore keeps_for keeps_map keeps_if

end

section \<open>Machines\<close>

text \<open>
  A component with a list of operations: an operation takes one state to the next, and an
  invariant that each operation keeps holds after any sequence of them.
\<close>

locale machine =
  fixes step :: "'op \<Rightarrow> 's \<Rightarrow> 's"
    and inv :: "'s \<Rightarrow> bool"
  assumes inv_step: "inv s \<Longrightarrow> inv (step a s)"
begin

lemma inv_run: "inv s \<Longrightarrow> inv (fold step as s)"
  by (induction as arbitrary: s) (auto intro: inv_step)

end

section \<open>Simulations\<close>

text \<open>
  Two machines in lock step: related states stay related under the same operations and give
  the same observations, so no client can tell them apart.
\<close>

locale simulation =
  fixes step1 :: "'op \<Rightarrow> 's \<Rightarrow> 's"
    and step2 :: "'op \<Rightarrow> 't \<Rightarrow> 't"
    and rel :: "'s \<Rightarrow> 't \<Rightarrow> bool"
    and ok :: "'op \<Rightarrow> 's \<Rightarrow> bool"
    and obs1 :: "'s \<Rightarrow> 'o"
    and obs2 :: "'t \<Rightarrow> 'o"
  assumes sim_step: "rel s t \<Longrightarrow> ok a s \<Longrightarrow> rel (step1 a s) (step2 a t)"
    and sim_obs: "rel s t \<Longrightarrow> obs1 s = obs2 t"
begin

fun admissible :: "'op list \<Rightarrow> 's \<Rightarrow> bool" where
  "admissible [] s = True"
| "admissible (a # as) s = (ok a s \<and> admissible as (step1 a s))"

lemma sim_run: "rel s t \<Longrightarrow> admissible as s \<Longrightarrow> rel (fold step1 as s) (fold step2 as t)"
  by (induction as arbitrary: s t) (auto intro: sim_step)

lemma sim_run_obs:
  "rel s t \<Longrightarrow> admissible as s \<Longrightarrow> obs1 (fold step1 as s) = obs2 (fold step2 as t)"
  by (blast intro: sim_run sim_obs)

end

section \<open>Association lists\<close>

text \<open>Go maps and directories are association lists, read with \<open>map_of\<close>.\<close>

lemma map_of_upd [simp]: "map_of (AList.update k v al) = (map_of al)(k \<mapsto> v)"
  by (rule AList.update_conv')

lemma map_of_del [simp]: "map_of (AList.delete k al) = (map_of al)(k := None)"
  by (rule AList.delete_conv')

lemma map_of_filter_key:
  "map_of (filter (\<lambda>kv. P (fst kv)) al) k = (if P k then map_of al k else None)"
  by (induction al) auto

lemma set_map_fst_iff: "k \<in> fst ` set al \<longleftrightarrow> map_of al k \<noteq> None"
  by (induction al) auto

section \<open>Lists\<close>

lemma sorted_remdups_sort: "sorted (sort (remdups xs)) \<and> distinct (sort (remdups xs))"
  by simp

lemma find_SomeD: "find P xs = Some x \<Longrightarrow> x \<in> set xs \<and> P x"
  by (auto simp: find_Some_iff)

lemma find_append_new: "(\<And>x. x \<in> set xs \<Longrightarrow> \<not> P x) \<Longrightarrow> P y \<Longrightarrow> find P (xs @ [y]) = Some y"
  by (induction xs) auto

lemma find_unique:
  assumes "x \<in> set xs" and "P x" and "\<And>y. y \<in> set xs \<Longrightarrow> P y \<Longrightarrow> y = x"
  shows "find P xs = Some x"
proof -
  have "find P xs \<noteq> None"
    using assms(1,2) by (auto simp: find_None_iff)
  then obtain y where "find P xs = Some y" by blast
  with assms(3) find_SomeD [OF this] show ?thesis by auto
qed

end
