(* ===== verification/GoStrings.thy ===== *)
theory GoStrings
  imports Prelude
begin

text \<open>
  The part of Go's \<open>strings\<close>, \<open>strconv\<close>, \<open>encoding/hex\<close> and \<open>path/filepath\<close> packages the code
  uses, on strings as lists of bytes. Case mapping and white space are those of the ASCII
  range, which is what the Go functions do on ASCII strings; bytes outside it are left alone.
\<close>

section \<open>Case, white space\<close>

definition is_upper :: "char \<Rightarrow> bool" where
  "is_upper c \<longleftrightarrow> (65::nat) \<le> of_char c \<and> of_char c \<le> (90::nat)"

definition lower_char :: "char \<Rightarrow> char" where
  "lower_char c = (if is_upper c then char_of (of_char c + 32 :: nat) else c)"

definition to_lower :: "string \<Rightarrow> string" where
  "to_lower s = map lower_char s"

definition equal_fold :: "string \<Rightarrow> string \<Rightarrow> bool" where
  "equal_fold s t \<longleftrightarrow> to_lower s = to_lower t"

definition is_space :: "char \<Rightarrow> bool" where
  "is_space c \<longleftrightarrow> of_char c = (32::nat) \<or> ((9::nat) \<le> of_char c \<and> of_char c \<le> (13::nat))"

definition trim_space :: "string \<Rightarrow> string" where
  "trim_space s = rev (dropWhile is_space (rev (dropWhile is_space s)))"

text \<open>The same on the bits of a character, which is what evaluation uses.\<close>

lemma is_upper_code [code]:
  "is_upper (Char b0 b1 b2 b3 b4 b5 b6 b7) \<longleftrightarrow> \<not> b7 \<and> b6 \<and> \<not> b5 \<and> (b0 \<or> b1 \<or> b2 \<or> b3 \<or> b4) \<and> \<not> (b4 \<and> b3 \<and> (b2 \<or> b1 \<and> b0))"
  unfolding is_upper_def
  by (cases b0; cases b1; cases b2; cases b3; cases b4; cases b5; cases b6; cases b7; simp)

lemma lower_char_code [code]:
  "lower_char (Char b0 b1 b2 b3 b4 b5 b6 b7) =
     Char b0 b1 b2 b3 b4 (b5 \<or> (\<not> b7 \<and> b6 \<and> (b0 \<or> b1 \<or> b2 \<or> b3 \<or> b4) \<and> \<not> (b4 \<and> b3 \<and> (b2 \<or> b1 \<and> b0)))) b6 b7"
  unfolding lower_char_def is_upper_def
  by (cases b0; cases b1; cases b2; cases b3; cases b4; cases b5; cases b6; cases b7; simp add: char_of_eq_iff)

lemma is_space_code [code]:
  "is_space (Char b0 b1 b2 b3 b4 b5 b6 b7) \<longleftrightarrow> \<not> b7 \<and> \<not> b6 \<and>
     (if b5 then \<not> b4 \<and> \<not> b3 \<and> \<not> b2 \<and> \<not> b1 \<and> \<not> b0 else \<not> b4 \<and> b3 \<and> (b0 \<or> b1 \<or> b2) \<and> \<not> (b2 \<and> b1))"
  unfolding is_space_def
  by (cases b0; cases b1; cases b2; cases b3; cases b4; cases b5; cases b6; cases b7; simp)

lemma of_char_char_of_nat: "n < 256 \<Longrightarrow> of_char (char_of n :: char) = (n :: nat)"
  by (simp add: of_char_of)

lemma lower_char_not_upper: "\<not> is_upper (lower_char c)"
  by (auto simp: lower_char_def is_upper_def of_char_char_of_nat)

lemma lower_char_id: "\<not> is_upper c \<Longrightarrow> lower_char c = c"
  by (simp add: lower_char_def)

lemma lower_char_idem [simp]: "lower_char (lower_char c) = lower_char c"
  by (simp add: lower_char_id lower_char_not_upper)

lemma to_lower_idem [simp]: "to_lower (to_lower s) = to_lower s"
  by (simp add: to_lower_def)

lemma to_lower_append [simp]: "to_lower (s @ t) = to_lower s @ to_lower t"
  by (simp add: to_lower_def)

lemma to_lower_Nil [simp]: "to_lower [] = []"
  by (simp add: to_lower_def)

lemma length_to_lower [simp]: "length (to_lower s) = length s"
  by (simp add: to_lower_def)

lemma to_lower_no_upper: "c \<in> set (to_lower s) \<Longrightarrow> \<not> is_upper c"
  by (auto simp: to_lower_def lower_char_not_upper)

lemma lower_char_eq_iff:
  assumes "\<not> is_upper d" and "\<not> (97 \<le> (of_char d :: nat) \<and> (of_char d :: nat) \<le> 122)"
  shows "lower_char c = d \<longleftrightarrow> c = d"
proof
  assume eq: "lower_char c = d"
  show "c = d"
  proof (cases "is_upper c")
    case True
    then have "(of_char d :: nat) = of_char c + 32"
      using eq by (auto simp: lower_char_def is_upper_def of_char_char_of_nat)
    with True assms(2) show ?thesis by (auto simp: is_upper_def)
  next
    case False
    with eq show ?thesis by (simp add: lower_char_id)
  qed
next
  assume "c = d"
  with assms(1) show "lower_char c = d" by (simp add: lower_char_id)
qed

lemma equal_fold_refl [simp]: "equal_fold s s"
  by (simp add: equal_fold_def)

lemma equal_fold_sym: "equal_fold s t \<Longrightarrow> equal_fold t s"
  by (simp add: equal_fold_def)

lemma equal_fold_trans: "equal_fold s t \<Longrightarrow> equal_fold t u \<Longrightarrow> equal_fold s u"
  by (simp add: equal_fold_def)

lemma equal_fold_lower [simp]:
  "equal_fold (to_lower s) t = equal_fold s t"
  "equal_fold s (to_lower t) = equal_fold s t"
  by (simp_all add: equal_fold_def)

lemma to_lower_trim_space: "to_lower (trim_space (to_lower s)) = trim_space (to_lower s)"
proof -
  have sub: "set (trim_space t) \<subseteq> set t" for t
    by (auto simp: trim_space_def dest!: set_dropWhileD)
  have "to_lower t = t" if "\<And>c. c \<in> set t \<Longrightarrow> \<not> is_upper c" for t
    using that by (simp add: to_lower_def map_idI lower_char_id)
  then show ?thesis
    using sub to_lower_no_upper by (metis subsetD)
qed

section \<open>Searching, cutting, joining\<close>

text \<open>\<open>strings.LastIndexByte\<close>: the index of the last occurrence, or -1.\<close>

fun last_index_byte :: "string \<Rightarrow> char \<Rightarrow> int" where
  "last_index_byte [] c = -1"
| "last_index_byte (x # xs) c =
     (let i = last_index_byte xs c
      in if 0 \<le> i then i + 1 else if x = c then 0 else -1)"

text \<open>\<open>strings.IndexByte\<close> and \<open>strings.Index\<close>: the first occurrence, or -1.\<close>

fun index_byte :: "string \<Rightarrow> char \<Rightarrow> int" where
  "index_byte [] c = -1"
| "index_byte (x # xs) c =
     (if x = c then 0 else let i = index_byte xs c in if i < 0 then -1 else i + 1)"

definition has_prefix :: "string \<Rightarrow> string \<Rightarrow> bool" where
  "has_prefix s p \<longleftrightarrow> take (length p) s = p"

definition has_suffix :: "string \<Rightarrow> string \<Rightarrow> bool" where
  "has_suffix s p \<longleftrightarrow> length p \<le> length s \<and> drop (length s - length p) s = p"

definition trim_suffix :: "string \<Rightarrow> string \<Rightarrow> string" where
  "trim_suffix s p = (if has_suffix s p then take (length s - length p) s else s)"

fun index_str :: "string \<Rightarrow> string \<Rightarrow> int" where
  "index_str [] p = (if p = [] then 0 else -1)"
| "index_str (x # xs) p =
     (if has_prefix (x # xs) p then 0
      else let i = index_str xs p in if i < 0 then -1 else i + 1)"

text \<open>\<open>strings.Split\<close> with a one-byte separator, and \<open>strings.Join\<close>.\<close>

fun split_byte :: "char \<Rightarrow> string \<Rightarrow> string list" where
  "split_byte c [] = [[]]"
| "split_byte c (x # xs) =
     (if x = c then [] # split_byte c xs
      else case split_byte c xs of [] \<Rightarrow> [[x]] | y # ys \<Rightarrow> (x # y) # ys)"

fun join_str :: "string \<Rightarrow> string list \<Rightarrow> string" where
  "join_str sep [] = []"
| "join_str sep [x] = x"
| "join_str sep (x # y # ys) = x @ sep @ join_str sep (y # ys)"

text \<open>\<open>strings.Fields\<close>: the maximal runs of non-space bytes.\<close>

fun fields_acc :: "string \<Rightarrow> string \<Rightarrow> string list" where
  "fields_acc acc [] = (if acc = [] then [] else [rev acc])"
| "fields_acc acc (x # xs) =
     (if is_space x then (if acc = [] then fields_acc [] xs else rev acc # fields_acc [] xs)
      else fields_acc (x # acc) xs)"

definition str_fields :: "string \<Rightarrow> string list" where
  "str_fields s = fields_acc [] s"

text \<open>\<open>strings.Cut\<close> at a one-byte separator: \<open>None\<close> where it reports not found.\<close>

fun cut_byte :: "char \<Rightarrow> string \<Rightarrow> (string \<times> string) option" where
  "cut_byte c [] = None"
| "cut_byte c (x # xs) =
     (if x = c then Some ([], xs)
      else map_option (\<lambda>(a, b). (x # a, b)) (cut_byte c xs))"

definition trim_right_byte :: "string \<Rightarrow> char \<Rightarrow> string" where
  "trim_right_byte s c = rev (dropWhile (\<lambda>x. x = c) (rev s))"

lemma split_byte_nonempty [simp]: "split_byte c s \<noteq> []"
  by (cases s) (auto split: list.splits)

lemma split_byte_no_sep: "c \<notin> set s \<Longrightarrow> split_byte c s = [s]"
  by (induction s) auto

lemma split_byte_parts: "p \<in> set (split_byte c s) \<Longrightarrow> c \<notin> set p"
proof (induction s arbitrary: p)
  case (Cons x xs)
  then show ?case by (auto split: list.splits if_splits)
qed auto

lemma join_split_byte: "join_str [c] (split_byte c s) = s"
proof (induction s)
  case (Cons x xs)
  show ?case
  proof (cases "split_byte c xs")
    case (Cons y ys)
    with Cons.IH show ?thesis by (cases ys) auto
  qed simp
qed simp

lemma split_byte_append:
  "split_byte c (s @ c # t) = split_byte c s @ split_byte c t"
proof (induction s)
  case (Cons x xs)
  then show ?case
    by (cases "split_byte c xs") auto
qed simp

lemma split_join_byte:
  "xs \<noteq> [] \<Longrightarrow> (\<And>x. x \<in> set xs \<Longrightarrow> c \<notin> set x) \<Longrightarrow> split_byte c (join_str [c] xs) = xs"
proof (induction xs)
  case (Cons x xs)
  then show ?case
    by (cases xs) (auto simp: split_byte_append split_byte_no_sep)
qed simp

lemma last_index_byte_ge: "-1 \<le> last_index_byte s c"
  by (induction s) (auto simp: Let_def)

lemma last_index_byte_neg: "last_index_byte s c < 0 \<longleftrightarrow> c \<notin> set s"
  by (induction s) (auto simp: Let_def)

lemma last_index_byte_split:
  "c \<notin> set t \<Longrightarrow> last_index_byte (s @ c # t) c = int (length s)"
proof (induction s)
  case Nil
  then show ?case using last_index_byte_neg [of t c] by (auto simp: Let_def)
qed (auto simp: Let_def)

lemma last_index_byte_decomp:
  assumes "0 \<le> last_index_byte s c"
  shows "\<exists>a b. s = a @ c # b \<and> c \<notin> set b \<and> last_index_byte s c = int (length a)"
proof -
  from assms have "c \<in> set s" using last_index_byte_neg [of s c] by auto
  then obtain a b where "s = a @ c # b" "c \<notin> set b"
    by (metis split_list_last)
  then show ?thesis using last_index_byte_split by blast
qed

lemma has_prefix_append [simp]: "has_prefix (p @ s) p"
  by (simp add: has_prefix_def)

lemma has_suffix_append [simp]: "has_suffix (s @ p) p"
  by (simp add: has_suffix_def)

lemma trim_suffix_append [simp]: "trim_suffix (s @ p) p = s"
  by (simp add: trim_suffix_def)

lemma has_suffix_decomp: "has_suffix s p \<Longrightarrow> s = trim_suffix s p @ p"
  by (simp add: trim_suffix_def has_suffix_def) (metis append_take_drop_id)

lemma fields_acc_word:
  assumes "\<And>c. c \<in> set w \<Longrightarrow> \<not> is_space c"
  shows "fields_acc acc (w @ s) = fields_acc (rev w @ acc) s"
  using assms by (induction w arbitrary: acc) auto

end
