(* ===== verification/GoText.thy ===== *)
theory GoText
  imports GoStrings
begin

text \<open>
  Decimal and hexadecimal printing (\<open>fmt.Sprintf\<close> with \<open>%d\<close> and \<open>%020d\<close>, \<open>encoding/hex\<close>) and
  file paths. A cleaned absolute path is the list of its components; \<open>pjoin\<close> is
  \<open>filepath.Join\<close> of such a path and an arbitrary string, with the cleaning of empty, \<open>.\<close> and
  \<open>..\<close> components that \<open>filepath.Clean\<close> does.
\<close>

lemma of_char_less_256: "(of_char c :: nat) < 256"
  by (metis char_of_mod_256 mod_less_divisor of_char_mod_256 zero_less_numeral)

section \<open>Decimal\<close>

definition digit_char :: "nat \<Rightarrow> char" where
  "digit_char d = char_of (48 + d)"

fun show_nat :: "nat \<Rightarrow> string" where
  "show_nat n = (if n < 10 then [digit_char n] else show_nat (n div 10) @ [digit_char (n mod 10)])"

declare show_nat.simps [simp del]

definition show_int :: "int \<Rightarrow> string" where
  "show_int i = (if i < 0 then CHR ''-'' # show_nat (nat (- i)) else show_nat (nat i))"

text \<open>\<open>%0wd\<close>: zero padding to a width, which a minus sign counts towards.\<close>

definition show_int_pad :: "nat \<Rightarrow> int \<Rightarrow> string" where
  "show_int_pad w i =
     (let ds = show_nat (nat \<bar>i\<bar>);
          sg = (if i < 0 then ''-'' else '''')
      in sg @ replicate (w - length ds - length sg) (CHR ''0'') @ ds)"

fun value_digits :: "string \<Rightarrow> nat" where
  "value_digits [] = 0"
| "value_digits (c # cs) = (of_char c - 48) * 10 ^ length cs + value_digits cs"

definition is_digit :: "char \<Rightarrow> bool" where
  "is_digit c \<longleftrightarrow> (48::nat) \<le> of_char c \<and> of_char c \<le> (57::nat)"

lemma of_digit_char: "d < 10 \<Longrightarrow> of_char (digit_char d) = 48 + d"
  by (simp add: digit_char_def of_char_char_of_nat)

lemma is_digit_char: "d < 10 \<Longrightarrow> is_digit (digit_char d)"
  by (simp add: is_digit_def of_digit_char)

lemma show_nat_digits: "c \<in> set (show_nat n) \<Longrightarrow> is_digit c"
proof (induction n rule: show_nat.induct)
  case (1 n)
  then show ?case
    by (subst (asm) (2) show_nat.simps) (auto simp: is_digit_char split: if_splits)
qed

lemma show_nat_nonempty [simp]: "show_nat n \<noteq> []"
  by (subst show_nat.simps) simp

lemma value_digits_append:
  "value_digits (a @ b) = value_digits a * 10 ^ length b + value_digits b"
  by (induction a) (auto simp: algebra_simps power_add)

lemma value_show_nat: "value_digits (show_nat n) = n"
proof (induction n rule: show_nat.induct)
  case (1 n)
  show ?case
  proof (cases "n < 10")
    case True
    then show ?thesis by (subst show_nat.simps) (simp add: of_digit_char)
  next
    case False
    have "value_digits (show_nat n) = value_digits (show_nat (n div 10) @ [digit_char (n mod 10)])"
      using False by (subst show_nat.simps) simp
    also have "\<dots> = n div 10 * 10 + n mod 10"
      using "1.IH" [OF False] by (simp add: value_digits_append of_digit_char)
    finally show ?thesis by simp
  qed
qed

lemma show_nat_inj: "show_nat m = show_nat n \<Longrightarrow> m = n"
  by (metis value_show_nat)

lemma length_show_nat: "n < 10 ^ k \<Longrightarrow> 0 < k \<Longrightarrow> length (show_nat n) \<le> k"
proof (induction n arbitrary: k rule: show_nat.induct)
  case (1 n)
  show ?case
  proof (cases "n < 10")
    case True
    with "1.prems" show ?thesis by (subst show_nat.simps) simp
  next
    case False
    from "1.prems" False have k: "1 < k"
      by (cases "k = 1") auto
    then have "n div 10 < 10 ^ (k - 1)"
      using "1.prems" by (cases k) (auto simp: less_mult_imp_div_less algebra_simps)
    with "1.IH" [OF False] k have "length (show_nat (n div 10)) \<le> k - 1" by simp
    with False k show ?thesis by (subst show_nat.simps) simp
  qed
qed

lemma value_digits_replicate0: "value_digits (replicate k (CHR ''0'') @ s) = value_digits s"
  by (induction k) auto

lemma value_digits_bound:
  "(\<And>c. c \<in> set s \<Longrightarrow> is_digit c) \<Longrightarrow> value_digits s < 10 ^ length s"
proof (induction s)
  case (Cons c cs)
  then have "is_digit c" by simp
  then have "(of_char c - 48 :: nat) \<le> 9" by (auto simp: is_digit_def)
  then have "(of_char c - 48) * 10 ^ length cs \<le> (9 * 10 ^ length cs :: nat)" by simp
  moreover have "value_digits cs < 10 ^ length cs" using Cons by auto
  ultimately have "(of_char c - 48) * 10 ^ length cs + value_digits cs
      < 9 * 10 ^ length cs + (10 ^ length cs :: nat)"
    by (rule add_le_less_mono)
  then show ?case by simp
qed simp

text \<open>On digit strings of one length, the byte order is the numeric order.\<close>

lemma digits_less_iff:
  assumes "length s = length t"
    and "\<And>c. c \<in> set s \<Longrightarrow> is_digit c" and "\<And>c. c \<in> set t \<Longrightarrow> is_digit c"
  shows "s < t \<longleftrightarrow> value_digits s < value_digits t"
  using assms
proof (induction s t rule: list_induct2)
  case (Cons x xs y ys)
  let ?dx = "of_char x - 48 :: nat" and ?dy = "of_char y - 48 :: nat"
  have bx: "value_digits xs < 10 ^ length ys" and by': "value_digits ys < 10 ^ length ys"
    using value_digits_bound [of xs] value_digits_bound [of ys] Cons by auto
  have step: "a * 10 ^ k + u < b * 10 ^ k + v"
    if "a < b" "u < 10 ^ k" for a b u v k :: nat
  proof -
    from that(1) have "Suc a * 10 ^ k \<le> b * 10 ^ k" by (intro mult_right_mono) auto
    with that(2) show ?thesis by simp
  qed
  from Cons.prems have "is_digit x" and "is_digit y" by simp_all
  then have lt: "x < y \<longleftrightarrow> ?dx < ?dy"
    by (auto simp: less_char_def is_digit_def)
  have eq: "x = y" if "?dx = ?dy"
  proof -
    have "(of_char x :: nat) = of_char y"
      using that \<open>is_digit x\<close> \<open>is_digit y\<close> unfolding is_digit_def by linarith
    then show ?thesis by (simp only: of_char_eq_iff)
  qed
  have IH: "xs < ys \<longleftrightarrow> value_digits xs < value_digits ys"
    using Cons by simp
  consider "?dx < ?dy" | "?dx = ?dy" | "?dy < ?dx" by linarith
  then show ?case
  proof cases
    case 1
    with lt step [OF 1, of "value_digits xs" "length ys" "value_digits ys"] bx Cons.hyps
    show ?thesis by simp
  next
    case 2
    with eq IH Cons.hyps show ?thesis by simp
  next
    case 3
    with lt have "\<not> x < y" and "x \<noteq> y" by auto
    with step [OF 3, of "value_digits ys" "length ys" "value_digits xs"] by' Cons.hyps
    show ?thesis by simp
  qed
qed simp

lemma show_int_pad_nonneg:
  "0 \<le> i \<Longrightarrow> show_int_pad w i =
     replicate (w - length (show_nat (nat i))) (CHR ''0'') @ show_nat (nat i)"
  by (simp add: show_int_pad_def Let_def)

lemma length_show_int_pad:
  "0 \<le> i \<Longrightarrow> i < 10 ^ w \<Longrightarrow> 0 < w \<Longrightarrow> length (show_int_pad w i) = w"
  using length_show_nat [of "nat i" w]
  by (simp add: show_int_pad_nonneg nat_less_iff)

lemma is_digit_0: "is_digit (CHR ''0'')"
  by (simp add: is_digit_def)

lemma show_int_pad_digits: "0 \<le> i \<Longrightarrow> c \<in> set (show_int_pad w i) \<Longrightarrow> is_digit c"
  by (auto simp: show_int_pad_nonneg is_digit_0 dest: show_nat_digits split: if_splits)

lemma show_int_pad_less_iff:
  assumes "0 \<le> i" "i < 10 ^ w" "0 \<le> j" "j < 10 ^ w" "0 < w"
  shows "show_int_pad w i < show_int_pad w j \<longleftrightarrow> i < j"
proof -
  have "value_digits (show_int_pad w k) = nat k" if "0 \<le> k" for k
    using that by (simp add: show_int_pad_nonneg value_digits_replicate0 value_show_nat)
  with assms show ?thesis
    by (subst digits_less_iff) (auto simp: length_show_int_pad dest: show_int_pad_digits)
qed

section \<open>Hexadecimal\<close>

definition hex_digit :: "nat \<Rightarrow> char" where
  "hex_digit d = (if d < 10 then char_of (48 + d) else char_of (87 + d))"

definition hex_encode :: "string \<Rightarrow> string" where
  "hex_encode bs = concat (map (\<lambda>c. [hex_digit (of_char c div 16), hex_digit (of_char c mod 16)]) bs)"

definition is_hex_char :: "char \<Rightarrow> bool" where
  "is_hex_char c \<longleftrightarrow> is_digit c \<or> (97 \<le> (of_char c :: nat) \<and> (of_char c :: nat) \<le> 102)"

lemma is_hex_digit: "d < 16 \<Longrightarrow> is_hex_char (hex_digit d)"
  by (auto simp: is_hex_char_def hex_digit_def is_digit_def of_char_char_of_nat)

lemma hex_encode_chars: "c \<in> set (hex_encode bs) \<Longrightarrow> is_hex_char c"
proof -
  have "(of_char b :: nat) div 16 < 16" for b :: char
    by (rule less_mult_imp_div_less) (simp add: of_char_less_256)
  then show "c \<in> set (hex_encode bs) \<Longrightarrow> is_hex_char c"
    by (auto simp: hex_encode_def is_hex_digit)
qed

section \<open>Paths\<close>

type_synonym path = "string list"

definition path_step :: "string \<Rightarrow> path \<Rightarrow> path" where
  "path_step c p = (if c = '''' \<or> c = ''.'' then p else if c = ''..'' then butlast p else p @ [c])"

definition pjoin :: "path \<Rightarrow> string \<Rightarrow> path" where
  "pjoin p s = fold path_step (split_byte (CHR ''/'') s) p"

definition plain_name :: "string \<Rightarrow> bool" where
  "plain_name s \<longleftrightarrow> s \<noteq> '''' \<and> s \<noteq> ''.'' \<and> s \<noteq> ''..'' \<and> CHR ''/'' \<notin> set s"

lemma pjoin_plain [simp]: "plain_name s \<Longrightarrow> pjoin p s = p @ [s]"
  by (simp add: pjoin_def plain_name_def split_byte_no_sep path_step_def)

lemma plain_name_consts [simp]:
  "plain_name ''tmp''" "plain_name ''new''" "plain_name ''cur''"
  by (simp_all add: plain_name_def)

end
