(* ===== verification/Address.thy ===== *)
theory Address
  imports GoStrings
begin

text \<open>
  \<open>internal/address/address.go\<close>: the one address-splitting helper every component that takes
  an e-mail address apart goes through.
\<close>

definition addr_split :: "string \<Rightarrow> string \<times> string \<times> bool" where
  "addr_split addr =
     (let i = last_index_byte addr (CHR ''@'')
      in if i \<le> 0 \<or> i = int (length addr) - 1 then ('''', '''', False)
         else (take (nat i) addr, drop (nat (i + 1)) addr, True))"

abbreviation addr_local :: "string \<Rightarrow> string" where
  "addr_local a \<equiv> fst (addr_split a)"

abbreviation addr_domain :: "string \<Rightarrow> string" where
  "addr_domain a \<equiv> fst (snd (addr_split a))"

lemma addr_split_at:
  assumes "CHR ''@'' \<notin> set d" and "l \<noteq> []" and "d \<noteq> []"
  shows "addr_split (l @ CHR ''@'' # d) = (l, d, True)"
  using assms by (simp add: addr_split_def last_index_byte_split Let_def nat_add_distrib)

lemma addr_split_ok:
  assumes "addr_split a = (l, d, True)"
  shows "a = l @ CHR ''@'' # d \<and> CHR ''@'' \<notin> set d \<and> l \<noteq> [] \<and> d \<noteq> []"
proof -
  let ?i = "last_index_byte a (CHR ''@'')"
  from assms have i: "0 < ?i" "?i \<noteq> int (length a) - 1"
    by (auto simp: addr_split_def Let_def split: if_splits)
  then obtain x y where xy: "a = x @ CHR ''@'' # y" "CHR ''@'' \<notin> set y" "?i = int (length x)"
    using last_index_byte_decomp [of a "CHR ''@''"] by auto
  with i have "x \<noteq> []" "y \<noteq> []" by auto
  with xy assms show ?thesis
    by (auto simp: addr_split_at)
qed

lemma addr_split_fail:
  "addr_split a = (l, d, False) \<Longrightarrow> l = '''' \<and> d = ''''"
  by (auto simp: addr_split_def Let_def split: if_splits)

lemma addr_split_ok_iff:
  "snd (snd (addr_split a)) \<longleftrightarrow>
     (\<exists>l d. a = l @ CHR ''@'' # d \<and> CHR ''@'' \<notin> set d \<and> l \<noteq> [] \<and> d \<noteq> [])"
proof
  assume "snd (snd (addr_split a))"
  then obtain l d where "addr_split a = (l, d, True)"
    by (metis prod.collapse)
  then show "\<exists>l d. a = l @ CHR ''@'' # d \<and> CHR ''@'' \<notin> set d \<and> l \<noteq> [] \<and> d \<noteq> []"
    using addr_split_ok by blast
next
  assume "\<exists>l d. a = l @ CHR ''@'' # d \<and> CHR ''@'' \<notin> set d \<and> l \<noteq> [] \<and> d \<noteq> []"
  then show "snd (snd (addr_split a))" by (auto simp: addr_split_at)
qed

text \<open>Splitting commutes with lower-casing, so callers may do either first.\<close>

lemma lower_char_at: "lower_char c = CHR ''@'' \<longleftrightarrow> c = CHR ''@''"
  by (rule lower_char_eq_iff) (simp_all add: is_upper_def)

lemma at_in_lower: "CHR ''@'' \<in> set (to_lower s) \<longleftrightarrow> CHR ''@'' \<in> set s"
  by (induction s) (auto simp: to_lower_def lower_char_at eq_commute [of "CHR ''@''"])

lemma to_lower_eq_Nil [simp]: "to_lower s = [] \<longleftrightarrow> s = []"
  by (simp add: to_lower_def)

lemma addr_split_lower:
  assumes "addr_split a = (l, d, True)"
  shows "addr_split (to_lower a) = (to_lower l, to_lower d, True)"
proof -
  have a: "a = l @ CHR ''@'' # d" "CHR ''@'' \<notin> set d" "l \<noteq> []" "d \<noteq> []"
    using addr_split_ok [OF assms] by blast+
  have "to_lower a = to_lower l @ CHR ''@'' # to_lower d"
    unfolding a(1) by (simp add: to_lower_def lower_char_def is_upper_def)
  with a(2-4) show ?thesis
    by (simp add: addr_split_at at_in_lower)
qed

text \<open>
  C37: \<open>Split\<close> accepts exactly the strings with a non-empty part on either side of their last
  \<open>@\<close>, and then the parts it returns are those, so that joining them with \<open>@\<close> gives the address
  back and the domain never holds an \<open>@\<close>; otherwise both results are empty.
\<close>

theorem addr_split_spec:
  "case addr_split a of (l, d, ok) \<Rightarrow>
     (ok \<longleftrightarrow> (\<exists>l' d'. a = l' @ ''@'' @ d' \<and> CHR ''@'' \<notin> set d' \<and> l' \<noteq> '''' \<and> d' \<noteq> '''')) \<and>
     (if ok then a = l @ ''@'' @ d \<and> CHR ''@'' \<notin> set d \<and> l \<noteq> '''' \<and> d \<noteq> ''''
      else l = '''' \<and> d = '''')"
proof -
  obtain l d ok where s: "addr_split a = (l, d, ok)" by (metis prod.exhaust)
  show ?thesis
  proof (cases ok)
    case True
    with s show ?thesis using addr_split_ok [of a l d] by auto
  next
    case False
    with s show ?thesis using addr_split_fail [of a l d] addr_split_ok_iff [of a] by auto
  qed
qed

end
