(* ===== verification/Config.thy ===== *)
theory Config
  imports Address
begin

text \<open>
  \<open>internal/config/config.go\<close>: the configuration record, the environment overrides, the
  defaults and the validation that \<open>Load\<close> applies, and the local-domain test the mail paths
  share. The YAML decoder and the environment are parameters.
\<close>

section \<open>The record\<close>

record listen_config =
  ls_smtp :: string
  ls_submission :: string
  ls_imap :: string
  ls_webmail :: string
  ls_metrics :: string

record acme_config =
  acme_enabled :: bool
  acme_email :: string
  acme_cache_dir :: string
  acme_provider :: string
  acme_options :: "(string \<times> string) list"
  acme_staging :: bool

record tls_config =
  tls_cert_file :: string
  tls_key_file :: string
  tls_acme :: acme_config

record database_config =
  db_driver :: string
  db_dsn :: string

record storage_config =
  st_maildir_path :: string
  st_queue_path :: string

record dkim_config =
  dk_selector :: string
  dk_private_key_path :: string

record queue_config =
  qc_max_retries :: int
  qc_retry_interval_minutes :: "int list"

record admin_config =
  ad_email :: string
  ad_password :: string

record rate_limit_config =
  rl_max_attempts :: int
  rl_window_minutes :: int
  rl_ban_minutes :: int

record security_config =
  sec_trusted_proxies :: "string list"
  sec_auth_rate_limit :: rate_limit_config

record config =
  cf_hostname :: string
  cf_domains :: "string list"
  cf_listen :: listen_config
  cf_tls :: tls_config
  cf_database :: database_config
  cf_storage :: storage_config
  cf_dkim :: dkim_config
  cf_queue :: queue_config
  cf_admin :: admin_config
  cf_security :: security_config

text \<open>The zero value the decoder starts from: \<open>var cfg Config\<close>.\<close>

definition zero_config :: config where
  "zero_config =
     \<lparr>cf_hostname = '''', cf_domains = [],
      cf_listen = \<lparr>ls_smtp = '''', ls_submission = '''', ls_imap = '''', ls_webmail = '''', ls_metrics = ''''\<rparr>,
      cf_tls = \<lparr>tls_cert_file = '''', tls_key_file = '''',
        tls_acme = \<lparr>acme_enabled = False, acme_email = '''', acme_cache_dir = '''',
          acme_provider = '''', acme_options = [], acme_staging = False\<rparr>\<rparr>,
      cf_database = \<lparr>db_driver = '''', db_dsn = ''''\<rparr>,
      cf_storage = \<lparr>st_maildir_path = '''', st_queue_path = ''''\<rparr>,
      cf_dkim = \<lparr>dk_selector = '''', dk_private_key_path = ''''\<rparr>,
      cf_queue = \<lparr>qc_max_retries = 0, qc_retry_interval_minutes = []\<rparr>,
      cf_admin = \<lparr>ad_email = '''', ad_password = ''''\<rparr>,
      cf_security = \<lparr>sec_trusted_proxies = [],
        sec_auth_rate_limit = \<lparr>rl_max_attempts = 0, rl_window_minutes = 0, rl_ban_minutes = 0\<rparr>\<rparr>\<rparr>"

section \<open>Environment overrides\<close>

definition split_and_trim :: "string \<Rightarrow> string list" where
  "split_and_trim s = filter (\<lambda>p. p \<noteq> '''') (map trim_space (split_byte (CHR '','') s))"

text \<open>\<open>strconv.ParseBool\<close>; \<open>None\<close> is its error.\<close>

definition parse_bool :: "string \<Rightarrow> bool option" where
  "parse_bool s =
     (if s \<in> {''1'', ''t'', ''T'', ''TRUE'', ''true'', ''True''} then Some True
      else if s \<in> {''0'', ''f'', ''F'', ''FALSE'', ''false'', ''False''} then Some False
      else None)"

text \<open>\<open>os.LookupEnv\<close> is the map \<open>env\<close>; each override is one \<open>if v, ok := ...; ok\<close>.\<close>

definition override :: "(string \<Rightarrow> string option) \<Rightarrow> string \<Rightarrow> (string \<Rightarrow> 'c \<Rightarrow> 'c) \<Rightarrow> 'c \<Rightarrow> 'c" where
  "override env name upd c = (case env name of None \<Rightarrow> c | Some v \<Rightarrow> upd v c)"

definition apply_env_overrides :: "(string \<Rightarrow> string option) \<Rightarrow> config \<Rightarrow> config" where
  "apply_env_overrides env c =
     fold (\<lambda>(name, upd) c. override env name upd c)
       [(''MAILSERVER_HOSTNAME'', \<lambda>v. cf_hostname_update (\<lambda>_. v)),
        (''MAILSERVER_DOMAINS'', \<lambda>v. cf_domains_update (\<lambda>_. split_and_trim v)),
        (''MAILSERVER_DATABASE_DRIVER'', \<lambda>v. cf_database_update (db_driver_update (\<lambda>_. v))),
        (''MAILSERVER_DATABASE_DSN'', \<lambda>v. cf_database_update (db_dsn_update (\<lambda>_. v))),
        (''MAILSERVER_ADMIN_EMAIL'', \<lambda>v. cf_admin_update (ad_email_update (\<lambda>_. v))),
        (''MAILSERVER_ADMIN_PASSWORD'', \<lambda>v. cf_admin_update (ad_password_update (\<lambda>_. v))),
        (''MAILSERVER_TRUSTED_PROXIES'',
           \<lambda>v. cf_security_update (sec_trusted_proxies_update (\<lambda>_. split_and_trim v))),
        (''MAILSERVER_TLS_CERT_FILE'', \<lambda>v. cf_tls_update (tls_cert_file_update (\<lambda>_. v))),
        (''MAILSERVER_TLS_KEY_FILE'', \<lambda>v. cf_tls_update (tls_key_file_update (\<lambda>_. v))),
        (''MAILSERVER_ACME_ENABLED'',
           \<lambda>v. case parse_bool v of None \<Rightarrow> id
               | Some b \<Rightarrow> cf_tls_update (tls_acme_update (acme_enabled_update (\<lambda>_. b)))),
        (''MAILSERVER_ACME_EMAIL'', \<lambda>v. cf_tls_update (tls_acme_update (acme_email_update (\<lambda>_. v)))),
        (''MAILSERVER_ACME_PROVIDER'', \<lambda>v. cf_tls_update (tls_acme_update (acme_provider_update (\<lambda>_. v)))),
        (''MAILSERVER_ACME_STAGING'',
           \<lambda>v. case parse_bool v of None \<Rightarrow> id
               | Some b \<Rightarrow> cf_tls_update (tls_acme_update (acme_staging_update (\<lambda>_. b))))] c"

section \<open>Defaults and validation\<close>

definition or_default :: "string \<Rightarrow> string \<Rightarrow> string" where
  "or_default d s = (if s = '''' then d else s)"

definition or_default_int :: "int \<Rightarrow> int \<Rightarrow> int" where
  "or_default_int d n = (if n = 0 then d else n)"

definition apply_defaults_listen :: "listen_config \<Rightarrow> listen_config" where
  "apply_defaults_listen l = l\<lparr>
     ls_smtp := or_default '':25'' (ls_smtp l),
     ls_submission := or_default '':587'' (ls_submission l),
     ls_imap := or_default '':993'' (ls_imap l),
     ls_webmail := or_default '':8080'' (ls_webmail l),
     ls_metrics := or_default ''127.0.0.1:9090'' (ls_metrics l)\<rparr>"

definition apply_defaults_database :: "database_config \<Rightarrow> database_config" where
  "apply_defaults_database d =
     (let d1 = d\<lparr>db_driver := or_default ''sqlite'' (db_driver d)\<rparr>
      in if db_dsn d1 = '''' \<and> db_driver d1 = ''sqlite''
         then d1\<lparr>db_dsn := ''/data/mailserver.db''\<rparr> else d1)"

definition apply_defaults_rate :: "rate_limit_config \<Rightarrow> rate_limit_config" where
  "apply_defaults_rate r = r\<lparr>
     rl_max_attempts := or_default_int 5 (rl_max_attempts r),
     rl_window_minutes := or_default_int 15 (rl_window_minutes r),
     rl_ban_minutes := or_default_int 15 (rl_ban_minutes r)\<rparr>"

definition apply_defaults :: "config \<Rightarrow> config" where
  "apply_defaults c = c\<lparr>
     cf_listen := apply_defaults_listen (cf_listen c),
     cf_database := apply_defaults_database (cf_database c),
     cf_storage := \<lparr>st_maildir_path = or_default ''/data/mail'' (st_maildir_path (cf_storage c)),
                    st_queue_path = or_default ''/data/queue'' (st_queue_path (cf_storage c))\<rparr>,
     cf_dkim := \<lparr>dk_selector = or_default ''default'' (dk_selector (cf_dkim c)),
                 dk_private_key_path = or_default ''/data/dkim/private.pem'' (dk_private_key_path (cf_dkim c))\<rparr>,
     cf_queue := \<lparr>qc_max_retries = or_default_int 8 (qc_max_retries (cf_queue c)),
                  qc_retry_interval_minutes =
                    (if qc_retry_interval_minutes (cf_queue c) = [] then [1, 5, 15, 60, 240, 1440]
                     else qc_retry_interval_minutes (cf_queue c))\<rparr>,
     cf_tls := (cf_tls c)\<lparr>tls_acme := (tls_acme (cf_tls c))\<lparr>acme_cache_dir :=
                  or_default ''/data/acme'' (acme_cache_dir (tls_acme (cf_tls c)))\<rparr>\<rparr>,
     cf_security := (cf_security c)\<lparr>sec_auth_rate_limit :=
                  apply_defaults_rate (sec_auth_rate_limit (cf_security c))\<rparr>\<rparr>"

definition validate :: "config \<Rightarrow> goerr + unit" where
  "validate c =
     (if cf_hostname c = '''' then Inl (ErrMsg ''hostname is required'')
      else if cf_domains c = [] then Inl (ErrMsg ''at least one domain is required'')
      else if db_driver (cf_database c) \<noteq> ''sqlite'' \<and> db_driver (cf_database c) \<noteq> ''postgres''
        then Inl (ErrMsg (''database.driver must be 'sqlite' or 'postgres', got '' @ db_driver (cf_database c)))
      else if db_driver (cf_database c) = ''postgres'' \<and> db_dsn (cf_database c) = ''''
        then Inl (ErrMsg ''database.dsn is required for postgres'')
      else Inr ())"

text \<open>
  \<open>Load\<close>: \<open>data\<close> is what reading the file gave, \<open>unmarshal\<close> the YAML decoder.
\<close>

definition load_config ::
  "(string \<Rightarrow> goerr + config) \<Rightarrow> (string \<Rightarrow> string option) \<Rightarrow> goerr + string \<Rightarrow> goerr + config" where
  "load_config unmarshal env file =
     (case file of
        Inl e \<Rightarrow> Inl (Wrapped ''reading config'' e)
      | Inr data \<Rightarrow>
          (case unmarshal data of
             Inl e \<Rightarrow> Inl (Wrapped ''parsing config'' e)
           | Inr cfg \<Rightarrow>
               let cfg' = apply_defaults (apply_env_overrides env cfg)
               in case validate cfg' of
                    Inl e \<Rightarrow> Inl (Wrapped ''invalid config'' e)
                  | Inr _ \<Rightarrow> Inr cfg'))"

section \<open>Local domains\<close>

definition is_local_domain :: "config \<Rightarrow> string \<Rightarrow> bool" where
  "is_local_domain c domain = list_ex (\<lambda>d. equal_fold d domain) (cf_domains c)"

lemma is_local_domain_iff: "is_local_domain c d \<longleftrightarrow> (\<exists>d' \<in> set (cf_domains c). equal_fold d' d)"
  by (simp add: is_local_domain_def list_ex_iff)

lemma is_local_domain_lower [simp]: "is_local_domain c (to_lower d) = is_local_domain c d"
  by (simp add: is_local_domain_iff)

section \<open>Properties\<close>

lemmas config_defs = apply_defaults_def apply_defaults_listen_def apply_defaults_database_def
  apply_defaults_rate_def or_default_def or_default_int_def Let_def

lemma apply_defaults_idem: "apply_defaults (apply_defaults c) = apply_defaults c"
  by (simp add: config_defs)

text \<open>
  What the rest of the server relies on in a configuration that \<open>Load\<close> returned.
\<close>

definition config_ok :: "config \<Rightarrow> bool" where
  "config_ok c \<longleftrightarrow>
     cf_hostname c \<noteq> '''' \<and> cf_domains c \<noteq> [] \<and>
     db_driver (cf_database c) \<in> {''sqlite'', ''postgres''} \<and> db_dsn (cf_database c) \<noteq> '''' \<and>
     st_maildir_path (cf_storage c) \<noteq> '''' \<and> st_queue_path (cf_storage c) \<noteq> '''' \<and>
     qc_max_retries (cf_queue c) \<noteq> 0 \<and> qc_retry_interval_minutes (cf_queue c) \<noteq> [] \<and>
     rl_max_attempts (sec_auth_rate_limit (cf_security c)) \<noteq> 0"

lemma validate_defaults_ok:
  "validate (apply_defaults c) = Inr () \<Longrightarrow> config_ok (apply_defaults c)"
  by (auto simp: validate_def config_ok_def config_defs split: if_splits)

text \<open>
  C40: a configuration that \<open>Load\<close> accepts has a host name, a local domain, a supported driver
  with a data source, storage paths, a non-zero retry limit and a non-empty retry schedule
  (the queue indexes its last element), and a non-zero attempt limit, whatever the file left
  out; and applying the defaults again would change nothing.
\<close>

theorem load_config_ok:
  assumes "load_config unmarshal env file = Inr c"
  shows "config_ok c \<and> apply_defaults c = c"
  using assms
  by (auto simp: load_config_def Let_def apply_defaults_idem dest!: validate_defaults_ok
      split: sum.splits)

theorem load_config_ok_witness:
  "let c = apply_defaults (zero_config\<lparr>cf_hostname := ''h'', cf_domains := [''d'']\<rparr>) in
   load_config (\<lambda>_. Inr (zero_config\<lparr>cf_domains := [''d'']\<rparr>))
     (\<lambda>n. if n = ''MAILSERVER_HOSTNAME'' then Some ''h'' else None) (Inr '''') = Inr c \<and> config_ok c"
proof -
  let ?c = "apply_defaults (zero_config\<lparr>cf_hostname := ''h'', cf_domains := [''d'']\<rparr>)"
  have l: "load_config (\<lambda>_. Inr (zero_config\<lparr>cf_domains := [''d'']\<rparr>))
     (\<lambda>n. if n = ''MAILSERVER_HOSTNAME'' then Some ''h'' else None) (Inr '''') = Inr ?c"
    by (simp add: load_config_def apply_env_overrides_def override_def validate_def zero_config_def
        config_defs)
  from load_config_ok [OF l] l show ?thesis by (simp add: Let_def)
qed

end
