(* ===== verification/RateLimit.thy ===== *)
theory RateLimit
  imports Prelude
begin

text \<open>
  \<open>internal/ratelimit/ratelimit.go\<close>: failed attempts per key, the temporary ban, and the
  periodic sweep. Times are nanoseconds; every reading of the clock is an argument, and
  each method runs under the limiter's mutex, so a history of calls is a list of operations.
\<close>

section \<open>The limiter\<close>

record entry =
  failures :: "int list"
  banned_until :: int

record limiter =
  max_attempts :: int
  window :: int
  ban_duration :: int
  entries :: "(string \<times> entry) list"

text \<open>The zero \<open>time.Time\<close>: year 1, before any reading of a real clock.\<close>

definition zero_time :: int where
  "zero_time = - 62135596800000000000"

definition new_limiter :: "int \<Rightarrow> int \<Rightarrow> int \<Rightarrow> limiter" where
  "new_limiter m w b = \<lparr>max_attempts = m, window = w, ban_duration = b, entries = []\<rparr>"

definition allowed :: "limiter \<Rightarrow> int \<Rightarrow> string \<Rightarrow> bool" where
  "allowed l now key =
     (case map_of (entries l) key of
        None \<Rightarrow> True
      | Some e \<Rightarrow> banned_until e < now)"

definition record_failure :: "int \<Rightarrow> string \<Rightarrow> limiter \<Rightarrow> limiter" where
  "record_failure now key l =
     (let e = (case map_of (entries l) key of
                 None \<Rightarrow> \<lparr>failures = [], banned_until = zero_time\<rparr>
               | Some e \<Rightarrow> e);
          cutoff = now - window l;
          kept = filter (\<lambda>t. cutoff < t) (failures e);
          e1 = e\<lparr>failures := kept @ [now]\<rparr>;
          e2 = (if max_attempts l \<le> int (length (failures e1))
                then e1\<lparr>banned_until := now + ban_duration l, failures := []\<rparr>
                else e1)
      in l\<lparr>entries := AList.update key e2 (entries l)\<rparr>)"

definition record_success :: "string \<Rightarrow> limiter \<Rightarrow> limiter" where
  "record_success key l = l\<lparr>entries := AList.delete key (entries l)\<rparr>"

definition stale_entry :: "int \<Rightarrow> limiter \<Rightarrow> entry \<Rightarrow> bool" where
  "stale_entry now l e \<longleftrightarrow>
     \<not> now < banned_until e \<and> \<not> list_ex (\<lambda>t. now - window l < t) (failures e)"

definition cleanup :: "int \<Rightarrow> limiter \<Rightarrow> limiter" where
  "cleanup now l = l\<lparr>entries :=
     filter (\<lambda>kv. \<not> (case map_of (entries l) (fst kv) of
                       None \<Rightarrow> False | Some e \<Rightarrow> stale_entry now l e)) (entries l)\<rparr>"

text \<open>
  A Go map holds one entry per key, so the sweep decides for each key by its entry; the
  association list is read the same way.
\<close>

datatype rl_op = Failure int string | Success string | Sweep int

fun rl_step :: "rl_op \<Rightarrow> limiter \<Rightarrow> limiter" where
  "rl_step (Failure t k) l = record_failure t k l"
| "rl_step (Success k) l = record_success k l"
| "rl_step (Sweep t) l = cleanup t l"

definition rl_run :: "rl_op list \<Rightarrow> limiter \<Rightarrow> limiter" where
  "rl_run ops l = fold rl_step ops l"

text \<open>\<open>Run\<close> sweeps at the times of its ticker; operations of the connections come between.\<close>

definition limiter_run :: "int list \<Rightarrow> limiter \<Rightarrow> limiter" where
  "limiter_run ts l = fold cleanup ts l"

lemma limiter_run_sweeps: "limiter_run ts l = rl_run (map Sweep ts) l"
  by (induction ts arbitrary: l) (simp_all add: limiter_run_def rl_run_def)

lemma rl_step_params [simp]:
  "max_attempts (rl_step a l) = max_attempts l"
  "window (rl_step a l) = window l"
  "ban_duration (rl_step a l) = ban_duration l"
  by (cases a; simp add: record_failure_def record_success_def cleanup_def Let_def)+

lemma rl_run_params [simp]:
  "max_attempts (rl_run ops l) = max_attempts l"
  "window (rl_run ops l) = window l"
  "ban_duration (rl_run ops l) = ban_duration l"
  by (induction ops arbitrary: l) (simp_all add: rl_run_def)

lemma map_of_cleanup:
  "map_of (entries (cleanup now l)) k =
     (case map_of (entries l) k of
        None \<Rightarrow> None
      | Some e \<Rightarrow> if stale_entry now l e then None else Some e)"
  by (simp add: cleanup_def map_of_filter_key
      [where P = "\<lambda>k. \<not> (case map_of (entries l) k of None \<Rightarrow> False | Some e \<Rightarrow> stale_entry now l e)"]
      split: option.splits)

section \<open>What it promises\<close>

text \<open>
  The specification keeps, per key, every failure since the last success or ban and the end
  of the last ban. It never prunes and never sweeps.
\<close>

record spec_limiter =
  hist :: "string \<Rightarrow> int list"
  until :: "string \<Rightarrow> int"

definition spec_init :: spec_limiter where
  "spec_init = \<lparr>hist = (\<lambda>_. []), until = (\<lambda>_. zero_time)\<rparr>"

fun spec_step :: "limiter \<Rightarrow> rl_op \<Rightarrow> spec_limiter \<Rightarrow> spec_limiter" where
  "spec_step p (Failure t k) s =
     (if max_attempts p \<le> int (length (filter (\<lambda>f. t - window p < f) (hist s k) @ [t]))
      then s\<lparr>hist := (hist s)(k := []), until := (until s)(k := t + ban_duration p)\<rparr>
      else s\<lparr>hist := (hist s)(k := hist s k @ [t])\<rparr>)"
| "spec_step p (Success k) s = s\<lparr>hist := (hist s)(k := []), until := (until s)(k := zero_time)\<rparr>"
| "spec_step p (Sweep t) s = s"

definition spec_run :: "limiter \<Rightarrow> rl_op list \<Rightarrow> spec_limiter \<Rightarrow> spec_limiter" where
  "spec_run p ops s = fold (spec_step p) ops s"

text \<open>Clock readings never go back along a history; \<open>last_time\<close> is the latest one.\<close>

fun times_from :: "int \<Rightarrow> rl_op list \<Rightarrow> bool" where
  "times_from T [] = True"
| "times_from T (Failure t k # ops) = (T \<le> t \<and> times_from t ops)"
| "times_from T (Success k # ops) = times_from T ops"
| "times_from T (Sweep t # ops) = (T \<le> t \<and> times_from t ops)"

fun op_time :: "int \<Rightarrow> rl_op \<Rightarrow> int" where
  "op_time T (Failure t k) = t"
| "op_time T (Success k) = T"
| "op_time T (Sweep t) = t"

definition last_time :: "int \<Rightarrow> rl_op list \<Rightarrow> int" where
  "last_time T ops = fold (\<lambda>a T. op_time T a) ops T"

text \<open>
  What can still matter at time \<open>T\<close>: the failures inside the window and a ban not yet over.
\<close>

definition live :: "int \<Rightarrow> int \<Rightarrow> int list \<Rightarrow> int \<Rightarrow> int list \<times> int option" where
  "live T w fs b = (filter (\<lambda>f. T - w < f) fs, if T < b then Some b else None)"

definition live_entry :: "int \<Rightarrow> int \<Rightarrow> entry option \<Rightarrow> int list \<times> int option" where
  "live_entry T w eo =
     (case eo of None \<Rightarrow> ([], None) | Some e \<Rightarrow> live T w (failures e) (banned_until e))"

definition rl_rel :: "limiter \<Rightarrow> limiter \<times> int \<Rightarrow> spec_limiter \<times> int \<Rightarrow> bool" where
  "rl_rel p lT sT \<longleftrightarrow> snd lT = snd sT \<and> zero_time \<le> snd lT \<and>
     max_attempts (fst lT) = max_attempts p \<and> window (fst lT) = window p \<and>
     ban_duration (fst lT) = ban_duration p \<and>
     (\<forall>k. live_entry (snd lT) (window p) (map_of (entries (fst lT)) k) =
          live (snd lT) (window p) (hist (fst sT) k) (until (fst sT) k))"

lemma live_later:
  "T \<le> t \<Longrightarrow> live T w fs b = live T w fs' b' \<Longrightarrow> live t w fs b = live t w fs' b'"
proof -
  assume le: "T \<le> t" and eq: "live T w fs b = live T w fs' b'"
  have f: "filter (\<lambda>f. t - w < f) xs = filter (\<lambda>f. t - w < f) (filter (\<lambda>f. T - w < f) xs)" for xs
    using le by (auto simp: filter_filter intro!: filter_cong)
  from eq have "filter (\<lambda>f. T - w < f) fs = filter (\<lambda>f. T - w < f) fs'"
    by (simp add: live_def)
  then have "filter (\<lambda>f. t - w < f) fs = filter (\<lambda>f. t - w < f) fs'"
    by (subst (1 2) f) simp
  with eq le show ?thesis
    by (auto simp: live_def split: if_splits)
qed

lemma live_entry_later:
  "T \<le> t \<Longrightarrow> live_entry T w eo = live T w fs b \<Longrightarrow> live_entry t w eo = live t w fs b"
proof (cases eo)
  case None
  assume "T \<le> t" "live_entry T w eo = live T w fs b"
  then have "live T w fs b = live T w [] T"
    using None by (simp add: live_entry_def live_def)
  from live_later [OF \<open>T \<le> t\<close> this] None \<open>T \<le> t\<close> show ?thesis
    by (simp add: live_entry_def live_def)
qed (auto simp: live_entry_def intro: live_later)

lemma live_filter [simp]: "filter (\<lambda>f. T - w < f) (fst (live T w fs b)) = fst (live T w fs b)"
  by (simp add: live_def)

lemma rel_failure:
  assumes rel: "rl_rel p (l, T) (s, T)" and t: "T \<le> t"
  shows "rl_rel p (record_failure t k l, t) (spec_step p (Failure t k) s, t)"
proof -
  let ?w = "window p"
  have now: "live_entry t ?w (map_of (entries l) j) = live t ?w (hist s j) (until s j)" for j
    using rel t by (auto simp: rl_rel_def intro: live_entry_later)
  have z: "zero_time \<le> t" and par: "max_attempts l = max_attempts p" "window l = ?w"
    "ban_duration l = ban_duration p"
    using rel t by (auto simp: rl_rel_def)
  define e where "e = (case map_of (entries l) k of
    None \<Rightarrow> \<lparr>failures = [], banned_until = zero_time\<rparr> | Some e \<Rightarrow> e)"
  have e: "live t ?w (failures e) (banned_until e) = live t ?w (hist s k) (until s k)"
    using now [of k] z by (auto simp: e_def live_entry_def live_def split: option.splits if_splits)
  then have f: "filter (\<lambda>f. t - ?w < f) (failures e) = filter (\<lambda>f. t - ?w < f) (hist s k)"
    by (simp add: live_def)
  have ent: "entries (record_failure t k l) = AList.update k
      (if max_attempts p \<le> int (length (filter (\<lambda>f. t - ?w < f) (hist s k) @ [t]))
       then e\<lparr>banned_until := t + ban_duration p, failures := []\<rparr>
       else e\<lparr>failures := filter (\<lambda>f. t - ?w < f) (hist s k) @ [t]\<rparr>) (entries l)"
    by (simp add: record_failure_def Let_def e_def [symmetric] par f)
  have "live_entry t ?w (map_of (entries (record_failure t k l)) j) =
      live t ?w (hist (spec_step p (Failure t k) s) j) (until (spec_step p (Failure t k) s) j)" for j
    using now [of j] e unfolding ent
    by (auto simp: live_entry_def live_def split: if_splits)
  with z par rl_step_params [of "Failure t k" l] show ?thesis
    by (simp add: rl_rel_def)
qed

lemma rel_sweep:
  assumes rel: "rl_rel p (l, T) (s, T)" and t: "T \<le> t"
  shows "rl_rel p (cleanup t l, t) (s, t)"
proof -
  let ?w = "window p"
  have now: "live_entry t ?w (map_of (entries l) j) = live t ?w (hist s j) (until s j)" for j
    using rel t by (auto simp: rl_rel_def intro: live_entry_later)
  have "live_entry t ?w (map_of (entries (cleanup t l)) j) = live_entry t ?w (map_of (entries l) j)" for j
    using rel by (auto simp: rl_rel_def map_of_cleanup live_entry_def live_def stale_entry_def
        list_ex_iff filter_empty_conv split: option.splits)
  with now rel t rl_step_params [of "Sweep t" l] show ?thesis
    by (simp add: rl_rel_def)
qed

lemma rel_success:
  "rl_rel p (l, T) (s, T) \<Longrightarrow> rl_rel p (record_success k l, T) (spec_step p (Success k) s, T)"
  by (auto simp: rl_rel_def record_success_def live_entry_def live_def)

definition rl_tick :: "rl_op \<Rightarrow> limiter \<times> int \<Rightarrow> limiter \<times> int" where
  "rl_tick a lT = (rl_step a (fst lT), op_time (snd lT) a)"

definition spec_tick :: "limiter \<Rightarrow> rl_op \<Rightarrow> spec_limiter \<times> int \<Rightarrow> spec_limiter \<times> int" where
  "spec_tick p a sT = (spec_step p a (fst sT), op_time (snd sT) a)"

definition spec_allowed :: "spec_limiter \<Rightarrow> int \<Rightarrow> string \<Rightarrow> bool" where
  "spec_allowed s now key \<longleftrightarrow> until s key < now"

lemma rel_allowed:
  "rl_rel p (l, T) (s, T) \<Longrightarrow> T < now \<Longrightarrow> allowed l now k = spec_allowed s now k"
  by (auto simp: rl_rel_def allowed_def spec_allowed_def live_entry_def live_def
      split: option.splits if_splits dest!: spec [of _ k])

interpretation rl: simulation
  rl_tick "spec_tick p" "rl_rel p" "\<lambda>a lT. snd lT \<le> op_time (snd lT) a"
  "\<lambda>lT key n. allowed (fst lT) (snd lT + 1 + int n) key"
  "\<lambda>sT key n. spec_allowed (fst sT) (snd sT + 1 + int n) key"
  for p
proof unfold_locales
  fix lT sT a
  assume rel: "rl_rel p lT sT" and ok: "snd lT \<le> op_time (snd lT) a"
  then have T: "snd sT = snd lT" by (simp add: rl_rel_def)
  from rel T have rel': "rl_rel p (fst lT, snd lT) (fst sT, snd lT)" by (metis prod.collapse)
  show "rl_rel p (rl_tick a lT) (spec_tick p a sT)"
    using ok rel_failure [OF rel'] rel_sweep [OF rel'] rel_success [OF rel']
    by (cases a) (simp_all add: rl_tick_def spec_tick_def T)
next
  fix lT sT
  assume rel: "rl_rel p lT sT"
  then have "snd sT = snd lT" by (simp add: rl_rel_def)
  with rel have "rl_rel p (fst lT, snd lT) (fst sT, snd lT)" by (metis prod.collapse)
  from rel_allowed [OF this] \<open>snd sT = snd lT\<close>
  show "(\<lambda>key n. allowed (fst lT) (snd lT + 1 + int n) key) =
        (\<lambda>key n. spec_allowed (fst sT) (snd sT + 1 + int n) key)"
    by (intro ext) simp
qed

lemma rl_tick_apply [simp]: "rl_tick a (l, T) = (rl_step a l, op_time T a)"
  by (simp add: rl_tick_def)

lemma spec_tick_apply [simp]: "spec_tick p a (s, T) = (spec_step p a s, op_time T a)"
  by (simp add: spec_tick_def)

lemma rl_admissible: "rl.admissible ops (l, T) = times_from T ops"
proof (induction ops arbitrary: l T)
  case (Cons a ops)
  then show ?case by (cases a) simp_all
qed simp

lemma last_time_ge: "times_from T ops \<Longrightarrow> T \<le> last_time T ops"
proof (induction ops arbitrary: T)
  case (Cons a ops)
  then show ?case by (cases a) (fastforce simp: last_time_def)+
qed (simp add: last_time_def)

lemma fold_rl_tick: "fold rl_tick ops (l, T) = (rl_run ops l, last_time T ops)"
  by (induction ops arbitrary: l T) (simp_all add: rl_run_def last_time_def)

lemma fold_spec_tick: "fold (spec_tick p) ops (s, T) = (spec_run p ops s, last_time T ops)"
  by (induction ops arbitrary: s T) (simp_all add: spec_run_def last_time_def)

lemma rel_run_allowed:
  assumes "rl_rel p (l, T) (s, T)" and "times_from T ops" and "last_time T ops < now"
  shows "allowed (rl_run ops l) now k = spec_allowed (spec_run p ops s) now k"
proof -
  have "rl_rel p (rl_run ops l, last_time T ops) (spec_run p ops s, last_time T ops)"
    using rl.sim_run [OF assms(1), of ops] assms(2)
    by (simp add: rl_admissible fold_rl_tick fold_spec_tick)
  from rel_allowed [OF this assms(3)] show ?thesis .
qed

lemma rel_init: "zero_time \<le> T \<Longrightarrow> rl_rel (new_limiter m w b) (new_limiter m w b, T) (spec_init, T)"
  by (simp add: rl_rel_def new_limiter_def spec_init_def live_entry_def live_def)

section \<open>Properties\<close>

lemma run_allowed:
  assumes "zero_time \<le> T" and "times_from T ops" and "last_time T ops < now"
  shows "allowed (rl_run ops (new_limiter m w b)) now key =
         spec_allowed (spec_run (new_limiter m w b) ops spec_init) now key"
  by (rule rel_run_allowed [OF rel_init [OF assms(1)] assms(2,3)])

text \<open>
  C21: the limiter refines its specification. After any history of failures, successes and
  sweeps with a clock that does not go back, \<open>Allowed\<close> gives at any later instant the answer
  of a limiter that keeps the full failure history of every key and never sweeps: pruning
  failures in place and deleting stale entries are never observable.
\<close>

theorem limiter_refines_spec:
  assumes "zero_time \<le> T" and "times_from T ops" and "last_time T ops < now"
  shows "allowed (rl_run ops (new_limiter m w b)) now key =
         spec_allowed (spec_run (new_limiter m w b) ops spec_init) now key"
  by (rule run_allowed [OF assms])

theorem limiter_refines_spec_witness:
  "let ops = [Failure 10 ''k'', Sweep 200, Failure 210 ''k'', Failure 220 ''k''] in
   allowed (rl_run ops (new_limiter 2 100 50)) 240 ''k'' = False \<and>
   allowed (rl_run ops (new_limiter 2 100 50)) 240 ''k'' =
     spec_allowed (spec_run (new_limiter 2 100 50) ops spec_init) 240 ''k''"
proof -
  let ?ops = "[Failure 10 ''k'', Sweep 200, Failure 210 ''k'', Failure 220 ''k'']"
  have h: "zero_time \<le> 0" "times_from 0 ?ops" "last_time 0 ?ops < 240"
    by (simp_all add: zero_time_def last_time_def)
  have "spec_allowed (spec_run (new_limiter 2 100 50) ?ops spec_init) 240 ''k'' = False"
    by (simp add: spec_run_def spec_init_def new_limiter_def spec_allowed_def)
  with limiter_refines_spec [OF h, of 2 100 50 "''k''"] show ?thesis
    by (simp add: Let_def)
qed

lemma spec_run_snoc: "spec_run p (ops @ [a]) s = spec_step p a (spec_run p ops s)"
  by (simp add: spec_run_def)

fun failures_of :: "string \<Rightarrow> rl_op list \<Rightarrow> int list" where
  "failures_of k [] = []"
| "failures_of k (Failure t j # ops) = (if j = k then t # failures_of k ops else failures_of k ops)"
| "failures_of k (Success j # ops) = failures_of k ops"
| "failures_of k (Sweep t # ops) = failures_of k ops"

lemma failures_of_append [simp]: "failures_of k (ops @ ops') = failures_of k ops @ failures_of k ops'"
  by (induction k ops rule: failures_of.induct) simp_all

lemma spec_hist_sublist:
  "\<exists>pre. failures_of k ops = pre @ hist (spec_run p ops spec_init) k"
proof (induction ops rule: rev_induct)
  case Nil
  then show ?case by (simp add: spec_run_def spec_init_def)
next
  case (snoc a ops)
  then obtain pre where pre: "failures_of k ops = pre @ hist (spec_run p ops spec_init) k" by blast
  show ?case
    by (cases a) (auto simp: spec_run_snoc pre)
qed

lemma spec_few_failures:
  assumes "int (length (failures_of k ops)) < max_attempts p"
  shows "until (spec_run p ops spec_init) k = zero_time"
  using assms
proof (induction ops rule: rev_induct)
  case Nil
  then show ?case by (simp add: spec_run_def spec_init_def)
next
  case (snoc a ops)
  then have IH: "until (spec_run p ops spec_init) k = zero_time" by simp
  show ?case
  proof (cases a)
    case (Failure t j)
    obtain pre where pre: "failures_of k ops = pre @ hist (spec_run p ops spec_init) k"
      using spec_hist_sublist by blast
    have "length (filter (\<lambda>f. t - window p < f) (hist (spec_run p ops spec_init) k))
        \<le> length (failures_of k ops)"
      unfolding pre length_append by (rule trans_le_add2 [OF length_filter_le])
    with snoc.prems Failure IH show ?thesis
      by (auto simp: spec_run_snoc)
  qed (use IH in \<open>auto simp: spec_run_snoc\<close>)
qed

text \<open>
  No false bans. A key with fewer failures in the whole history than the limit is
  allowed at every later instant, whatever the other keys did and whenever the sweeps ran.
\<close>

theorem limiter_no_false_ban:
  assumes "zero_time \<le> T" and "times_from T ops" and "last_time T ops < now"
    and "int (length (failures_of key ops)) < m"
  shows "allowed (rl_run ops (new_limiter m w b)) now key"
proof -
  have "zero_time < now"
    using assms(1,3) last_time_ge [OF assms(2)] by linarith
  then show ?thesis
    using run_allowed [OF assms(1-3)] spec_few_failures [of key ops "new_limiter m w b"] assms(4)
    by (simp add: spec_allowed_def new_limiter_def)
qed

theorem limiter_no_false_ban_witness:
  "allowed (rl_run [Failure 10 ''a'', Failure 11 ''a'', Failure 12 ''b''] (new_limiter 2 100 50)) 20 ''b''"
proof -
  let ?ops = "[Failure 10 ''a'', Failure 11 ''a'', Failure 12 ''b'']"
  have h: "zero_time \<le> 0" "times_from 0 ?ops" "last_time 0 ?ops < 20"
    "int (length (failures_of ''b'' ?ops)) < 2"
    by (simp_all add: zero_time_def last_time_def)
  from limiter_no_false_ban [OF h] show ?thesis .
qed

text \<open>The failures of a burst: one after the other, all inside one window.\<close>

definition burst :: "string \<Rightarrow> int list \<Rightarrow> rl_op list" where
  "burst k ts = map (\<lambda>t. Failure t k) ts"

lemma spec_burst:
  assumes "int (length (hist s k) + length ts) < max_attempts p"
  shows "spec_run p (burst k ts) s = s\<lparr>hist := (hist s)(k := hist s k @ ts)\<rparr>"
  using assms
proof (induction ts arbitrary: s)
  case Nil
  then show ?case by (simp add: burst_def spec_run_def)
next
  case (Cons t ts)
  let ?s' = "s\<lparr>hist := (hist s)(k := hist s k @ [t])\<rparr>"
  have "length (filter (\<lambda>f. t - window p < f) (hist s k)) \<le> length (hist s k)"
    by (rule length_filter_le)
  with Cons.prems have "spec_step p (Failure t k) s = ?s'"
    by (simp del: length_filter_le)
  then have "spec_run p (burst k (t # ts)) s = spec_run p (burst k ts) ?s'"
    by (simp only: burst_def spec_run_def list.map fold.simps o_apply)
  also have "\<dots> = ?s'\<lparr>hist := (hist ?s')(k := hist ?s' k @ ts)\<rparr>"
    by (rule Cons.IH) (use Cons.prems in simp)
  also have "\<dots> = s\<lparr>hist := (hist s)(k := hist s k @ t # ts)\<rparr>"
    by (rule spec_limiter.equality) (auto simp: fun_eq_iff)
  finally show ?case .
qed

lemma times_from_burst: "times_from T (burst k ts) \<longleftrightarrow> sorted (T # ts)"
  by (induction ts arbitrary: T) (auto simp: burst_def)

lemma last_time_burst: "last_time T (burst k (ts @ [t])) = t"
  by (simp add: burst_def last_time_def)

text \<open>
  Bans happen. As many failures of a key as the limit, in order and all within one
  window of the last one, start a ban: from just after the last failure until the ban's end
  the key is not allowed, and after that instant it is allowed again.
\<close>

theorem limiter_bans_burst:
  assumes "zero_time \<le> T" and "sorted (T # ts @ [t])" and "int (length ts) + 1 = m"
    and "\<And>x. x \<in> set ts \<Longrightarrow> t - w < x" and "t < now"
  shows "allowed (rl_run (burst key (ts @ [t])) (new_limiter m w b)) now key \<longleftrightarrow> t + b < now"
proof -
  let ?p = "new_limiter m w b"
  have m: "max_attempts ?p = m" "window ?p = w" "ban_duration ?p = b"
    by (simp_all add: new_limiter_def)
  have "spec_run ?p (burst key (ts @ [t])) spec_init = spec_step ?p (Failure t key)
      (spec_run ?p (burst key ts) spec_init)"
    by (simp add: burst_def spec_run_def)
  also have "spec_run ?p (burst key ts) spec_init = spec_init\<lparr>hist := (hist spec_init)(key := ts)\<rparr>"
    using assms(3) m by (subst spec_burst) (simp_all add: spec_init_def)
  finally have s: "spec_run ?p (burst key (ts @ [t])) spec_init =
      spec_step ?p (Failure t key) (spec_init\<lparr>hist := (hist spec_init)(key := ts)\<rparr>)" .
  have "filter (\<lambda>f. t - w < f) ts = ts"
    using assms(4) by simp
  then have "until (spec_run ?p (burst key (ts @ [t])) spec_init) key = t + b"
    using assms(3) by (simp add: s m)
  moreover have "times_from T (burst key (ts @ [t]))" "last_time T (burst key (ts @ [t])) < now"
    using assms(2,5) by (simp_all only: times_from_burst last_time_burst)
  ultimately show ?thesis
    using run_allowed [OF assms(1)] by (simp add: spec_allowed_def)
qed

theorem limiter_bans_burst_witness:
  "\<not> allowed (rl_run (burst ''k'' ([1, 2] @ [3])) (new_limiter 3 100 50)) 53 ''k'' \<and>
   allowed (rl_run (burst ''k'' ([1, 2] @ [3])) (new_limiter 3 100 50)) 54 ''k''"
proof -
  have h: "zero_time \<le> 0" "sorted (0 # [1, 2] @ [3 :: int])" "int (length [1, 2 :: int]) + 1 = 3"
    "\<And>x. x \<in> set [1, 2 :: int] \<Longrightarrow> 3 - 100 < x"
    by (auto simp: zero_time_def)
  from limiter_bans_burst [OF h, where now = 53 and b = 50 and key = "''k''"]
    limiter_bans_burst [OF h, where now = 54 and b = 50 and key = "''k''"]
  show ?thesis by simp
qed

text \<open>
  A key's fate does not depend on what happens under other keys.
\<close>

fun op_key :: "rl_op \<Rightarrow> string option" where
  "op_key (Failure t k) = Some k"
| "op_key (Success k) = Some k"
| "op_key (Sweep t) = None"

lemma rl_step_other:
  "op_key a \<noteq> None \<Longrightarrow> op_key a \<noteq> Some k \<Longrightarrow> map_of (entries (rl_step a l)) k = map_of (entries l) k"
  by (cases a) (auto simp: record_failure_def record_success_def Let_def)

text \<open>
  Isolation. An operation on one key leaves the verdict of every other key unchanged at
  every instant, so a client can neither clear nor cause another client's ban.
\<close>

theorem limiter_isolated:
  assumes "k \<noteq> key"
  shows "allowed (record_failure t k l) now key = allowed l now key \<and>
    allowed (record_success k l) now key = allowed l now key"
  using rl_step_other [of "Failure t k" key l] rl_step_other [of "Success k" key l] assms
  by (simp_all add: allowed_def)

theorem limiter_isolated_witness:
  "allowed (record_success ''b'' (record_failure 5 ''b'' (new_limiter 1 9 9))) 6 ''a'' =
   allowed (record_failure 5 ''b'' (new_limiter 1 9 9)) 6 ''a''"
proof -
  have "''b'' \<noteq> ''a''" by simp
  from limiter_isolated [OF this] show ?thesis by blast
qed

end
