(* ===== verification/World.thy ===== *)
theory World
  imports GoText "HOL-Library.Word"
begin

text \<open>
  The state outside the program that its components share: the file tree, the spool files of
  the outbound queue, the tables of the SQL database, the clock, the random source and the
  process-wide name counter; and the system calls the code makes on the file tree.

  Every system call and every database statement first reads one entry of a schedule of
  failures (\<open>faults\<close>): \<open>True\<close> makes it fail without effect. A statement about all schedules is a
  statement about failures at any point; an empty schedule is a run without failures.
\<close>

section \<open>Rows of the database\<close>

type_synonym bytes = string
type_synonym u32 = "32 word"

text \<open>The \<open>created_at\<close> columns are written by the database and read by nothing.\<close>

record domain_row =
  dom_id :: int
  dom_name :: string

record user_row =
  usr_id :: int
  usr_domain_id :: int
  usr_local_part :: string
  usr_email :: string
  usr_password_hash :: string
  usr_is_admin :: bool

record mailbox_row =
  mbx_id :: int
  mbx_user_id :: int
  mbx_name :: string
  mbx_uid_validity :: u32
  mbx_uid_next :: u32
  mbx_subscribed :: bool

record message_row =
  msg_id :: int
  msg_mailbox_id :: int
  msg_uid :: u32
  msg_maildir_key :: string
  msg_flags :: string
  msg_internal_date :: int
  msg_size :: int

record forwarding_row =
  fwd_user_id :: int
  fwd_enabled :: bool
  fwd_forward_to :: string

record relay_row =
  rel_enabled :: bool
  rel_host :: string
  rel_port :: int
  rel_username :: string
  rel_password :: string

text \<open>Tables in insertion order, with the AUTOINCREMENT sequences (the last identifier given out).\<close>

record database =
  domains_t :: "domain_row list"
  users_t :: "user_row list"
  mailboxes_t :: "mailbox_row list"
  messages_t :: "message_row list"
  forwarding_t :: "forwarding_row list"
  relay_t :: "relay_row option"
  domains_seq :: int
  users_seq :: int
  mailboxes_seq :: int
  messages_seq :: int

section \<open>The shared state\<close>

text \<open>A queue item, \<open>internal/queue/queue.go\<close>; its error text is empty until an attempt failed.\<close>

record item =
  it_id :: string
  it_from :: string
  it_to :: string
  it_attempts :: int
  it_next_attempt :: int
  it_last_error :: string
  it_created_at :: int

text \<open>A file holds its bytes and its modification time.\<close>

datatype node = DirN | FileN bytes int

text \<open>
  \<open>qeml\<close> and \<open>qjson\<close> are the files \<open><id>.eml\<close> and \<open><id>.json\<close> of the queue directory; a JSON file
  is represented by the item it encodes, \<open>None\<close> when it does not decode.
\<close>

record world =
  nodes :: "(path \<times> node) list"
  qeml :: "(string \<times> bytes) list"
  qjson :: "(string \<times> item option) list"
  db :: database
  faults :: "bool list"
  clock :: int
  ticks :: "int list"
  rnd :: bytes
  hostname :: string
  pid :: nat
  counter :: "64 word"

type_synonym 'a wio = "(world, 'a) io"

text \<open>\<open>time.Now()\<close>: the clock moves by the next tick, or stands still.\<close>

definition time_now :: "int wio" where
  "time_now w =
     (case ticks w of
        [] \<Rightarrow> (Inr (clock w), w)
      | d # ds \<Rightarrow> (Inr (clock w + d), w\<lparr>clock := clock w + d, ticks := ds\<rparr>))"

definition may_fail :: "goerr \<Rightarrow> 'a wio \<Rightarrow> 'a wio" where
  "may_fail e m w =
     (case faults w of
        [] \<Rightarrow> m w
      | b # bs \<Rightarrow> if b then (Inl e, w\<lparr>faults := bs\<rparr>) else m (w\<lparr>faults := bs\<rparr>))"

abbreviation syscall :: "'a wio \<Rightarrow> 'a wio" where
  "syscall \<equiv> may_fail ErrIO"

text \<open>\<open>rand.Read\<close> of \<open>n\<close> bytes; an exhausted source gives zero bytes.\<close>

definition rand_read :: "nat \<Rightarrow> bytes wio" where
  "rand_read n = syscall (\<lambda>w.
     (Inr (take n (rnd w @ replicate n (CHR 0x00))), w\<lparr>rnd := drop n (rnd w)\<rparr>))"

definition os_hostname :: "string wio" where
  "os_hostname = syscall (io_gets hostname)"

text \<open>\<open>atomic.AddUint64(&counter, 1)\<close>: the new value, wrapping at 64 bits.\<close>

definition next_counter :: "64 word wio" where
  "next_counter w = (Inr (counter w + 1), w\<lparr>counter := counter w + 1\<rparr>)"

section \<open>Files and directories\<close>

definition is_dir :: "(path \<times> node) list \<Rightarrow> path \<Rightarrow> bool" where
  "is_dir ns p \<longleftrightarrow> p = [] \<or> map_of ns p = Some DirN"

definition child_names :: "(path \<times> node) list \<Rightarrow> path \<Rightarrow> string list" where
  "child_names ns p =
     sort (remdups (map last (filter (\<lambda>q. q \<noteq> [] \<and> butlast q = p \<and> plain_name (last q)) (map fst ns))))"

definition path_prefixes :: "path \<Rightarrow> path list" where
  "path_prefixes p = map (\<lambda>i. take i p) [1..<Suc (length p)]"

definition is_prefix :: "path \<Rightarrow> path \<Rightarrow> bool" where
  "is_prefix p q \<longleftrightarrow> take (length p) q = p"

definition add_dir :: "path \<Rightarrow> (path \<times> node) list \<Rightarrow> (path \<times> node) list" where
  "add_dir q ns = (if map_of ns q = None then AList.update q DirN ns else ns)"

definition is_file :: "(path \<times> node) list \<Rightarrow> path \<Rightarrow> bool" where
  "is_file ns p \<longleftrightarrow> (case map_of ns p of Some (FileN c t) \<Rightarrow> True | _ \<Rightarrow> False)"

definition os_mkdir_all :: "path \<Rightarrow> unit wio" where
  "os_mkdir_all p = syscall (\<lambda>w.
     if list_ex (is_file (nodes w)) (path_prefixes p) then (Inl ErrIO, w)
     else (Inr (), w\<lparr>nodes := fold add_dir (path_prefixes p) (nodes w)\<rparr>))"

text \<open>\<open>os.ReadDir\<close>: the entries sorted by name, each with its \<open>IsDir\<close>.\<close>

definition os_read_dir :: "path \<Rightarrow> (string \<times> bool) list wio" where
  "os_read_dir p = syscall (\<lambda>w.
     if is_dir (nodes w) p
     then (Inr (map (\<lambda>n. (n, map_of (nodes w) (p @ [n]) = Some DirN)) (child_names (nodes w) p)), w)
     else if map_of (nodes w) p = None then (Inl ErrNotExist, w) else (Inl ErrIO, w))"

text \<open>\<open>os.OpenFile\<close> with \<open>O_WRONLY|O_CREATE|O_EXCL\<close>, and the calls on the open file.\<close>

definition os_create_excl :: "path \<Rightarrow> unit wio" where
  "os_create_excl p = syscall (\<lambda>w.
     if \<not> is_dir (nodes w) (butlast p) then (Inl ErrNotExist, w)
     else if map_of (nodes w) p \<noteq> None then (Inl ErrExist, w)
     else (Inr (), w\<lparr>nodes := AList.update p (FileN [] (clock w)) (nodes w)\<rparr>))"

definition file_write :: "path \<Rightarrow> bytes \<Rightarrow> unit wio" where
  "file_write p data = syscall (\<lambda>w.
     case map_of (nodes w) p of
       Some (FileN c t) \<Rightarrow> (Inr (), w\<lparr>nodes := AList.update p (FileN (c @ data) (clock w)) (nodes w)\<rparr>)
     | _ \<Rightarrow> (Inr (), w))"

definition file_sync :: "unit wio" where "file_sync = syscall (io_ret ())"
definition file_close :: "unit wio" where "file_close = syscall (io_ret ())"

definition os_read_file :: "path \<Rightarrow> bytes wio" where
  "os_read_file p = syscall (\<lambda>w.
     case map_of (nodes w) p of
       None \<Rightarrow> (Inl ErrNotExist, w)
     | Some DirN \<Rightarrow> (Inl ErrIO, w)
     | Some (FileN c t) \<Rightarrow> (Inr c, w))"

text \<open>\<open>os.Stat\<close>: size and modification time; a directory has a size of its own.\<close>

definition os_stat :: "path \<Rightarrow> (int \<times> int) wio" where
  "os_stat p = syscall (\<lambda>w.
     case map_of (nodes w) p of
       None \<Rightarrow> (Inl ErrNotExist, w)
     | Some DirN \<Rightarrow> (Inr (4096, 0), w)
     | Some (FileN c t) \<Rightarrow> (Inr (int (length c), t), w))"

definition move_tree :: "path \<Rightarrow> path \<Rightarrow> (path \<times> node) list \<Rightarrow> (path \<times> node) list" where
  "move_tree p q ns = map (\<lambda>(k, n). (if is_prefix p k then q @ drop (length p) k else k, n)) ns"

text \<open>
  \<open>os.Rename\<close>: Go refuses a target that is a directory; a file target is replaced; a directory
  cannot move into itself.
\<close>

definition os_rename :: "path \<Rightarrow> path \<Rightarrow> unit wio" where
  "os_rename p q = syscall (\<lambda>w.
     case map_of (nodes w) p of
       None \<Rightarrow> (Inl ErrNotExist, w)
     | Some n \<Rightarrow>
         if \<not> is_dir (nodes w) (butlast q) then (Inl ErrNotExist, w)
         else if p = q then (Inr (), w)
         else if is_dir (nodes w) q then (Inl ErrExist, w)
         else (case n of
                 FileN c t \<Rightarrow> (Inr (), w\<lparr>nodes := AList.update q n (AList.delete p (nodes w))\<rparr>)
               | DirN \<Rightarrow> if is_prefix p q \<or> map_of (nodes w) q \<noteq> None then (Inl ErrIO, w)
                         else (Inr (), w\<lparr>nodes := move_tree p q (nodes w)\<rparr>)))"

definition os_remove :: "path \<Rightarrow> unit wio" where
  "os_remove p = syscall (\<lambda>w.
     case map_of (nodes w) p of
       None \<Rightarrow> (Inl ErrNotExist, w)
     | Some DirN \<Rightarrow> if child_names (nodes w) p = [] then (Inr (), w\<lparr>nodes := AList.delete p (nodes w)\<rparr>)
                    else (Inl ErrIO, w)
     | Some (FileN c t) \<Rightarrow> (Inr (), w\<lparr>nodes := AList.delete p (nodes w)\<rparr>))"

definition os_remove_all :: "path \<Rightarrow> unit wio" where
  "os_remove_all p = syscall (\<lambda>w.
     (Inr (), w\<lparr>nodes := filter (\<lambda>kn. \<not> is_prefix p (fst kn)) (nodes w)\<rparr>))"

section \<open>The tree the files form\<close>

text \<open>
  What a reader can see: which paths are directories and the bytes of every file, without
  modification times. The listing of a directory is determined by it.
\<close>

definition tree_of :: "(path \<times> node) list \<Rightarrow> path \<Rightarrow> bytes option option" where
  "tree_of ns p = (case map_of ns p of
     None \<Rightarrow> None | Some DirN \<Rightarrow> Some None | Some (FileN c t) \<Rightarrow> Some (Some c))"

abbreviation tree :: "world \<Rightarrow> path \<Rightarrow> bytes option option" where
  "tree w \<equiv> tree_of (nodes w)"

abbreviation files :: "world \<Rightarrow> path \<Rightarrow> bytes option" where
  "files w p \<equiv> Option.bind (tree w p) id"

definition with_dirs :: "path set \<Rightarrow> (path \<Rightarrow> bytes option option) \<Rightarrow> path \<Rightarrow> bytes option option" where
  "with_dirs ps T p = (if p \<in> ps \<and> T p = None then Some None else T p)"

lemma tree_update_file [simp]:
  "tree_of (AList.update p (FileN c t) ns) = (tree_of ns)(p \<mapsto> Some c)"
  by (auto simp: tree_of_def)

lemma tree_delete [simp]: "tree_of (AList.delete p ns) = (tree_of ns)(p := None)"
  by (auto simp: tree_of_def)

lemma tree_None_iff: "tree_of ns p = None \<longleftrightarrow> map_of ns p = None"
  by (simp add: tree_of_def split: option.splits node.splits)

lemma tree_dir_iff: "tree_of ns p = Some None \<longleftrightarrow> map_of ns p = Some DirN"
  by (simp add: tree_of_def split: option.splits node.splits)

lemma tree_file_iff: "tree_of ns p = Some (Some c) \<longleftrightarrow> (\<exists>t. map_of ns p = Some (FileN c t))"
  by (auto simp: tree_of_def split: option.splits node.splits)

lemma is_dir_tree: "is_dir ns p \<longleftrightarrow> p = [] \<or> tree_of ns p = Some None"
  by (simp add: is_dir_def tree_dir_iff)

lemma is_file_tree: "is_file ns p \<longleftrightarrow> (\<exists>c. tree_of ns p = Some (Some c))"
  by (auto simp: is_file_def tree_of_def split: option.splits node.splits)

lemma tree_fold_add_dir [simp]: "tree_of (fold add_dir ps ns) = with_dirs (set ps) (tree_of ns)"
proof (induction ps arbitrary: ns)
  case (Cons q ps)
  have "tree_of (add_dir q ns) = with_dirs {q} (tree_of ns)"
    by (auto simp: tree_of_def add_dir_def with_dirs_def fun_eq_iff split: option.splits node.splits)
  with Cons show ?case by (auto simp: with_dirs_def fun_eq_iff)
qed (simp add: with_dirs_def fun_eq_iff)

lemma with_dirs_with_dirs [simp]: "with_dirs A (with_dirs B T) = with_dirs (A \<union> B) T"
  by (auto simp: with_dirs_def fun_eq_iff)

lemma with_dirs_empty [simp]: "with_dirs {} T = T"
  by (simp add: with_dirs_def fun_eq_iff)

lemma set_child_names:
  "n \<in> set (child_names ns p) \<longleftrightarrow> tree_of ns (p @ [n]) \<noteq> None \<and> plain_name n"
proof -
  have "n \<in> set (child_names ns p) \<longleftrightarrow> p @ [n] \<in> fst ` set ns \<and> plain_name n"
    by (force simp: child_names_def image_iff)
  then show ?thesis by (simp add: set_map_fst_iff tree_None_iff)
qed

lemma child_names_sorted [simp]: "sorted (child_names ns p)" "distinct (child_names ns p)"
  by (simp_all add: child_names_def)

subsection \<open>Triples of the system calls\<close>

text \<open>
  A property of the state that a failed call cannot break: it does not read the schedule.
\<close>

lemma triple_may_fail:
  assumes "\<And>w bs. P w \<Longrightarrow> P (w\<lparr>faults := bs\<rparr>)"
    and "\<And>w. P w \<Longrightarrow> E e w"
    and "triple P m Q E"
  shows "triple P (may_fail e m) Q E"
  unfolding triple_def
proof (intro allI impI)
  fix w
  assume P: "P w"
  show "case may_fail e m w of (Inl e, w') \<Rightarrow> E e w' | (Inr x, w') \<Rightarrow> Q x w'"
  proof (cases "faults w")
    case Nil
    with P assms(3) show ?thesis by (simp add: may_fail_def triple_def)
  next
    case (Cons b bs)
    from P have P': "P (w\<lparr>faults := bs\<rparr>)" by (rule assms(1))
    show ?thesis
    proof (cases b)
      case True
      with Cons assms(2) [OF P'] show ?thesis by (simp add: may_fail_def)
    next
      case False
      with Cons P' assms(3) show ?thesis by (simp add: may_fail_def triple_def)
    qed
  qed
qed

abbreviation keeps_tree :: "(path \<Rightarrow> bytes option option) \<Rightarrow> 'a wio \<Rightarrow> bool" where
  "keeps_tree T m \<equiv> triple (\<lambda>w. tree w = T) m (\<lambda>_ w. tree w = T) (\<lambda>_ w. tree w = T)"

lemma triple_tree:
  assumes "\<And>T. P T \<Longrightarrow> triple (\<lambda>w. tree w = T) m Q E"
  shows "triple (\<lambda>w. P (tree w)) m Q E"
  using assms [THEN tripleD_ok, OF _ refl] assms [THEN tripleD_err, OF _ refl]
  by (intro tripleI)

lemma triple_mkdir_all [triple_rules]:
  "triple (\<lambda>w. tree w = T) (os_mkdir_all p)
     (\<lambda>_ w. tree w = with_dirs (set (path_prefixes p)) T) (\<lambda>_ w. tree w = T)"
  unfolding os_mkdir_all_def by (rule triple_may_fail) (auto simp: triple_def)

lemma triple_read_dir [triple_rules]:
  "triple (\<lambda>w. tree w = T) (os_read_dir p)
     (\<lambda>es w. tree w = T \<and> (p = [] \<or> T p = Some None) \<and>
        fst ` set es = {n. T (p @ [n]) \<noteq> None \<and> plain_name n} \<and>
        sorted (map fst es) \<and> distinct (map fst es) \<and>
        (\<forall>(n, d) \<in> set es. d \<longleftrightarrow> T (p @ [n]) = Some None))
     (\<lambda>e w. tree w = T \<and> (e = ErrNotExist \<longrightarrow> T p = None))"
  unfolding os_read_dir_def
  by (rule triple_may_fail)
    (auto simp: triple_def is_dir_tree tree_dir_iff [symmetric] tree_None_iff [symmetric]
      set_child_names comp_def image_image)

lemma triple_create_excl [triple_rules]:
  "triple (\<lambda>w. tree w = T) (os_create_excl p)
     (\<lambda>_ w. T p = None \<and> tree w = T(p \<mapsto> Some [])) (\<lambda>_ w. tree w = T)"
  unfolding os_create_excl_def
  by (rule triple_may_fail) (auto simp: triple_def tree_None_iff)

lemma triple_file_write [triple_rules]:
  "triple (\<lambda>w. tree w = T \<and> T p = Some (Some c)) (file_write p d)
     (\<lambda>_ w. tree w = T(p \<mapsto> Some (c @ d))) (\<lambda>_ w. tree w = T)"
  unfolding file_write_def
  by (rule triple_may_fail) (auto simp: triple_def tree_file_iff)

lemma triple_file_sync [triple_rules]: "keeps_tree T file_sync"
  unfolding file_sync_def by (rule triple_may_fail) (auto intro: triple_ret)

lemma triple_file_close [triple_rules]: "keeps_tree T file_close"
  unfolding file_close_def by (rule triple_may_fail) (auto intro: triple_ret)

lemma triple_read_file [triple_rules]:
  "triple (\<lambda>w. tree w = T) (os_read_file p)
     (\<lambda>c w. tree w = T \<and> T p = Some (Some c)) (\<lambda>e w. tree w = T \<and> (e = ErrNotExist \<longrightarrow> T p = None))"
  unfolding os_read_file_def
  by (rule triple_may_fail)
    (auto simp: triple_def tree_of_def split: option.splits node.splits)

lemma triple_stat [triple_rules]: "keeps_tree T (os_stat p)"
  unfolding os_stat_def
  by (rule triple_may_fail) (auto simp: triple_def split: option.splits node.splits)

lemma triple_rename_file [triple_rules]:
  assumes "T p \<noteq> Some None"
  shows "triple (\<lambda>w. tree w = T) (os_rename p q)
     (\<lambda>_ w. \<exists>c. T p = Some (Some c) \<and> (butlast q = [] \<or> T (butlast q) = Some None) \<and>
        tree w = T(p := None, q \<mapsto> Some c)) (\<lambda>_ w. tree w = T)"
  unfolding os_rename_def
proof (rule triple_may_fail, goal_cases)
  case 3
  show ?case
    unfolding triple_def
  proof (intro allI impI)
    fix w
    assume T: "tree w = T"
    show "case (case map_of (nodes w) p of
       None \<Rightarrow> (Inl ErrNotExist, w)
     | Some n \<Rightarrow>
         if \<not> is_dir (nodes w) (butlast q) then (Inl ErrNotExist, w)
         else if p = q then (Inr (), w)
         else if is_dir (nodes w) q then (Inl ErrExist, w)
         else (case n of
                 FileN c t \<Rightarrow> (Inr (), w\<lparr>nodes := AList.update q n (AList.delete p (nodes w))\<rparr>)
               | DirN \<Rightarrow> if is_prefix p q \<or> map_of (nodes w) q \<noteq> None then (Inl ErrIO, w)
                         else (Inr (), w\<lparr>nodes := move_tree p q (nodes w)\<rparr>))) of
       (Inl e, w) \<Rightarrow> tree w = T
     | (Inr x, w) \<Rightarrow> \<exists>c. T p = Some (Some c) \<and> (butlast q = [] \<or> T (butlast q) = Some None) \<and>
        tree w = T(p := None, q \<mapsto> Some c)"
    proof (cases "map_of (nodes w) p")
      case (Some n)
      with assms T obtain c t where n: "n = FileN c t"
        by (cases n) (auto simp: tree_dir_iff)
      with Some T have "T p = Some (Some c)" by (auto simp: tree_file_iff)
      with Some n T show ?thesis by (auto simp: fun_upd_idem is_dir_tree)
    qed (use T in simp)
  qed
qed simp_all

lemma triple_remove [triple_rules]:
  "triple (\<lambda>w. tree w = T) (os_remove p)
     (\<lambda>_ w. T p \<noteq> None \<and> tree w = T(p := None))
     (\<lambda>e w. tree w = T \<and> (e = ErrNotExist \<longrightarrow> T p = None))"
  unfolding os_remove_def
  by (rule triple_may_fail)
    (auto simp: triple_def tree_of_def split: option.splits node.splits)

lemma triple_time_now [triple_rules]: "keeps_tree T time_now"
  by (auto simp: triple_def time_now_def split: list.splits)

lemma triple_rand_read [triple_rules]: "keeps_tree T (rand_read n)"
  unfolding rand_read_def by (rule triple_may_fail) (auto simp: triple_def)

lemma triple_next_counter [triple_rules]: "keeps_tree T next_counter"
  by (auto simp: triple_def next_counter_def)

lemma triple_os_hostname [triple_rules]: "keeps_tree T os_hostname"
  unfolding os_hostname_def by (rule triple_may_fail) (auto simp: triple_def io_gets_def)

lemma triple_gets [triple_rules]:
  "triple P (io_gets f) (\<lambda>x w. P w \<and> x = f w) (\<lambda>_. P)"
  by (simp add: triple_def io_gets_def)

subsection \<open>Runs without failures\<close>

text \<open>With an empty schedule a call fails only for its own reasons: \<open>runs\<close> says it does not.\<close>

abbreviation calm :: "(path \<Rightarrow> bytes option option) \<Rightarrow> world \<Rightarrow> bool" where
  "calm T \<equiv> \<lambda>w. tree w = T \<and> faults w = []"

abbreviation runs :: "(world \<Rightarrow> bool) \<Rightarrow> 'a wio \<Rightarrow> ('a \<Rightarrow> world \<Rightarrow> bool) \<Rightarrow> bool" where
  "runs P m Q \<equiv> triple P m Q (\<lambda>_ _. False)"

lemma runs_may_fail:
  "runs (calm T) m Q \<Longrightarrow> runs (calm T) (may_fail e m) Q"
  by (auto simp: triple_def may_fail_def)

lemma runs_mkdir_all:
  "(\<And>q c. q \<in> set (path_prefixes p) \<Longrightarrow> T q \<noteq> Some (Some c)) \<Longrightarrow>
   runs (calm T) (os_mkdir_all p) (\<lambda>_. calm (with_dirs (set (path_prefixes p)) T))"
  unfolding os_mkdir_all_def
  by (rule runs_may_fail)
    (auto simp: triple_def list_ex_iff is_file_tree)

lemma runs_create_excl:
  "T (butlast p) = Some None \<Longrightarrow> T p = None \<Longrightarrow>
   runs (calm T) (os_create_excl p) (\<lambda>_. calm (T(p \<mapsto> Some [])))"
  unfolding os_create_excl_def
  by (rule runs_may_fail) (auto simp: triple_def is_dir_tree tree_None_iff)

lemma runs_file_write:
  "T p = Some (Some c) \<Longrightarrow> runs (calm T) (file_write p d) (\<lambda>_. calm (T(p \<mapsto> Some (c @ d))))"
  unfolding file_write_def
  by (rule runs_may_fail) (auto simp: triple_def tree_file_iff)

lemma runs_rename_file:
  assumes "T p = Some (Some c)" and "T (butlast q) = Some None" and "T q \<noteq> Some None"
    and "q \<noteq> []" and "p \<noteq> q"
  shows "runs (calm T) (os_rename p q) (\<lambda>_. calm (T(p := None, q \<mapsto> Some c)))"
  unfolding os_rename_def
proof (rule runs_may_fail, rule tripleI, goal_cases)
  case (1 s x s')
  with assms show ?case by (auto simp: is_dir_tree tree_file_iff)
next
  case (2 s e s')
  with assms show ?case by (auto simp: is_dir_tree tree_file_iff)
qed

lemma runs_simple:
  "runs (calm T) file_sync (\<lambda>_. calm T)" "runs (calm T) file_close (\<lambda>_. calm T)"
  "runs (calm T) (rand_read n) (\<lambda>_. calm T)" "runs (calm T) os_hostname (\<lambda>_. calm T)"
  "runs (calm T) time_now (\<lambda>_. calm T)" "runs (calm T) next_counter (\<lambda>_. calm T)"
  "runs (calm T) (io_gets f) (\<lambda>_. calm T)"
  by (auto simp: triple_def file_sync_def file_close_def rand_read_def os_hostname_def time_now_def
      next_counter_def may_fail_def io_ret_def io_gets_def split: list.splits)

definition stays_calm :: "world \<Rightarrow> world \<Rightarrow> bool" where
  "stays_calm w w' \<longleftrightarrow> (faults w = [] \<longrightarrow> faults w' = [])"

interpretation calmop: effect stays_calm
  by unfold_locales (auto simp: stays_calm_def)

lemma keeps_calm_may_fail: "keeps stays_calm m \<Longrightarrow> keeps stays_calm (may_fail e m)"
  by (auto simp: keeps_def stays_calm_def may_fail_def split: list.splits)

lemma keeps_calm_ops: "keeps stays_calm time_now" "keeps stays_calm (rand_read n)"
  "keeps stays_calm next_counter" "keeps stays_calm os_hostname"
proof -
  show "keeps stays_calm (rand_read n)" unfolding rand_read_def
    by (rule keeps_calm_may_fail) (simp add: keeps_def stays_calm_def)
  show "keeps stays_calm os_hostname" unfolding os_hostname_def
    by (rule keeps_calm_may_fail) (rule calmop.keeps_gets)
qed (auto simp: keeps_def stays_calm_def time_now_def next_counter_def split: list.splits)

lemmas calm_effects = calmop.keeps_rules keeps_calm_may_fail keeps_calm_ops

text \<open>Computations that leave the whole tree alone.\<close>

definition same_tree :: "world \<Rightarrow> world \<Rightarrow> bool" where
  "same_tree w w' \<longleftrightarrow> tree w' = tree w"

interpretation treeop: effect same_tree
  by unfold_locales (auto simp: same_tree_def)

lemma keeps_tree_triple:
  "keeps same_tree m \<longleftrightarrow> (\<forall>T. keeps_tree T m)"
proof -
  have "(\<forall>T. keeps_tree T m) \<longleftrightarrow> (\<forall>w. case m w of (r, w') \<Rightarrow> tree w' = tree w)"
    by (auto simp: triple_def split: prod.splits sum.splits)
  then show ?thesis by (simp add: keeps_def same_tree_def case_prod_beta)
qed

lemma triple_keeps_tree:
  assumes "keeps same_tree m" and "\<And>w x w'. m w = (Inr x, w') \<Longrightarrow> Q x"
  shows "triple (\<lambda>w. tree w = T) m (\<lambda>x w. tree w = T \<and> Q x) (\<lambda>_ w. tree w = T)"
proof (rule tripleI)
  fix s x s'
  assume "tree s = T" "m s = (Inr x, s')"
  with keepsD [OF assms(1), of s] assms(2) show "tree s' = T \<and> Q x" by (simp add: same_tree_def)
next
  fix s e s'
  assume "tree s = T" "m s = (Inl e, s')"
  with keepsD [OF assms(1), of s] show "tree s' = T" by (simp add: same_tree_def)
qed

lemma keeps_tree_ops:
  "keeps same_tree time_now" "keeps same_tree (rand_read n)" "keeps same_tree next_counter"
  "keeps same_tree os_hostname" "keeps same_tree file_sync" "keeps same_tree file_close"
  "keeps same_tree (os_stat p)"
  by (simp_all add: keeps_tree_triple triple_time_now triple_rand_read triple_next_counter
      triple_os_hostname triple_file_sync triple_file_close triple_stat)

lemmas tree_effects = treeop.keeps_rules keeps_tree_ops

subsection \<open>What file operations leave alone\<close>

definition same_db :: "world \<Rightarrow> world \<Rightarrow> bool" where
  "same_db w w' \<longleftrightarrow> db w' = db w \<and> qeml w' = qeml w \<and> qjson w' = qjson w \<and> pid w' = pid w
     \<and> hostname w' = hostname w"

interpretation fsop: effect same_db
  by unfold_locales (auto simp: same_db_def)

lemma keeps_may_fail:
  assumes "keeps same_db m"
  shows "keeps same_db (may_fail e m)"
  unfolding keeps_def
proof
  fix w
  have "same_db (w\<lparr>faults := bs\<rparr>) (snd (m (w\<lparr>faults := bs\<rparr>)))" for bs
    using assms by (simp add: keeps_def)
  then show "same_db w (snd (may_fail e m w))"
    using assms by (auto simp: may_fail_def keeps_def same_db_def split: list.splits)
qed

lemma keeps_syscalls:
  "keeps same_db (os_mkdir_all p)" "keeps same_db (os_read_dir p)"
  "keeps same_db (os_create_excl p)" "keeps same_db (file_write p d)"
  "keeps same_db file_sync" "keeps same_db file_close"
  "keeps same_db (os_read_file p)" "keeps same_db (os_stat p)"
  "keeps same_db (os_rename p q)" "keeps same_db (os_remove p)"
  "keeps same_db (os_remove_all p)" "keeps same_db (rand_read n)"
  "keeps same_db os_hostname"
  unfolding os_mkdir_all_def os_read_dir_def os_create_excl_def file_write_def file_sync_def
    file_close_def os_read_file_def os_stat_def os_rename_def os_remove_def os_remove_all_def
    rand_read_def os_hostname_def
  by (rule keeps_may_fail;
      auto simp: keeps_def same_db_def io_ret_def io_gets_def split: option.splits node.splits)+

lemma keeps_time_now: "keeps same_db time_now"
  by (auto simp: keeps_def same_db_def time_now_def split: list.splits)

lemma keeps_next_counter: "keeps same_db next_counter"
  by (simp add: keeps_def same_db_def next_counter_def)

lemmas fs_effects = fsop.keeps_rules keeps_syscalls keeps_time_now keeps_next_counter

section \<open>A world to start from\<close>

text \<open>An empty file tree and database, no failures, a clock that stands still.\<close>

definition empty_db :: database where
  "empty_db = \<lparr>domains_t = [], users_t = [], mailboxes_t = [], messages_t = [], forwarding_t = [],
     relay_t = None, domains_seq = 0, users_seq = 0, mailboxes_seq = 0, messages_seq = 0\<rparr>"

definition blank_world :: world where
  "blank_world = \<lparr>nodes = [], qeml = [], qjson = [], db = empty_db, faults = [],
     clock = 7, ticks = [], rnd = [], hostname = ''mx'', pid = 3, counter = 0\<rparr>"

lemma blank_tree [simp]: "tree blank_world p = None"
  by (simp add: blank_world_def tree_of_def)

lemma blank_calm [simp]: "faults blank_world = []"
  by (simp add: blank_world_def)

end
