(* ===== verification/Maildir.thy ===== *)
theory Maildir
  imports World
begin

text \<open>
  \<open>internal/maildir\<close>: message files in the \<open>tmp/new/cur\<close> layout. The struct \<open>Maildir\<close> has one
  field, its root, which is the first argument of every operation. The package variable
  \<open>counter\<close> is the world's \<open>counter\<close>. \<open>maildir_deliver\<close> makes every system call of \<open>Deliver\<close> in
  its order, with the clean-up of each failing branch.

  What is shown: under every schedule of failures a delivery either puts the complete message
  into \<open>new/\<close> or leaves every message file as it was; \<open>Open\<close>, \<open>SetFlags\<close> and \<open>Remove\<close> act on the
  one message they are given; the names a process gives out are distinct and in byte order of
  their time stamps; \<open>List\<close> returns the messages of both directories in key order. The locale
  \<open>message_store\<close> is the interface the mail store clients rely on.
\<close>

section \<open>Names\<close>

definition flag_letters :: string where
  "flag_letters = ''DFRST''"

definition path_str :: "path \<Rightarrow> string" where
  "path_str p = concat (map (\<lambda>c. CHR ''/'' # c) p)"

text \<open>\<open>strings.NewReplacer("/", "\\057", ":", "\\072")\<close>.\<close>

definition escape_host :: "string \<Rightarrow> string" where
  "escape_host h = concat (map (\<lambda>c.
     if c = CHR ''/'' then [CHR 0x5C, CHR ''0'', CHR ''5'', CHR ''7'']
     else if c = CHR '':'' then [CHR 0x5C, CHR ''0'', CHR ''7'', CHR ''2''] else [c]) h)"

definition format_name :: "int \<Rightarrow> bytes \<Rightarrow> nat \<Rightarrow> 64 word \<Rightarrow> string \<Rightarrow> string" where
  "format_name ts buf p n host =
     show_int_pad 20 ts @ ''.'' @ hex_encode buf @ show_nat p @ ''_'' @ show_nat (unat n) @ ''.'' @ host"

definition unique_name :: "string wio" where
  "unique_name =
     io_bind (io_either os_hostname (\<lambda>_. io_ret ''localhost'') io_ret) (\<lambda>host.
     io_bind (rand_read 8) (\<lambda>buf.
     io_bind next_counter (\<lambda>n.
     io_bind time_now (\<lambda>ts.
     io_bind (io_gets pid) (\<lambda>p.
     io_ret (format_name ts buf p n (escape_host host)))))))"

definition split_flags :: "string \<Rightarrow> string \<times> string" where
  "split_flags name =
     (let idx = index_str name '':2,'' in
      if idx = -1 then (name, '''') else (take (nat idx) name, drop (nat idx + 3) name))"

definition letter_in :: "string \<Rightarrow> char \<Rightarrow> bool" where
  "letter_in flags letter \<longleftrightarrow> index_byte flags letter \<noteq> -1"

section \<open>Operations\<close>

definition maildir_init :: "path \<Rightarrow> unit wio" where
  "maildir_init root = io_for [''tmp'', ''new'', ''cur'']
     (\<lambda>sub. io_wrap (''creating maildir '' @ path_str root @ ''/'' @ sub)
        (os_mkdir_all (pjoin root sub)))"

text \<open>The clean-up of a failed delivery: close the file when it is open, drop it, report.\<close>

definition abandon :: "bool \<Rightarrow> path \<Rightarrow> string \<Rightarrow> goerr \<Rightarrow> 'a wio" where
  "abandon opened tmp_path msg e =
     io_bind (if opened then io_ignore file_close else io_ret ()) (\<lambda>_.
     io_bind (io_ignore (os_remove tmp_path)) (\<lambda>_.
     io_fail (Wrapped msg e)))"

definition write_new :: "path \<Rightarrow> string \<Rightarrow> bytes \<Rightarrow> string wio" where
  "write_new root name data =
     (let tmp_path = pjoin (pjoin root ''tmp'') name;
          new_path = pjoin (pjoin root ''new'') name in
     io_bind (io_wrap ''creating tmp file'' (os_create_excl tmp_path)) (\<lambda>_.
     io_either (file_write tmp_path data) (abandon True tmp_path ''writing message'') (\<lambda>_.
     io_either file_sync (abandon True tmp_path ''syncing message'') (\<lambda>_.
     io_either file_close (abandon False tmp_path ''closing message'') (\<lambda>_.
     io_either (os_rename tmp_path new_path) (abandon False tmp_path ''moving message to new'') (\<lambda>_.
     io_ret name))))))"

definition maildir_deliver :: "path \<Rightarrow> bytes \<Rightarrow> string wio" where
  "maildir_deliver root data =
     io_bind (maildir_init root) (\<lambda>_.
     io_bind unique_name (\<lambda>name. write_new root name data))"

record disk_message =
  dm_key :: string
  dm_flags :: string
  dm_in_new :: bool

text \<open>\<open>os.ReadDir\<close> where a missing directory counts as empty.\<close>

definition read_dir_or_empty :: "path \<Rightarrow> string \<Rightarrow> (string \<times> bool) list wio" where
  "read_dir_or_empty root d =
     io_either (os_read_dir (pjoin root d))
       (\<lambda>e. if e = ErrNotExist then io_ret [] else io_fail (Wrapped (''reading '' @ d @ ''/'') e)) io_ret"

definition disk_messages :: "bool \<Rightarrow> (string \<times> bool) list \<Rightarrow> disk_message list" where
  "disk_messages in_new es =
     map (\<lambda>(n, d). \<lparr>dm_key = fst (split_flags n), dm_flags = snd (split_flags n), dm_in_new = in_new\<rparr>)
       (filter (\<lambda>(n, d). \<not> d) es)"

text \<open>\<open>sort.Slice\<close> is modelled by a stable sort; with distinct keys the order is unique.\<close>

definition maildir_list :: "path \<Rightarrow> disk_message list wio" where
  "maildir_list root =
     io_bind (read_dir_or_empty root ''new'') (\<lambda>new_entries.
     io_bind (read_dir_or_empty root ''cur'') (\<lambda>cur_entries.
     io_ret (sort_key dm_key
       (disk_messages True new_entries @ disk_messages False cur_entries))))"

text \<open>One round of the loop of \<open>find\<close>: \<open>None\<close> goes on to the next directory.\<close>

definition find_in :: "path \<Rightarrow> string \<Rightarrow> string \<Rightarrow> (string \<times> string) option wio" where
  "find_in root key d =
     io_either (os_read_dir (pjoin root d))
       (\<lambda>e. if e = ErrNotExist then io_ret None else io_fail e)
       (\<lambda>es. io_ret (map_option (\<lambda>(n, b). (d, n))
          (find (\<lambda>(n, b). fst (split_flags n) = key) es)))"

definition maildir_find :: "path \<Rightarrow> string \<Rightarrow> (string \<times> string) wio" where
  "maildir_find root key =
     io_bind (find_in root key ''new'') (\<lambda>r. case r of Some dn \<Rightarrow> io_ret dn | None \<Rightarrow>
     io_bind (find_in root key ''cur'') (\<lambda>r. case r of Some dn \<Rightarrow> io_ret dn | None \<Rightarrow>
     io_fail ErrNotExist))"

definition maildir_open :: "path \<Rightarrow> string \<Rightarrow> bytes wio" where
  "maildir_open root key =
     io_bind (maildir_find root key) (\<lambda>(d, n). os_read_file (pjoin (pjoin root d) n))"

definition maildir_stat :: "path \<Rightarrow> string \<Rightarrow> (int \<times> int) wio" where
  "maildir_stat root key =
     io_bind (maildir_find root key) (\<lambda>(d, n). os_stat (pjoin (pjoin root d) n))"

definition normal_letters :: "string \<Rightarrow> string" where
  "normal_letters flags = filter (letter_in flags) flag_letters"

definition maildir_set_flags :: "path \<Rightarrow> string \<Rightarrow> string \<Rightarrow> unit wio" where
  "maildir_set_flags root key flags =
     io_bind (maildir_find root key) (\<lambda>(d, n).
     let new_name = key @ '':2,'' @ normal_letters flags in
     io_wrap ''updating flags''
       (os_rename (pjoin (pjoin root d) n) (pjoin (pjoin root ''cur'') new_name)))"

definition maildir_remove :: "path \<Rightarrow> string \<Rightarrow> unit wio" where
  "maildir_remove root key =
     io_bind (maildir_find root key) (\<lambda>(d, n). os_remove (pjoin (pjoin root d) n))"

section \<open>Paths of users and folders (\<open>paths.go\<close>)\<close>

definition user_root :: "path \<Rightarrow> string \<Rightarrow> string \<Rightarrow> path" where
  "user_root base domain local_part = pjoin (pjoin base domain) local_part"

definition default_folders :: "string list" where
  "default_folders = [''Sent'', ''Drafts'', ''Trash'', ''Junk'']"

definition folder_path :: "path \<Rightarrow> string \<Rightarrow> path" where
  "folder_path root folder =
     (if folder = '''' \<or> equal_fold folder ''INBOX'' then root else pjoin root (CHR ''.'' # folder))"

section \<open>Names of message files\<close>

lemma index_str_range: "-1 \<le> index_str s p"
  by (induction s) (auto simp: Let_def)

lemma index_str_take:
  "p \<noteq> [] \<Longrightarrow> 0 \<le> index_str s p \<Longrightarrow> index_str (take (nat (index_str s p)) s) p = -1"
proof (induction s)
  case (Cons x xs)
  show ?case
  proof (cases "has_prefix (x # xs) p")
    case False
    with Cons.prems have pos: "0 \<le> index_str xs p"
      by (auto simp: Let_def split: if_splits)
    then obtain n where n: "index_str xs p = int n" by (metis nonneg_int_cases)
    have "\<not> has_prefix (x # take n xs) p"
    proof
      assume "has_prefix (x # take n xs) p"
      then have "take (length p) (x # xs) = p"
        by (cases "length p") (auto simp: has_prefix_def min_def take_Cons' split: if_splits)
      with False show False by (simp add: has_prefix_def)
    qed
    with Cons pos False n show ?thesis by (simp add: nat_add_distrib Let_def)
  qed (use Cons.prems in simp)
qed simp

lemma split_flags_sub: "set (fst (split_flags n)) \<subseteq> set n"
  by (auto simp: split_flags_def Let_def dest: in_set_takeD)

definition key_ok :: "string \<Rightarrow> bool" where
  "key_ok k \<longleftrightarrow> index_str k '':2,'' = -1"

lemma key_ok_split: "key_ok (fst (split_flags n))"
  using index_str_take [of "'':2,''" n] index_str_range [of n "'':2,''"]
  by (auto simp: split_flags_def key_ok_def Let_def)

lemma index_str_suffix:
  "index_str k '':2,'' = -1 \<Longrightarrow> index_str (k @ '':2,'' @ l) '':2,'' = int (length k)"
proof (induction k)
  case Nil
  then show ?case by (simp add: has_prefix_def)
next
  case (Cons x k)
  have "\<not> has_prefix ((x # k) @ '':2,'' @ l) '':2,''"
  proof (cases "2 \<le> length k")
    case True
    with Cons.prems show ?thesis by (auto simp: has_prefix_def Let_def split: if_splits)
  next
    case False
    then consider "k = []" | y where "k = [y]" by (cases k; cases "tl k") auto
    then show ?thesis by cases (auto simp: has_prefix_def)
  qed
  moreover have "index_str k '':2,'' = -1"
    using Cons.prems index_str_range [of k "'':2,''"] by (auto simp: Let_def split: if_splits)
  ultimately show ?case using Cons.IH by simp
qed

lemma split_flags_join [simp]: "key_ok k \<Longrightarrow> split_flags (k @ '':2,'' @ l) = (k, l)"
  using index_str_suffix [of k l] by (simp add: key_ok_def split_flags_def Let_def)

lemma index_str_absent: "hd p \<notin> set s \<Longrightarrow> p \<noteq> [] \<Longrightarrow> index_str s p = -1"
  by (induction s) (auto simp: has_prefix_def neq_Nil_conv)

lemma split_flags_plain [simp]: "CHR '':'' \<notin> set n \<Longrightarrow> split_flags n = (n, '''')"
  by (simp add: split_flags_def index_str_absent)

text \<open>A name that \<open>uniqueName\<close> gives out: one path component without a colon.\<close>

definition message_name :: "string \<Rightarrow> bool" where
  "message_name n \<longleftrightarrow> plain_name n \<and> CHR '':'' \<notin> set n"

lemma show_int_pad_chars: "c \<in> set (show_int_pad w i) \<Longrightarrow> is_digit c \<or> c = CHR ''-''"
  by (auto simp: show_int_pad_def Let_def is_digit_0 dest: show_nat_digits split: if_splits)

lemma escape_host_chars: "c \<in> set (escape_host h) \<Longrightarrow> c \<noteq> CHR ''/'' \<and> c \<noteq> CHR '':''"
  by (auto simp: escape_host_def split: if_splits)

lemma digit_hex_not_special:
  "is_digit c \<Longrightarrow> c \<notin> set ''/:_.''" "is_hex_char c \<Longrightarrow> c \<notin> set ''/:_.''"
  by (auto simp: is_digit_def is_hex_char_def)

lemma format_name_message: "message_name (format_name ts buf p n (escape_host h))"
proof -
  have "CHR ''_'' \<in> set (format_name ts buf p n (escape_host h))"
    by (simp add: format_name_def)
  moreover have "c \<noteq> CHR ''/'' \<and> c \<noteq> CHR '':''"
    if "c \<in> set (format_name ts buf p n (escape_host h))" for c
  proof -
    from that consider "is_digit c" | "is_hex_char c" | "c \<in> set ''-._''" | "c \<in> set (escape_host h)"
      by (auto simp: format_name_def dest: show_int_pad_chars hex_encode_chars show_nat_digits)
    then show ?thesis
      by cases (use escape_host_chars [of c h] in \<open>auto dest: digit_hex_not_special\<close>)
  qed
  ultimately show ?thesis by (force simp: message_name_def plain_name_def)
qed

lemma append_sep_eq:
  assumes "a @ c # b = a' @ c # b'" and "c \<notin> set a" and "c \<notin> set a'"
  shows "a = a' \<and> b = b'"
  using assms by (induction a arbitrary: a') (auto simp: append_eq_Cons_conv Cons_eq_append_conv)

text \<open>The counter can be read back from a name, so names of one process differ.\<close>

lemma format_name_counter:
  assumes "format_name ts buf p n h = format_name ts' buf' p' n' h'"
  shows "n = n' \<and> h = h'"
proof -
  let ?m = "\<lambda>b p n h. hex_encode b @ show_nat p @ ''_'' @ show_nat (unat n) @ ''.'' @ h"
  have dot: "CHR ''.'' \<notin> set (show_int_pad 20 t)" for t
    by (auto dest!: show_int_pad_chars simp: is_digit_def)
  have us: "CHR ''_'' \<notin> set (hex_encode b @ show_nat q)" for b q
    by (auto dest!: hex_encode_chars show_nat_digits dest: digit_hex_not_special)
  have dot': "CHR ''.'' \<notin> set (show_nat q)" for q
    by (auto dest!: show_nat_digits dest: digit_hex_not_special)
  have 1: "show_int_pad 20 ts @ CHR ''.'' # ?m buf p n h = show_int_pad 20 ts' @ CHR ''.'' # ?m buf' p' n' h'"
    using assms by (simp add: format_name_def)
  have 2: "(hex_encode buf @ show_nat p) @ CHR ''_'' # (show_nat (unat n) @ ''.'' @ h)
      = (hex_encode buf' @ show_nat p') @ CHR ''_'' # (show_nat (unat n') @ ''.'' @ h')"
    using append_sep_eq [OF 1 dot dot, THEN conjunct2] by (simp only: append_assoc append_Cons append_Nil)
  have 3: "show_nat (unat n) @ CHR ''.'' # h = show_nat (unat n') @ CHR ''.'' # h'"
    using append_sep_eq [OF 2 us us, THEN conjunct2] by (simp only: append_assoc append_Cons append_Nil)
  from append_sep_eq [OF 3 dot' dot'] show ?thesis
    by (auto dest: show_nat_inj simp: word_unat_eq_iff)
qed

section \<open>Deliveries\<close>

definition maildir_dirs :: "path \<Rightarrow> path set" where
  "maildir_dirs root = (\<Union>d \<in> {''tmp'', ''new'', ''cur''}. set (path_prefixes (root @ [d])))"

text \<open>
  What may differ from \<open>T\<close> after a failed delivery: directories of the maildir that were
  missing, and one file of \<open>tmp/\<close>, which no reader looks at.
\<close>

definition only_tmp_differs :: "(path \<Rightarrow> bytes option option) \<Rightarrow> path \<Rightarrow> world \<Rightarrow> bool" where
  "only_tmp_differs T root w \<longleftrightarrow>
     (\<exists>D n. D \<subseteq> maildir_dirs root \<and> (\<forall>p. p \<noteq> root @ [''tmp'', n] \<longrightarrow> tree w p = with_dirs D T p))"

lemma only_tmp_differsI:
  "D \<subseteq> maildir_dirs root \<Longrightarrow> (\<And>p. p \<noteq> root @ [''tmp'', n] \<Longrightarrow> tree w p = with_dirs D T p) \<Longrightarrow>
   only_tmp_differs T root w"
  unfolding only_tmp_differs_def by blast

lemma triple_mkdir_in [triple_rules]:
  assumes "d \<in> {''tmp'', ''new'', ''cur''}" and "D \<subseteq> maildir_dirs root"
  shows "triple (\<lambda>w. tree w = with_dirs D T) (io_wrap m (os_mkdir_all (pjoin root d)))
      (\<lambda>_ w. tree w = with_dirs (set (path_prefixes (root @ [d])) \<union> D) T)
      (\<lambda>_ w. \<exists>D \<subseteq> maildir_dirs root. tree w = with_dirs D T)"
  by (rule triple_wrap, rule triple_weaken [OF triple_mkdir_all [of "with_dirs D T"]])
    (use assms in auto)

lemma triple_maildir_init [triple_rules]:
  "triple (\<lambda>w. tree w = T) (maildir_init root)
     (\<lambda>_ w. tree w = with_dirs (maildir_dirs root) T)
     (\<lambda>_ w. \<exists>D \<subseteq> maildir_dirs root. tree w = with_dirs D T)"
proof -
  let ?p = "\<lambda>d. set (path_prefixes (root @ [d]))"
  have D: "?p d \<subseteq> maildir_dirs root" if "d \<in> {''tmp'', ''new'', ''cur''}" for d
    using that by (auto simp: maildir_dirs_def)
  have step: "triple (\<lambda>w. tree w = with_dirs D T) (io_bind (io_wrap m (os_mkdir_all (pjoin root d))) k)
      Q (\<lambda>_ w. \<exists>D \<subseteq> maildir_dirs root. tree w = with_dirs D T)"
    if "d \<in> {''tmp'', ''new'', ''cur''}" "D \<subseteq> maildir_dirs root"
      "\<And>x. triple (\<lambda>w. tree w = with_dirs (?p d \<union> D) T) (k x)
         Q (\<lambda>_ w. \<exists>D \<subseteq> maildir_dirs root. tree w = with_dirs D T)"
    for d D m k and Q :: "unit \<Rightarrow> world \<Rightarrow> bool"
    by (rule triple_bind [OF triple_mkdir_in]) (use that in auto)
  have "triple (\<lambda>w. tree w = with_dirs {} T) (maildir_init root)
     (\<lambda>_ w. tree w = with_dirs (?p ''cur'' \<union> (?p ''new'' \<union> (?p ''tmp'' \<union> {}))) T)
     (\<lambda>_ w. \<exists>D \<subseteq> maildir_dirs root. tree w = with_dirs D T)"
    unfolding maildir_init_def io_for.simps
    by (rule step, simp, simp, rule step, simp, simp add: D, rule step, simp, simp add: D,
        rule triple_ret)
  then show ?thesis by (simp add: maildir_dirs_def Un_ac)
qed

lemma unique_name_name: "unique_name w = (Inr n, w') \<Longrightarrow> message_name n"
proof -
  have "triple (\<lambda>_. True) unique_name (\<lambda>n _. message_name n) (\<lambda>_ _. True)"
    unfolding unique_name_def
    by (intro triple_bind [where R = "\<lambda>_ _. True"] triple_ret)
      (simp_all add: format_name_message triple_True)
  then show "unique_name w = (Inr n, w') \<Longrightarrow> message_name n" by (rule tripleD_ok) simp
qed

lemma triple_unique_name [triple_rules]:
  "triple (\<lambda>w. tree w = T) unique_name (\<lambda>n w. tree w = T \<and> message_name n) (\<lambda>_ w. tree w = T)"
proof (rule triple_keeps_tree)
  show "keeps same_tree unique_name"
    unfolding unique_name_def by (intro tree_effects)
qed (rule unique_name_name)

definition agree_off :: "path \<Rightarrow> (path \<Rightarrow> bytes option option) \<Rightarrow> (path \<Rightarrow> bytes option option) \<Rightarrow> bool" where
  "agree_off q T T' \<longleftrightarrow> (\<forall>p. p \<noteq> q \<longrightarrow> T' p = T p)"

lemma agree_off_upd [simp]: "agree_off q T (T'(q := x)) \<longleftrightarrow> agree_off q T T'"
  by (auto simp: agree_off_def)

lemma agree_off_refl [simp]: "agree_off q T T"
  by (simp add: agree_off_def)

lemma triple_abandon [triple_rules]:
  "triple (\<lambda>w. agree_off q T (tree w)) (abandon b q msg e) Q (\<lambda>_ w. agree_off q T (tree w))"
  unfolding abandon_def
proof (intro triple_bind [where R = "\<lambda>_ w. agree_off q T (tree w)"] triple_ignore triple_fail)
  show "triple (\<lambda>w. agree_off q T (tree w)) (if b then io_ignore file_close else io_ret ())
      (\<lambda>_ w. agree_off q T (tree w)) (\<lambda>_ w. agree_off q T (tree w))"
    by (cases b)
      (auto intro!: triple_ret triple_ignore triple_tree [where P = "agree_off q T"]
        triple_weaken [OF triple_file_close])
  show "triple (\<lambda>w. agree_off q T (tree w)) (os_remove q)
      (\<lambda>_ w. agree_off q T (tree w)) (\<lambda>_ w. agree_off q T (tree w))"
    by (rule triple_tree [where P = "agree_off q T"], rule triple_weaken [OF triple_remove]) auto
qed

lemma triple_write_new [triple_rules]:
  assumes "message_name name"
  shows "triple (\<lambda>w. tree w = T1) (write_new root name data)
     (\<lambda>n w. n = name \<and> tree w = T1(root @ [''new'', name] \<mapsto> Some data) \<and>
        T1 (root @ [''new'']) = Some None)
     (\<lambda>_ w. agree_off (root @ [''tmp'', name]) T1 (tree w))"
proof -
  let ?t = "root @ [''tmp'', name]" and ?n = "root @ [''new'', name]"
  let ?E = "\<lambda>_ w. agree_off ?t T1 (tree w)"
  have pn: "pjoin (pjoin root d) name = root @ [d, name]" if "plain_name d" for d
    using assms that by (simp add: message_name_def)
  have ab: "triple (\<lambda>w. tree w = T1(?t \<mapsto> Some c)) (abandon b ?t msg e)
      (\<lambda>n w. n = name \<and> tree w = T1(?n \<mapsto> Some data) \<and> T1 (root @ [''new'']) = Some None) ?E"
    for b msg e c
    by (rule triple_weaken [OF triple_abandon [of ?t T1]]) auto
  have wr: "triple (\<lambda>w. tree w = T1(?t \<mapsto> Some [])) (file_write ?t data)
      (\<lambda>_ w. tree w = T1(?t \<mapsto> Some data)) (\<lambda>_ w. tree w = T1(?t \<mapsto> Some []))"
    by (rule triple_weaken [OF triple_file_write [of "T1(?t \<mapsto> Some [])" ?t "[]"]]) auto
  have rn: "triple (\<lambda>w. tree w = T1(?t \<mapsto> Some data)) (os_rename ?t ?n)
      (\<lambda>_ w. tree w = T1(?t := None, ?n \<mapsto> Some data) \<and> T1 (root @ [''new'']) = Some None)
      (\<lambda>_ w. tree w = T1(?t \<mapsto> Some data))"
    by (rule triple_weaken [OF triple_rename_file]) (auto simp: butlast_append)
  have cr: "triple (\<lambda>w. tree w = T1) (io_wrap m (os_create_excl ?t))
      (\<lambda>_ w. tree w = T1(?t \<mapsto> Some []) \<and> T1 ?t = None) ?E" for m
    by (rule triple_wrap, rule triple_weaken [OF triple_create_excl]) auto
  have fin: "triple (\<lambda>w. tree w = T1(?t := None, ?n \<mapsto> Some data)) (io_ret name)
      (\<lambda>n w. n = name \<and> tree w = T1(?n \<mapsto> Some data) \<and> T1 (root @ [''new'']) = Some None) ?E"
    if "T1 ?t = None" "T1 (root @ [''new'']) = Some None"
  proof -
    from that(1) have "T1(?t := None) = T1" by (rule fun_upd_idem)
    with that(2) show ?thesis by (auto intro: triple_ret)
  qed
  show ?thesis
    unfolding write_new_def Let_def pn [OF plain_name_consts(1)] pn [OF plain_name_consts(2)]
    by (rule triple_bind [OF cr], rule triple_pure, rule triple_either [OF wr ab],
        rule triple_either [OF triple_file_sync ab], rule triple_either [OF triple_file_close ab],
        rule triple_either [OF rn ab], rule triple_pure, rule fin)
qed

lemma triple_deliver [triple_rules]:
  "triple (\<lambda>w. tree w = T) (maildir_deliver root data)
     (\<lambda>name w. message_name name \<and>
        tree w = (with_dirs (maildir_dirs root) T)(root @ [''new'', name] \<mapsto> Some data) \<and>
        with_dirs (maildir_dirs root) T (root @ [''new'']) = Some None)
     (\<lambda>_ w. only_tmp_differs T root w)"
proof -
  let ?T1 = "with_dirs (maildir_dirs root) T"
  have E1: "only_tmp_differs T root w" if "\<exists>D \<subseteq> maildir_dirs root. tree w = with_dirs D T" for w
    using that by (auto simp: only_tmp_differs_def)
  have E2: "only_tmp_differs T root w" if "agree_off (root @ [''tmp'', n]) ?T1 (tree w)" for n w
    using that by (auto simp: only_tmp_differs_def agree_off_def)
  show ?thesis
    unfolding maildir_deliver_def
  proof (rule triple_bind)
    show "triple (\<lambda>w. tree w = T) (maildir_init root) (\<lambda>_ w. tree w = ?T1)
        (\<lambda>_ w. only_tmp_differs T root w)"
      by (rule triple_weaken [OF triple_maildir_init]) (auto intro: E1)
  next
    fix x
    have un: "triple (\<lambda>w. tree w = ?T1) unique_name (\<lambda>n w. tree w = ?T1 \<and> message_name n)
        (\<lambda>_ w. only_tmp_differs T root w)"
      by (rule triple_weaken [OF triple_unique_name]) (auto intro: E1)
    show "triple (\<lambda>w. tree w = ?T1) (io_bind unique_name (\<lambda>name. write_new root name data))
      (\<lambda>name w. message_name name \<and> tree w = ?T1(root @ [''new'', name] \<mapsto> Some data) \<and>
         ?T1 (root @ [''new'']) = Some None)
      (\<lambda>_ w. only_tmp_differs T root w)"
      by (rule triple_bind [OF un], rule triple_pure,
          rule triple_weaken [OF triple_write_new]) (auto intro: E2)
  qed
qed

section \<open>What a maildir holds\<close>

definition maildir_has :: "(path \<Rightarrow> bytes option option) \<Rightarrow> path \<Rightarrow> string \<Rightarrow> bytes \<Rightarrow> bool" where
  "maildir_has T root k c \<longleftrightarrow>
     (\<exists>d \<in> {''new'', ''cur''}. \<exists>n. plain_name n \<and> fst (split_flags n) = k \<and> T (root @ [d, n]) = Some (Some c))"

text \<open>
  The well-formed maildirs: \<open>new\<close> and \<open>cur\<close> hold files only, and no key names two of them.
\<close>

definition maildir_ok :: "(path \<Rightarrow> bytes option option) \<Rightarrow> path \<Rightarrow> bool" where
  "maildir_ok T root \<longleftrightarrow>
     (\<forall>d \<in> {''new'', ''cur''}. \<forall>n. T (root @ [d, n]) \<noteq> None \<longrightarrow>
        plain_name n \<and> T (root @ [d]) = Some None \<and> T (root @ [d, n]) \<noteq> Some None) \<and>
     (\<forall>d \<in> {''new'', ''cur''}. \<forall>d' \<in> {''new'', ''cur''}. \<forall>n n'.
        T (root @ [d, n]) \<noteq> None \<longrightarrow> T (root @ [d', n']) \<noteq> None \<longrightarrow>
        fst (split_flags n) = fst (split_flags n') \<longrightarrow> d = d' \<and> n = n')"

lemma maildir_ok_file:
  "maildir_ok T root \<Longrightarrow> d \<in> {''new'', ''cur''} \<Longrightarrow> T (root @ [d, n]) \<noteq> None \<Longrightarrow>
   plain_name n \<and> T (root @ [d]) = Some None \<and> (\<exists>c. T (root @ [d, n]) = Some (Some c))"
  unfolding maildir_ok_def by (metis not_None_eq)

lemma maildir_ok_unique:
  "maildir_ok T root \<Longrightarrow> d \<in> {''new'', ''cur''} \<Longrightarrow> d' \<in> {''new'', ''cur''} \<Longrightarrow>
   T (root @ [d, n]) \<noteq> None \<Longrightarrow> T (root @ [d', n']) \<noteq> None \<Longrightarrow>
   fst (split_flags n) = fst (split_flags n') \<Longrightarrow> d = d' \<and> n = n'"
  unfolding maildir_ok_def by blast

lemma triple_find_in [triple_rules]:
  assumes "plain_name d"
  shows "triple (\<lambda>w. tree w = T) (find_in root key d)
     (\<lambda>r w. tree w = T \<and>
       (case r of
          Some (d', n) \<Rightarrow> d' = d \<and> plain_name n \<and> fst (split_flags n) = key \<and> T (root @ [d, n]) \<noteq> None
        | None \<Rightarrow> T (root @ [d]) = None \<or>
            (\<forall>n. plain_name n \<and> fst (split_flags n) = key \<longrightarrow> T (root @ [d, n]) = None)))
     (\<lambda>e w. tree w = T \<and> e \<noteq> ErrNotExist)"
  unfolding find_in_def
proof (rule triple_either)
  show "triple (\<lambda>w. tree w = T) (os_read_dir (pjoin root d))
     (\<lambda>es w. tree w = T \<and> fst ` set es = {n. T (root @ [d, n]) \<noteq> None \<and> plain_name n})
     (\<lambda>e w. tree w = T \<and> (e = ErrNotExist \<longrightarrow> T (root @ [d]) = None))"
    by (rule triple_weaken [OF triple_read_dir]) (use assms in auto)
next
  fix es :: "(string \<times> bool) list"
  let ?r = "map_option (\<lambda>(n, b). (d, n)) (find (\<lambda>(n, b). fst (split_flags n) = key) es)"
  have "case ?r of
          Some (d', n) \<Rightarrow> d' = d \<and> plain_name n \<and> fst (split_flags n) = key \<and> T (root @ [d, n]) \<noteq> None
        | None \<Rightarrow> T (root @ [d]) = None \<or>
            (\<forall>n. plain_name n \<and> fst (split_flags n) = key \<longrightarrow> T (root @ [d, n]) = None)"
    if es: "fst ` set es = {n. T (root @ [d, n]) \<noteq> None \<and> plain_name n}"
  proof (cases "find (\<lambda>(n, b). fst (split_flags n) = key) es")
    case None
    have "T (root @ [d, n]) = None" if n: "plain_name n" "fst (split_flags n) = key" for n
    proof (rule ccontr)
      assume "T (root @ [d, n]) \<noteq> None"
      with es n have "n \<in> fst ` set es" by simp
      then obtain b where "(n, b) \<in> set es" by auto
      with None n show False by (auto simp: find_None_iff)
    qed
    with None show ?thesis by simp
  next
    case (Some nb)
    from find_SomeD [OF this] have "fst nb \<in> fst ` set es" "fst (split_flags (fst nb)) = key"
      by auto
    with es Some show ?thesis by (auto simp: split: prod.splits)
  qed
  then show "triple (\<lambda>w. tree w = T \<and> fst ` set es = {n. T (root @ [d, n]) \<noteq> None \<and> plain_name n})
      (io_ret ?r)
      (\<lambda>r w. tree w = T \<and>
       (case r of
          Some (d', n) \<Rightarrow> d' = d \<and> plain_name n \<and> fst (split_flags n) = key \<and> T (root @ [d, n]) \<noteq> None
        | None \<Rightarrow> T (root @ [d]) = None \<or>
            (\<forall>n. plain_name n \<and> fst (split_flags n) = key \<longrightarrow> T (root @ [d, n]) = None)))
      (\<lambda>e w. tree w = T \<and> e \<noteq> ErrNotExist)"
    by (intro triple_ret) simp
next
  fix e
  show "triple (\<lambda>w. tree w = T \<and> (e = ErrNotExist \<longrightarrow> T (root @ [d]) = None))
      (if e = ErrNotExist then io_ret None else io_fail e)
      (\<lambda>r w. tree w = T \<and>
       (case r of
          Some (d', n) \<Rightarrow> d' = d \<and> plain_name n \<and> fst (split_flags n) = key \<and> T (root @ [d, n]) \<noteq> None
        | None \<Rightarrow> T (root @ [d]) = None \<or>
            (\<forall>n. plain_name n \<and> fst (split_flags n) = key \<longrightarrow> T (root @ [d, n]) = None)))
      (\<lambda>e w. tree w = T \<and> e \<noteq> ErrNotExist)"
    by (cases "e = ErrNotExist") (auto intro: triple_ret triple_fail)
qed

definition located :: "(path \<Rightarrow> bytes option option) \<Rightarrow> path \<Rightarrow> string \<Rightarrow> string \<times> string \<Rightarrow> bool" where
  "located T root key = (\<lambda>(d, n). d \<in> {''new'', ''cur''} \<and> plain_name n \<and>
     fst (split_flags n) = key \<and> T (root @ [d, n]) \<noteq> None)"

definition no_such_key :: "(path \<Rightarrow> bytes option option) \<Rightarrow> path \<Rightarrow> string \<Rightarrow> bool" where
  "no_such_key T root key \<longleftrightarrow> (maildir_ok T root \<longrightarrow> (\<forall>c. \<not> maildir_has T root key c))"

lemma no_such_keyI:
  assumes "\<And>d. d \<in> {''new'', ''cur''} \<Longrightarrow> T (root @ [d]) = None \<or>
      (\<forall>n. plain_name n \<and> fst (split_flags n) = key \<longrightarrow> T (root @ [d, n]) = None)"
  shows "no_such_key T root key"
  unfolding no_such_key_def maildir_has_def
proof (intro impI allI notI)
  fix c
  assume ok: "maildir_ok T root"
    and "\<exists>d \<in> {''new'', ''cur''}. \<exists>n. plain_name n \<and> fst (split_flags n) = key \<and>
      T (root @ [d, n]) = Some (Some c)"
  then obtain d n where dn: "d \<in> {''new'', ''cur''}" "plain_name n" "fst (split_flags n) = key"
      "T (root @ [d, n]) = Some (Some c)" by blast
  with maildir_ok_file [OF ok dn(1), of n] assms [OF dn(1)] show False by auto
qed

lemma triple_find [triple_rules]:
  "triple (\<lambda>w. tree w = T) (maildir_find root key)
     (\<lambda>dn w. tree w = T \<and> located T root key dn)
     (\<lambda>e w. tree w = T \<and> (e = ErrNotExist \<longrightarrow> no_such_key T root key))"
proof -
  let ?miss = "\<lambda>d. T (root @ [d]) = None \<or>
      (\<forall>n. plain_name n \<and> fst (split_flags n) = key \<longrightarrow> T (root @ [d, n]) = None)"
  let ?Q = "\<lambda>dn w. tree w = T \<and> located T root key dn"
  let ?E = "\<lambda>e w. tree w = T \<and> (e = ErrNotExist \<longrightarrow> no_such_key T root key)"
  have look: "triple (\<lambda>w. tree w = T) (io_bind (find_in root key d)
      (\<lambda>r. case r of Some dn \<Rightarrow> io_ret dn | None \<Rightarrow> k)) ?Q ?E"
    if d: "d \<in> {''new'', ''cur''}" and k: "?miss d \<Longrightarrow> triple (\<lambda>w. tree w = T) k ?Q ?E" for d k
  proof (rule triple_bind)
    show "triple (\<lambda>w. tree w = T) (find_in root key d)
       (\<lambda>r w. tree w = T \<and> (case r of None \<Rightarrow> ?miss d | Some dn \<Rightarrow> located T root key dn)) ?E"
      by (rule triple_weaken [OF triple_find_in])
        (use d in \<open>auto simp: located_def split: option.splits\<close>)
  next
    fix r
    show "triple (\<lambda>w. tree w = T \<and> (case r of None \<Rightarrow> ?miss d | Some dn \<Rightarrow> located T root key dn))
        (case r of Some dn \<Rightarrow> io_ret dn | None \<Rightarrow> k) ?Q ?E"
    proof (cases r)
      case None
      show ?thesis
        unfolding None option.case by (rule triple_pure) (rule k)
    qed (auto intro: triple_ret)
  qed
  show ?thesis
    unfolding maildir_find_def
  proof (rule look, simp, rule look, simp)
    assume "?miss ''new''" "?miss ''cur''"
    then have "no_such_key T root key" by (intro no_such_keyI) auto
    then show "triple (\<lambda>w. tree w = T) (io_fail ErrNotExist) ?Q ?E"
      by (auto intro: triple_fail)
  qed
qed

lemma located_path: "located T root key (d, n) \<Longrightarrow> pjoin (pjoin root d) n = root @ [d, n]"
  by (auto simp: located_def)

lemma triple_located:
  assumes "\<And>d n. located T root key (d, n) \<Longrightarrow> triple (\<lambda>w. tree w = T) (k (root @ [d, n])) Q (\<lambda>_ w. tree w = T)"
  shows "triple (\<lambda>w. tree w = T)
     (io_bind (maildir_find root key) (\<lambda>(d, n). k (pjoin (pjoin root d) n))) Q (\<lambda>_ w. tree w = T)"
proof (rule triple_bind)
  show "triple (\<lambda>w. tree w = T) (maildir_find root key)
      (\<lambda>dn w. tree w = T \<and> located T root key dn) (\<lambda>_ w. tree w = T)"
    by (rule triple_weaken [OF triple_find]) blast+
next
  fix dn :: "string \<times> string"
  obtain d n where dn: "dn = (d, n)" by force
  show "triple (\<lambda>w. tree w = T \<and> located T root key dn)
      (case dn of (d, n) \<Rightarrow> k (pjoin (pjoin root d) n)) Q (\<lambda>_ w. tree w = T)"
    by (rule triple_pure) (use dn assms in \<open>simp add: located_path\<close>)
qed

lemma triple_open [triple_rules]:
  "triple (\<lambda>w. tree w = T) (maildir_open root key)
     (\<lambda>c w. tree w = T \<and> maildir_has T root key c) (\<lambda>_ w. tree w = T)"
  unfolding maildir_open_def
proof (rule triple_located)
  fix d n
  assume "located T root key (d, n)"
  then show "triple (\<lambda>w. tree w = T) (os_read_file (root @ [d, n]))
      (\<lambda>c w. tree w = T \<and> maildir_has T root key c) (\<lambda>_ w. tree w = T)"
    by (intro triple_weaken [OF triple_read_file]) (auto simp: maildir_has_def located_def)
qed

lemma triple_maildir_stat [triple_rules]: "keeps_tree T (maildir_stat root key)"
  unfolding maildir_stat_def by (rule triple_located) (rule triple_stat)

lemma triple_maildir_remove [triple_rules]:
  assumes "maildir_ok T root"
  shows "triple (\<lambda>w. tree w = T) (maildir_remove root key)
     (\<lambda>_ w. \<exists>d n. located T root key (d, n) \<and> tree w = T(root @ [d, n] := None)) (\<lambda>_ w. tree w = T)"
  unfolding maildir_remove_def
  by (rule triple_located, rule triple_weaken [OF triple_remove]) blast+

lemma set_normal_letters: "set (normal_letters flags) = set flags \<inter> set ''DFRST''"
proof -
  have "(0 \<le> index_byte f c \<longleftrightarrow> c \<in> set f) \<and> -1 \<le> index_byte f c" for f c
    by (induction f) (auto simp: Let_def)
  then have "letter_in f c \<longleftrightarrow> c \<in> set f" for f c
    unfolding letter_in_def by (smt (verit))
  then show ?thesis by (auto simp: normal_letters_def flag_letters_def)
qed

lemma located_new_name:
  assumes "located T root key (d, n)"
  shows "plain_name (key @ '':2,'' @ normal_letters flags)"
    and "fst (split_flags (key @ '':2,'' @ normal_letters flags)) = key"
proof -
  from assms split_flags_sub [of n] have "CHR ''/'' \<notin> set key"
    by (auto simp: located_def plain_name_def)
  moreover have "CHR ''/'' \<notin> set (normal_letters flags)"
    by (auto simp: set_normal_letters)
  ultimately show "plain_name (key @ '':2,'' @ normal_letters flags)"
    by (auto simp: plain_name_def append_eq_Cons_conv)
  from assms key_ok_split [of n] have "key_ok key" by (simp add: located_def)
  from split_flags_join [OF this]
  show "fst (split_flags (key @ '':2,'' @ normal_letters flags)) = key" by (rule arg_cong [where f = fst, THEN trans]) simp
qed

lemma triple_set_flags [triple_rules]:
  assumes ok: "maildir_ok T root"
  shows "triple (\<lambda>w. tree w = T) (maildir_set_flags root key flags)
     (\<lambda>_ w. \<exists>d n c. located T root key (d, n) \<and> T (root @ [d, n]) = Some (Some c) \<and>
        T (root @ [''cur'']) = Some None \<and>
        tree w = T(root @ [d, n] := None, root @ [''cur'', key @ '':2,'' @ normal_letters flags] \<mapsto> Some c))
     (\<lambda>_ w. tree w = T)"
  unfolding maildir_set_flags_def Let_def
proof (rule triple_located)
  fix d n
  let ?new = "key @ '':2,'' @ normal_letters flags"
  assume loc: "located T root key (d, n)"
  with maildir_ok_file [OF ok, of d n] have nodir: "T (root @ [d, n]) \<noteq> Some None"
    by (auto simp: located_def)
  from located_new_name(1) [OF loc]
  have new: "pjoin (pjoin root ''cur'') ?new = root @ [''cur'', ?new]" by simp
  have bl: "butlast (root @ [''cur'', ?new]) = root @ [''cur'']" by (simp add: butlast_append)
  show "triple (\<lambda>w. tree w = T)
      (io_wrap ''updating flags'' (os_rename (root @ [d, n]) (pjoin (pjoin root ''cur'') ?new)))
      (\<lambda>_ w. \<exists>d n c. located T root key (d, n) \<and> T (root @ [d, n]) = Some (Some c) \<and>
        T (root @ [''cur'']) = Some None \<and>
        tree w = T(root @ [d, n] := None, root @ [''cur'', ?new] \<mapsto> Some c)) (\<lambda>_ w. tree w = T)"
    unfolding new
    by (rule triple_wrap, rule triple_weaken [OF triple_rename_file [where T = T, OF nodir]])
      (use loc bl in \<open>fastforce\<close>)+
qed

lemma with_dirs_file [simp]: "with_dirs D T p = Some (Some c) \<longleftrightarrow> T p = Some (Some c)"
  by (simp add: with_dirs_def)

lemma maildir_has_cong:
  assumes "\<And>d n. d \<in> {''new'', ''cur''} \<Longrightarrow> fst (split_flags n) = k \<Longrightarrow>
      T' (r @ [d, n]) = Some (Some c) \<longleftrightarrow> T (r @ [d, n]) = Some (Some c)"
  shows "maildir_has T' r k c = maildir_has T r k c"
  unfolding maildir_has_def using assms by blast

lemma maildir_has_with_dirs [simp]: "maildir_has (with_dirs D T) r k c = maildir_has T r k c"
  by (rule maildir_has_cong) simp

lemma maildir_has_upd_other:
  assumes "(r', k') \<noteq> (r, fst (split_flags n))"
  shows "maildir_has (T(r @ [d, n] := x)) r' k' c = maildir_has T r' k' c"
proof (rule maildir_has_cong)
  fix d' n'
  assume "fst (split_flags n') = k'"
  with assms have "r' @ [d', n'] \<noteq> r @ [d, n]" by auto
  then show "((T(r @ [d, n] := x)) (r' @ [d', n']) = Some (Some c)) = (T (r' @ [d', n']) = Some (Some c))"
    by (simp only: fun_upd_apply if_False)
qed

lemma has_located: "maildir_has T root key c \<longleftrightarrow>
    (\<exists>d n. located T root key (d, n) \<and> T (root @ [d, n]) = Some (Some c))"
  by (auto simp: maildir_has_def located_def)

text \<open>Moving a message within its maildir under a name with the same key keeps the maildir.\<close>

lemma move_same_key:
  assumes ok: "maildir_ok T root" and loc: "located T root key (d, n)"
    and c: "T (root @ [d, n]) = Some (Some c)" and cur: "T (root @ [''cur'']) = Some None"
    and new: "plain_name n'" "fst (split_flags n') = key"
    and T': "T' = T(root @ [d, n] := None, root @ [''cur'', n'] \<mapsto> Some c)"
  shows "maildir_ok T' root" and "maildir_has T' r k b = maildir_has T r k b"
proof -
  have key: "fst (split_flags n) = key" and d: "d \<in> {''new'', ''cur''}"
    using loc by (auto simp: located_def)
  have only: "d2 = d \<and> n2 = n" if "d2 \<in> {''new'', ''cur''}" "T (root @ [d2, n2]) \<noteq> None"
      "fst (split_flags n2) = key" for d2 n2
    using maildir_ok_unique [OF ok that(1) d, of n2 n] that c key by auto
  have T'_other: "T' (root @ [d2, n2]) = T (root @ [d2, n2])" if "fst (split_flags n2) \<noteq> key" for d2 n2
    using that key new unfolding T' by auto
  have T'_key: "T' (root @ [d2, n2]) = None \<or> d2 = ''cur'' \<and> n2 = n'"
    if "d2 \<in> {''new'', ''cur''}" "fst (split_flags n2) = key" for d2 n2
  proof (rule disjCI)
    assume "\<not> (d2 = ''cur'' \<and> n2 = n')"
    then have ne: "root @ [d2, n2] \<noteq> root @ [''cur'', n']" by simp
    show "T' (root @ [d2, n2]) = None"
    proof (cases "T (root @ [d2, n2]) = None")
      case False
      with only [OF that(1) _ that(2)] ne show ?thesis unfolding T' by simp
    qed (use ne in \<open>simp add: T'\<close>)
  qed
  have T'_new: "T' (root @ [''cur'', n']) = Some (Some c)" unfolding T' by simp
  have T'_dir: "T' (root @ [d2]) = T (root @ [d2])" for d2 unfolding T' by auto
  show "maildir_ok T' root"
    unfolding maildir_ok_def
  proof (intro conjI ballI allI impI, goal_cases)
    case (1 d2 n2)
    then show ?case
      using T'_key [of d2 n2] T'_other [of n2 d2] maildir_ok_file [OF ok, of d2 n2] new
      by (cases "fst (split_flags n2) = key") auto
  next
    case (2 d2 n2)
    then show ?case
      using T'_key [of d2 n2] T'_other [of n2 d2] maildir_ok_file [OF ok, of d2 n2] cur
      by (cases "fst (split_flags n2) = key") (auto simp: T'_dir)
  next
    case (3 d2 n2)
    then show ?case
      using T'_key [of d2 n2] T'_other [of n2 d2] maildir_ok_file [OF ok, of d2 n2] T'_new
      by (cases "fst (split_flags n2) = key") auto
  next
    case (4 d2 d3 n2 n3)
    then show ?case
      using T'_key [of d2 n2] T'_key [of d3 n3] T'_other [of n2 d2] T'_other [of n3 d3]
        maildir_ok_unique [OF ok, of d2 d3 n2 n3]
      by (cases "fst (split_flags n2) = key") auto
  next
    case (5 d2 d3 n2 n3)
    then show ?case
      using T'_key [of d2 n2] T'_key [of d3 n3] T'_other [of n2 d2] T'_other [of n3 d3]
        maildir_ok_unique [OF ok, of d2 d3 n2 n3]
      by (cases "fst (split_flags n2) = key") auto
  qed
  show "maildir_has T' r k b = maildir_has T r k b"
  proof (cases "r = root \<and> k = key")
    case False
    then show ?thesis
      unfolding T' using key new maildir_has_upd_other [of r k root n']
        maildir_has_upd_other [of r k root n] by simp
  next
    case True
    have "maildir_has T root key b \<longleftrightarrow> b = c"
    proof
      assume "maildir_has T root key b"
      then obtain d2 n2 where "located T root key (d2, n2)" "T (root @ [d2, n2]) = Some (Some b)"
        unfolding has_located by blast
      with only [of d2 n2] c show "b = c" by (simp add: located_def)
    qed (use loc c has_located in blast)
    moreover have "maildir_has T' root key b \<longleftrightarrow> b = c"
    proof
      assume "maildir_has T' root key b"
      then obtain d2 n2 where "d2 \<in> {''new'', ''cur''}" "fst (split_flags n2) = key"
        and b: "T' (root @ [d2, n2]) = Some (Some b)"
        unfolding maildir_has_def by blast
      with T'_key [of d2 n2] have "d2 = ''cur'' \<and> n2 = n'" by simp
      with b T'_new show "b = c" by simp
    next
      assume "b = c"
      with T'_new new show "maildir_has T' root key b" unfolding maildir_has_def by blast
    qed
    ultimately show ?thesis using True by simp
  qed
qed

section \<open>The interface of a message store\<close>

text \<open>
  What the users of a maildir rely on: a delivered message is there under the returned key and
  nothing else moved, a failed delivery changed no message, reading returns what is stored, and
  removal touches the one key. \<open>has s r k c\<close>: store \<open>r\<close> holds bytes \<open>c\<close> under key \<open>k\<close>.
\<close>

locale message_store =
  fixes has :: "'s \<Rightarrow> 'r \<Rightarrow> 'k \<Rightarrow> 'd \<Rightarrow> bool"
    and ok :: "'s \<Rightarrow> 'r \<Rightarrow> bool"
    and deliver :: "'r \<Rightarrow> 'd \<Rightarrow> ('s, 'k) io"
    and open_msg :: "'r \<Rightarrow> 'k \<Rightarrow> ('s, 'd) io"
    and remove_msg :: "'r \<Rightarrow> 'k \<Rightarrow> ('s, unit) io"
  assumes deliver_has: "deliver r d s = (Inr k, s') \<Longrightarrow> has s' r k d"
    and deliver_frame:
      "deliver r d s = (Inr k, s') \<Longrightarrow> (r', k') \<noteq> (r, k) \<Longrightarrow> has s' r' k' c = has s r' k' c"
    and deliver_err: "deliver r d s = (Inl e, s') \<Longrightarrow> has s' r' k' c = has s r' k' c"
    and open_has: "open_msg r k s = (Inr c, s') \<Longrightarrow> has s r k c"
    and open_frame: "open_msg r k s = (x, s') \<Longrightarrow> has s' r' k' c = has s r' k' c"
    and remove_frame:
      "ok s r \<Longrightarrow> remove_msg r k s = (y, s') \<Longrightarrow> (r', k') \<noteq> (r, k) \<Longrightarrow> has s' r' k' c = has s r' k' c"
    and remove_gone: "ok s r \<Longrightarrow> remove_msg r k s = (Inr u, s') \<Longrightarrow> \<not> has s' r k c"
    and remove_err: "ok s r \<Longrightarrow> remove_msg r k s = (Inl e, s') \<Longrightarrow> has s' r' k' c = has s r' k' c"
begin

text \<open>A copy through the interface, as \<open>COPY\<close> does it message by message.\<close>

lemma copy_ok:
  assumes "io_bind (open_msg r k) (deliver r') s = (Inr k', s')"
  shows "\<exists>c. has s r k c \<and> has s' r' k' c"
    and "(q, l) \<noteq> (r', k') \<Longrightarrow> has s' q l c = has s q l c"
proof -
  from assms obtain c t where o: "open_msg r k s = (Inr c, t)" and d: "deliver r' c t = (Inr k', s')"
    by (auto simp: io_bind_apply split: prod.splits sum.splits)
  from open_has [OF o] deliver_has [OF d] show "\<exists>c. has s r k c \<and> has s' r' k' c" by blast
  from open_frame [OF o] deliver_frame [OF d]
  show "has s' q l c = has s q l c" if "(q, l) \<noteq> (r', k')" for c using that by simp
qed

lemma copy_err:
  assumes "io_bind (open_msg r k) (deliver r') s = (Inl e, s')"
  shows "has s' q l c = has s q l c"
  using assms
  by (auto simp: io_bind_apply open_frame deliver_err split: prod.splits sum.splits)

end

abbreviation has_message :: "world \<Rightarrow> path \<Rightarrow> string \<Rightarrow> bytes \<Rightarrow> bool" where
  "has_message w \<equiv> maildir_has (tree w)"

lemma only_tmp_has: "only_tmp_differs T root w \<Longrightarrow> has_message w r k c = maildir_has T r k c"
  unfolding only_tmp_differs_def by (elim exE conjE, rule maildir_has_cong) fastforce

lemma deliver_tree:
  assumes "maildir_deliver root data w = (Inr name, w')"
  shows "message_name name \<and>
    tree w' = (with_dirs (maildir_dirs root) (tree w))(root @ [''new'', name] \<mapsto> Some data) \<and>
    with_dirs (maildir_dirs root) (tree w) (root @ [''new'']) = Some None"
  by (rule tripleD_ok [OF triple_deliver refl assms])

lemma remove_tree:
  assumes "maildir_ok (tree w) root" and "maildir_remove root key w = (Inr u, w')"
  shows "\<exists>d n. located (tree w) root key (d, n) \<and> tree w' = (tree w)(root @ [d, n] := None)"
  by (rule tripleD_ok [OF triple_maildir_remove [OF assms(1)] refl assms(2)])

lemma located_unique:
  assumes "maildir_ok T root" and "located T root key (d, n)" and "located T root key (d', n')"
  shows "d' = d \<and> n' = n"
  using assms maildir_ok_unique [OF assms(1), of d d' n n'] by (auto simp: located_def)

interpretation md: message_store "\<lambda>w. maildir_has (tree w)" "\<lambda>w. maildir_ok (tree w)"
  maildir_deliver maildir_open maildir_remove
proof
  fix r d s k s'
  assume "maildir_deliver r d s = (Inr k, s')"
  note T = deliver_tree [OF this]
  then have k: "split_flags k = (k, '''')" by (simp add: message_name_def)
  show "has_message s' r k d"
    using T k by (auto simp: maildir_has_def message_name_def)
  show "has_message s' r' k' c = has_message s r' k' c" if "(r', k') \<noteq> (r, k)" for r' k' c
    using T k that by (simp add: maildir_has_upd_other)
next
  fix r d s e s' r' k' c
  assume "maildir_deliver r d s = (Inl e, s')"
  from tripleD_err [OF triple_deliver refl this]
  show "has_message s' r' k' c = has_message s r' k' c" by (rule only_tmp_has)
next
  fix r k s c s'
  assume "maildir_open r k s = (Inr c, s')"
  from tripleD_ok [OF triple_open refl this] show "has_message s r k c" by simp
next
  fix r k s x s' r' k' c
  assume o: "maildir_open r k s = (x, s')"
  have "tree s' = tree s"
  proof (cases x)
    case (Inl e)
    from tripleD_err [OF triple_open refl o [unfolded Inl]] show ?thesis .
  next
    case (Inr c)
    from tripleD_ok [OF triple_open refl o [unfolded Inr]] show ?thesis by (rule conjunct1)
  qed
  then show "has_message s' r' k' c = has_message s r' k' c" by simp
next
  fix s r k x s' r' k' c
  assume ok: "maildir_ok (tree s) r" and rm: "maildir_remove r k s = (x, s')" and ne: "(r', k') \<noteq> (r, k)"
  show "has_message s' r' k' c = has_message s r' k' c"
  proof (cases x)
    case (Inl e)
    with tripleD_err [OF triple_maildir_remove [OF ok] refl] rm show ?thesis by auto
  next
    case (Inr u)
    with remove_tree [OF ok] rm obtain d n where "located (tree s) r k (d, n)"
      and "tree s' = (tree s)(r @ [d, n] := None)" by blast
    with ne show ?thesis by (auto simp: maildir_has_upd_other located_def)
  qed
next
  fix s r k u s' c
  assume ok: "maildir_ok (tree s) r" and rm: "maildir_remove r k s = (Inr u, s')"
  from remove_tree [OF this] obtain d n where loc: "located (tree s) r k (d, n)"
    and s': "tree s' = (tree s)(r @ [d, n] := None)" by blast
  show "\<not> has_message s' r k c"
  proof
    assume "has_message s' r k c"
    then obtain d' n' where loc': "located (tree s') r k (d', n')" unfolding has_located by blast
    then have "tree s' (r @ [d', n']) \<noteq> None" by (simp add: located_def)
    then have ne: "r @ [d', n'] \<noteq> r @ [d, n]" unfolding s' by (metis fun_upd_same)
    then have "tree s' (r @ [d', n']) = tree s (r @ [d', n'])"
      unfolding s' by (rule fun_upd_other)
    with loc' have "located (tree s) r k (d', n')" by (simp add: located_def)
    from located_unique [OF ok loc this] ne show False by simp
  qed
next
  fix s r k e s' r' k' c
  assume "maildir_ok (tree s) r" and "maildir_remove r k s = (Inl e, s')"
  then show "has_message s' r' k' c = has_message s r' k' c"
    using tripleD_err [OF triple_maildir_remove refl] by auto
qed

section \<open>Properties\<close>

text \<open>C20: delivery is atomic under every schedule of failures. When \<open>Deliver\<close> returns a name,
  that name is a plain file name without flags, the complete message is in \<open>new/\<close> under it, and
  apart from it the file tree only gained missing maildir directories. When it returns an error,
  every file outside \<open>tmp/\<close> is as it was, so no reader sees a truncated message. The database and
  the queue are not touched in either case.\<close>

theorem deliver_atomic:
  "case maildir_deliver root data w of
     (Inr name, w') \<Rightarrow> message_name name \<and>
        tree w' = (with_dirs (maildir_dirs root) (tree w))(root @ [''new'', name] \<mapsto> Some data) \<and>
        same_db w w'
   | (Inl e, w') \<Rightarrow> only_tmp_differs (tree w) root w' \<and> same_db w w'"
proof -
  have "keeps same_db (maildir_deliver root data)"
    unfolding maildir_deliver_def maildir_init_def unique_name_def write_new_def abandon_def Let_def
    by (intro fs_effects)
  from keepsD [OF this, of w] show ?thesis
    using tripleD_ok [OF triple_deliver refl, of root data w] tripleD_err [OF triple_deliver refl, of root data w]
    by (auto split: prod.splits sum.splits)
qed

lemma runs_maildir_init:
  assumes "\<And>q c. q \<in> maildir_dirs root \<Longrightarrow> T q \<noteq> Some (Some c)"
  shows "runs (calm T) (maildir_init root) (\<lambda>_. calm (with_dirs (maildir_dirs root) T))"
proof -
  let ?p = "\<lambda>d. set (path_prefixes (root @ [d]))"
  have step: "runs (calm (with_dirs D T)) (io_bind (io_wrap m (os_mkdir_all (pjoin root d))) k) Q"
    if "d \<in> {''tmp'', ''new'', ''cur''}" "\<And>x. runs (calm (with_dirs (?p d \<union> D) T)) (k x) Q"
    for d D m k and Q :: "unit \<Rightarrow> world \<Rightarrow> bool"
  proof (rule triple_bind [OF triple_wrap])
    have "T q \<noteq> Some (Some c)" if "q \<in> ?p d" for q c
      using that \<open>d \<in> _\<close> assms [of q c] by (auto simp: maildir_dirs_def)
    then show "runs (calm (with_dirs D T)) (os_mkdir_all (pjoin root d))
        (\<lambda>_. calm (with_dirs (?p d \<union> D) T))"
      by (intro triple_weaken [OF runs_mkdir_all [of _ "with_dirs D T"]])
        (use \<open>d \<in> _\<close> in auto)
  qed (rule that)
  have "runs (calm (with_dirs {} T)) (maildir_init root)
     (\<lambda>_. calm (with_dirs (?p ''cur'' \<union> (?p ''new'' \<union> (?p ''tmp'' \<union> {}))) T))"
    unfolding maildir_init_def io_for.simps
    by (rule step, simp, rule step, simp, rule step, simp, rule triple_ret)
  then show ?thesis by (simp add: maildir_dirs_def Un_ac)
qed

lemma runs_unique_name:
  "runs (calm T) unique_name (\<lambda>n w. calm T w \<and> message_name n)"
proof -
  have "runs (calm T) unique_name (\<lambda>_. calm T)"
    unfolding unique_name_def
    by (intro triple_bind [where R = "\<lambda>_. calm T"] triple_either [where R = "\<lambda>_. calm T" and F = "\<lambda>_. calm T"] triple_ret runs_simple)
      (auto intro: triple_weaken [OF runs_simple(4)])
  then show ?thesis
    by (intro tripleI) (auto dest: tripleD_ok tripleD_err unique_name_name)
qed

lemma maildir_dirs_length: "q \<in> maildir_dirs root \<Longrightarrow> length q \<le> length root + 1"
  by (auto simp: maildir_dirs_def path_prefixes_def)

lemma maildir_dirs_sub: "d \<in> {''tmp'', ''new'', ''cur''} \<Longrightarrow> root @ [d] \<in> maildir_dirs root"
  by (auto simp: maildir_dirs_def path_prefixes_def image_iff intro!: bexI [of _ "Suc (length root)"])

lemma with_dirs_maildir:
  "with_dirs (maildir_dirs root) T (root @ [d, n]) = T (root @ [d, n])"
  "d \<in> {''tmp'', ''new'', ''cur''} \<Longrightarrow> \<forall>c. T (root @ [d]) \<noteq> Some (Some c) \<Longrightarrow>
   with_dirs (maildir_dirs root) T (root @ [d]) = Some None"
proof -
  show "with_dirs (maildir_dirs root) T (root @ [d, n]) = T (root @ [d, n])"
    using maildir_dirs_length [of "root @ [d, n]" root] by (auto simp: with_dirs_def)
  show "d \<in> {''tmp'', ''new'', ''cur''} \<Longrightarrow> \<forall>c. T (root @ [d]) \<noteq> Some (Some c) \<Longrightarrow>
   with_dirs (maildir_dirs root) T (root @ [d]) = Some None"
    using maildir_dirs_sub [of d root] by (auto simp: with_dirs_def)
qed

lemma runs_write_new:
  assumes "message_name name" and "T (root @ [''tmp'']) = Some None" and "T (root @ [''new'']) = Some None"
    and "T (root @ [''tmp'', name]) = None" and "T (root @ [''new'', name]) \<noteq> Some None"
  shows "runs (calm T) (write_new root name data)
     (\<lambda>n w. n = name \<and> calm (T(root @ [''new'', name] \<mapsto> Some data)) w)"
proof -
  let ?t = "root @ [''tmp'', name]" and ?n = "root @ [''new'', name]"
  let ?E = "\<lambda>e w :: world. False"
  have pn: "pjoin (pjoin root d) name = root @ [d, name]" if "plain_name d" for d
    using assms(1) that by (simp add: message_name_def)
  have bl: "butlast (root @ [d, name]) = root @ [d]" for d by (simp add: butlast_append)
  have T: "T(?t := None) = T" using assms(4) by (rule fun_upd_idem)
  have cr: "runs (calm T) (io_wrap m (os_create_excl ?t)) (\<lambda>_. calm (T(?t \<mapsto> Some [])))" for m
    by (rule triple_wrap, rule runs_create_excl) (simp_all add: bl assms)
  have wr: "runs (calm (T(?t \<mapsto> Some []))) (file_write ?t data) (\<lambda>_. calm (T(?t \<mapsto> Some data)))"
    by (rule triple_weaken [OF runs_file_write [of "T(?t \<mapsto> Some [])" ?t "[]"]]) auto
  have rn: "runs (calm (T(?t \<mapsto> Some data))) (os_rename ?t ?n) (\<lambda>_. calm (T(?n \<mapsto> Some data)))"
    by (rule triple_weaken [OF runs_rename_file [of "T(?t \<mapsto> Some data)" ?t data]]) (use assms T in \<open>auto simp: bl\<close>)
  have h: "runs (\<lambda>_. False) (k :: string wio) Q" for k Q by (simp add: triple_def)
  show ?thesis
    unfolding write_new_def Let_def pn [OF plain_name_consts(1)] pn [OF plain_name_consts(2)]
    by (rule triple_bind [OF cr], rule triple_either [OF wr h],
        rule triple_either [OF runs_simple(1) h], rule triple_either [OF runs_simple(2) h],
        rule triple_either [OF rn h], rule triple_ret) simp
qed

text \<open>C20: without failures, \<open>Deliver\<close> succeeds on every maildir whose directories are not
  files, whose \<open>tmp/\<close> has no left-over of the chosen name and whose \<open>new/\<close> has no directory of
  that name: it creates what is missing and returns the key of the stored message.\<close>

theorem deliver_succeeds:
  assumes "faults w = []"
    and "\<forall>q \<in> maildir_dirs root. \<forall>c. tree w q \<noteq> Some (Some c)"
    and "\<forall>n. message_name n \<longrightarrow> tree w (root @ [''tmp'', n]) = None \<and> tree w (root @ [''new'', n]) \<noteq> Some None"
  shows "\<exists>name w'. maildir_deliver root data w = (Inr name, w') \<and> maildir_has (tree w') root name data"
proof -
  let ?T = "tree w" and ?T1 = "with_dirs (maildir_dirs root) (tree w)"
  have dir: "?T1 (root @ [d]) = Some None" if "d \<in> {''tmp'', ''new'', ''cur''}" for d
    using that assms(2) maildir_dirs_sub by (intro with_dirs_maildir(2)) blast+
  have "runs (calm ?T) (maildir_deliver root data) (\<lambda>_ _. True)"
    unfolding maildir_deliver_def
  proof (rule triple_bind [OF runs_maildir_init])
    show "runs (calm ?T1) (io_bind unique_name (\<lambda>name. write_new root name data)) (\<lambda>_ _. True)"
    proof (rule triple_bind [OF runs_unique_name], rule triple_pure)
      fix n
      assume n: "message_name n"
      show "runs (calm ?T1) (write_new root n data) (\<lambda>_ _. True)"
        by (rule triple_weaken [OF runs_write_new [OF n]])
          (use n assms(3) in \<open>simp_all add: dir with_dirs_maildir(1)\<close>)
    qed
  qed (use assms(2) in blast)
  with assms(1) have "case maildir_deliver root data w of (Inl e, w') \<Rightarrow> False | (Inr n, w') \<Rightarrow> True"
    by (auto simp: triple_def)
  then obtain name w' where d: "maildir_deliver root data w = (Inr name, w')"
    by (auto split: prod.splits sum.splits)
  from md.deliver_has [OF this] d show ?thesis by blast
qed

lemma deliver_succeeds_witness:
  "\<exists>name w'. maildir_deliver [''m'', ''bob''] ''hi'' blank_world = (Inr name, w') \<and>
     maildir_has (tree w') [''m'', ''bob''] name ''hi''"
  by (rule deliver_succeeds) simp_all

text \<open>The names given out by one process are distinct while the 64-bit counter does not
  wrap, and between times of up to twenty digits their byte order is the order of delivery,
  whatever the random part, the counter and the host name are.\<close>

theorem names_chronological:
  assumes "0 \<le> ts" and "ts < 10 ^ 20" and "0 \<le> ts'" and "ts' < 10 ^ 20"
  shows "(ts < ts' \<longrightarrow> format_name ts buf p n h < format_name ts' buf' p' n' h') \<and>
    (n \<noteq> n' \<longrightarrow> format_name ts buf p n h \<noteq> format_name ts' buf' p' n' h')"
proof (intro conjI impI)
  assume lt: "ts < ts'"
  have less_append: "a @ x < b @ y" if "a < b" "length a = length b" for a b x y :: string
    using that(2,1) by (induction a b rule: list_induct2) auto
  have "show_int_pad 20 ts < show_int_pad 20 ts'"
    using lt assms by (simp add: show_int_pad_less_iff)
  moreover have "length (show_int_pad 20 ts) = length (show_int_pad 20 ts')"
    using assms by (simp add: length_show_int_pad)
  ultimately show "format_name ts buf p n h < format_name ts' buf' p' n' h'"
    unfolding format_name_def by (rule less_append)
next
  assume "n \<noteq> n'"
  then show "format_name ts buf p n h \<noteq> format_name ts' buf' p' n' h'"
    using format_name_counter by blast
qed

lemma names_chronological_witness:
  "format_name 9 ''zz'' 1 7 ''mx'' < format_name 10 ''aa'' 1 8 ''mx'' \<and>
   format_name 9 ''zz'' 1 7 ''mx'' \<noteq> format_name 10 ''aa'' 1 8 ''mx''"
  using names_chronological [of 9 10 "''zz''" 1 7 "''mx''" "''aa''" 1 8 "''mx''"] by simp

lemma deliver_ok:
  assumes ok: "maildir_ok (tree w) root" and run: "maildir_deliver root data w = (Inr key, w')"
    and fresh: "\<forall>c. \<not> maildir_has (tree w) root key c"
  shows "maildir_ok (tree w') root"
proof -
  let ?T = "tree w" and ?T1 = "with_dirs (maildir_dirs root) (tree w)"
  from deliver_tree [OF run] have name: "message_name key"
    and w': "tree w' = ?T1(root @ [''new'', key] \<mapsto> Some data)"
    and new: "?T1 (root @ [''new'']) = Some None" by blast+
  from name have split: "fst (split_flags key) = key" by (simp add: message_name_def)
  have none: "fst (split_flags n) \<noteq> key" if "d \<in> {''new'', ''cur''}" "?T (root @ [d, n]) \<noteq> None" for d n
    using maildir_ok_file [OF ok that] fresh that unfolding maildir_has_def by blast
  have entry: "tree w' (root @ [d, n]) = (if d = ''new'' \<and> n = key then Some (Some data) else ?T (root @ [d, n]))"
    for d n unfolding w' by (simp add: with_dirs_maildir(1))
  have dir: "tree w' (root @ [d]) = ?T1 (root @ [d])" for d unfolding w' by simp
  have old: "plain_name n \<and> ?T1 (root @ [d]) = Some None \<and> ?T (root @ [d, n]) \<noteq> Some None"
    if "d \<in> {''new'', ''cur''}" "?T (root @ [d, n]) \<noteq> None" for d n
    using maildir_ok_file [OF ok that] by (auto simp: with_dirs_def)
  show ?thesis
    unfolding maildir_ok_def entry dir
  proof (intro conjI ballI allI impI, goal_cases)
    case (1 d n)
    then show ?case using old [of d n] name by (auto simp: message_name_def split: if_splits)
  next
    case (2 d n)
    then show ?case using old [of d n] new by (auto split: if_splits)
  next
    case (3 d n)
    then show ?case using old [of d n] by (auto split: if_splits)
  next
    case (4 d d' n n')
    then show ?case
      using none [of d n] none [of d' n'] maildir_ok_unique [OF ok, of d d' n n'] split
      by (auto split: if_splits)
  next
    case (5 d d' n n')
    then show ?case
      using none [of d n] none [of d' n'] maildir_ok_unique [OF ok, of d d' n n'] split
      by (auto split: if_splits)
  qed
qed

text \<open>C18: what was delivered is what is read back: on a well-formed maildir and under a key it
  did not hold, \<open>Deliver\<close> leaves a well-formed maildir, and \<open>Open\<close> of the returned key gives the
  delivered bytes.\<close>

theorem deliver_open_roundtrip:
  assumes "maildir_ok (tree w) root"
    and "maildir_deliver root data w = (Inr key, w1)"
    and "\<forall>c. \<not> maildir_has (tree w) root key c"
    and "maildir_open root key w1 = (Inr c, w2)"
  shows "maildir_ok (tree w1) root \<and> c = data \<and> tree w2 = tree w1"
proof -
  from deliver_ok [OF assms(1-3)] have ok: "maildir_ok (tree w1) root" .
  from md.deliver_has [OF assms(2)] obtain d n where 1: "located (tree w1) root key (d, n)"
    and c1: "tree w1 (root @ [d, n]) = Some (Some data)" unfolding has_located by blast
  from md.open_has [OF assms(4)] obtain d' n' where 2: "located (tree w1) root key (d', n')"
    and c2: "tree w1 (root @ [d', n']) = Some (Some c)" unfolding has_located by blast
  from located_unique [OF ok 1 2] c1 c2 have "c = data" by simp
  moreover have "tree w2 = tree w1"
    using tripleD_ok [OF triple_open refl assms(4)] by (rule conjunct1)
  ultimately show ?thesis using ok by simp
qed

lemma set_flags_facts:
  assumes ok: "maildir_ok (tree w) root"
    and run: "maildir_set_flags root key flags w = (Inr u, w')"
  shows "maildir_ok (tree w') root \<and>
    (\<forall>r k c. maildir_has (tree w') r k c = maildir_has (tree w) r k c) \<and>
    tree w' (root @ [''cur'', key @ '':2,'' @ normal_letters flags]) \<noteq> None \<and>
    sorted (normal_letters flags) \<and> distinct (normal_letters flags) \<and>
    set (normal_letters flags) = set flags \<inter> set ''DFRST''"
proof -
  from tripleD_ok [OF triple_set_flags [OF ok] refl run] obtain d n c where
    loc: "located (tree w) root key (d, n)" and c: "tree w (root @ [d, n]) = Some (Some c)"
    and cur: "tree w (root @ [''cur'']) = Some None"
    and w': "tree w' = (tree w)(root @ [d, n] := None, root @ [''cur'', key @ '':2,'' @ normal_letters flags] \<mapsto> Some c)"
    by blast
  have "sorted (normal_letters flags) \<and> distinct (normal_letters flags)"
    by (simp add: normal_letters_def flag_letters_def)
  moreover have "tree w' (root @ [''cur'', key @ '':2,'' @ normal_letters flags]) \<noteq> None"
    unfolding w' by simp
  ultimately show ?thesis
    using move_same_key [OF ok loc c cur located_new_name [OF loc] w'] set_normal_letters by blast
qed

text \<open>C17: \<open>SetFlags\<close> keeps every message: each key has the same contents afterwards, the
  maildir stays well formed, and the message now lies in \<open>cur/\<close> under its key with the given
  letters in ASCII order, each once and only letters of the Maildir standard.\<close>

theorem set_flags_keeps_messages:
  assumes "maildir_ok (tree w) root"
    and "maildir_set_flags root key flags w = (Inr u, w')"
  shows "maildir_ok (tree w') root \<and>
    (\<forall>r k c. maildir_has (tree w') r k c = maildir_has (tree w) r k c) \<and>
    tree w' (root @ [''cur'', key @ '':2,'' @ normal_letters flags]) \<noteq> None \<and>
    sorted (normal_letters flags) \<and> distinct (normal_letters flags) \<and>
    set (normal_letters flags) = set flags \<inter> set ''DFRST''"
  using assms by (rule set_flags_facts)

text \<open>A maildir with one message, for the witnesses.\<close>

definition small_world :: world where
  "small_world = blank_world\<lparr>nodes :=
     [([''m''], DirN), ([''m'', ''tmp''], DirN), ([''m'', ''new''], DirN), ([''m'', ''cur''], DirN),
      ([''m'', ''new'', ''7.a''], FileN ''hi'' 5)]\<rparr>"

lemma small_world_ok [simp]: "maildir_ok (tree small_world) [''m'']"
  unfolding maildir_ok_def
  by (auto simp: small_world_def tree_of_def plain_name_def split: if_splits)

lemma small_world_set_flags: "fst (maildir_set_flags [''m''] ''7.a'' ''S'' small_world) = Inr ()"
  by code_simp

lemma set_flags_keeps_messages_witness:
  "tree (snd (maildir_set_flags [''m''] ''7.a'' ''SD'' small_world)) [''m'', ''cur'', ''7.a:2,DS''] \<noteq> None"
proof -
  have "fst (maildir_set_flags [''m''] ''7.a'' ''SD'' small_world) = Inr ()"
    by code_simp
  then have run: "maildir_set_flags [''m''] ''7.a'' ''SD'' small_world =
      (Inr (), snd (maildir_set_flags [''m''] ''7.a'' ''SD'' small_world))"
    by (metis prod.collapse)
  have "normal_letters ''SD'' = ''DS''" by code_simp
  with set_flags_keeps_messages [OF small_world_ok run] show ?thesis by simp
qed

lemma small_world_has: "maildir_has (tree small_world) [''m''] k c \<Longrightarrow> k = ''7.a''"
  unfolding maildir_has_def
  by (auto simp: small_world_def tree_of_def split: if_splits)

lemma deliver_open_roundtrip_witness:
  "\<exists>key w1. maildir_deliver [''m''] ''yo'' small_world = (Inr key, w1) \<and>
     fst (maildir_open [''m''] key w1) = Inr ''yo''"
proof -
  let ?k = "format_name 7 (replicate 8 (CHR 0x00)) 3 1 ''mx''"
  let ?r = "maildir_deliver [''m''] ''yo'' small_world"
  have "fst ?r = Inr ?k" by code_simp
  then have d: "?r = (Inr ?k, snd ?r)" by (metis prod.collapse)
  have "?k \<noteq> ''7.a''" by code_simp
  then have fresh: "\<forall>c. \<not> maildir_has (tree small_world) [''m''] ?k c"
    using small_world_has by blast
  have "isl (fst (maildir_open [''m''] ?k (snd ?r))) = False" by code_simp
  then obtain c where "fst (maildir_open [''m''] ?k (snd ?r)) = Inr c"
    by (cases "fst (maildir_open [''m''] ?k (snd ?r))") auto
  then have "maildir_open [''m''] ?k (snd ?r) = (Inr c, snd (maildir_open [''m''] ?k (snd ?r)))"
    by (metis prod.collapse)
  from deliver_open_roundtrip [OF small_world_ok d fresh this] d
  show ?thesis by (metis \<open>fst (maildir_open [''m''] ?k (snd ?r)) = Inr c\<close>)
qed

lemma triple_read_dir_or_empty:
  assumes ok: "maildir_ok T root" and d: "d \<in> {''new'', ''cur''}"
  shows "triple (\<lambda>w. tree w = T) (read_dir_or_empty root d)
     (\<lambda>es w. tree w = T \<and> distinct (map fst es) \<and> (\<forall>(n, b) \<in> set es. \<not> b) \<and>
        fst ` set es = {n. T (root @ [d, n]) \<noteq> None}) (\<lambda>_ w. tree w = T)"
  unfolding read_dir_or_empty_def
proof (rule triple_either)
  have plain: "plain_name d" using d by auto
  have files: "T (root @ [d, n]) = Some y \<Longrightarrow> plain_name n" for n y
    using maildir_ok_file [OF ok d, of n] by auto
  have nodir: "T (root @ [d, n]) \<noteq> Some None" for n
    using maildir_ok_file [OF ok d, of n] by auto
  show "triple (\<lambda>w. tree w = T) (os_read_dir (pjoin root d))
     (\<lambda>es w. tree w = T \<and> distinct (map fst es) \<and> (\<forall>(n, b) \<in> set es. \<not> b) \<and>
        fst ` set es = {n. T (root @ [d, n]) \<noteq> None})
     (\<lambda>e w. tree w = T \<and> (e = ErrNotExist \<longrightarrow> T (root @ [d]) = None))"
    by (rule triple_weaken [OF triple_read_dir]) (use files nodir in \<open>auto simp: pjoin_plain [OF plain]\<close>)
next
  fix e
  have "T (root @ [d]) = None \<Longrightarrow> T (root @ [d, n]) = None" for n
    using maildir_ok_file [OF ok d, of n] by (cases "T (root @ [d, n])") auto
  then show "triple (\<lambda>w. tree w = T \<and> (e = ErrNotExist \<longrightarrow> T (root @ [d]) = None))
     (if e = ErrNotExist then io_ret [] else io_fail (Wrapped (''reading '' @ d @ ''/'') e))
     (\<lambda>es w. tree w = T \<and> distinct (map fst es) \<and> (\<forall>(n, b) \<in> set es. \<not> b) \<and>
        fst ` set es = {n. T (root @ [d, n]) \<noteq> None}) (\<lambda>_ w. tree w = T)"
    by (auto intro!: triple_ret triple_fail)
next
  fix es
  show "triple (\<lambda>w. tree w = T \<and> distinct (map fst es) \<and> (\<forall>(n, b) \<in> set es. \<not> b) \<and>
        fst ` set es = {n. T (root @ [d, n]) \<noteq> None}) (io_ret es)
     (\<lambda>es w. tree w = T \<and> distinct (map fst es) \<and> (\<forall>(n, b) \<in> set es. \<not> b) \<and>
        fst ` set es = {n. T (root @ [d, n]) \<noteq> None}) (\<lambda>_ w. tree w = T)"
    by (rule triple_ret)
qed

lemma disk_messages_files:
  assumes "\<forall>(n, b) \<in> set es. \<not> b"
  shows "disk_messages b es =
    map (\<lambda>n. \<lparr>dm_key = fst (split_flags n), dm_flags = snd (split_flags n), dm_in_new = b\<rparr>) (map fst es)"
proof -
  have "filter (\<lambda>(n, d). \<not> d) es = es" using assms by (auto simp: filter_id_conv)
  then show ?thesis by (auto simp: disk_messages_def)
qed

lemma list_facts:
  assumes ok: "maildir_ok (tree w) root" and run: "maildir_list root w = (Inr ms, w')"
  shows "sorted (map dm_key ms) \<and> distinct (map dm_key ms) \<and> tree w' = tree w \<and>
    (\<forall>m. m \<in> set ms \<longleftrightarrow> (\<exists>n. tree w (root @ [if dm_in_new m then ''new'' else ''cur'', n]) \<noteq> None \<and>
        split_flags n = (dm_key m, dm_flags m)))"
proof -
  let ?T = "tree w" and ?m = "\<lambda>b n. \<lparr>dm_key = fst (split_flags n), dm_flags = snd (split_flags n), dm_in_new = b\<rparr>"
  let ?ent = "\<lambda>d es. distinct (map fst es) \<and> (\<forall>(n, b) \<in> set es. \<not> b) \<and>
        fst ` set es = {n. ?T (root @ [d, n]) \<noteq> None}"
  have "triple (\<lambda>w. tree w = ?T) (maildir_list root)
     (\<lambda>ms w. tree w = ?T \<and> (\<exists>es es'. ?ent ''new'' es \<and> ?ent ''cur'' es' \<and>
        ms = sort_key dm_key (disk_messages True es @ disk_messages False es'))) (\<lambda>_ w. tree w = ?T)"
    unfolding maildir_list_def
  proof (rule triple_bind [OF triple_read_dir_or_empty [OF ok, of "''new''"]], simp, rule triple_pure,
      rule triple_bind [OF triple_read_dir_or_empty [OF ok, of "''cur''"]], simp, rule triple_pure,
      rule triple_ret, goal_cases)
    case (1 es es' s)
    show ?case
      by (rule conjI, rule 1(3), rule exI [of _ es], rule exI [of _ es'],
          rule conjI [OF 1(1) conjI [OF 1(2) refl]])
  qed
  from tripleD_ok [OF this refl run] obtain es es' where w': "tree w' = ?T"
    and es: "?ent ''new'' es" and es': "?ent ''cur'' es'"
    and ms: "ms = sort_key dm_key (disk_messages True es @ disk_messages False es')" by blast
  define ns ns' where "ns = map fst es" and "ns' = map fst es'"
  have dist: "distinct ns" "distinct ns'"
    and ns: "set ns = {n. ?T (root @ [''new'', n]) \<noteq> None}"
    and ns': "set ns' = {n. ?T (root @ [''cur'', n]) \<noteq> None}"
    using es es' by (simp_all add: ns_def ns'_def)
  have "\<forall>(n, b) \<in> set es. \<not> b" "\<forall>(n, b) \<in> set es'. \<not> b" using es es' by simp_all
  with ms have ms: "ms = sort_key dm_key (map (?m True) ns @ map (?m False) ns')"
    by (simp only: disk_messages_files ns_def ns'_def)
  have keys: "fst (split_flags n) \<noteq> fst (split_flags n')" if "n \<in> set ns" "n' \<in> set ns'" for n n'
    using maildir_ok_unique [OF ok, of "''new''" "''cur''" n n'] that ns ns' by auto
  have inj: "inj_on (\<lambda>n. fst (split_flags n)) (set ns)" "inj_on (\<lambda>n. fst (split_flags n)) (set ns')"
  proof -
    have "x = y" if "d \<in> {''new'', ''cur''}" "?T (root @ [d, x]) \<noteq> None" "?T (root @ [d, y]) \<noteq> None"
      "fst (split_flags x) = fst (split_flags y)" for d x y
      using maildir_ok_unique [OF ok that(1) that(1) that(2-4)] by simp
    from this [of "''new''"] this [of "''cur''"]
    show "inj_on (\<lambda>n. fst (split_flags n)) (set ns)" "inj_on (\<lambda>n. fst (split_flags n)) (set ns')"
      unfolding inj_on_def ns ns' by simp_all
  qed
  have "distinct (map dm_key (map (?m True) ns @ map (?m False) ns'))"
    using dist inj keys by (auto simp: distinct_map comp_def)
  then have "distinct (map dm_key ms)"
    unfolding ms by (simp only: distinct_map [of dm_key] distinct_sort set_sort)
  moreover have "m \<in> set ms \<longleftrightarrow> (\<exists>n. ?T (root @ [if dm_in_new m then ''new'' else ''cur'', n]) \<noteq> None \<and>
        split_flags n = (dm_key m, dm_flags m))" for m
    unfolding ms using ns ns' by (cases m) (auto simp: image_iff prod_eq_iff)
  ultimately show ?thesis using w' ms by simp
qed

text \<open>C18: \<open>List\<close> is complete and sorted: on a well-formed maildir it returns exactly one entry
  per message file of \<open>new/\<close> and \<open>cur/\<close>, with its key, its flag letters and where it lies, in
  strictly increasing key order, so each key once; nothing on disk changes.\<close>

theorem list_sorted_complete:
  assumes "maildir_ok (tree w) root" and "maildir_list root w = (Inr ms, w')"
  shows "sorted (map dm_key ms) \<and> distinct (map dm_key ms) \<and> tree w' = tree w \<and>
    (\<forall>m. m \<in> set ms \<longleftrightarrow> (\<exists>n. tree w (root @ [if dm_in_new m then ''new'' else ''cur'', n]) \<noteq> None \<and>
        split_flags n = (dm_key m, dm_flags m)))"
  using assms by (rule list_facts)

lemma list_sorted_complete_witness:
  "\<exists>ms w'. maildir_list [''m''] small_world = (Inr ms, w') \<and> ''7.a'' \<in> set (map dm_key ms)"
proof -
  let ?r = "maildir_list [''m''] small_world"
  have "isl (fst ?r) = False" by code_simp
  then obtain ms where "?r = (Inr ms, snd ?r)" by (cases "fst ?r") (auto simp: prod_eq_iff)
  from list_sorted_complete [OF small_world_ok this] this show ?thesis
    by (auto simp: image_iff small_world_def tree_of_def
        intro!: bexI [of _ "\<lparr>dm_key = ''7.a'', dm_flags = '''', dm_in_new = True\<rparr>"] exI [of _ "''7.a''"])
qed

end
