(* ===== verification/Store.thy ===== *)
theory Store
  imports World
begin

text \<open>
  \<open>internal/store\<close>: the directory of domains and users, the mailbox and message index, the
  forwarding rules and the relay settings, on SQLite or Postgres.

  A SQL statement is a function on the tables, with the UNIQUE, REFERENCES and ON DELETE CASCADE
  clauses of the schema written out; \<open>db_get\<close>, \<open>db_select\<close> and \<open>db_exec\<close> run one statement, which
  may fail with the connection; \<open>in_tx\<close> is a transaction that rolls back. Each operation makes the
  statements of its Go function in order, with the branches on the driver. An identifier that a
  failed insert may use up is not modelled; the \<open>ORDER BY\<close> collation is byte order.

  What is shown: every operation keeps the schema's constraints under every schedule of failures;
  an assigned UID is above every UID of its mailbox and a failed assignment changes nothing;
  deleting a user leaves no row of theirs and no row of another user changes; both drivers
  give the same results; a created user can be looked up and verified.
\<close>

section \<open>Statements\<close>

datatype driver = Sqlite | Postgres

text \<open>\<open>so_fk\<close>: the database enforces REFERENCES and its cascades.\<close>

record store =
  so_driver :: driver
  so_fk :: bool

definition db_select :: "(database \<Rightarrow> 'a) \<Rightarrow> 'a wio" where
  "db_select f = may_fail ErrDB (io_gets (\<lambda>w. f (db w)))"

definition db_get :: "(database \<Rightarrow> 'a option) \<Rightarrow> 'a wio" where
  "db_get f = may_fail ErrDB (\<lambda>w.
     case f (db w) of None \<Rightarrow> (Inl ErrNoRows, w) | Some x \<Rightarrow> (Inr x, w))"

text \<open>A statement that writes: an error of the database, or the new tables and a result.\<close>

definition db_exec :: "(database \<Rightarrow> goerr + 'a \<times> database) \<Rightarrow> 'a wio" where
  "db_exec f = may_fail ErrDB (\<lambda>w.
     case f (db w) of Inl e \<Rightarrow> (Inl e, w) | Inr (x, d) \<Rightarrow> (Inr x, w\<lparr>db := d\<rparr>))"

definition in_tx :: "'a wio \<Rightarrow> 'a wio" where
  "in_tx m = may_fail ErrDB (\<lambda>w.
     case io_bind m (\<lambda>x. may_fail ErrDB (io_ret x)) w of
       (Inl e, w') \<Rightarrow> (Inl e, w'\<lparr>db := db w\<rparr>)
     | (Inr x, w') \<Rightarrow> (Inr x, w'))"

definition insert_domain :: "string \<Rightarrow> database \<Rightarrow> goerr + domain_row \<times> database" where
  "insert_domain name d =
     (if \<exists>r \<in> set (domains_t d). dom_name r = name then Inl ErrUnique
      else let r = \<lparr>dom_id = domains_seq d + 1, dom_name = name\<rparr>
           in Inr (r, d\<lparr>domains_t := domains_t d @ [r], domains_seq := domains_seq d + 1\<rparr>))"

definition insert_user ::
  "bool \<Rightarrow> int \<Rightarrow> string \<Rightarrow> string \<Rightarrow> string \<Rightarrow> bool \<Rightarrow> database \<Rightarrow> goerr + user_row \<times> database" where
  "insert_user fk did local email hash admin d =
     (if \<exists>r \<in> set (users_t d). usr_email r = email \<or> (usr_domain_id r = did \<and> usr_local_part r = local)
      then Inl ErrUnique
      else if fk \<and> did \<notin> dom_id ` set (domains_t d) then Inl ErrForeignKey
      else let r = \<lparr>usr_id = users_seq d + 1, usr_domain_id = did, usr_local_part = local,
                    usr_email = email, usr_password_hash = hash, usr_is_admin = admin\<rparr>
           in Inr (r, d\<lparr>users_t := users_t d @ [r], users_seq := users_seq d + 1\<rparr>))"

definition insert_mailbox ::
  "bool \<Rightarrow> int \<Rightarrow> string \<Rightarrow> u32 \<Rightarrow> database \<Rightarrow> goerr + mailbox_row \<times> database" where
  "insert_mailbox fk uid name validity d =
     (if \<exists>r \<in> set (mailboxes_t d). mbx_user_id r = uid \<and> mbx_name r = name then Inl ErrUnique
      else if fk \<and> uid \<notin> usr_id ` set (users_t d) then Inl ErrForeignKey
      else let r = \<lparr>mbx_id = mailboxes_seq d + 1, mbx_user_id = uid, mbx_name = name,
                    mbx_uid_validity = validity, mbx_uid_next = 1, mbx_subscribed = True\<rparr>
           in Inr (r, d\<lparr>mailboxes_t := mailboxes_t d @ [r], mailboxes_seq := mailboxes_seq d + 1\<rparr>))"

definition insert_message_row ::
  "bool \<Rightarrow> int \<Rightarrow> u32 \<Rightarrow> string \<Rightarrow> string \<Rightarrow> int \<Rightarrow> int \<Rightarrow> database \<Rightarrow> goerr + unit \<times> database" where
  "insert_message_row fk mid uid key flags date sz d =
     (if \<exists>r \<in> set (messages_t d). msg_mailbox_id r = mid \<and> (msg_uid r = uid \<or> msg_maildir_key r = key)
      then Inl ErrUnique
      else if fk \<and> mid \<notin> mbx_id ` set (mailboxes_t d) then Inl ErrForeignKey
      else Inr ((), d\<lparr>messages_t := messages_t d @
             [\<lparr>msg_id = messages_seq d + 1, msg_mailbox_id = mid, msg_uid = uid, msg_maildir_key = key,
               msg_flags = flags, msg_internal_date = date, msg_size = sz\<rparr>],
             messages_seq := messages_seq d + 1\<rparr>))"

definition update_mailbox ::
  "(mailbox_row \<Rightarrow> mailbox_row) \<Rightarrow> int \<Rightarrow> database \<Rightarrow> goerr + unit \<times> database" where
  "update_mailbox f mid d =
     Inr ((), d\<lparr>mailboxes_t := map (\<lambda>r. if mbx_id r = mid then f r else r) (mailboxes_t d)\<rparr>)"

text \<open>\<open>UPDATE mailboxes SET name\<close>, which UNIQUE(user_id, name) may reject.\<close>

definition update_mailbox_name :: "string \<Rightarrow> int \<Rightarrow> database \<Rightarrow> goerr + unit \<times> database" where
  "update_mailbox_name name mid d =
     (if \<exists>r \<in> set (mailboxes_t d). \<exists>q \<in> set (mailboxes_t d). mbx_id r = mid \<and> mbx_id q \<noteq> mid \<and>
          mbx_user_id q = mbx_user_id r \<and> mbx_name q = name
      then Inl ErrUnique else update_mailbox (\<lambda>r. r\<lparr>mbx_name := name\<rparr>) mid d)"

definition delete_messages :: "(message_row \<Rightarrow> bool) \<Rightarrow> database \<Rightarrow> goerr + unit \<times> database" where
  "delete_messages P d = Inr ((), d\<lparr>messages_t := filter (\<lambda>r. \<not> P r) (messages_t d)\<rparr>)"

text \<open>Deletion with ON DELETE CASCADE through the tables below.\<close>

definition delete_mailboxes :: "bool \<Rightarrow> (mailbox_row \<Rightarrow> bool) \<Rightarrow> database \<Rightarrow> database" where
  "delete_mailboxes fk P d =
     (let gone = map mbx_id (filter P (mailboxes_t d)) in
      d\<lparr>mailboxes_t := filter (\<lambda>r. \<not> P r) (mailboxes_t d),
        messages_t := filter (\<lambda>r. \<not> (fk \<and> msg_mailbox_id r \<in> set gone)) (messages_t d)\<rparr>)"

definition delete_user_row :: "bool \<Rightarrow> int \<Rightarrow> database \<Rightarrow> database" where
  "delete_user_row fk uid d =
     (let d' = d\<lparr>users_t := filter (\<lambda>r. usr_id r \<noteq> uid) (users_t d)\<rparr> in
      if fk \<and> uid \<in> usr_id ` set (users_t d)
      then delete_mailboxes True (\<lambda>r. mbx_user_id r = uid)
             (d'\<lparr>forwarding_t := filter (\<lambda>r. fwd_user_id r \<noteq> uid) (forwarding_t d)\<rparr>)
      else d')"

section \<open>Domains and users (\<open>store.go\<close>)\<close>

definition if_no_rows :: "'a wio \<Rightarrow> 'a wio \<Rightarrow> 'a wio" where
  "if_no_rows m n = io_either m (\<lambda>e. if e = ErrNoRows then n else io_fail e) io_ret"

text \<open>\<open>pragma_fk\<close>: whether the driver reads \<open>foreign_keys(ON)\<close> from a DSN with its own options.\<close>

definition store_open :: "(string \<Rightarrow> bool) \<Rightarrow> string \<Rightarrow> string \<Rightarrow> store wio" where
  "store_open pragma_fk driver dsn =
     (if driver = ''sqlite'' then
        (if dsn = '''' then io_fail (ErrMsg ''sqlite dsn (file path) is required'')
         else let dsn = (if CHR ''?'' \<in> set dsn then dsn
                else dsn @ ''?_pragma=busy_timeout(5000)&_pragma=journal_mode(WAL)&_pragma=foreign_keys(ON)'')
           in io_bind (io_wrap ''opening database'' (db_select (\<lambda>_. ()))) (\<lambda>_.
              io_bind (io_wrap ''connecting to database'' (db_select (\<lambda>_. ()))) (\<lambda>_.
              io_bind (io_wrap ''running migrations'' (db_select (\<lambda>_. ()))) (\<lambda>_.
              io_ret \<lparr>so_driver = Sqlite, so_fk = pragma_fk dsn\<rparr>))))
      else if driver = ''postgres'' then
        io_bind (io_wrap ''opening database'' (db_select (\<lambda>_. ()))) (\<lambda>_.
        io_bind (io_wrap ''connecting to database'' (db_select (\<lambda>_. ()))) (\<lambda>_.
        io_bind (io_wrap ''running migrations'' (db_select (\<lambda>_. ()))) (\<lambda>_.
        io_ret \<lparr>so_driver = Postgres, so_fk = True\<rparr>)))
      else io_fail (ErrMsg (''unsupported database driver '' @ driver)))"

definition domain_exists :: "string \<Rightarrow> bool wio" where
  "domain_exists name =
     db_select (\<lambda>d. 0 < length (filter (\<lambda>r. dom_name r = to_lower name) (domains_t d)))"

definition ensure_domain :: "store \<Rightarrow> string \<Rightarrow> domain_row wio" where
  "ensure_domain s name0 =
     (let name = to_lower name0 in
      if_no_rows (db_get (\<lambda>d. find (\<lambda>r. dom_name r = name) (domains_t d)))
        (case so_driver s of
           Postgres \<Rightarrow> db_exec (insert_domain name)
         | Sqlite \<Rightarrow> io_bind (db_exec (insert_domain name)) (\<lambda>r.
             db_get (\<lambda>d. find (\<lambda>q. dom_id q = dom_id r) (domains_t d)))))"

definition not_found :: "'a wio \<Rightarrow> 'a wio" where
  "not_found m = if_no_rows m (io_fail ErrNotFound)"

definition get_user_by_email :: "string \<Rightarrow> user_row wio" where
  "get_user_by_email email =
     not_found (db_get (\<lambda>d. find (\<lambda>r. usr_email r = to_lower email) (users_t d)))"

definition get_user_by_id :: "int \<Rightarrow> user_row wio" where
  "get_user_by_id uid = not_found (db_get (\<lambda>d. find (\<lambda>r. usr_id r = uid) (users_t d)))"

definition list_users :: "user_row list wio" where
  "list_users = db_select (\<lambda>d. sort_key usr_email (users_t d))"

definition delete_user :: "store \<Rightarrow> int \<Rightarrow> unit wio" where
  "delete_user s uid = db_exec (\<lambda>d. Inr ((), delete_user_row (so_fk s) uid d))"

text \<open>
  bcrypt is a parameter: a hash from a salt and a password (it refuses some passwords), and the
  comparison.
\<close>

record bcrypt =
  bc_generate :: "bytes \<Rightarrow> string \<Rightarrow> string option"
  bc_compare :: "string \<Rightarrow> string \<Rightarrow> bool"

definition hash_password :: "bcrypt \<Rightarrow> string \<Rightarrow> string wio" where
  "hash_password B pw = io_wrap ''hashing password'' (io_bind (rand_read 16) (\<lambda>salt.
     case bc_generate B salt pw of None \<Rightarrow> io_fail (ErrMsg ''bcrypt'') | Some h \<Rightarrow> io_ret h))"

definition create_user :: "bcrypt \<Rightarrow> store \<Rightarrow> string \<Rightarrow> string \<Rightarrow> string \<Rightarrow> bool \<Rightarrow> user_row wio" where
  "create_user B s domain_name0 local_part0 password is_admin =
     (let domain_name = to_lower domain_name0; local_part = to_lower local_part0 in
      io_bind (io_wrap ''ensuring domain'' (ensure_domain s domain_name)) (\<lambda>domain.
      io_bind (hash_password B password) (\<lambda>hash.
      let email = local_part @ ''@'' @ domain_name;
          ins = db_exec (insert_user (so_fk s) (dom_id domain) local_part email hash is_admin) in
      (case so_driver s of
         Postgres \<Rightarrow> ins
       | Sqlite \<Rightarrow> io_bind ins (\<lambda>_. get_user_by_email email)))))"

definition set_password :: "bcrypt \<Rightarrow> int \<Rightarrow> string \<Rightarrow> unit wio" where
  "set_password B uid pw =
     io_bind (hash_password B pw) (\<lambda>hash.
     db_exec (\<lambda>d. Inr ((), d\<lparr>users_t := map (\<lambda>r. if usr_id r = uid then r\<lparr>usr_password_hash := hash\<rparr> else r)
       (users_t d)\<rparr>)))"

definition verify_password :: "bcrypt \<Rightarrow> user_row \<Rightarrow> string \<Rightarrow> bool" where
  "verify_password B u pw = bc_compare B (usr_password_hash u) pw"

section \<open>Mailboxes and messages (\<open>mailbox.go\<close>)\<close>

definition get_mailbox :: "int \<Rightarrow> string \<Rightarrow> mailbox_row wio" where
  "get_mailbox uid name = not_found (db_get (\<lambda>d.
     find (\<lambda>r. mbx_user_id r = uid \<and> mbx_name r = name) (mailboxes_t d)))"

text \<open>\<open>uint32(time.Now().Unix())\<close>.\<close>

definition unix_u32 :: "int \<Rightarrow> u32" where
  "unix_u32 ns = word_of_int (ns div 10 ^ 9)"

definition ensure_mailbox :: "store \<Rightarrow> int \<Rightarrow> string \<Rightarrow> mailbox_row wio" where
  "ensure_mailbox s uid name =
     io_either (get_mailbox uid name)
       (\<lambda>e. if e \<noteq> ErrNotFound then io_fail e
            else io_bind time_now (\<lambda>now.
              let ins = db_exec (insert_mailbox (so_fk s) uid name (unix_u32 now)) in
              case so_driver s of
                Postgres \<Rightarrow> ins
              | Sqlite \<Rightarrow> io_bind ins (\<lambda>_. get_mailbox uid name)))
       io_ret"

definition list_mailboxes :: "int \<Rightarrow> mailbox_row list wio" where
  "list_mailboxes uid = db_select (\<lambda>d.
     sort_key mbx_name (filter (\<lambda>r. mbx_user_id r = uid) (mailboxes_t d)))"

definition delete_mailbox :: "store \<Rightarrow> int \<Rightarrow> unit wio" where
  "delete_mailbox s mid = db_exec (\<lambda>d. Inr ((), delete_mailboxes (so_fk s) (\<lambda>r. mbx_id r = mid) d))"

definition rename_mailbox :: "int \<Rightarrow> string \<Rightarrow> unit wio" where
  "rename_mailbox mid name = db_exec (update_mailbox_name name mid)"

definition set_mailbox_subscribed :: "int \<Rightarrow> bool \<Rightarrow> unit wio" where
  "set_mailbox_subscribed mid b = db_exec (update_mailbox (\<lambda>r. r\<lparr>mbx_subscribed := b\<rparr>) mid)"

definition list_messages :: "int \<Rightarrow> message_row list wio" where
  "list_messages mid = db_select (\<lambda>d.
     sort_key msg_uid (filter (\<lambda>r. msg_mailbox_id r = mid) (messages_t d)))"

definition insert_message :: "store \<Rightarrow> int \<Rightarrow> string \<Rightarrow> string \<Rightarrow> int \<Rightarrow> int \<Rightarrow> u32 wio" where
  "insert_message s mid key flags date sz = in_tx (
     io_bind (db_get (\<lambda>d. map_option mbx_uid_next (find (\<lambda>r. mbx_id r = mid) (mailboxes_t d)))) (\<lambda>uid_next.
     io_bind (db_exec (insert_message_row (so_fk s) mid uid_next key flags date sz)) (\<lambda>_.
     io_bind (db_exec (update_mailbox (\<lambda>r. r\<lparr>mbx_uid_next := uid_next + 1\<rparr>) mid)) (\<lambda>_.
     io_ret uid_next))))"

definition update_message_flags :: "int \<Rightarrow> string \<Rightarrow> string \<Rightarrow> unit wio" where
  "update_message_flags mid key flags = db_exec (\<lambda>d. Inr ((), d\<lparr>messages_t :=
     map (\<lambda>r. if msg_mailbox_id r = mid \<and> msg_maildir_key r = key then r\<lparr>msg_flags := flags\<rparr> else r)
       (messages_t d)\<rparr>))"

definition delete_message_by_key :: "int \<Rightarrow> string \<Rightarrow> unit wio" where
  "delete_message_by_key mid key =
     db_exec (delete_messages (\<lambda>r. msg_mailbox_id r = mid \<and> msg_maildir_key r = key))"

definition delete_messages_not_in :: "int \<Rightarrow> string list \<Rightarrow> unit wio" where
  "delete_messages_not_in mid keys =
     (if keys = [] then db_exec (delete_messages (\<lambda>r. msg_mailbox_id r = mid))
      else db_exec (delete_messages (\<lambda>r. msg_mailbox_id r = mid \<and> msg_maildir_key r \<notin> set keys)))"

section \<open>Forwarding and relay settings\<close>

definition get_forwarding :: "int \<Rightarrow> forwarding_row wio" where
  "get_forwarding uid =
     if_no_rows (db_get (\<lambda>d. find (\<lambda>r. fwd_user_id r = uid) (forwarding_t d)))
       (io_ret \<lparr>fwd_user_id = uid, fwd_enabled = False, fwd_forward_to = ''''\<rparr>)"

text \<open>\<open>INSERT ... ON CONFLICT (user_id) DO UPDATE\<close>, the same statement for both drivers.\<close>

definition upsert_forwarding :: "bool \<Rightarrow> forwarding_row \<Rightarrow> database \<Rightarrow> goerr + unit \<times> database" where
  "upsert_forwarding fk f d =
     (if fwd_user_id f \<in> fwd_user_id ` set (forwarding_t d)
      then Inr ((), d\<lparr>forwarding_t :=
             map (\<lambda>r. if fwd_user_id r = fwd_user_id f then f else r) (forwarding_t d)\<rparr>)
      else if fk \<and> fwd_user_id f \<notin> usr_id ` set (users_t d) then Inl ErrForeignKey
      else Inr ((), d\<lparr>forwarding_t := forwarding_t d @ [f]\<rparr>))"

definition set_forwarding :: "store \<Rightarrow> int \<Rightarrow> bool \<Rightarrow> string \<Rightarrow> unit wio" where
  "set_forwarding s uid enabled forward_to =
     (let f = \<lparr>fwd_user_id = uid, fwd_enabled = enabled, fwd_forward_to = forward_to\<rparr> in
      case so_driver s of
        Postgres \<Rightarrow> db_exec (upsert_forwarding (so_fk s) f)
      | Sqlite \<Rightarrow> db_exec (upsert_forwarding (so_fk s) f))"

definition no_relay :: relay_row where
  "no_relay = \<lparr>rel_enabled = False, rel_host = '''', rel_port = 587, rel_username = '''', rel_password = ''''\<rparr>"

definition get_relay_settings :: "relay_row wio" where
  "get_relay_settings = if_no_rows (db_get relay_t) (io_ret no_relay)"

definition set_relay_settings :: "store \<Rightarrow> relay_row \<Rightarrow> unit wio" where
  "set_relay_settings s rs =
     io_bind (if rel_password rs = ''''
              then io_bind get_relay_settings (\<lambda>existing. io_ret (rs\<lparr>rel_password := rel_password existing\<rparr>))
              else io_ret rs) (\<lambda>rs.
     case so_driver s of
       Postgres \<Rightarrow> db_exec (\<lambda>d. Inr ((), d\<lparr>relay_t := Some rs\<rparr>))
     | Sqlite \<Rightarrow> db_exec (\<lambda>d. Inr ((), d\<lparr>relay_t := Some rs\<rparr>)))"

section \<open>The constraints of the schema\<close>

definition keyed :: "int \<Rightarrow> int list \<Rightarrow> bool" where
  "keyed n ks \<longleftrightarrow> 0 \<le> n \<and> distinct ks \<and> (\<forall>k \<in> set ks. 1 \<le> k \<and> k \<le> n)"

definition keys_ok :: "database \<Rightarrow> bool" where
  "keys_ok d \<longleftrightarrow> keyed (domains_seq d) (map dom_id (domains_t d)) \<and> keyed (users_seq d) (map usr_id (users_t d))
     \<and> keyed (mailboxes_seq d) (map mbx_id (mailboxes_t d)) \<and> keyed (messages_seq d) (map msg_id (messages_t d))
     \<and> distinct (map fwd_user_id (forwarding_t d))"

definition unique_ok :: "database \<Rightarrow> bool" where
  "unique_ok d \<longleftrightarrow> distinct (map dom_name (domains_t d)) \<and> distinct (map usr_email (users_t d))
     \<and> distinct (map (\<lambda>r. (usr_domain_id r, usr_local_part r)) (users_t d))
     \<and> distinct (map (\<lambda>r. (mbx_user_id r, mbx_name r)) (mailboxes_t d))
     \<and> distinct (map (\<lambda>r. (msg_mailbox_id r, msg_uid r)) (messages_t d))
     \<and> distinct (map (\<lambda>r. (msg_mailbox_id r, msg_maildir_key r)) (messages_t d))"

definition covered :: "int list \<Rightarrow> int list \<Rightarrow> bool" where
  "covered xs ys \<longleftrightarrow> set xs \<subseteq> set ys"

definition refs_ok :: "database \<Rightarrow> bool" where
  "refs_ok d \<longleftrightarrow> covered (map usr_domain_id (users_t d)) (map dom_id (domains_t d))
     \<and> covered (map mbx_user_id (mailboxes_t d)) (map usr_id (users_t d))
     \<and> covered (map msg_mailbox_id (messages_t d)) (map mbx_id (mailboxes_t d))
     \<and> covered (map fwd_user_id (forwarding_t d)) (map usr_id (users_t d))"

definition db_ok :: "bool \<Rightarrow> database \<Rightarrow> bool" where
  "db_ok fk d \<longleftrightarrow> keys_ok d \<and> unique_ok d \<and> (fk \<longrightarrow> refs_ok d)"

lemmas db_ok_defs = db_ok_def keys_ok_def unique_ok_def refs_ok_def

lemma keyed_append: "keyed n ks \<Longrightarrow> keyed (n + 1) (ks @ [n + 1])"
  by (fastforce simp: keyed_def)

lemma keyed_filter: "keyed n (map f xs) \<Longrightarrow> keyed n (map f (filter P xs))"
  by (auto simp: keyed_def distinct_map_filter)

lemma covered_append:
  "covered (xs @ [a]) ys \<longleftrightarrow> covered xs ys \<and> a \<in> set ys"
  "covered xs ys \<Longrightarrow> covered xs (ys @ zs)"
  by (auto simp: covered_def)

lemma covered_filter: "covered (map f xs) ys \<Longrightarrow> covered (map f (filter P xs)) ys"
  by (auto simp: covered_def)

lemma covered_in: "covered (map f xs) (map g ys) \<Longrightarrow> x \<in> set xs \<Longrightarrow> \<exists>y \<in> set ys. g y = f x"
  by (force simp: covered_def)

text \<open>The statements that insert and update keep the constraints.\<close>

lemma insert_domain_ok:
  "db_ok fk d \<Longrightarrow> insert_domain name d = Inr (x, d') \<Longrightarrow> db_ok fk d'"
  by (auto simp: insert_domain_def db_ok_defs Let_def keyed_append covered_append image_iff split: if_splits; blast)

lemma insert_user_ok:
  "db_ok fk d \<Longrightarrow> insert_user fk did l e h a d = Inr (x, d') \<Longrightarrow> db_ok fk d'"
  by (auto simp: insert_user_def db_ok_defs Let_def keyed_append covered_append image_iff split: if_splits; blast)

lemma insert_mailbox_ok:
  "db_ok fk d \<Longrightarrow> insert_mailbox fk u n v d = Inr (x, d') \<Longrightarrow> db_ok fk d'"
  by (auto simp: insert_mailbox_def db_ok_defs Let_def keyed_append covered_append image_iff split: if_splits; blast)

lemma insert_message_row_ok:
  "db_ok fk d \<Longrightarrow> insert_message_row fk mid u k f t z d = Inr (x, d') \<Longrightarrow> db_ok fk d'"
  by (auto simp: insert_message_row_def db_ok_defs keyed_append covered_append image_iff split: if_splits; blast)

lemma comp_upd_field:
  "(\<And>r. f (g r) = f r) \<Longrightarrow> f \<circ> (\<lambda>x. if c x then g x else x) = f"
  by auto

lemma update_mailbox_ok:
  assumes "db_ok fk d" and "update_mailbox f mid d = Inr (x, d')"
    and "\<And>r. mbx_id (f r) = mbx_id r" "\<And>r. mbx_user_id (f r) = mbx_user_id r" "\<And>r. mbx_name (f r) = mbx_name r"
  shows "db_ok fk d'"
  using assms by (auto simp: update_mailbox_def db_ok_defs comp_upd_field)

lemma delete_messages_ok:
  "db_ok fk d \<Longrightarrow> delete_messages P d = Inr (x, d') \<Longrightarrow> db_ok fk d'"
  by (auto simp: delete_messages_def db_ok_defs keyed_filter covered_filter distinct_map_filter)

lemma update_message_flags_ok:
  "db_ok fk d \<Longrightarrow> db_ok fk (d\<lparr>messages_t := map (\<lambda>r. if c r then r\<lparr>msg_flags := fl\<rparr> else r) (messages_t d)\<rparr>)"
  by (auto simp: db_ok_defs comp_upd_field)

lemma set_password_ok:
  "db_ok fk d \<Longrightarrow> db_ok fk (d\<lparr>users_t := map (\<lambda>r. if c r then r\<lparr>usr_password_hash := h\<rparr> else r) (users_t d)\<rparr>)"
  by (auto simp: db_ok_defs comp_upd_field)

lemma upsert_forwarding_ok:
  "db_ok fk d \<Longrightarrow> upsert_forwarding fk f d = Inr (x, d') \<Longrightarrow> db_ok fk d'"
proof -
  have "map fwd_user_id (map (\<lambda>r. if fwd_user_id r = fwd_user_id f then f else r) xs) = map fwd_user_id xs" for xs
    by (induction xs) auto
  then show "db_ok fk d \<Longrightarrow> upsert_forwarding fk f d = Inr (x, d') \<Longrightarrow> db_ok fk d'"
    by (auto simp: upsert_forwarding_def db_ok_defs covered_append simp del: map_map split: if_splits)
qed

lemma relay_ok: "db_ok fk d \<Longrightarrow> db_ok fk (d\<lparr>relay_t := r\<rparr>)"
  by (simp add: db_ok_defs)

lemma covered_delete:
  assumes "covered (map f xs) (map g ys)"
  shows "covered (map f (filter (\<lambda>x. f x \<notin> g ` {y \<in> set ys. P y}) xs)) (map g (filter (\<lambda>y. \<not> P y) ys))"
  using assms by (force simp: covered_def)

lemma delete_mailboxes_ok:
  assumes "db_ok fk d"
  shows "db_ok fk (delete_mailboxes fk P d)"
  using assms covered_delete [of msg_mailbox_id "messages_t d" mbx_id "mailboxes_t d" P]
  by (cases fk)
    (auto simp: delete_mailboxes_def db_ok_defs Let_def keyed_filter covered_filter distinct_map_filter)

lemma distinct_map_upd_one:
  assumes "distinct (map f xs)" and "distinct (map p xs)"
    and "\<And>x y. x \<in> set xs \<Longrightarrow> y \<in> set xs \<Longrightarrow> f x = k \<Longrightarrow> f y \<noteq> k \<Longrightarrow> p y \<noteq> p (g x)"
  shows "distinct (map (\<lambda>x. p (if f x = k then g x else x)) xs)"
  unfolding distinct_map
proof
  show "distinct xs" using assms(1) by (simp add: distinct_map)
  show "inj_on (\<lambda>x. p (if f x = k then g x else x)) (set xs)"
  proof (rule inj_onI)
    fix x y
    assume xy: "x \<in> set xs" "y \<in> set xs"
      and eq: "p (if f x = k then g x else x) = p (if f y = k then g y else y)"
    have inj: "f x = f y \<Longrightarrow> x = y" "p x = p y \<Longrightarrow> x = y"
      using assms(1,2) xy by (auto simp: distinct_map dest: inj_onD)
    show "x = y"
      using eq inj assms(3) [OF xy] assms(3) [OF xy(2,1)] by (auto split: if_splits)
  qed
qed

lemma update_mailbox_name_ok:
  assumes "db_ok fk d" and "update_mailbox_name name mid d = Inr (x, d')"
  shows "db_ok fk d'"
proof -
  let ?p = "\<lambda>r. (mbx_user_id r, mbx_name r)" and ?g = "\<lambda>r. r\<lparr>mbx_name := name\<rparr>"
  let ?xs = "mailboxes_t d"
  from assms(2) have d': "d' = d\<lparr>mailboxes_t := map (\<lambda>r. if mbx_id r = mid then ?g r else r) ?xs\<rparr>"
    and no: "\<not> (\<exists>r \<in> set ?xs. \<exists>q \<in> set ?xs. mbx_id r = mid \<and> mbx_id q \<noteq> mid \<and>
          mbx_user_id q = mbx_user_id r \<and> mbx_name q = name)"
    by (auto simp: update_mailbox_name_def update_mailbox_def split: if_splits)
  have "distinct (map ?p (map (\<lambda>r. if mbx_id r = mid then ?g r else r) ?xs))"
    unfolding map_map comp_def
    by (rule distinct_map_upd_one) (use assms(1) no in \<open>auto simp: db_ok_defs keyed_def\<close>)
  with assms(1) show ?thesis
    by (auto simp: d' db_ok_defs comp_upd_field)
qed

lemma delete_user_row_ok:
  assumes "db_ok fk d"
  shows "db_ok fk (delete_user_row fk uid d)"
proof (cases "fk \<and> uid \<in> usr_id ` set (users_t d)")
  case False
  have "filter (\<lambda>r. usr_id r \<noteq> uid) (users_t d) = users_t d" if fk
    using False that by (intro filter_True) auto
  with assms False show ?thesis
    by (cases fk) (auto simp: delete_user_row_def db_ok_defs keyed_filter distinct_map_filter)
next
  case True
  define d1 where "d1 = d\<lparr>users_t := filter (\<lambda>r. usr_id r \<noteq> uid) (users_t d),
    forwarding_t := filter (\<lambda>r. fwd_user_id r \<noteq> uid) (forwarding_t d)\<rparr>"
  have step: "covered (map f (filter (\<lambda>r. f r \<noteq> uid) xs)) (map usr_id (filter (\<lambda>r. usr_id r \<noteq> uid) (users_t d)))"
    if "covered (map f xs) (map usr_id (users_t d))" for f and xs :: "'z list"
    using that by (force simp: covered_def)
  have eq: "delete_user_row fk uid d = delete_mailboxes True (\<lambda>r. mbx_user_id r = uid) d1"
    using True by (simp add: delete_user_row_def d1_def)
  have "mailboxes_t d1 = mailboxes_t d" "messages_t d1 = messages_t d" by (simp_all add: d1_def)
  then show ?thesis
    unfolding eq
    using assms True step [of mbx_user_id "mailboxes_t d"] step [of fwd_user_id "forwarding_t d"]
      covered_delete [of msg_mailbox_id "messages_t d" mbx_id "mailboxes_t d" "\<lambda>r. mbx_user_id r = uid"]
    by (simp add: delete_mailboxes_def d1_def db_ok_defs keyed_filter covered_filter distinct_map_filter Let_def)
qed

section \<open>Every operation keeps the constraints\<close>

definition keeps_ok :: "bool \<Rightarrow> world \<Rightarrow> world \<Rightarrow> bool" where
  "keeps_ok fk w w' \<longleftrightarrow> (db_ok fk (db w) \<longrightarrow> db_ok fk (db w'))"

interpretation dbop: effect "keeps_ok fk" for fk
  by unfold_locales (auto simp: keeps_ok_def)

lemma keeps_ok_may_fail:
  assumes "keeps (keeps_ok fk) m"
  shows "keeps (keeps_ok fk) (may_fail e m)"
  unfolding keeps_def
proof
  fix w
  have "keeps_ok fk (w\<lparr>faults := bs\<rparr>) (snd (m (w\<lparr>faults := bs\<rparr>)))" for bs
    using assms by (simp add: keeps_def)
  then show "keeps_ok fk w (snd (may_fail e m w))"
    using assms by (auto simp: may_fail_def keeps_def keeps_ok_def split: list.splits)
qed

lemma keeps_ok_select: "keeps (keeps_ok fk) (db_select f)"
  unfolding db_select_def by (rule keeps_ok_may_fail) (rule dbop.keeps_gets)

lemma keeps_ok_get: "keeps (keeps_ok fk) (db_get f)"
  unfolding db_get_def
  by (rule keeps_ok_may_fail) (auto simp: keeps_def keeps_ok_def split: option.splits)

lemma keeps_ok_exec:
  "(\<And>d x d'. db_ok fk d \<Longrightarrow> f d = Inr (x, d') \<Longrightarrow> db_ok fk d') \<Longrightarrow> keeps (keeps_ok fk) (db_exec f)"
  unfolding db_exec_def
  by (rule keeps_ok_may_fail) (auto simp: keeps_def keeps_ok_def split: sum.splits)

lemma keeps_ok_tx:
  assumes "keeps (keeps_ok fk) m"
  shows "keeps (keeps_ok fk) (in_tx m)"
  unfolding in_tx_def
proof (rule keeps_ok_may_fail)
  have "keeps (keeps_ok fk) (io_bind m (\<lambda>x. may_fail ErrDB (io_ret x)))"
    by (intro dbop.keeps_bind assms keeps_ok_may_fail dbop.keeps_ret)
  then show "keeps (keeps_ok fk) (\<lambda>w. case io_bind m (\<lambda>x. may_fail ErrDB (io_ret x)) w of
      (Inl e, w') \<Rightarrow> (Inl e, w'\<lparr>db := db w\<rparr>) | (Inr x, w') \<Rightarrow> (Inr x, w'))"
    unfolding keeps_def keeps_ok_def by (auto split: prod.splits sum.splits)
qed

lemma keeps_ok_same_db: "keeps same_db m \<Longrightarrow> keeps (keeps_ok fk) m"
  by (simp add: keeps_def keeps_ok_def same_db_def)

lemmas db_effects = dbop.keeps_rules keeps_ok_select keeps_ok_get keeps_ok_tx
  keeps_ok_same_db [OF keeps_time_now] keeps_ok_same_db [OF keeps_syscalls(12)]

datatype store_op =
    OpEnsureDomain string | OpCreateUser string string string bool | OpSetPassword int string
  | OpDeleteUser int | OpEnsureMailbox int string | OpRenameMailbox int string | OpDeleteMailbox int
  | OpSubscribe int bool | OpInsertMessage int string string int int | OpUpdateFlags int string string
  | OpDeleteByKey int string | OpDeleteNotIn int "string list" | OpSetForwarding int bool string
  | OpSetRelay relay_row

text \<open>The state after an operation; its result and its error are dropped.\<close>

fun store_step :: "bcrypt \<Rightarrow> store \<Rightarrow> store_op \<Rightarrow> world \<Rightarrow> world" where
  "store_step B s (OpEnsureDomain n) = (\<lambda>w. snd (ensure_domain s n w))"
| "store_step B s (OpCreateUser dn l pw a) = (\<lambda>w. snd (create_user B s dn l pw a w))"
| "store_step B s (OpSetPassword u pw) = (\<lambda>w. snd (set_password B u pw w))"
| "store_step B s (OpDeleteUser u) = (\<lambda>w. snd (delete_user s u w))"
| "store_step B s (OpEnsureMailbox u n) = (\<lambda>w. snd (ensure_mailbox s u n w))"
| "store_step B s (OpRenameMailbox m n) = (\<lambda>w. snd (rename_mailbox m n w))"
| "store_step B s (OpDeleteMailbox m) = (\<lambda>w. snd (delete_mailbox s m w))"
| "store_step B s (OpSubscribe m b) = (\<lambda>w. snd (set_mailbox_subscribed m b w))"
| "store_step B s (OpInsertMessage m k f t z) = (\<lambda>w. snd (insert_message s m k f t z w))"
| "store_step B s (OpUpdateFlags m k f) = (\<lambda>w. snd (update_message_flags m k f w))"
| "store_step B s (OpDeleteByKey m k) = (\<lambda>w. snd (delete_message_by_key m k w))"
| "store_step B s (OpDeleteNotIn m ks) = (\<lambda>w. snd (delete_messages_not_in m ks w))"
| "store_step B s (OpSetForwarding u b t) = (\<lambda>w. snd (set_forwarding s u b t w))"
| "store_step B s (OpSetRelay r) = (\<lambda>w. snd (set_relay_settings s r w))"

lemma keeps_ok_hash: "keeps (keeps_ok fk) (hash_password B pw)"
  unfolding hash_password_def
  by (intro db_effects) (auto split: option.splits intro: db_effects)

lemma keeps_ok_if_no_rows:
  "keeps (keeps_ok fk) m \<Longrightarrow> keeps (keeps_ok fk) n \<Longrightarrow> keeps (keeps_ok fk) (if_no_rows m n)"
  unfolding if_no_rows_def by (intro db_effects)

lemma keeps_ok_driver:
  "keeps R m \<Longrightarrow> keeps R n \<Longrightarrow> keeps R (case v of Sqlite \<Rightarrow> m | Postgres \<Rightarrow> n)"
  by (cases v) simp_all

lemma keeps_ok_ensure_domain: "keeps (keeps_ok fk) (ensure_domain s n)"
  unfolding ensure_domain_def Let_def
  by (intro keeps_ok_if_no_rows keeps_ok_driver db_effects keeps_ok_exec) (erule (1) insert_domain_ok)+

lemma keeps_ok_store:
  "keeps (keeps_ok (so_fk s)) (create_user B s dn l pw a)"
  "keeps (keeps_ok (so_fk s)) (set_password B u pw)"
  "keeps (keeps_ok (so_fk s)) (delete_user s u)"
  "keeps (keeps_ok (so_fk s)) (ensure_mailbox s u n)"
  "keeps (keeps_ok (so_fk s)) (rename_mailbox mid n)"
  "keeps (keeps_ok (so_fk s)) (delete_mailbox s mid)"
  "keeps (keeps_ok (so_fk s)) (set_mailbox_subscribed mid b)"
  "keeps (keeps_ok (so_fk s)) (insert_message s mid k f t z)"
  "keeps (keeps_ok (so_fk s)) (update_message_flags mid k f)"
  "keeps (keeps_ok (so_fk s)) (delete_message_by_key mid k)"
  "keeps (keeps_ok (so_fk s)) (delete_messages_not_in mid ks)"
  "keeps (keeps_ok (so_fk s)) (set_forwarding s u b ft)"
  "keeps (keeps_ok (so_fk s)) (set_relay_settings s r)"
proof -
  show "keeps (keeps_ok (so_fk s)) (create_user B s dn l pw a)"
    unfolding create_user_def get_user_by_email_def not_found_def Let_def
    by (intro keeps_ok_if_no_rows keeps_ok_driver db_effects keeps_ok_exec
        keeps_ok_ensure_domain keeps_ok_hash) (erule (1) insert_user_ok)+
  show "keeps (keeps_ok (so_fk s)) (set_password B u pw)"
    unfolding set_password_def
    by (intro db_effects keeps_ok_exec keeps_ok_hash) (auto intro: set_password_ok)
  show "keeps (keeps_ok (so_fk s)) (delete_user s u)"
    unfolding delete_user_def by (intro keeps_ok_exec) (auto intro: delete_user_row_ok)
  show "keeps (keeps_ok (so_fk s)) (ensure_mailbox s u n)"
    unfolding ensure_mailbox_def get_mailbox_def not_found_def Let_def
    by (intro keeps_ok_if_no_rows keeps_ok_driver db_effects keeps_ok_exec) (erule (1) insert_mailbox_ok)+
  show "keeps (keeps_ok (so_fk s)) (rename_mailbox mid n)"
    unfolding rename_mailbox_def by (rule keeps_ok_exec) (erule (1) update_mailbox_name_ok)
  show "keeps (keeps_ok (so_fk s)) (delete_mailbox s mid)"
    unfolding delete_mailbox_def by (intro keeps_ok_exec) (auto intro: delete_mailboxes_ok)
  show "keeps (keeps_ok (so_fk s)) (set_mailbox_subscribed mid b)"
    unfolding set_mailbox_subscribed_def by (rule keeps_ok_exec) (erule (1) update_mailbox_ok; simp)
  show "keeps (keeps_ok (so_fk s)) (insert_message s mid k f t z)"
    unfolding insert_message_def
    by (intro keeps_ok_tx db_effects keeps_ok_exec)
      ((erule (1) insert_message_row_ok) | (erule (1) update_mailbox_ok; simp))+
  show "keeps (keeps_ok (so_fk s)) (update_message_flags mid k f)"
    unfolding update_message_flags_def by (intro keeps_ok_exec) (auto intro: update_message_flags_ok)
  show "keeps (keeps_ok (so_fk s)) (delete_message_by_key mid k)"
    unfolding delete_message_by_key_def by (rule keeps_ok_exec) (erule (1) delete_messages_ok)
  show "keeps (keeps_ok (so_fk s)) (delete_messages_not_in mid ks)"
    unfolding delete_messages_not_in_def by (intro dbop.keeps_if keeps_ok_exec) (erule (1) delete_messages_ok)+
  show "keeps (keeps_ok (so_fk s)) (set_forwarding s u b ft)"
    unfolding set_forwarding_def Let_def
    by (intro keeps_ok_driver keeps_ok_exec) (erule (1) upsert_forwarding_ok)+
  show "keeps (keeps_ok (so_fk s)) (set_relay_settings s r)"
    unfolding set_relay_settings_def get_relay_settings_def
    by (intro keeps_ok_driver keeps_ok_if_no_rows db_effects keeps_ok_exec) (auto intro: relay_ok)
qed

lemma store_step_ok: "db_ok (so_fk s) (db w) \<Longrightarrow> db_ok (so_fk s) (db (store_step B s a w))"
  using keeps_ok_store [THEN keepsD] keeps_ok_ensure_domain [THEN keepsD]
  unfolding keeps_ok_def by (cases a) simp_all

interpretation st: machine "store_step B s" "\<lambda>w. db_ok (so_fk s) (db w)" for B s
  by unfold_locales (rule store_step_ok)

section \<open>Results of statements\<close>

lemma may_fail_ok:
  assumes "may_fail e m w = (Inr x, w')"
  shows "\<exists>bs. m (w\<lparr>faults := bs\<rparr>) = (Inr x, w')"
proof (cases "faults w")
  case Nil
  have "w\<lparr>faults := faults w\<rparr> = w" by simp
  with Nil assms show ?thesis unfolding may_fail_def by (metis list.case(1))
qed (use assms in \<open>auto simp: may_fail_def split: if_splits\<close>)

lemma db_select_ok: "db_select f w = (Inr x, w') \<Longrightarrow> x = f (db w) \<and> db w' = db w"
  unfolding db_select_def by (drule may_fail_ok) (auto simp: io_gets_def)

lemma db_get_ok: "db_get f w = (Inr x, w') \<Longrightarrow> f (db w) = Some x \<and> db w' = db w"
  unfolding db_get_def by (drule may_fail_ok) (auto split: option.splits)

lemma db_exec_ok: "db_exec f w = (Inr x, w') \<Longrightarrow> f (db w) = Inr (x, db w')"
  unfolding db_exec_def by (drule may_fail_ok) (cases "f (db w)"; auto)

lemma in_tx_ok:
  assumes "in_tx m w = (Inr x, w')"
  shows "\<exists>w1 w2. db w1 = db w \<and> m w1 = (Inr x, w2) \<and> db w' = db w2"
proof -
  let ?m = "io_bind m (\<lambda>x. may_fail ErrDB (io_ret x))"
  from may_fail_ok [OF assms [unfolded in_tx_def]] obtain bs where
    "(case ?m (w\<lparr>faults := bs\<rparr>) of (Inl e, w') \<Rightarrow> (Inl e, w'\<lparr>db := db (w\<lparr>faults := bs\<rparr>)\<rparr>) | (Inr x, w') \<Rightarrow> (Inr x, w')) = (Inr x, w')"
    by blast
  then have "?m (w\<lparr>faults := bs\<rparr>) = (Inr x, w')"
    by (cases "?m (w\<lparr>faults := bs\<rparr>)"; cases "fst (?m (w\<lparr>faults := bs\<rparr>))") auto
  then obtain y w2 where "m (w\<lparr>faults := bs\<rparr>) = (Inr y, w2)" "may_fail ErrDB (io_ret y) w2 = (Inr x, w')"
    by (auto simp: io_bind_ok)
  moreover from may_fail_ok [OF this(2)] have "y = x" "db w' = db w2" by (auto simp: io_ret_def)
  ultimately show ?thesis by (intro exI [of _ "w\<lparr>faults := bs\<rparr>"] exI [of _ w2]) simp
qed

lemma in_tx_err: "in_tx m w = (Inl e, w') \<Longrightarrow> db w' = db w"
  unfolding in_tx_def may_fail_def by (auto split: list.splits if_splits prod.splits sum.splits)

lemma insert_message_ok:
  assumes "insert_message s mid key flags date sz w = (Inr uid, w')"
  shows "\<exists>m d. find (\<lambda>r. mbx_id r = mid) (mailboxes_t (db w)) = Some m \<and> mbx_uid_next m = uid \<and>
    insert_message_row (so_fk s) mid uid key flags date sz (db w) = Inr ((), d) \<and>
    db w' = d\<lparr>mailboxes_t := map (\<lambda>r. if mbx_id r = mid then r\<lparr>mbx_uid_next := uid + 1\<rparr> else r) (mailboxes_t d)\<rparr>"
  using in_tx_ok [OF assms [unfolded insert_message_def]]
  by (auto simp: io_oks update_mailbox_def dest!: db_get_ok db_exec_ok)

section \<open>Properties\<close>


lemma empty_db_ok [simp]: "db_ok fk empty_db"
  by (simp add: db_ok_defs empty_db_def keyed_def covered_def)

lemma blank_db [simp]: "db blank_world = empty_db"
  by (simp add: blank_world_def)

definition plain_bcrypt :: bcrypt where
  "plain_bcrypt = \<lparr>bc_generate = (\<lambda>salt pw. if length pw \<le> 72 then Some (CHR ''$'' # pw) else None),
     bc_compare = (\<lambda>h pw. h = CHR ''$'' # pw)\<rparr>"


definition uids_below :: "database \<Rightarrow> bool" where
  "uids_below d \<longleftrightarrow> (\<forall>r \<in> set (messages_t d). \<forall>m \<in> set (mailboxes_t d).
     mbx_id m = msg_mailbox_id r \<longrightarrow> msg_uid r < mbx_uid_next m)"

lemma insert_message_facts:
  assumes below: "uids_below (db w)"
  shows "case insert_message s mid key flags date sz w of
     (Inl e, w') \<Rightarrow> db w' = db w
   | (Inr uid, w') \<Rightarrow>
       (\<forall>r \<in> set (messages_t (db w)). msg_mailbox_id r = mid \<longrightarrow> msg_uid r < uid \<and> msg_maildir_key r \<noteq> key) \<and>
       (\<exists>r. messages_t (db w') = messages_t (db w) @ [r] \<and> msg_mailbox_id r = mid \<and> msg_uid r = uid \<and>
          msg_maildir_key r = key \<and> msg_flags r = flags \<and> msg_internal_date r = date \<and> msg_size r = sz) \<and>
       (\<forall>m \<in> set (mailboxes_t (db w')). mbx_id m = mid \<longrightarrow> mbx_uid_next m = uid + 1) \<and>
       (uid + 1 \<noteq> 0 \<longrightarrow> uids_below (db w'))"
proof (cases "insert_message s mid key flags date sz w")
  case (Pair x w')
  show ?thesis
  proof (cases x)
    case (Inl e)
    with Pair in_tx_err show ?thesis by (simp add: insert_message_def)
  next
    case (Inr uid)
    from insert_message_ok [OF Pair [unfolded Inr]] obtain m d where
      m: "find (\<lambda>r. mbx_id r = mid) (mailboxes_t (db w)) = Some m" "mbx_uid_next m = uid"
      and ins: "insert_message_row (so_fk s) mid uid key flags date sz (db w) = Inr ((), d)"
      and w': "db w' = d\<lparr>mailboxes_t := map (\<lambda>r. if mbx_id r = mid then r\<lparr>mbx_uid_next := uid + 1\<rparr> else r) (mailboxes_t d)\<rparr>"
      by blast
    from find_SomeD [OF m(1)] m(2) below have old: "msg_uid r < uid"
      if "r \<in> set (messages_t (db w))" "msg_mailbox_id r = mid" for r
      using that by (auto simp: uids_below_def)
    have inc: "u < uid + 1" if "u \<le> uid" "uid + 1 \<noteq> 0" for u :: u32
      using that unatSuc [of uid] by (simp add: word_less_nat_alt word_le_nat_alt add.commute)
    let ?r = "\<lparr>msg_id = messages_seq (db w) + 1, msg_mailbox_id = mid, msg_uid = uid, msg_maildir_key = key,
               msg_flags = flags, msg_internal_date = date, msg_size = sz\<rparr>"
    let ?upd = "\<lambda>r. if mbx_id r = mid then r\<lparr>mbx_uid_next := uid + 1\<rparr> else r"
    from ins have d: "messages_t d = messages_t (db w) @ [?r]" "mailboxes_t d = mailboxes_t (db w)"
      and fresh: "\<forall>r \<in> set (messages_t (db w)). msg_mailbox_id r = mid \<longrightarrow> msg_maildir_key r \<noteq> key"
      by (auto simp: insert_message_row_def split: if_splits)
    from w' d have ms: "messages_t (db w') = messages_t (db w) @ [?r]"
      and mb: "mailboxes_t (db w') = map ?upd (mailboxes_t (db w))" by simp_all
    have below': "uids_below (db w')" if "uid + 1 \<noteq> 0"
      unfolding uids_below_def
    proof (intro ballI impI)
      fix r m'
      assume r: "r \<in> set (messages_t (db w'))" and "m' \<in> set (mailboxes_t (db w'))"
        and eq: "mbx_id m' = msg_mailbox_id r"
      then obtain m0 where m0: "m0 \<in> set (mailboxes_t (db w))" "m' = ?upd m0" unfolding mb by auto
      then have id: "mbx_id m0 = msg_mailbox_id r" using eq by (simp split: if_splits)
      show "msg_uid r < mbx_uid_next m'"
      proof (cases "mbx_id m0 = mid")
        case True
        from r ms have "r \<in> set (messages_t (db w)) \<or> r = ?r" by auto
        then have "msg_uid r \<le> uid"
        proof
          assume "r \<in> set (messages_t (db w))"
          from old [OF this] id True show ?thesis by simp
        qed simp
        from inc [OF this that] True m0 show ?thesis by simp
      next
        case False
        with r id ms have "r \<in> set (messages_t (db w))" by auto
        with below m0(1) id False m0(2) show ?thesis by (simp add: uids_below_def)
      qed
    qed
    have A: "\<forall>r \<in> set (messages_t (db w)). msg_mailbox_id r = mid \<longrightarrow>
        msg_uid r < uid \<and> msg_maildir_key r \<noteq> key"
      using old fresh by blast
    have B: "\<exists>r. messages_t (db w') = messages_t (db w) @ [r] \<and> msg_mailbox_id r = mid \<and> msg_uid r = uid \<and>
          msg_maildir_key r = key \<and> msg_flags r = flags \<and> msg_internal_date r = date \<and> msg_size r = sz"
      by (rule exI [of _ ?r]) (simp add: ms)
    have C: "\<forall>m \<in> set (mailboxes_t (db w')). mbx_id m = mid \<longrightarrow> mbx_uid_next m = uid + 1"
    proof (intro ballI impI)
      fix m1
      assume "m1 \<in> set (mailboxes_t (db w'))" and id: "mbx_id m1 = mid"
      then have "m1 \<in> ?upd ` set (mailboxes_t (db w))" by (simp only: mb set_map)
      then obtain m0 where m0: "m1 = ?upd m0" by (rule imageE)
      show "mbx_uid_next m1 = uid + 1"
        using id unfolding m0 by (cases "mbx_id m0 = mid") simp_all
    qed
    show ?thesis
      unfolding Pair Inr prod.case sum.case by (intro conjI A B C impI below')
  qed
qed

text \<open>UIDs grow. An insertion that returns a UID gave the message the mailbox's next one,
  above the UID of every message the mailbox holds; it appended exactly that row, moved the
  counter past it, and the counter stays above all UIDs as long as it does not wrap at 32 bits.
  An insertion that fails, at any of its statements, changes nothing.\<close>

theorem insert_message_uid:
  assumes "uids_below (db w)"
  shows "case insert_message s mid key flags date sz w of
     (Inl e, w') \<Rightarrow> db w' = db w
   | (Inr uid, w') \<Rightarrow>
       (\<forall>r \<in> set (messages_t (db w)). msg_mailbox_id r = mid \<longrightarrow> msg_uid r < uid \<and> msg_maildir_key r \<noteq> key) \<and>
       (\<exists>r. messages_t (db w') = messages_t (db w) @ [r] \<and> msg_mailbox_id r = mid \<and> msg_uid r = uid \<and>
          msg_maildir_key r = key \<and> msg_flags r = flags \<and> msg_internal_date r = date \<and> msg_size r = sz) \<and>
       (\<forall>m \<in> set (mailboxes_t (db w')). mbx_id m = mid \<longrightarrow> mbx_uid_next m = uid + 1) \<and>
       (uid + 1 \<noteq> 0 \<longrightarrow> uids_below (db w'))"
  using assms by (rule insert_message_facts)

text \<open>A database with one user and a mailbox that holds one message, for the witnesses.\<close>

definition small_db :: database where
  "small_db = empty_db\<lparr>
     domains_t := [\<lparr>dom_id = 1, dom_name = ''x.org''\<rparr>], domains_seq := 1,
     users_t := [\<lparr>usr_id = 1, usr_domain_id = 1, usr_local_part = ''bob'', usr_email = ''bob@x.org'',
                  usr_password_hash = ''h'', usr_is_admin = False\<rparr>], users_seq := 1,
     mailboxes_t := [\<lparr>mbx_id = 1, mbx_user_id = 1, mbx_name = ''INBOX'', mbx_uid_validity = 9,
                      mbx_uid_next = 6, mbx_subscribed = True\<rparr>], mailboxes_seq := 1,
     messages_t := [\<lparr>msg_id = 1, msg_mailbox_id = 1, msg_uid = 5, msg_maildir_key = ''k'',
                     msg_flags = '''', msg_internal_date = 3, msg_size = 2\<rparr>], messages_seq := 1\<rparr>"

lemma small_db_ok [simp]: "db_ok fk small_db" "uids_below small_db"
  by (simp_all add: db_ok_defs small_db_def empty_db_def keyed_def covered_def uids_below_def)

lemma insert_message_uid_witness:
  "case insert_message \<lparr>so_driver = Sqlite, so_fk = True\<rparr> 1 ''n'' '''' 4 2 (blank_world\<lparr>db := small_db\<rparr>) of
     (Inl e, w') \<Rightarrow> False
   | (Inr uid, w') \<Rightarrow> uid = 6 \<and> uids_below (db w')"
proof -
  let ?w = "blank_world\<lparr>db := small_db\<rparr>"
  let ?r = "insert_message \<lparr>so_driver = Sqlite, so_fk = True\<rparr> 1 ''n'' '''' 4 2 ?w"
  have below: "uids_below (db ?w)" by simp
  have "fst ?r = Inr 6" by code_simp
  moreover have "(6 :: u32) + 1 \<noteq> 0" by simp
  ultimately show ?thesis
    using insert_message_uid [OF below, where s = "\<lparr>so_driver = Sqlite, so_fk = True\<rparr>" and mid = 1
        and key = "''n''" and flags = "''''" and date = 4 and sz = 2]
    by (auto split: prod.splits sum.splits)
qed

definition rows_of :: "int \<Rightarrow> database \<Rightarrow> user_row list \<times> mailbox_row list \<times> message_row list \<times> forwarding_row list" where
  "rows_of uid d = (let mbs = filter (\<lambda>r. mbx_user_id r = uid) (mailboxes_t d) in
     (filter (\<lambda>r. usr_id r = uid) (users_t d), mbs,
      filter (\<lambda>r. msg_mailbox_id r \<in> mbx_id ` set mbs) (messages_t d),
      filter (\<lambda>r. fwd_user_id r = uid) (forwarding_t d)))"

lemma delete_user_facts:
  assumes ok: "db_ok True (db w)" and fk: "so_fk s"
  shows "case delete_user s uid w of
     (Inl e, w') \<Rightarrow> db w' = db w
   | (Inr u, w') \<Rightarrow> rows_of uid (db w') = ([], [], [], []) \<and>
       (\<forall>v. v \<noteq> uid \<longrightarrow> rows_of v (db w') = rows_of v (db w)) \<and>
       (\<forall>r \<in> set (messages_t (db w')). \<exists>m \<in> set (mailboxes_t (db w')). mbx_id m = msg_mailbox_id r) \<and>
       domains_t (db w') = domains_t (db w) \<and> relay_t (db w') = relay_t (db w)"
proof -
  let ?d = "db w" and ?d' = "delete_user_row True uid (db w)"
  have ok': "db_ok True ?d'" using ok by (rule delete_user_row_ok)
  then have msgs: "\<forall>r \<in> set (messages_t ?d'). \<exists>m \<in> set (mailboxes_t ?d'). mbx_id m = msg_mailbox_id r"
    by (auto simp: db_ok_def refs_ok_def dest: covered_in)
  have refs: "usr_id ` set (users_t ?d) \<supseteq> mbx_user_id ` set (mailboxes_t ?d)"
    "usr_id ` set (users_t ?d) \<supseteq> fwd_user_id ` set (forwarding_t ?d)"
    using ok by (auto simp: db_ok_def refs_ok_def covered_def)
  have mids: "mbx_id m = mbx_id m' \<Longrightarrow> m = m'" if "m \<in> set (mailboxes_t ?d)" "m' \<in> set (mailboxes_t ?d)" for m m'
    using ok that by (auto simp: db_ok_def keys_ok_def keyed_def distinct_map dest: inj_onD)
  have us: "users_t ?d' = filter (\<lambda>r. usr_id r \<noteq> uid) (users_t ?d)"
    by (simp add: delete_user_row_def delete_mailboxes_def Let_def)
  have ms: "mailboxes_t ?d' = filter (\<lambda>r. mbx_user_id r \<noteq> uid) (mailboxes_t ?d)"
    using refs(1) by (auto simp: delete_user_row_def delete_mailboxes_def Let_def intro!: filter_True [symmetric])
  have fs: "forwarding_t ?d' = filter (\<lambda>r. fwd_user_id r \<noteq> uid) (forwarding_t ?d)"
    using refs(2) by (auto simp: delete_user_row_def delete_mailboxes_def Let_def intro!: filter_True [symmetric])
  have gs: "messages_t ?d' = filter (\<lambda>r. msg_mailbox_id r \<notin> mbx_id ` {m \<in> set (mailboxes_t ?d). mbx_user_id m = uid}) (messages_t ?d)"
    using refs(1) by (auto simp: delete_user_row_def delete_mailboxes_def Let_def intro!: filter_True [symmetric])
  have none: "rows_of uid ?d' = ([], [], [], [])"
    by (auto simp: rows_of_def us ms fs Let_def filter_empty_conv)
  have other: "rows_of v ?d' = rows_of v ?d" if "v \<noteq> uid" for v
    using that by (auto simp: rows_of_def us ms fs gs Let_def filter_filter intro!: filter_cong)
      (metis mids)
  have dr: "domains_t ?d' = domains_t ?d" "relay_t ?d' = relay_t ?d"
    by (simp_all add: delete_user_row_def delete_mailboxes_def Let_def)
  show ?thesis
    using none other dr msgs fk
    by (auto simp: delete_user_def db_exec_def may_fail_def split: list.splits)
qed

text \<open>C31: deleting a user removes everything of theirs and nothing else. Where references are
  enforced, a successful \<open>DeleteUser\<close> leaves no user, mailbox, message or forwarding row of that
  user, and every row of every other user, every domain and the relay settings as they were; a
  failed one changes nothing.\<close>

theorem delete_user_exact:
  assumes "db_ok True (db w)" and "so_fk s"
  shows "case delete_user s uid w of
     (Inl e, w') \<Rightarrow> db w' = db w
   | (Inr u, w') \<Rightarrow> rows_of uid (db w') = ([], [], [], []) \<and>
       (\<forall>v. v \<noteq> uid \<longrightarrow> rows_of v (db w') = rows_of v (db w)) \<and>
       (\<forall>r \<in> set (messages_t (db w')). \<exists>m \<in> set (mailboxes_t (db w')). mbx_id m = msg_mailbox_id r) \<and>
       domains_t (db w') = domains_t (db w) \<and> relay_t (db w') = relay_t (db w)"
  using assms by (rule delete_user_facts)

lemma delete_user_exact_witness:
  "case delete_user \<lparr>so_driver = Sqlite, so_fk = True\<rparr> 1 (blank_world\<lparr>db := small_db\<rparr>) of
     (Inl e, w') \<Rightarrow> False | (Inr u, w') \<Rightarrow> rows_of 1 (db w') = ([], [], [], [])"
proof -
  let ?r = "delete_user \<lparr>so_driver = Sqlite, so_fk = True\<rparr> 1 (blank_world\<lparr>db := small_db\<rparr>)"
  have "fst ?r = Inr ()" by code_simp
  then show ?thesis
    using delete_user_exact [of "blank_world\<lparr>db := small_db\<rparr>" "\<lparr>so_driver = Sqlite, so_fk = True\<rparr>" 1]
    by (auto split: prod.splits sum.splits)
qed

lemma keeps_calm_db:
  "keeps stays_calm (db_select f)" "keeps stays_calm (db_get g)" "keeps stays_calm (db_exec h)"
proof -
  show "keeps stays_calm (db_select f)" unfolding db_select_def by (intro calm_effects)
  show "keeps stays_calm (db_get g)" unfolding db_get_def
    by (rule keeps_calm_may_fail) (auto simp: keeps_def stays_calm_def split: option.splits)
  show "keeps stays_calm (db_exec h)" unfolding db_exec_def
    by (rule keeps_calm_may_fail) (auto simp: keeps_def stays_calm_def split: sum.splits)
qed

lemma keeps_calm_store:
  "keeps stays_calm (ensure_domain s n)" "keeps stays_calm (hash_password B pw)"
  "keeps stays_calm (get_mailbox u n)"
proof -
  show "keeps stays_calm (ensure_domain s n)"
    unfolding ensure_domain_def if_no_rows_def Let_def
    by (intro calm_effects keeps_calm_db keeps_ok_driver)
  show "keeps stays_calm (hash_password B pw)"
    unfolding hash_password_def by (intro calm_effects) (auto split: option.splits intro: calm_effects)
  show "keeps stays_calm (get_mailbox u n)"
    unfolding get_mailbox_def not_found_def if_no_rows_def by (intro calm_effects keeps_calm_db)
qed

lemma keeps_calmD: "keeps stays_calm m \<Longrightarrow> faults w = [] \<Longrightarrow> m w = (x, w') \<Longrightarrow> faults w' = []"
  by (metis keeps_def stays_calm_def snd_conv)

lemma reread_domain:
  assumes "faults w = []" and "db_ok fk (db w)"
  shows "io_bind (db_exec (insert_domain name)) (\<lambda>r. db_get (\<lambda>d. find (\<lambda>q. dom_id q = dom_id r) (domains_t d))) w
    = db_exec (insert_domain name) w"
proof -
  have "dom_id q \<noteq> domains_seq (db w) + 1" if "q \<in> set (domains_t (db w))" for q
    using assms(2) that by (auto simp: db_ok_defs keyed_def)
  then show ?thesis
    using assms(1)
    by (auto simp: io_bind_apply db_exec_def db_get_def may_fail_def insert_domain_def Let_def find_append_new)
qed

lemma reread_user:
  assumes "faults w = []" and "to_lower email = email"
  shows "io_bind (db_exec (insert_user fk did l email h a)) (\<lambda>_. get_user_by_email email) w
    = db_exec (insert_user fk did l email h a) w"
  using assms
  by (auto simp: io_bind_apply db_exec_def db_get_def may_fail_def insert_user_def Let_def find_append_new
      get_user_by_email_def not_found_def if_no_rows_def io_either_def io_ret_def)

lemma reread_mailbox:
  assumes "faults w = []"
  shows "io_bind (db_exec (insert_mailbox fk u n v)) (\<lambda>_. get_mailbox u n) w = db_exec (insert_mailbox fk u n v) w"
  using assms
  by (auto simp: io_bind_apply db_exec_def db_get_def may_fail_def insert_mailbox_def Let_def find_append_new
      get_mailbox_def not_found_def if_no_rows_def io_either_def io_ret_def)

text \<open>The two drivers agree. On a consistent database and without failures, the operations
  with a branch on the driver return the same result and leave the same state on SQLite, where
  they insert and read back, as on Postgres, where they use RETURNING.\<close>

theorem drivers_agree:
  assumes calm: "faults w = []" and ok: "db_ok fk (db w)"
    and lite: "sl = \<lparr>so_driver = Sqlite, so_fk = fk\<rparr>" and pg: "sp = \<lparr>so_driver = Postgres, so_fk = fk\<rparr>"
  shows "ensure_domain sl name w = ensure_domain sp name w \<and>
    create_user B sl name loc pw adm w = create_user B sp name loc pw adm w \<and>
    ensure_mailbox sl uid mb w = ensure_mailbox sp uid mb w \<and>
    set_forwarding sl uid on fto w = set_forwarding sp uid on fto w \<and>
    set_relay_settings sl rs w = set_relay_settings sp rs w"
proof -
  have dom: "ensure_domain sl n w = ensure_domain sp n w" for n
    unfolding ensure_domain_def if_no_rows_def Let_def lite pg store.select_convs driver.case
  proof (rule io_either_cong_run)
    fix e t
    assume "db_get (\<lambda>d. find (\<lambda>r. dom_name r = to_lower n) (domains_t d)) w = (Inl e, t)"
    then have "faults t = []" "db t = db w"
      using calm by (auto simp: db_get_def may_fail_def split: option.splits)
    with ok reread_domain [of t fk]
    show "(if e = ErrNoRows then io_bind (db_exec (insert_domain (to_lower n)))
          (\<lambda>r. db_get (\<lambda>d. find (\<lambda>q. dom_id q = dom_id r) (domains_t d))) else io_fail e) t =
       (if e = ErrNoRows then db_exec (insert_domain (to_lower n)) else io_fail e) t" by simp
  qed simp
  have user: "create_user B sl name loc pw adm w = create_user B sp name loc pw adm w"
    unfolding create_user_def Let_def
  proof (rule io_bind_cong_run, rule io_wrap_cong_run, rule dom, rule io_bind_cong_run, rule refl)
    fix d t h t'
    assume "io_wrap ''ensuring domain'' (ensure_domain sp (to_lower name)) w = (Inr d, t)"
      and hash: "hash_password B pw t = (Inr h, t')"
    then have "faults t = []" by (intro keeps_calmD [OF keeps_calm_store(1) calm]) (simp only: io_wrap_ok)
    from keeps_calmD [OF keeps_calm_store(2) this hash] have "faults t' = []" .
    moreover have "to_lower ''@'' = ''@''" by code_simp
    ultimately show "(case so_driver sl of
        Sqlite \<Rightarrow> io_bind (db_exec (insert_user (so_fk sl) (dom_id d) (to_lower loc)
             (to_lower loc @ ''@'' @ to_lower name) h adm)) (\<lambda>_. get_user_by_email (to_lower loc @ ''@'' @ to_lower name))
      | Postgres \<Rightarrow> db_exec (insert_user (so_fk sl) (dom_id d) (to_lower loc) (to_lower loc @ ''@'' @ to_lower name) h adm)) t' =
      (case so_driver sp of
        Sqlite \<Rightarrow> io_bind (db_exec (insert_user (so_fk sp) (dom_id d) (to_lower loc)
             (to_lower loc @ ''@'' @ to_lower name) h adm)) (\<lambda>_. get_user_by_email (to_lower loc @ ''@'' @ to_lower name))
      | Postgres \<Rightarrow> db_exec (insert_user (so_fk sp) (dom_id d) (to_lower loc) (to_lower loc @ ''@'' @ to_lower name) h adm)) t'"
      unfolding lite pg store.select_convs driver.case by (intro reread_user) (simp_all only: to_lower_append to_lower_idem)
  qed
  have mbox: "ensure_mailbox sl uid mb w = ensure_mailbox sp uid mb w"
    unfolding ensure_mailbox_def Let_def lite pg store.select_convs driver.case
  proof (rule io_either_cong_run)
    fix e t
    assume "get_mailbox uid mb w = (Inl e, t)"
    then have t: "faults t = []" using keeps_calmD [OF keeps_calm_store(3) calm] by blast
    have "faults t' = []" if "time_now t = (Inr v, t')" for v t'
      using keeps_calmD [OF keeps_calm_ops(1) t that] .
    then show "(if e \<noteq> ErrNotFound then io_fail e else io_bind time_now (\<lambda>now.
          io_bind (db_exec (insert_mailbox fk uid mb (unix_u32 now))) (\<lambda>_. get_mailbox uid mb))) t =
        (if e \<noteq> ErrNotFound then io_fail e else io_bind time_now (\<lambda>now.
          db_exec (insert_mailbox fk uid mb (unix_u32 now)))) t"
      by (cases "e = ErrNotFound") (auto intro!: io_bind_cong_run reread_mailbox)
  qed simp
  show ?thesis
    using dom user mbox by (simp add: set_forwarding_def set_relay_settings_def lite pg)
qed

text \<open>A concrete bcrypt for the witnesses: the hash is the password itself, marked.\<close>

lemma drivers_agree_witness:
  "create_user plain_bcrypt \<lparr>so_driver = Sqlite, so_fk = True\<rparr> ''X.org'' ''Ann'' ''pw'' False blank_world =
   create_user plain_bcrypt \<lparr>so_driver = Postgres, so_fk = True\<rparr> ''X.org'' ''Ann'' ''pw'' False blank_world"
  using drivers_agree [OF blank_calm, of True "\<lparr>so_driver = Sqlite, so_fk = True\<rparr>"
      "\<lparr>so_driver = Postgres, so_fk = True\<rparr>" "''X.org''" plain_bcrypt "''Ann''" "''pw''" False]
  by simp

lemma not_found_ok: "not_found (db_get f) w = (Inr x, w') \<Longrightarrow> f (db w) = Some x \<and> db w' = db w"
  by (auto simp: not_found_def if_no_rows_def io_either_def io_ret_def io_fail_def
      split: prod.splits sum.splits if_splits dest: db_get_ok)

lemma hash_password_ok:
  assumes "hash_password B pw w = (Inr h, w')"
  shows "\<exists>salt. bc_generate B salt pw = Some h"
  using assms by (auto simp: hash_password_def io_oks split: option.splits)

lemma insert_user_row:
  "insert_user fk did l e h a d = Inr (r, d') \<Longrightarrow>
   users_t d' = users_t d @ [r] \<and> usr_email r = e \<and> usr_is_admin r = a \<and> usr_password_hash r = h \<and>
   (\<forall>q \<in> set (users_t d). usr_email q \<noteq> e)"
  by (auto simp: insert_user_def Let_def split: if_splits)

lemma ensure_domain_users: "users_t (db (snd (ensure_domain s n w))) = users_t (db w)"
proof -
  have g: "users_t (db (snd (db_get f w))) = users_t (db w)" for f w
    by (auto simp: db_get_def may_fail_def split: list.splits option.splits)
  have x: "users_t (db (snd (db_exec (insert_domain n) w))) = users_t (db w)" for n w
    by (auto simp: db_exec_def may_fail_def insert_domain_def Let_def split: list.splits)
  show ?thesis
    by (auto simp: ensure_domain_def if_no_rows_def Let_def io_simps split: driver.splits prod.splits sum.splits)
      (metis g x snd_conv)+
qed

lemma hash_password_db: "db (snd (hash_password B pw w)) = db w"
  by (auto simp: hash_password_def rand_read_def may_fail_def io_simps split: list.splits option.splits)

lemma create_user_row:
  assumes "create_user B s dn lp pw a w = (Inr u, w')"
  shows "\<exists>d d' did h salt. insert_user (so_fk s) did (to_lower lp) (to_lower lp @ ''@'' @ to_lower dn) h a d = Inr (u, d')
    \<and> users_t d = users_t (db w) \<and> users_t (db w') = users_t d' \<and> bc_generate B salt pw = Some h"
proof -
  let ?email = "to_lower lp @ ''@'' @ to_lower dn"
  let ?ins = "\<lambda>(dom :: domain_row) h. db_exec (insert_user (so_fk s) (dom_id dom) (to_lower lp) ?email h a)"
  from assms obtain dom t h t' where ed: "ensure_domain s (to_lower dn) w = (Inr dom, t)" and hash: "hash_password B pw t = (Inr h, t')"
    and run: "(case so_driver s of Postgres \<Rightarrow> ?ins dom h
       | Sqlite \<Rightarrow> io_bind (?ins dom h) (\<lambda>_. get_user_by_email ?email)) t' = (Inr u, w')"
    unfolding create_user_def Let_def io_oks by blast
  have same: "users_t (db t') = users_t (db w)"
    using ensure_domain_users [of s "to_lower dn" w] hash_password_db [of B pw t] ed hash by simp
  from hash_password_ok [OF hash] obtain salt where salt: "bc_generate B salt pw = Some h" ..
  have "\<exists>d'. insert_user (so_fk s) (dom_id dom) (to_lower lp) ?email h a (db t') = Inr (u, d') \<and> users_t (db w') = users_t d'"
  proof (cases "so_driver s")
    case Postgres
    with run show ?thesis by (auto dest: db_exec_ok)
  next
    case Sqlite
    with run obtain r t2 where ins: "insert_user (so_fk s) (dom_id dom) (to_lower lp) ?email h a (db t') = Inr (r, db t2)"
      and get: "get_user_by_email ?email t2 = (Inr u, w')"
      by (auto simp: io_bind_ok dest!: db_exec_ok)
    from not_found_ok [OF get [unfolded get_user_by_email_def]]
    have "find (\<lambda>r. usr_email r = to_lower ?email) (users_t (db t2)) = Some u" "db w' = db t2" by auto
    moreover have "to_lower ?email = ?email" by (simp only: to_lower_append to_lower_idem) code_simp
    moreover from insert_user_row [OF ins]
    have "find (\<lambda>r. usr_email r = ?email) (users_t (db t2)) = Some r"
      by (simp add: find_append_new)
    ultimately have "r = u" by simp
    with ins \<open>db w' = db t2\<close> show ?thesis by auto
  qed
  with salt same show ?thesis by blast
qed

text \<open>A user who was created is found by the address, in any capitalisation, and the password verifies.\<close>

lemma created_user:
  assumes bcrypt: "\<forall>salt pw h. bc_generate B salt pw = Some h \<longrightarrow> bc_compare B h pw"
    and run: "create_user B s dn lp pw a w = (Inr u, w')"
    and addr: "to_lower addr = to_lower (lp @ ''@'' @ dn)"
  shows "users_t (db w') = users_t (db w) @ [u] \<and> (\<forall>q \<in> set (users_t (db w)). usr_email q \<noteq> to_lower addr) \<and>
    usr_email u = to_lower addr \<and> usr_is_admin u = a \<and> find (\<lambda>r. usr_email r = to_lower addr) (users_t (db w')) = Some u \<and> verify_password B u pw"
proof -
  from create_user_row [OF run] obtain d d' did h salt where
    ins: "insert_user (so_fk s) did (to_lower lp) (to_lower lp @ ''@'' @ to_lower dn) h a d = Inr (u, d')"
    and us: "users_t d = users_t (db w)" "users_t (db w') = users_t d'" and salt: "bc_generate B salt pw = Some h" by blast
  have addr': "to_lower addr = to_lower lp @ ''@'' @ to_lower dn"
    using addr by (simp only: to_lower_append) code_simp
  from ins have u: "usr_email u = to_lower addr" "usr_is_admin u = a" "usr_password_hash u = h"
    and d': "users_t d' = users_t d @ [u]" "\<forall>r \<in> set (users_t d). usr_email r \<noteq> to_lower addr"
    using insert_user_row [OF ins] unfolding addr' by blast+
  then show ?thesis
    using bcrypt salt us by (auto simp: find_append_new verify_password_def)
qed

text \<open>C33: saving the relay settings with an empty password keeps the stored one, and no other
  table changes: after a successful \<open>SetRelaySettings\<close> the settings read back are the given ones,
  with the password of the previous settings where the given one is empty.\<close>

theorem relay_password_kept:
  assumes "set_relay_settings s rs w = (Inr u, w')"
  shows "\<exists>old. (relay_t (db w) = Some old \<or> relay_t (db w) = None \<and> old = no_relay) \<and>
    db w' = (db w)\<lparr>relay_t := Some (rs\<lparr>rel_password :=
      if rel_password rs = '''' then rel_password old else rel_password rs\<rparr>)\<rparr>"
proof -
  show ?thesis
  proof (cases "rel_password rs = ''''")
    case False
    with assms have "db w' = (db w)\<lparr>relay_t := Some rs\<rparr>"
      by (cases "so_driver s") (auto simp: set_relay_settings_def io_oks dest!: db_exec_ok)
    with False show ?thesis by (cases "relay_t (db w)") auto
  next
    case True
    with assms obtain old w1 where get: "get_relay_settings w = (Inr old, w1)"
      and w': "db w' = (db w1)\<lparr>relay_t := Some (rs\<lparr>rel_password := rel_password old\<rparr>)\<rparr>"
      by (cases "so_driver s") (auto simp: set_relay_settings_def io_oks dest!: db_exec_ok)
    have "db w1 = db w \<and> (relay_t (db w) = Some old \<or> relay_t (db w) = None \<and> old = no_relay)"
      using get unfolding get_relay_settings_def if_no_rows_def db_get_def may_fail_def
      by (auto simp: io_either_def io_ret_def io_fail_def split: list.splits option.splits if_splits)
    with w' True show ?thesis by auto
  qed
qed

lemma relay_password_kept_witness:
  "relay_t (db (snd (set_relay_settings \<lparr>so_driver = Sqlite, so_fk = True\<rparr>
     (no_relay\<lparr>rel_host := ''smtp.x''\<rparr>)
     (blank_world\<lparr>db := empty_db\<lparr>relay_t := Some (no_relay\<lparr>rel_password := ''s3''\<rparr>)\<rparr>\<rparr>))))
   = Some (no_relay\<lparr>rel_host := ''smtp.x'', rel_password := ''s3''\<rparr>)"
proof -
  let ?w = "blank_world\<lparr>db := empty_db\<lparr>relay_t := Some (no_relay\<lparr>rel_password := ''s3''\<rparr>)\<rparr>\<rparr>"
  let ?r = "set_relay_settings \<lparr>so_driver = Sqlite, so_fk = True\<rparr> (no_relay\<lparr>rel_host := ''smtp.x''\<rparr>) ?w"
  have "fst ?r = Inr ()" by code_simp
  then have "?r = (Inr (), snd ?r)" by (metis prod.collapse)
  from relay_password_kept [OF this] show ?thesis by (auto simp: no_relay_def)
qed

end
