(* ===== verification/Flags.thy ===== *)
theory Flags
  imports World
begin

text \<open>
  \<open>internal/imapbackend/flags.go\<close> and the flag part of \<open>message.go\<close>: IMAP flags, their letters in
  Maildir names and their text in the database. A Go map used as a set of flags is a list without
  repetition; the iteration order of the map is the order of the list.

  What is shown: storing flags in the database and reading them back gives the same set; the
  three STORE operations are assignment, union and difference of case-insensitive sets; the
  letters written into file names are always empty.
\<close>

type_synonym flag = string

definition flag_seen :: flag where "flag_seen = CHR 0x5C # ''Seen''"
definition flag_answered :: flag where "flag_answered = CHR 0x5C # ''Answered''"
definition flag_flagged :: flag where "flag_flagged = CHR 0x5C # ''Flagged''"
definition flag_deleted :: flag where "flag_deleted = CHR 0x5C # ''Deleted''"
definition flag_draft :: flag where "flag_draft = CHR 0x5C # ''Draft''"

definition canonical_flag :: "flag \<Rightarrow> flag" where
  "canonical_flag f = to_lower f"

definition maildir_letter_to_flag :: "char \<Rightarrow> flag option" where
  "maildir_letter_to_flag = map_of [(CHR ''S'', flag_seen), (CHR ''R'', flag_answered),
     (CHR ''F'', flag_flagged), (CHR ''T'', flag_deleted), (CHR ''D'', flag_draft)]"

definition flag_to_maildir_letter :: "flag \<Rightarrow> char option" where
  "flag_to_maildir_letter = map_of [(flag_seen, CHR ''S''), (flag_answered, CHR ''R''),
     (flag_flagged, CHR ''F''), (flag_deleted, CHR ''T''), (flag_draft, CHR ''D'')]"

definition add_flag :: "flag \<Rightarrow> flag list \<Rightarrow> flag list" where
  "add_flag f fs = (if f \<in> set fs then fs else fs @ [f])"

definition flag_set_from_maildir_letters :: "string \<Rightarrow> flag list" where
  "flag_set_from_maildir_letters letters =
     fold (\<lambda>c fs. case maildir_letter_to_flag c of Some f \<Rightarrow> add_flag f fs | None \<Rightarrow> fs) letters []"

definition maildir_letters_from_flag_list :: "flag list \<Rightarrow> string" where
  "maildir_letters_from_flag_list fs = List.map_filter (\<lambda>f. flag_to_maildir_letter (canonical_flag f)) fs"

definition encode_flags :: "flag list \<Rightarrow> string" where
  "encode_flags fs = join_str '' '' fs"

definition decode_flags :: "string \<Rightarrow> flag list" where
  "decode_flags s = fold (\<lambda>f fs. add_flag (canonical_flag f) fs) (str_fields s) []"

section \<open>Messages\<close>

text \<open>\<open>imap.UID\<close> is a 32-bit integer. The mailbox a message points back to is its context.\<close>

record message =
  m_uid :: u32
  m_key :: string
  m_t :: int
  m_size :: int
  m_flags :: "flag list"

definition has_flag :: "message \<Rightarrow> flag \<Rightarrow> bool" where
  "has_flag m f \<longleftrightarrow> canonical_flag f \<in> set (m_flags m)"

datatype flag_op = FlagsSet | FlagsAdd | FlagsDel

fun store_flags :: "flag_op \<Rightarrow> flag list \<Rightarrow> message \<Rightarrow> message" where
  "store_flags FlagsSet fs m = m\<lparr>m_flags := fold (\<lambda>f l. add_flag (canonical_flag f) l) fs []\<rparr>"
| "store_flags FlagsAdd fs m = m\<lparr>m_flags := fold (\<lambda>f l. add_flag (canonical_flag f) l) fs (m_flags m)\<rparr>"
| "store_flags FlagsDel fs m = m\<lparr>m_flags := fold (\<lambda>f l. removeAll (canonical_flag f) l) fs (m_flags m)\<rparr>"

section \<open>Lemmas\<close>

lemma set_add_flag [simp]: "set (add_flag f fs) = insert f (set fs)"
  by (auto simp: add_flag_def)

lemma distinct_add_flag [simp]: "distinct (add_flag f fs) = distinct fs"
  by (simp add: add_flag_def)

lemma fold_add_flag:
  "set (fold (\<lambda>f l. add_flag (g f) l) fs l) = set l \<union> g ` set fs"
  "distinct l \<Longrightarrow> distinct (fold (\<lambda>f l. add_flag (g f) l) fs l)"
  by (induction fs arbitrary: l) auto

lemma fold_remove_flag:
  "set (fold (\<lambda>f l. removeAll (g f) l) fs l) = set l - g ` set fs"
  "distinct l \<Longrightarrow> distinct (fold (\<lambda>f l. removeAll (g f) l) fs l)"
  by (induction fs arbitrary: l) (auto simp: distinct_removeAll)

lemma canonical_idem [simp]: "canonical_flag (canonical_flag f) = canonical_flag f"
  by (simp add: canonical_flag_def)

text \<open>The text of a flag: IMAP atoms have at least one character and no white space.\<close>

definition flag_atom :: "flag \<Rightarrow> bool" where
  "flag_atom f \<longleftrightarrow> f \<noteq> [] \<and> (\<forall>c \<in> set f. \<not> is_space c)"

lemma fields_join:
  "(\<And>f. f \<in> set fs \<Longrightarrow> flag_atom f) \<Longrightarrow> str_fields (join_str '' '' fs) = fs"
proof (induction fs rule: induct_list012)
  case (2 f)
  then have "fields_acc [] (f @ []) = fields_acc (rev f @ []) []"
    by (intro fields_acc_word) (auto simp: flag_atom_def)
  with 2 show ?case by (simp add: str_fields_def flag_atom_def)
next
  case (3 f g fs)
  have "fields_acc [] (f @ '' '' @ join_str '' '' (g # fs)) = fields_acc (rev f @ []) ('' '' @ join_str '' '' (g # fs))"
    by (intro fields_acc_word) (use 3 in \<open>auto simp: flag_atom_def\<close>)
  moreover have "is_space (CHR '' '')" by (simp add: is_space_def)
  moreover have "str_fields (join_str '' '' (g # fs)) = g # fs"
    by (rule "3.IH"(2)) (use "3.prems" in auto)
  moreover have "f \<noteq> []" using "3.prems" [of f] by (simp add: flag_atom_def)
  ultimately show ?case by (simp add: str_fields_def)
qed (simp add: str_fields_def)

lemma decode_encode:
  assumes "\<And>f. f \<in> set fs \<Longrightarrow> flag_atom f"
  shows "set (decode_flags (encode_flags fs)) = canonical_flag ` set fs"
    and "distinct (decode_flags (encode_flags fs))"
proof -
  have "str_fields (join_str '' '' fs) = fs" by (rule fields_join) (rule assms)
  then show "set (decode_flags (encode_flags fs)) = canonical_flag ` set fs"
    and "distinct (decode_flags (encode_flags fs))"
    by (simp_all add: decode_flags_def encode_flags_def fold_add_flag)
qed

lemma letters_always_empty: "maildir_letters_from_flag_list fs = ''''"
proof -
  have "\<not> is_upper (CHR ''S'') \<Longrightarrow> False" "\<not> is_upper (CHR ''A'') \<Longrightarrow> False"
    "\<not> is_upper (CHR ''F'') \<Longrightarrow> False" "\<not> is_upper (CHR ''D'') \<Longrightarrow> False"
    by (simp_all add: is_upper_def)
  then have "flag_to_maildir_letter (canonical_flag f) = None" for f
    using to_lower_no_upper [of _ f]
    by (auto simp: flag_to_maildir_letter_def canonical_flag_def flag_seen_def flag_answered_def
        flag_flagged_def flag_deleted_def flag_draft_def split: if_splits)
  then show ?thesis by (induction fs) (simp_all add: maildir_letters_from_flag_list_def List.map_filter_simps)
qed

section \<open>Properties\<close>

text \<open>C35: flags survive the database. For flags that are IMAP atoms, decoding the text that
  \<open>encodeFlags\<close> writes gives exactly the canonical (lower-case) forms of the flags, each once; and
  canonical flags come back unchanged.\<close>

theorem flags_roundtrip:
  assumes "\<forall>f \<in> set fs. flag_atom f"
  shows "set (decode_flags (encode_flags fs)) = canonical_flag ` set fs \<and>
    distinct (decode_flags (encode_flags fs)) \<and>
    decode_flags (encode_flags (decode_flags (encode_flags fs))) = decode_flags (encode_flags fs)"
proof -
  let ?d = "decode_flags (encode_flags fs)"
  have d: "set ?d = canonical_flag ` set fs" "distinct ?d"
    using decode_encode [of fs] assms by auto
  have lower_space: "is_space (lower_char c) \<Longrightarrow> is_space c" for c
    by (auto simp: lower_char_def is_space_def is_upper_def of_char_char_of_nat split: if_splits)
  have atoms: "flag_atom f" if "f \<in> set ?d" for f
  proof -
    from that obtain g where g: "g \<in> set fs" "f = map lower_char g"
      unfolding d(1) by (auto simp: canonical_flag_def to_lower_def)
    with assms have "flag_atom g" by blast
    then have "\<forall>c \<in> set g. \<not> is_space (lower_char c)" using lower_space by (metis flag_atom_def)
    with \<open>flag_atom g\<close> g(2) show ?thesis by (simp add: flag_atom_def)
  qed
  have canon: "canonical_flag f = f" if "f \<in> set ?d" for f
    using that unfolding d(1) by auto
  have id: "fold (\<lambda>f l. add_flag (canonical_flag f) l) xs acc = acc @ xs"
    if "distinct (acc @ xs)" "\<And>f. f \<in> set xs \<Longrightarrow> canonical_flag f = f" for xs acc
    using that
  proof (induction xs arbitrary: acc)
    case (Cons x xs)
    then have "add_flag (canonical_flag x) acc = acc @ [x]" by (simp add: add_flag_def)
    with Cons show ?case by simp
  qed simp
  have "decode_flags (encode_flags ?d) = fold (\<lambda>f l. add_flag (canonical_flag f) l) ?d []"
    unfolding decode_flags_def [of "encode_flags ?d"]
    unfolding encode_flags_def [of ?d] by (subst fields_join) (rule atoms, assumption, rule refl)
  also have "\<dots> = ?d" using id [of "[]" ?d] d(2) canon by simp
  finally show ?thesis using d by simp
qed

lemma flags_roundtrip_witness:
  "set (decode_flags (encode_flags [flag_seen, ''$Work''])) = canonical_flag ` {flag_seen, ''$Work''}"
  using flags_roundtrip [of "[flag_seen, ''$Work'']"]
  by (simp add: flag_atom_def flag_seen_def is_space_def)

text \<open>STORE is set arithmetic on case-insensitive flags: setting assigns, adding unites and
  deleting subtracts the canonical flags, the list stays free of repetition, and nothing else of
  the message changes.\<close>

theorem store_flags_sets:
  assumes "distinct (m_flags m)"
  shows "set (m_flags (store_flags op fs m)) =
      (case op of FlagsSet \<Rightarrow> canonical_flag ` set fs
       | FlagsAdd \<Rightarrow> set (m_flags m) \<union> canonical_flag ` set fs
       | FlagsDel \<Rightarrow> set (m_flags m) - canonical_flag ` set fs) \<and>
    distinct (m_flags (store_flags op fs m)) \<and>
    (store_flags op fs m)\<lparr>m_flags := m_flags m\<rparr> = m"
  using assms by (cases op) (simp_all add: fold_add_flag fold_remove_flag)

lemma store_flags_sets_witness:
  "set (m_flags (store_flags FlagsDel [flag_seen] \<lparr>m_uid = 1, m_key = ''k'', m_t = 0, m_size = 0,
     m_flags = [canonical_flag flag_seen, ''$work'']\<rparr>)) = {''$work''}"
proof -
  let ?m = "\<lparr>m_uid = 1, m_key = ''k'', m_t = 0, m_size = 0, m_flags = [canonical_flag flag_seen, ''$work'']\<rparr>"
  have ne: "canonical_flag flag_seen \<noteq> ''$work''" by code_simp
  then have "distinct (m_flags ?m)" by simp
  from store_flags_sets [OF this, of FlagsDel "[flag_seen]"] ne show ?thesis by auto
qed

text \<open>C32: the letters of a file name never reach the disk: whatever the flags of a message are,
  the letters \<open>persistFlags\<close> and \<open>appendBytes\<close> hand to the Maildir are empty, because the table is
  keyed by the capitalised names and looked up with the lower-case ones. And a flag read from a
  file name is kept in the capitalised form that \<open>hasFlag\<close> never asks for.\<close>

theorem letters_lost:
  "maildir_letters_from_flag_list fs = '''' \<and>
   \<not> has_flag (m\<lparr>m_flags := flag_set_from_maildir_letters ls\<rparr>) flag_seen"
proof -
  have sub: "set (fold (\<lambda>c fs. case maildir_letter_to_flag c of Some f \<Rightarrow> add_flag f fs | None \<Rightarrow> fs) ls acc)
      \<subseteq> set acc \<union> {flag_seen, flag_answered, flag_flagged, flag_deleted, flag_draft}" for acc
    by (induction ls arbitrary: acc) (fastforce simp: maildir_letter_to_flag_def split: if_splits option.splits)+
  have "canonical_flag flag_seen \<notin> {flag_seen, flag_answered, flag_flagged, flag_deleted, flag_draft}"
    by code_simp
  with sub [of "[]"] show ?thesis
    by (auto simp: letters_always_empty has_flag_def flag_set_from_maildir_letters_def)
qed

end
