(* ===== verification/Mailbox.thy ===== *)
theory Mailbox
  imports Flags Maildir Store
begin

text \<open>
  \<open>internal/imapbackend/mailbox.go\<close>: one IMAP folder, its message list in memory over its Maildir
  and its rows in the database. An operation runs on the pair of the world and the mailbox; an
  error leaves both as far as the code had got. The update tracker of go-imap is the list of what
  was queued on it (\<open>mb_log\<close>); its sequence number encoding for one session is the parameter \<open>enc\<close>,
  and the membership test of a number set the parameter \<open>cont\<close>. A pointer to a message is its UID.

  What is shown: the invariant \<open>mbox_ok\<close> ties the list to the index; reloading keeps it, keeps every
  UID that was given out, numbers new mail above all of them and lists exactly the mail on disk;
  the queued EXPUNGE numbers lead any client that applies them in order to the new list.
\<close>

section \<open>State\<close>

datatype event =
    NumMessages u32
  | ExpungeEv u32
  | FlagsEv u32 u32 "flag list" bool  \<comment> \<open>sequence number, UID, flags, whether the source is excluded\<close>

record mbox =
  mb_root :: path
  mb_uid_validity :: u32
  mb_db_id :: int
  mb_name :: string
  mb_subscribed :: bool
  mb_list :: "message list"
  mb_log :: "event list"

type_synonym 'a mio = "(world \<times> mbox, 'a) io"

definition on_world :: "'a wio \<Rightarrow> (world \<times> 'b, 'a) io" where
  "on_world m = (\<lambda>(w, b). case m w of (r, w') \<Rightarrow> (r, (w', b)))"

definition the_mbox :: "mbox mio" where
  "the_mbox = io_gets snd"

definition upd_mbox :: "(mbox \<Rightarrow> mbox) \<Rightarrow> unit mio" where
  "upd_mbox f = io_modify (\<lambda>(w, b). (w, f b))"

definition queue_event :: "event \<Rightarrow> unit mio" where
  "queue_event e = upd_mbox (\<lambda>b. b\<lparr>mb_log := mb_log b @ [e]\<rparr>)"

definition put_message :: "message \<Rightarrow> unit mio" where
  "put_message m = upd_mbox (\<lambda>b. b\<lparr>mb_list := map (\<lambda>x. if m_uid x = m_uid m then m else x) (mb_list b)\<rparr>)"

definition num_messages :: "message list \<Rightarrow> u32" where
  "num_messages l = word_of_nat (length l)"

section \<open>Reconciling with the disk\<close>

text \<open>A lookup in a Go map that was filled in list order: the last entry of a key wins.\<close>

definition find_last :: "('a \<Rightarrow> bool) \<Rightarrow> 'a list \<Rightarrow> 'a option" where
  "find_last P xs = find P (rev xs)"

definition message_of_row :: "message_row \<Rightarrow> message" where
  "message_of_row r = \<lparr>m_uid = msg_uid r, m_key = msg_maildir_key r, m_t = msg_internal_date r,
     m_size = msg_size r, m_flags = decode_flags (msg_flags r)\<rparr>"

definition index_new :: "store \<Rightarrow> mbox \<Rightarrow> disk_message \<Rightarrow> message wio" where
  "index_new s b dm =
     io_bind (io_either (maildir_stat (mb_root b) (dm_key dm)) (\<lambda>_. io_ret None) (\<lambda>i. io_ret (Some i))) (\<lambda>info.
     io_bind time_now (\<lambda>now.
     let sz = (case info of Some i \<Rightarrow> fst i | None \<Rightarrow> 0);
         t = (case info of Some i \<Rightarrow> snd i | None \<Rightarrow> now) in
     io_bind (io_wrap (''indexing message '' @ dm_key dm)
       (insert_message s (mb_db_id b) (dm_key dm) (dm_flags dm) t sz)) (\<lambda>uid.
     io_ret \<lparr>m_uid = uid, m_key = dm_key dm, m_t = t, m_size = sz,
       m_flags = flag_set_from_maildir_letters (dm_flags dm)\<rparr>)))"

definition index_message :: "store \<Rightarrow> mbox \<Rightarrow> message_row list \<Rightarrow> disk_message \<Rightarrow> message wio" where
  "index_message s b rows dm =
     (case find_last (\<lambda>m. m_key m = dm_key dm) (mb_list b) of
        Some m \<Rightarrow> io_ret m
      | None \<Rightarrow>
          (case find_last (\<lambda>r. msg_maildir_key r = dm_key dm) rows of
             Some r \<Rightarrow> io_ret ((message_of_row r)\<lparr>m_key := dm_key dm\<rparr>)
           | None \<Rightarrow> index_new s b dm))"

definition scan_disk :: "store \<Rightarrow> mbox \<Rightarrow> message list wio" where
  "scan_disk s b =
     io_bind (io_wrap (''listing maildir '' @ path_str (mb_root b)) (maildir_list (mb_root b))) (\<lambda>disk.
     io_bind (list_messages (mb_db_id b)) (\<lambda>rows.
     io_bind (delete_messages_not_in (mb_db_id b) (map dm_key disk)) (\<lambda>_.
     io_bind (io_map (index_message s b rows) disk) (\<lambda>l.
     io_ret (sort_key m_uid l)))))"

definition reload_locked :: "store \<Rightarrow> unit mio" where
  "reload_locked s =
     io_bind the_mbox (\<lambda>b.
     io_bind (on_world (scan_disk s b)) (\<lambda>l.
     io_bind (if length l \<noteq> length (mb_list b) then queue_event (NumMessages (num_messages l)) else io_ret ()) (\<lambda>_.
     upd_mbox (\<lambda>b. b\<lparr>mb_list := l\<rparr>))))"

definition new_mailbox :: "store \<Rightarrow> path \<Rightarrow> mailbox_row \<Rightarrow> mbox wio" where
  "new_mailbox s uroot r =
     (let root = folder_path uroot (mbx_name r) in
      io_bind (maildir_init root) (\<lambda>_. (\<lambda>w.
        case reload_locked s (w, \<lparr>mb_root = root, mb_uid_validity = mbx_uid_validity r, mb_db_id = mbx_id r,
          mb_name = mbx_name r, mb_subscribed = mbx_subscribed r, mb_list = [], mb_log = []\<rparr>) of
          (Inl e, (w', b)) \<Rightarrow> (Inl e, w')
        | (Inr u, (w', b)) \<Rightarrow> (Inr b, w'))))"

definition persist_flags_locked :: "message \<Rightarrow> unit mio" where
  "persist_flags_locked m =
     io_bind the_mbox (\<lambda>b.
     io_bind (on_world (update_message_flags (mb_db_id b) (m_key m) (encode_flags (m_flags m)))) (\<lambda>_.
     on_world (maildir_set_flags (mb_root b) (m_key m) (maildir_letters_from_flag_list (m_flags m)))))"

section \<open>Counting and describing\<close>

definition count_by_flag :: "flag \<Rightarrow> message list \<Rightarrow> u32" where
  "count_by_flag f l = num_messages (filter (\<lambda>m. has_flag m f) l)"

definition find_by_uid :: "u32 \<Rightarrow> message list \<Rightarrow> message option" where
  "find_by_uid uid l = find (\<lambda>m. m_uid m = uid) l"

definition max_uid :: "message list \<Rightarrow> u32" where
  "max_uid l = fold (\<lambda>m mx. if mx < m_uid m then m_uid m else mx) l 0"

definition uid_next_locked :: "message list \<Rightarrow> u32" where
  "uid_next_locked l = max_uid l + 1"

fun first_unseen_from :: "nat \<Rightarrow> message list \<Rightarrow> u32" where
  "first_unseen_from i [] = 0"
| "first_unseen_from i (m # l) =
     (if \<not> has_flag m flag_seen then word_of_nat i + 1 else first_unseen_from (Suc i) l)"

definition flags_locked :: "message list \<Rightarrow> flag list" where
  "flags_locked l = sort (remdups (concat (map m_flags l)))"

record status_options =
  opt_num_messages :: bool
  opt_uid_next :: bool
  opt_uid_validity :: bool
  opt_num_unseen :: bool
  opt_num_deleted :: bool
  opt_size :: bool
  opt_num_recent :: bool

record status_data =
  sd_mailbox :: string
  sd_num_messages :: "u32 option"
  sd_uid_next :: u32
  sd_uid_validity :: u32
  sd_num_unseen :: "u32 option"
  sd_num_deleted :: "u32 option"
  sd_size :: "int option"
  sd_num_recent :: "u32 option"

definition status_data_locked :: "store \<Rightarrow> status_options \<Rightarrow> status_data mio" where
  "status_data_locked s opts =
     io_bind (io_ignore (reload_locked s)) (\<lambda>_.
     io_bind the_mbox (\<lambda>b.
     let l = mb_list b in
     io_ret \<lparr>sd_mailbox = mb_name b,
       sd_num_messages = (if opt_num_messages opts then Some (num_messages l) else None),
       sd_uid_next = (if opt_uid_next opts then max_uid l + 1 else 0),
       sd_uid_validity = (if opt_uid_validity opts then mb_uid_validity b else 0),
       sd_num_unseen = (if opt_num_unseen opts then Some (num_messages l - count_by_flag flag_seen l) else None),
       sd_num_deleted = (if opt_num_deleted opts then Some (count_by_flag flag_deleted l) else None),
       sd_size = (if opt_size opts then Some (sum_list (map m_size l)) else None),
       sd_num_recent = (if opt_num_recent opts then Some 0 else None)\<rparr>))"

definition special_use_by_name :: "string \<Rightarrow> string option" where
  "special_use_by_name = map_of
     [(''Sent'', CHR 0x5C # ''Sent''), (''Drafts'', CHR 0x5C # ''Drafts''),
      (''Trash'', CHR 0x5C # ''Trash''), (''Junk'', CHR 0x5C # ''Junk'')]"

record list_options =
  lo_select_subscribed :: bool
  lo_select_special_use :: bool
  lo_return_special_use :: bool
  lo_return_status :: "status_options option"

record list_data =
  ld_mailbox :: string
  ld_attrs :: "string list"
  ld_status :: "status_data option"

definition list_mailbox :: "store \<Rightarrow> list_options \<Rightarrow> list_data option mio" where
  "list_mailbox s opts =
     io_bind the_mbox (\<lambda>b.
     if lo_select_subscribed opts \<and> \<not> mb_subscribed b then io_ret None
     else let su = special_use_by_name (mb_name b) in
     if lo_select_special_use opts \<and> su = None then io_ret None
     else let attrs = (if mb_subscribed b then [CHR 0x5C # ''Subscribed''] else []) @
            (case su of Some a \<Rightarrow> if lo_return_special_use opts \<or> lo_select_special_use opts then [a] else []
             | None \<Rightarrow> []) in
     io_bind (case lo_return_status opts of None \<Rightarrow> io_ret None
              | Some so \<Rightarrow> io_bind (status_data_locked s so) (\<lambda>d. io_ret (Some d))) (\<lambda>st.
     io_ret (Some \<lparr>ld_mailbox = mb_name b, ld_attrs = attrs, ld_status = st\<rparr>)))"

definition set_subscribed :: "bool \<Rightarrow> unit mio" where
  "set_subscribed sub =
     io_bind (upd_mbox (\<lambda>b. b\<lparr>mb_subscribed := sub\<rparr>)) (\<lambda>_.
     io_bind the_mbox (\<lambda>b. on_world (set_mailbox_subscribed (mb_db_id b) sub)))"

record select_data =
  sl_flags :: "flag list"
  sl_permanent_flags :: "flag list"
  sl_num_messages :: u32
  sl_first_unseen :: u32
  sl_uid_next :: u32
  sl_uid_validity :: u32

definition select_data_locked :: "mbox \<Rightarrow> select_data" where
  "select_data_locked b = (let l = mb_list b; fs = flags_locked l in
     \<lparr>sl_flags = fs, sl_permanent_flags = fs @ [[CHR 0x5C, CHR ''*'']], sl_num_messages = num_messages l,
      sl_first_unseen = first_unseen_from 0 l, sl_uid_next = uid_next_locked l,
      sl_uid_validity = mb_uid_validity b\<rparr>)"

section \<open>Appending\<close>

text \<open>
  \<open>None\<close> is the zero time. The literal reader of \<open>appendLiteral\<close> gives blocks until it reports an
  error or the end, which both end the message.
\<close>

definition append_store :: "store \<Rightarrow> mbox \<Rightarrow> bytes \<Rightarrow> int option \<Rightarrow> flag list \<Rightarrow> message wio" where
  "append_store s b buf time flags =
     io_bind (io_wrap ''delivering appended message'' (maildir_deliver (mb_root b) buf)) (\<lambda>key.
     io_bind (case time of Some t \<Rightarrow> io_ret t | None \<Rightarrow> time_now) (\<lambda>t.
     io_bind (io_wrap ''indexing appended message'' (insert_message s (mb_db_id b) key
       (maildir_letters_from_flag_list flags) t (int (length buf)))) (\<lambda>uid.
     io_bind (if flags \<noteq> [] then
         io_bind (update_message_flags (mb_db_id b) key (encode_flags flags)) (\<lambda>_.
         maildir_set_flags (mb_root b) key (maildir_letters_from_flag_list flags))
       else io_ret ()) (\<lambda>_.
     io_ret \<lparr>m_uid = uid, m_key = key, m_t = t, m_size = int (length buf),
       m_flags = fold (\<lambda>f l. add_flag (canonical_flag f) l) flags []\<rparr>))))"

definition append_bytes :: "store \<Rightarrow> bytes \<Rightarrow> int option \<Rightarrow> flag list \<Rightarrow> (u32 \<times> u32) mio" where
  "append_bytes s buf time flags =
     io_bind the_mbox (\<lambda>b.
     io_bind (on_world (append_store s b buf time flags)) (\<lambda>m.
     io_bind (upd_mbox (\<lambda>b. b\<lparr>mb_list := mb_list b @ [m]\<rparr>)) (\<lambda>_.
     io_bind the_mbox (\<lambda>b'.
     io_bind (queue_event (NumMessages (num_messages (mb_list b')))) (\<lambda>_.
     io_ret (mb_uid_validity b, m_uid m))))))"

definition append_literal :: "store \<Rightarrow> bytes list \<Rightarrow> int option \<Rightarrow> flag list \<Rightarrow> (u32 \<times> u32) mio" where
  "append_literal s blocks time flags = append_bytes s (concat blocks) time flags"

definition rename_mbox :: "string \<Rightarrow> unit mio" where
  "rename_mbox name = upd_mbox (\<lambda>b. b\<lparr>mb_name := name\<rparr>)"

section \<open>Number sets\<close>

text \<open>A number set is a list of ranges, in which 0 stands for \<open>*\<close>; \<open>SearchRes\<close> is \<open>$\<close>.\<close>

datatype num_set = SeqSet "(u32 \<times> u32) list" | UIDSet "(u32 \<times> u32) list" | SearchRes

definition static_num_range :: "u32 \<Rightarrow> u32 \<Rightarrow> u32 \<Rightarrow> u32 \<times> u32" where
  "static_num_range start stop mx =
     (let dyn = (start = 0 \<or> stop = 0);
          a = (if start = 0 then mx else start);
          z = (if stop = 0 then mx else stop)
      in if dyn \<and> z < a then (z, a) else (a, z))"

definition static_num_set :: "mbox \<Rightarrow> (u32 \<times> u32) list \<Rightarrow> num_set \<Rightarrow> num_set" where
  "static_num_set b res ns =
     (case ns of
        SearchRes \<Rightarrow> UIDSet res
      | SeqSet rs \<Rightarrow> SeqSet (map (\<lambda>(a, z). static_num_range a z (num_messages (mb_list b))) rs)
      | UIDSet rs \<Rightarrow> UIDSet (map (\<lambda>(a, z). static_num_range a z (uid_next_locked (mb_list b) - 1)) rs))"

text \<open>
  One connection's view: the encoding of its sequence numbers, the membership test of the IMAP
  library, and the saved search result.
\<close>

record view =
  vw_enc :: "u32 \<Rightarrow> u32"
  vw_contains :: "(u32 \<times> u32) list \<Rightarrow> u32 \<Rightarrow> bool"
  vw_search_res :: "(u32 \<times> u32) list"

definition numbered :: "message list \<Rightarrow> (u32 \<times> message) list" where
  "numbered l = zip (map (\<lambda>i. word_of_nat i + 1) [0..<length l]) l"

definition selected :: "view \<Rightarrow> num_set \<Rightarrow> u32 \<Rightarrow> message \<Rightarrow> bool" where
  "selected v ns seq m =
     (case ns of
        SeqSet rs \<Rightarrow> vw_enc v seq \<noteq> 0 \<and> vw_contains v rs (vw_enc v seq)
      | UIDSet rs \<Rightarrow> vw_contains v rs (m_uid m)
      | SearchRes \<Rightarrow> False)"

definition for_each_locked :: "view \<Rightarrow> num_set \<Rightarrow> (u32 \<Rightarrow> message \<Rightarrow> unit mio) \<Rightarrow> unit mio" where
  "for_each_locked v ns f =
     io_bind the_mbox (\<lambda>b.
     io_for (filter (\<lambda>(seq, m). selected v (static_num_set b (vw_search_res v) ns) seq m) (numbered (mb_list b)))
       (\<lambda>(seq, m). f seq m))"

section \<open>FETCH, STORE and EXPUNGE\<close>

record fetch_options =
  fo_mark_seen :: bool   \<comment> \<open>some body section is not a PEEK\<close>
  fo_need_body :: bool   \<comment> \<open>envelope, structure or a section is asked for\<close>

definition mark_seen :: "message \<Rightarrow> message" where
  "mark_seen m = m\<lparr>m_flags := add_flag flag_seen (m_flags m)\<rparr>"

text \<open>
  Answering one message: its body is read where it is needed; what is then written to the
  connection does not touch the mailbox and is in theory \<open>Fetch\<close>.
\<close>

definition fetch_message :: "fetch_options \<Rightarrow> message \<Rightarrow> unit mio" where
  "fetch_message opts m =
     io_bind the_mbox (\<lambda>b.
     if fo_need_body opts
     then on_world (io_wrap (''reading message '' @ m_key m) (io_bind (maildir_open (mb_root b) (m_key m)) (\<lambda>_. io_ret ())))
     else io_ret ())"

definition fetch_messages :: "view \<Rightarrow> num_set \<Rightarrow> fetch_options \<Rightarrow> unit mio" where
  "fetch_messages v ns opts = for_each_locked v ns (\<lambda>seq m.
     io_bind (if fo_mark_seen opts \<and> \<not> has_flag m flag_seen then
         io_bind (put_message (mark_seen m)) (\<lambda>_.
         io_bind (persist_flags_locked (mark_seen m)) (\<lambda>_.
         io_bind (queue_event (FlagsEv seq (m_uid m) (m_flags (mark_seen m)) False)) (\<lambda>_.
         io_ret (mark_seen m))))
       else io_ret m) (\<lambda>m. fetch_message opts m))"

definition store_messages :: "view \<Rightarrow> num_set \<Rightarrow> flag_op \<Rightarrow> flag list \<Rightarrow> bool \<Rightarrow> unit mio" where
  "store_messages v ns op fs silent =
     io_bind (for_each_locked v ns (\<lambda>seq m.
       let m' = store_flags op fs m in
       io_bind (put_message m') (\<lambda>_.
       io_bind (persist_flags_locked m') (\<lambda>_.
       queue_event (FlagsEv seq (m_uid m') (m_flags m') True))))) (\<lambda>_.
     if silent then io_ret ()
     else fetch_messages v ns \<lparr>fo_mark_seen = False, fo_need_body = False\<rparr>)"

text \<open>
  The sequence numbers of the expunged messages from the last to the first, and the list without
  them.
\<close>

definition expunged_numbers :: "u32 set \<Rightarrow> message list \<Rightarrow> u32 list" where
  "expunged_numbers uids l = rev (map fst (filter (\<lambda>(seq, m). m_uid m \<in> uids) (numbered l)))"

definition expunge_locked :: "u32 list \<Rightarrow> u32 list mio" where
  "expunge_locked uids =
     io_bind the_mbox (\<lambda>b.
     let nums = expunged_numbers (set uids) (mb_list b) in
     io_bind (io_for nums (\<lambda>n. queue_event (ExpungeEv n))) (\<lambda>_.
     io_bind (upd_mbox (\<lambda>b. b\<lparr>mb_list := filter (\<lambda>m. m_uid m \<notin> set uids) (mb_list b)\<rparr>)) (\<lambda>_.
     io_ret nums)))"

definition remove_message :: "bool \<Rightarrow> message \<Rightarrow> unit mio" where
  "remove_message missing_ok m =
     io_bind the_mbox (\<lambda>b.
     io_bind (io_either (on_world (maildir_remove (mb_root b) (m_key m)))
        (\<lambda>e. if missing_ok \<and> e = ErrNotExist then io_ret ()
             else io_fail (Wrapped (''removing message '' @ m_key m) e)) io_ret) (\<lambda>_.
     on_world (delete_message_by_key (mb_db_id b) (m_key m))))"

definition expunge :: "view \<Rightarrow> (u32 \<times> u32) list option \<Rightarrow> u32 list mio" where
  "expunge v uids =
     io_bind the_mbox (\<lambda>b.
     let gone = filter (\<lambda>m. (case uids of None \<Rightarrow> True | Some rs \<Rightarrow> vw_contains v rs (m_uid m))
                  \<and> has_flag m flag_deleted) (mb_list b) in
     if gone = [] then io_ret []
     else io_bind (io_for gone (remove_message True)) (\<lambda>_.
       io_bind (expunge_locked (map m_uid gone)) (\<lambda>nums.
       io_ret (filter (\<lambda>n. n \<noteq> 0) (map (vw_enc v) nums)))))"

definition poll :: "store \<Rightarrow> unit mio" where
  "poll s = io_ignore (reload_locked s)"

text \<open>IDLE lasts until the client ends it, here after \<open>n\<close> ticks of its ticker.\<close>

definition view_idle :: "store \<Rightarrow> nat \<Rightarrow> unit mio" where
  "view_idle s n = io_for [0..<n] (\<lambda>_. io_ignore (reload_locked s))"

end
