(* ===== verification/MailboxInv.thy ===== *)
theory MailboxInv
  imports Mailbox
begin

text \<open>
  Lemmas and properties of the mailbox operations of \<open>Mailbox\<close>: the expunge numbers, the
  invariant between list and index, reloading and appending.
\<close>

section \<open>Expunging\<close>

definition drop_nth :: "nat \<Rightarrow> 'a list \<Rightarrow> 'a list" where
  "drop_nth i xs = take i xs @ drop (Suc i) xs"

text \<open>What a client does with one EXPUNGE response: forget that position, counting from 1.\<close>

definition client_expunge :: "u32 \<Rightarrow> 'a list \<Rightarrow> 'a list" where
  "client_expunge n xs = drop_nth (unat n - 1) xs"

lemma numbered_snoc:
  "numbered (l @ [m]) = numbered l @ [(word_of_nat (length l) + 1, m)]"
  by (simp add: numbered_def)

lemma replay_expunges:
  assumes "length l < 2 ^ 32 - 1"
  shows "fold client_expunge (expunged_numbers U l) (l @ ys) = filter (\<lambda>m. m_uid m \<notin> U) l @ ys"
  using assms
proof (induction l arbitrary: ys rule: rev_induct)
  case (snoc m l)
  have "unat (word_of_nat (length l) + 1 :: u32) = length l + 1"
  proof -
    have "(word_of_nat (length l) + 1 :: u32) = word_of_nat (length l + 1)" by simp
    moreover have "unat (word_of_nat (length l + 1) :: u32) = length l + 1"
      using snoc.prems by (simp only: unsigned_of_nat take_bit_eq_mod) simp
    ultimately show ?thesis by (simp only:)
  qed
  then have "client_expunge (word_of_nat (length l) + 1) ((l @ [m]) @ ys) = l @ ys"
    by (simp add: client_expunge_def drop_nth_def)
  then show ?case
    using snoc.IH [of ys] snoc.IH [of "m # ys"] snoc.prems
    by (cases "m_uid m \<in> U") (simp_all add: expunged_numbers_def numbered_snoc)
qed (simp add: expunged_numbers_def numbered_def)

lemma io_for_queue:
  "io_for ns (\<lambda>n. queue_event (g n)) (w, b) = (Inr (), (w, b\<lparr>mb_log := mb_log b @ map g ns\<rparr>))"
  by (induction ns arbitrary: b) (simp_all add: queue_event_def upd_mbox_def io_simps)

lemma expunge_locked_run:
  "expunge_locked uids (w, b) =
     (Inr (expunged_numbers (set uids) (mb_list b)),
      (w, b\<lparr>mb_log := mb_log b @ map ExpungeEv (expunged_numbers (set uids) (mb_list b)),
            mb_list := filter (\<lambda>m. m_uid m \<notin> set uids) (mb_list b)\<rparr>))"
  by (simp add: expunge_locked_def the_mbox_def io_bind_apply io_gets_def Let_def io_for_queue
      upd_mbox_def io_modify_def io_ret_def)

text \<open>C28: expunging tells clients the truth. \<open>expungeLocked\<close> drops exactly the given messages,
  keeps the others in order, and queues the EXPUNGE numbers it returns; a client that held the
  old list and applies those numbers one after the other, each to the list as it is by then, ends
  with the new list.\<close>

theorem expunge_replay:
  assumes "length (mb_list b) < 2 ^ 32 - 1"
  shows "\<exists>nums b'. expunge_locked uids (w, b) = (Inr nums, (w, b')) \<and>
    mb_list b' = filter (\<lambda>m. m_uid m \<notin> set uids) (mb_list b) \<and>
    mb_log b' = mb_log b @ map ExpungeEv nums \<and>
    fold client_expunge nums (mb_list b) = mb_list b' \<and>
    b'\<lparr>mb_list := mb_list b, mb_log := mb_log b\<rparr> = b"
  using replay_expunges [OF assms, of "set uids" "[]"] by (simp add: expunge_locked_run)

lemma expunge_replay_witness:
  "\<exists>nums b'. expunge_locked [2] (blank_world, \<lparr>mb_root = [], mb_uid_validity = 1, mb_db_id = 1, mb_name = ''INBOX'',
      mb_subscribed = True, mb_list = [\<lparr>m_uid = 2, m_key = ''a'', m_t = 0, m_size = 1, m_flags = []\<rparr>,
      \<lparr>m_uid = 5, m_key = ''b'', m_t = 0, m_size = 1, m_flags = []\<rparr>], mb_log = []\<rparr>) = (Inr nums, (blank_world, b')) \<and>
    map m_uid (mb_list b') = [5]"
proof -
  let ?b = "\<lparr>mb_root = [], mb_uid_validity = 1, mb_db_id = 1, mb_name = ''INBOX'',
      mb_subscribed = True, mb_list = [\<lparr>m_uid = 2, m_key = ''a'', m_t = 0, m_size = 1, m_flags = []\<rparr>,
      \<lparr>m_uid = 5, m_key = ''b'', m_t = 0, m_size = 1, m_flags = []\<rparr>], mb_log = []\<rparr>"
  have "length (mb_list ?b) < 2 ^ 32 - 1" by simp
  from expunge_replay [OF this, of "[2]" blank_world] obtain nums b' where
    "expunge_locked [2] (blank_world, ?b) = (Inr nums, (blank_world, b'))"
    "mb_list b' = filter (\<lambda>m. m_uid m \<notin> set [2]) (mb_list ?b)" by blast
  then show ?thesis by auto
qed

section \<open>The list and the index\<close>

definition indexed :: "database \<Rightarrow> int \<Rightarrow> message \<Rightarrow> bool" where
  "indexed d mid m \<longleftrightarrow> (\<exists>r \<in> set (messages_t d). msg_mailbox_id r = mid \<and>
     msg_maildir_key r = m_key m \<and> msg_uid r = m_uid m)"

text \<open>The invariant: each listed message has its row, and the list is strictly ordered by UID.\<close>

definition mbox_ok :: "database \<Rightarrow> mbox \<Rightarrow> bool" where
  "mbox_ok d b \<longleftrightarrow> (\<forall>m \<in> set (mb_list b). indexed d (mb_db_id b) m) \<and>
     sorted_wrt (<) (map m_uid (mb_list b))"

lemma distinct_map_eq: "distinct (map f xs) \<Longrightarrow> x \<in> set xs \<Longrightarrow> y \<in> set xs \<Longrightarrow> f x = f y \<Longrightarrow> x = y"
  by (auto simp: distinct_map dest: inj_onD)

lemma indexed_key_uid:
  assumes "db_ok fk d" and "indexed d mid m" and "indexed d mid m'"
  shows "m_key m = m_key m' \<longleftrightarrow> m_uid m = m_uid m'"
proof -
  from assms(2,3) obtain r r' where r: "r \<in> set (messages_t d)" "msg_mailbox_id r = mid"
      "msg_maildir_key r = m_key m" "msg_uid r = m_uid m"
    and r': "r' \<in> set (messages_t d)" "msg_mailbox_id r' = mid"
      "msg_maildir_key r' = m_key m'" "msg_uid r' = m_uid m'"
    unfolding indexed_def by blast
  have "distinct (map (\<lambda>r. (msg_mailbox_id r, msg_uid r)) (messages_t d))"
    "distinct (map (\<lambda>r. (msg_mailbox_id r, msg_maildir_key r)) (messages_t d))"
    using assms(1) by (auto simp: db_ok_def unique_ok_def)
  from distinct_map_eq [OF this(1) r(1) r'(1)] distinct_map_eq [OF this(2) r(1) r'(1)] r r'
  show ?thesis by auto
qed

lemma strict_sorted_distinct: "sorted_wrt (<) xs \<Longrightarrow> distinct (xs :: 'a :: linorder list)"
  by (simp add: strict_sorted_iff)

lemma mbox_ok_keys:
  assumes "db_ok fk d" and "mbox_ok d b" and "m \<in> set (mb_list b)" and "m' \<in> set (mb_list b)"
    and "m_key m = m_key m'"
  shows "m = m'"
proof -
  from assms have "m_uid m = m_uid m'"
    using indexed_key_uid [OF assms(1), of "mb_db_id b" m m'] by (simp add: mbox_ok_def)
  moreover have "distinct (map m_uid (mb_list b))"
    using assms(2) strict_sorted_distinct by (auto simp: mbox_ok_def)
  ultimately show ?thesis using assms(3,4) distinct_map_eq by metis
qed

lemma find_last_Some:
  "find_last P xs = Some x \<Longrightarrow> x \<in> set xs \<and> P x"
  by (auto simp: find_last_def dest: find_SomeD)

lemma find_last_None: "find_last P xs = None \<longleftrightarrow> (\<forall>x \<in> set xs. \<not> P x)"
  by (auto simp: find_last_def find_None_iff)

section \<open>Effects of the parts\<close>

lemma keeps_case_option:
  "keeps R m \<Longrightarrow> (\<And>x. keeps R (f x)) \<Longrightarrow> keeps R (case v of None \<Rightarrow> m | Some x \<Rightarrow> f x)"
  by (cases v) simp_all

lemma keeps_case_prod: "(\<And>x y. keeps R (f x y)) \<Longrightarrow> keeps R (case v of (x, y) \<Rightarrow> f x y)"
  by (cases v) simp

lemma maildir_same_db:
  "keeps same_db (maildir_list root)" "keeps same_db (maildir_stat root k)" "keeps same_db (maildir_open root k)"
  "keeps same_db (maildir_remove root k)" "keeps same_db (maildir_set_flags root k f)"
  "keeps same_db (maildir_deliver root d)" "keeps same_db (maildir_init root)"
proof -
  have find: "keeps same_db (maildir_find root k)" for k
    unfolding maildir_find_def find_in_def by (intro fs_effects keeps_case_option)
  show "keeps same_db (maildir_list root)"
    unfolding maildir_list_def read_dir_or_empty_def by (intro fs_effects)
  show "keeps same_db (maildir_stat root k)" "keeps same_db (maildir_open root k)"
    "keeps same_db (maildir_remove root k)" "keeps same_db (maildir_set_flags root k f)"
    unfolding maildir_stat_def maildir_open_def maildir_remove_def maildir_set_flags_def Let_def
    by (intro fs_effects keeps_case_prod find)+
  show init: "keeps same_db (maildir_init root)" unfolding maildir_init_def by (intro fs_effects)
  show "keeps same_db (maildir_deliver root d)"
    unfolding maildir_deliver_def unique_name_def write_new_def abandon_def Let_def
    by (intro fs_effects init)
qed

lemma same_db_run: "keeps same_db m \<Longrightarrow> m w = (x, w') \<Longrightarrow> db w' = db w"
  by (metis keeps_def same_db_def snd_conv)

lemma same_tree_run: "keeps same_tree m \<Longrightarrow> m w = (x, w') \<Longrightarrow> tree w' = tree w"
  by (metis keeps_def same_tree_def snd_conv)

lemma keeps_tree_may_fail: "keeps same_tree m \<Longrightarrow> keeps same_tree (may_fail e m)"
  by (auto simp: keeps_def same_tree_def may_fail_def split: list.splits)

lemma db_same_tree:
  "keeps same_tree (db_select f)" "keeps same_tree (db_get g)" "keeps same_tree (db_exec h)"
  "keeps same_tree m \<Longrightarrow> keeps same_tree (in_tx m)"
proof -
  show "keeps same_tree (db_select f)" unfolding db_select_def
    by (rule keeps_tree_may_fail) (rule treeop.keeps_gets)
  show "keeps same_tree (db_get g)" unfolding db_get_def
    by (rule keeps_tree_may_fail) (auto simp: keeps_def same_tree_def split: option.splits)
  show "keeps same_tree (db_exec h)" unfolding db_exec_def
    by (rule keeps_tree_may_fail) (auto simp: keeps_def same_tree_def split: sum.splits)
  assume "keeps same_tree m"
  then have k: "keeps same_tree (io_bind m (\<lambda>x. may_fail ErrDB (io_ret x)))" (is "keeps _ ?m")
    by (intro treeop.keeps_bind keeps_tree_may_fail treeop.keeps_ret)
  show "keeps same_tree (in_tx m)" unfolding in_tx_def
  proof (rule keeps_tree_may_fail, unfold keeps_def, rule allI)
    fix w
    obtain r w' where run: "?m w = (r, w')" by force
    from same_tree_run [OF k run] show "same_tree w (snd (case ?m w of (Inl e, w') \<Rightarrow> (Inl e, w'\<lparr>db := db w\<rparr>)
        | (Inr x, w') \<Rightarrow> (Inr x, w')))"
      unfolding run by (cases r) (simp_all add: same_tree_def)
  qed
qed

lemma store_same_tree:
  "keeps same_tree (insert_message s mid k f t z)" "keeps same_tree (list_messages mid)"
  "keeps same_tree (delete_messages_not_in mid ks)" "keeps same_tree (update_message_flags mid k f)"
  "keeps same_tree (delete_message_by_key mid k)"
  unfolding insert_message_def list_messages_def delete_messages_not_in_def update_message_flags_def
    delete_message_by_key_def
  by (intro db_same_tree treeop.keeps_rules)+

section \<open>Scanning the disk\<close>

lemma find_map_upd:
  assumes "\<And>r. mbx_id (g r) = mbx_id r"
  shows "find (\<lambda>r. mbx_id r = k) (map (\<lambda>r. if mbx_id r = k then g r else r) xs) =
    map_option g (find (\<lambda>r. mbx_id r = k) xs)"
  using assms by (induction xs) auto

text \<open>
  The state while the disk is scanned, with \<open>n\<close> more UIDs to give out: \<open>d0\<close> is the index when the
  scan of new mail began and \<open>N0\<close> the mailbox's next UID then.
\<close>

definition scanning :: "bool \<Rightarrow> int \<Rightarrow> (path \<Rightarrow> bytes option option) \<Rightarrow> database \<Rightarrow> nat \<Rightarrow> nat \<Rightarrow> world \<Rightarrow> bool" where
  "scanning fk mid T d0 N0 n w \<longleftrightarrow> db_ok fk (db w) \<and> uids_below (db w) \<and> tree w = T \<and>
     set (messages_t d0) \<subseteq> set (messages_t (db w)) \<and>
     (\<exists>m. find (\<lambda>r. mbx_id r = mid) (mailboxes_t (db w)) = Some m \<and> N0 \<le> unat (mbx_uid_next m) \<and>
        unat (mbx_uid_next m) + n < 2 ^ 32)"

lemma scanning_mono: "scanning fk mid T d0 N0 n w \<Longrightarrow> k \<le> n \<Longrightarrow> scanning fk mid T d0 N0 k w"
  unfolding scanning_def by (elim conjE exE, intro conjI exI) auto

lemma insert_scanning:
  assumes sc: "scanning (so_fk s) mid T d0 N0 (Suc n) w"
    and run: "insert_message s mid key fl t sz w = (Inr uid, w')"
  shows "scanning (so_fk s) mid T d0 N0 n w' \<and> N0 \<le> unat uid \<and>
    set (messages_t (db w)) \<subseteq> set (messages_t (db w')) \<and>
    (\<exists>r \<in> set (messages_t (db w')). msg_mailbox_id r = mid \<and> msg_maildir_key r = key \<and> msg_uid r = uid)"
proof -
  from insert_message_ok [OF run] obtain m d where
    m: "find (\<lambda>r. mbx_id r = mid) (mailboxes_t (db w)) = Some m" "mbx_uid_next m = uid"
    and ins: "insert_message_row (so_fk s) mid uid key fl t sz (db w) = Inr ((), d)"
    and w': "db w' = d\<lparr>mailboxes_t := map (\<lambda>r. if mbx_id r = mid then r\<lparr>mbx_uid_next := uid + 1\<rparr> else r) (mailboxes_t d)\<rparr>"
    by blast
  from sc m have room: "N0 \<le> unat uid" "unat uid + Suc n < 2 ^ 32" by (auto simp: scanning_def)
  have nxt: "unat (uid + 1) = unat uid + 1"
    using room(2) by (simp add: unat_word_ariths)
  then have "uid + 1 \<noteq> 0" by (metis add_is_0 one_neq_zero unsigned_0)
  moreover have "uids_below (db w)" using sc by (simp add: scanning_def)
  note facts = insert_message_facts [OF this, where s = s and mid = mid and key = key and flags = fl
      and date = t and sz = sz, unfolded run prod.case sum.case]
  ultimately have below: "uids_below (db w')" by blast
  have ok: "db_ok (so_fk s) (db w')"
  proof -
    have "keeps_ok (so_fk s) w (snd (insert_message s mid key fl t sz w))"
      by (rule keepsD [OF keeps_ok_store(8)])
    with sc run show ?thesis by (simp add: keeps_ok_def scanning_def)
  qed
  have tr: "tree w' = T"
    using same_tree_run [OF store_same_tree(1) run] sc by (simp add: scanning_def)
  from ins have "mailboxes_t d = mailboxes_t (db w)" by (auto simp: insert_message_row_def split: if_splits)
  with w' m have "find (\<lambda>r. mbx_id r = mid) (mailboxes_t (db w')) = Some (m\<lparr>mbx_uid_next := uid + 1\<rparr>)"
    by (simp add: find_map_upd)
  moreover from facts obtain r where r: "messages_t (db w') = messages_t (db w) @ [r]"
      "msg_mailbox_id r = mid" "msg_uid r = uid" "msg_maildir_key r = key" by blast
  moreover have "set (messages_t d0) \<subseteq> set (messages_t (db w'))" using sc r(1) by (auto simp: scanning_def)
  ultimately show ?thesis
    using ok below tr room nxt by (auto simp: scanning_def)
qed

definition provenance :: "database \<Rightarrow> mbox \<Rightarrow> nat \<Rightarrow> message \<Rightarrow> bool" where
  "provenance d0 b N0 y \<longleftrightarrow> y \<in> set (mb_list b) \<or> indexed d0 (mb_db_id b) y \<or> N0 \<le> unat (m_uid y)"

definition scanned :: "bool \<Rightarrow> mbox \<Rightarrow> (path \<Rightarrow> bytes option option) \<Rightarrow> database \<Rightarrow> nat \<Rightarrow> disk_message list
    \<Rightarrow> disk_message list \<Rightarrow> message list \<Rightarrow> world \<Rightarrow> bool" where
  "scanned fk b T d0 N0 disk pre ys w \<longleftrightarrow>
     scanning fk (mb_db_id b) T d0 N0 (length disk - length pre) w \<and> map m_key ys = map dm_key pre \<and>
     (\<forall>y \<in> set ys. indexed (db w) (mb_db_id b) y \<and> provenance d0 b N0 y \<and>
        (\<forall>m \<in> set (mb_list b). m_key m = m_key y \<longrightarrow> y = m))"

lemma indexed_mono:
  "indexed d mid y \<Longrightarrow> set (messages_t d) \<subseteq> set (messages_t d') \<Longrightarrow> indexed d' mid y"
  unfolding indexed_def by blast

lemma index_new_run:
  assumes sc: "scanning (so_fk s) (mb_db_id b) T d0 N0 (Suc n) w"
    and run: "index_new s b dm w = (Inr y, w')"
  shows "scanning (so_fk s) (mb_db_id b) T d0 N0 n w' \<and> N0 \<le> unat (m_uid y) \<and> m_key y = dm_key dm \<and>
    set (messages_t (db w)) \<subseteq> set (messages_t (db w')) \<and> indexed (db w') (mb_db_id b) y"
proof -
  let ?stat = "io_either (maildir_stat (mb_root b) (dm_key dm)) (\<lambda>_. io_ret None) (\<lambda>i. io_ret (Some i))"
  from run obtain info w1 now w2 sz t uid where
    stat: "?stat w = (Inr info, w1)" and now: "time_now w1 = (Inr now, w2)"
    and ins: "insert_message s (mb_db_id b) (dm_key dm) (dm_flags dm) t sz w2 = (Inr uid, w')"
    and y: "y = \<lparr>m_uid = uid, m_key = dm_key dm, m_t = t, m_size = sz,
       m_flags = flag_set_from_maildir_letters (dm_flags dm)\<rparr>"
    by (auto simp: index_new_def io_oks Let_def split: prod.splits)
  have "keeps same_db ?stat" by (intro fs_effects maildir_same_db)
  then have db: "db w2 = db w" using same_db_run stat same_db_run [OF keeps_time_now now] by metis
  have "keeps same_tree (maildir_stat (mb_root b) (dm_key dm))"
    unfolding keeps_tree_triple using triple_maildir_stat by blast
  then have "keeps same_tree ?stat" by (intro tree_effects)
  then have "tree w2 = tree w" using same_tree_run stat same_tree_run [OF keeps_tree_ops(1) now] by metis
  with db sc have "scanning (so_fk s) (mb_db_id b) T d0 N0 (Suc n) w2" by (simp add: scanning_def)
  from insert_scanning [OF this ins] db y show ?thesis by (auto simp: indexed_def)
qed

lemma scan_step:
  assumes keys: "\<And>m m'. m \<in> set (mb_list b) \<Longrightarrow> m' \<in> set (mb_list b) \<Longrightarrow> m_key m = m_key m' \<Longrightarrow> m = m'"
    and A: "\<And>m. m \<in> set (mb_list b) \<Longrightarrow> m_key m \<in> dm_key ` set disk \<Longrightarrow> indexed d0 (mb_db_id b) m"
    and B: "\<And>r. r \<in> set rows \<Longrightarrow> msg_maildir_key r \<in> dm_key ` set disk \<Longrightarrow>
        msg_mailbox_id r = mb_db_id b \<and> r \<in> set (messages_t d0)"
    and disk: "disk = pre @ dm # rest"
    and I: "scanned (so_fk s) b T d0 N0 disk pre ys w"
    and run: "index_message s b rows dm w = (Inr y, w')"
  shows "scanned (so_fk s) b T d0 N0 disk (pre @ [dm]) (ys @ [y]) w'"
proof -
  let ?n = "length disk - length (pre @ [dm])"
  have n: "length disk - length pre = Suc ?n" using disk by simp
  have sub0: "set (messages_t d0) \<subseteq> set (messages_t (db w))"
    using I by (auto simp: scanned_def scanning_def)
  have dm: "dm_key dm \<in> dm_key ` set disk" using disk by simp
  have goal: "scanned (so_fk s) b T d0 N0 disk (pre @ [dm]) (ys @ [y]) w'"
    if sc: "scanning (so_fk s) (mb_db_id b) T d0 N0 ?n w'" and key: "m_key y = dm_key dm"
      and sub: "set (messages_t (db w)) \<subseteq> set (messages_t (db w'))"
      and ix: "indexed (db w') (mb_db_id b) y" and pv: "provenance d0 b N0 y"
      and same: "\<forall>m \<in> set (mb_list b). m_key m = m_key y \<longrightarrow> y = m"
    using I sc key ix pv same indexed_mono [OF _ sub] unfolding scanned_def by auto
  show ?thesis
  proof (cases "find_last (\<lambda>m. m_key m = dm_key dm) (mb_list b)")
    case (Some m)
    with run have y: "y = m" "w' = w" by (auto simp: index_message_def io_ret_def)
    from find_last_Some [OF Some] have m: "m \<in> set (mb_list b)" "m_key m = dm_key dm" by auto
    show ?thesis
    proof (rule goal)
      show "scanning (so_fk s) (mb_db_id b) T d0 N0 ?n w'"
        using I n y by (auto simp: scanned_def intro: scanning_mono)
      show "indexed (db w') (mb_db_id b) y"
        using A [of m] m dm y sub0 indexed_mono by metis
    qed (use y m keys in \<open>auto simp: provenance_def\<close>)
  next
    case None
    then have no: "\<forall>m \<in> set (mb_list b). m_key m \<noteq> dm_key dm" by (simp add: find_last_None)
    show ?thesis
    proof (cases "find_last (\<lambda>r. msg_maildir_key r = dm_key dm) rows")
      case (Some r)
      with run None have y: "y = (message_of_row r)\<lparr>m_key := dm_key dm\<rparr>" "w' = w"
        by (auto simp: index_message_def io_ret_def)
      from find_last_Some [OF Some] have r: "r \<in> set rows" "msg_maildir_key r = dm_key dm" by auto
      from B [OF r(1)] r(2) dm have "indexed d0 (mb_db_id b) y"
        unfolding indexed_def y by (intro bexI [of _ r]) (auto simp: message_of_row_def)
      show ?thesis
      proof (rule goal)
        show "scanning (so_fk s) (mb_db_id b) T d0 N0 ?n w'"
          using I n y by (auto simp: scanned_def intro: scanning_mono)
        show "indexed (db w') (mb_db_id b) y"
          using indexed_mono [OF \<open>indexed d0 (mb_db_id b) y\<close> sub0] y(2) by simp
      qed (use y no \<open>indexed d0 (mb_db_id b) y\<close> in \<open>auto simp: provenance_def\<close>)
    next
      case None': None
      with run None have "index_new s b dm w = (Inr y, w')" by (simp add: index_message_def)
      from index_new_run [OF _ this, of T d0 N0 ?n] I n
      have new: "scanning (so_fk s) (mb_db_id b) T d0 N0 ?n w' \<and> N0 \<le> unat (m_uid y) \<and> m_key y = dm_key dm \<and>
        set (messages_t (db w)) \<subseteq> set (messages_t (db w')) \<and> indexed (db w') (mb_db_id b) y"
        by (simp add: scanned_def)
      show ?thesis
        by (rule goal) (use new no in \<open>auto simp: provenance_def\<close>)
    qed
  qed
qed

lemma scan_all:
  assumes keys: "\<And>m m'. m \<in> set (mb_list b) \<Longrightarrow> m' \<in> set (mb_list b) \<Longrightarrow> m_key m = m_key m' \<Longrightarrow> m = m'"
    and A: "\<And>m. m \<in> set (mb_list b) \<Longrightarrow> m_key m \<in> dm_key ` set disk \<Longrightarrow> indexed d0 (mb_db_id b) m"
    and B: "\<And>r. r \<in> set rows \<Longrightarrow> msg_maildir_key r \<in> dm_key ` set disk \<Longrightarrow>
        msg_mailbox_id r = mb_db_id b \<and> r \<in> set (messages_t d0)"
    and sc: "scanning (so_fk s) (mb_db_id b) T d0 N0 (length disk) w"
    and run: "io_map (index_message s b rows) disk w = (Inr l, w')"
  shows "scanned (so_fk s) b T d0 N0 disk disk l w'"
proof -
  have "triple (scanned (so_fk s) b T d0 N0 disk [] []) (io_map (index_message s b rows) disk)
      (\<lambda>ys. scanned (so_fk s) b T d0 N0 disk disk ys) (\<lambda>_ _. True)"
  proof (rule triple_map, rule tripleI)
    fix pre dm rest ys w y w'
    assume "disk = pre @ dm # rest" and "scanned (so_fk s) b T d0 N0 disk pre ys w"
      and "index_message s b rows dm w = (Inr y, w')"
    then show "scanned (so_fk s) b T d0 N0 disk (pre @ [dm]) (ys @ [y]) w'"
      by (intro scan_step [where rows = rows and pre = pre]) (auto dest: keys A B)
  qed simp
  from tripleD_ok [OF this _ run] sc show ?thesis by (simp add: scanned_def)
qed

section \<open>Reloading\<close>

lemma delete_not_in_ok:
  "delete_messages_not_in mid ks w = (Inr u, w') \<Longrightarrow>
   db w' = (db w)\<lparr>messages_t := filter (\<lambda>r. \<not> (msg_mailbox_id r = mid \<and> msg_maildir_key r \<notin> set ks)) (messages_t (db w))\<rparr>"
  by (auto simp: delete_messages_not_in_def delete_messages_def dest!: db_exec_ok split: if_splits)

definition room_for :: "database \<Rightarrow> int \<Rightarrow> nat \<Rightarrow> u32 \<Rightarrow> bool" where
  "room_for d mid n uid \<longleftrightarrow> (\<exists>r. find (\<lambda>r. mbx_id r = mid) (mailboxes_t d) = Some r \<and>
     mbx_uid_next r = uid \<and> unat uid + n < 2 ^ 32)"

lemma disk_keys:
  assumes "maildir_ok (tree w) root" and "maildir_list root w = (Inr disk, w1)"
  shows "dm_key ` set disk = {k. \<exists>c. maildir_has (tree w) root k c}"
proof (intro equalityI subsetI)
  note facts = list_facts [OF assms]
  fix k
  assume "k \<in> dm_key ` set disk"
  then obtain m where m: "m \<in> set disk" "k = dm_key m" by auto
  let ?d = "if dm_in_new m then ''new'' else ''cur''"
  from facts m(1) obtain n where n: "tree w (root @ [?d, n]) \<noteq> None" "split_flags n = (dm_key m, dm_flags m)"
    by blast
  have d: "?d \<in> {''new'', ''cur''}" by simp
  from maildir_ok_file [OF assms(1) d n(1)] obtain c where
    "plain_name n" "tree w (root @ [?d, n]) = Some (Some c)" by blast
  with n(2) m(2) have "maildir_has (tree w) root k c"
    unfolding maildir_has_def by (intro bexI [OF _ d] exI [of _ n]) simp
  then show "k \<in> {k. \<exists>c. maildir_has (tree w) root k c}" by blast
next
  note facts = list_facts [OF assms]
  fix k
  assume "k \<in> {k. \<exists>c. maildir_has (tree w) root k c}"
  then obtain d n where dn: "d \<in> {''new'', ''cur''}" "fst (split_flags n) = k" "tree w (root @ [d, n]) \<noteq> None"
    unfolding maildir_has_def by blast
  let ?m = "\<lparr>dm_key = k, dm_flags = snd (split_flags n), dm_in_new = (d = ''new'')\<rparr>"
  have "?m \<in> set disk" using facts dn by (auto intro!: exI [of _ n] simp: prod_eq_iff)
  then show "k \<in> dm_key ` set disk" by force
qed

lemma scan_disk_facts:
  assumes ok: "db_ok (so_fk s) (db w)" "uids_below (db w)" "mbox_ok (db w) b" "maildir_ok (tree w) (mb_root b)"
    and room: "\<And>disk w1. maildir_list (mb_root b) w = (Inr disk, w1) \<Longrightarrow>
        room_for (db w) (mb_db_id b) (length disk) uid"
    and run: "scan_disk s b w = (Inr l, w')"
  shows "db_ok (so_fk s) (db w') \<and> uids_below (db w') \<and> tree w' = tree w \<and>
    sorted_wrt (<) (map m_uid l) \<and> (\<forall>m \<in> set l. indexed (db w') (mb_db_id b) m) \<and>
    m_key ` set l = {k. \<exists>c. maildir_has (tree w) (mb_root b) k c} \<and>
    (\<forall>m \<in> set (mb_list b). m_key m \<in> m_key ` set l \<longrightarrow> m \<in> set l) \<and>
    (\<forall>m \<in> set l. m \<in> set (mb_list b) \<or> indexed (db w) (mb_db_id b) m \<or> uid \<le> m_uid m)"
proof -
  let ?mid = "mb_db_id b"
  from run obtain disk w1 rows w2 u w3 l0 where
    disk: "maildir_list (mb_root b) w = (Inr disk, w1)"
    and rows: "list_messages ?mid w1 = (Inr rows, w2)"
    and del: "delete_messages_not_in ?mid (map dm_key disk) w2 = (Inr u, w3)"
    and scan: "io_map (index_message s b rows) disk w3 = (Inr l0, w')" and l: "l = sort_key m_uid l0"
    unfolding scan_disk_def io_oks by blast
  have db1: "db w1 = db w" by (rule same_db_run [OF maildir_same_db(1) disk])
  have facts: "distinct (map dm_key disk)" "tree w1 = tree w" using list_facts [OF ok(4) disk] by simp_all
  from rows have r: "rows = sort_key msg_uid (filter (\<lambda>r. msg_mailbox_id r = ?mid) (messages_t (db w)))" "db w2 = db w"
    unfolding list_messages_def by (auto dest!: db_select_ok simp: db1)
  from delete_not_in_ok [OF del] r(2) have db3: "db w3 = (db w)\<lparr>messages_t :=
      filter (\<lambda>r. \<not> (msg_mailbox_id r = ?mid \<and> msg_maildir_key r \<notin> dm_key ` set disk)) (messages_t (db w))\<rparr>" by simp
  have tr: "tree w3 = tree w"
    using same_tree_run [OF store_same_tree(2) rows] same_tree_run [OF store_same_tree(3) del] facts(2) by simp
  have "db_ok (so_fk s) (db w3)"
  proof -
    have "keeps_ok (so_fk s) w2 (snd (delete_messages_not_in ?mid (map dm_key disk) w2))"
      by (rule keepsD [OF keeps_ok_store(11)])
    with del ok(1) r(2) show ?thesis by (simp add: keeps_ok_def)
  qed
  moreover have "uids_below (db w3)" using ok(2) by (auto simp: uids_below_def db3)
  ultimately have sc: "scanning (so_fk s) ?mid (tree w) (db w3) (unat uid) (length disk) w3"
    using room [OF disk] tr by (auto simp: scanning_def room_for_def db3)
  have A: "indexed (db w3) ?mid m" if "m \<in> set (mb_list b)" "m_key m \<in> dm_key ` set disk" for m
  proof -
    from ok(3) that(1) obtain r where "r \<in> set (messages_t (db w))" "msg_mailbox_id r = ?mid"
      "msg_maildir_key r = m_key m" "msg_uid r = m_uid m" by (auto simp: mbox_ok_def indexed_def)
    with that(2) show ?thesis unfolding indexed_def by (intro bexI [of _ r]) (auto simp: db3)
  qed
  have sd: "scanned (so_fk s) b (tree w) (db w3) (unat uid) disk disk l0 w'"
    by (rule scan_all [OF mbox_ok_keys [OF ok(1,3)] A _ sc scan]) (auto simp: r db3)
  then have keys: "map m_key l0 = map dm_key disk"
    and each: "\<forall>y \<in> set l0. indexed (db w') ?mid y \<and> provenance (db w3) b (unat uid) y \<and>
        (\<forall>m \<in> set (mb_list b). m_key m = m_key y \<longrightarrow> y = m)"
    and fin: "db_ok (so_fk s) (db w')" "uids_below (db w')" "tree w' = tree w"
    by (auto simp: scanned_def scanning_def)
  have "distinct (map m_uid l0)"
    unfolding distinct_map
  proof
    have dk: "distinct (map m_key l0)" using keys facts(1) by simp
    then show "distinct l0" by (simp add: distinct_map)
    show "inj_on m_uid (set l0)"
      using indexed_key_uid [OF fin(1)] each distinct_map_eq [OF dk] by (intro inj_onI) metis
  qed
  then have "sorted_wrt (<) (map m_uid l)"
    unfolding l strict_sorted_iff by (simp add: distinct_map [of m_uid])
  moreover have "m_key ` set l = {k. \<exists>c. maildir_has (tree w) (mb_root b) k c}"
    using disk_keys [OF ok(4) disk] keys by (metis l set_map set_sort)
  moreover have "m \<in> set l" if "m \<in> set (mb_list b)" "m_key m \<in> m_key ` set l" for m
    using that each unfolding l by auto
  moreover have "m \<in> set (mb_list b) \<or> indexed (db w) ?mid m \<or> uid \<le> m_uid m" if "m \<in> set l" for m
  proof -
    have "indexed (db w3) ?mid m \<Longrightarrow> indexed (db w) ?mid m" by (rule indexed_mono) (auto simp: db3)
    then show ?thesis using that each unfolding l by (auto simp: provenance_def word_le_nat_alt)
  qed
  ultimately show ?thesis using fin each unfolding l by simp
qed

lemma reload_run:
  "reload_locked s (w, b) =
     (case scan_disk s b w of
        (Inl e, w') \<Rightarrow> (Inl e, (w', b))
      | (Inr l, w') \<Rightarrow> (Inr (), (w', b\<lparr>mb_list := l, mb_log := mb_log b @
          (if length l \<noteq> length (mb_list b) then [NumMessages (num_messages l)] else [])\<rparr>)))"
  by (auto simp: reload_locked_def the_mbox_def on_world_def queue_event_def upd_mbox_def io_bind_apply
      io_gets_def io_modify_def io_ret_def split: prod.splits sum.splits)


definition small_mbox :: mbox where
  "small_mbox = \<lparr>mb_root = [''m''], mb_uid_validity = 9, mb_db_id = 1, mb_name = ''INBOX'',
     mb_subscribed = True, mb_list = [], mb_log = []\<rparr>"

definition plain_view :: view where
  "plain_view = \<lparr>vw_enc = id, vw_contains = (\<lambda>rs u. list_ex (\<lambda>(a, z). a \<le> u \<and> u \<le> z) rs), vw_search_res = []\<rparr>"

definition small_state :: world where
  "small_state = small_world\<lparr>db := small_db\<rparr>"

lemma small_state_simps [simp]:
  "db small_state = small_db" "nodes small_state = nodes small_world"
  by (simp_all add: small_state_def)


section \<open>Appending\<close>

lemma append_run:
  "append_bytes s buf time flags (w, b) =
     (case append_store s b buf time flags w of
        (Inl e, w') \<Rightarrow> (Inl e, (w', b))
      | (Inr m, w') \<Rightarrow> (Inr (mb_uid_validity b, m_uid m), (w', b\<lparr>mb_list := mb_list b @ [m],
          mb_log := mb_log b @ [NumMessages (num_messages (mb_list b @ [m]))]\<rparr>)))"
  by (auto simp: append_bytes_def the_mbox_def on_world_def queue_event_def upd_mbox_def io_bind_apply
      io_gets_def io_modify_def io_ret_def split: prod.splits sum.splits)

text \<open>What a restart would read back: the row of the message decodes to the message.\<close>

definition persisted :: "database \<Rightarrow> int \<Rightarrow> message \<Rightarrow> bool" where
  "persisted d mid m \<longleftrightarrow> (\<exists>r \<in> set (messages_t d). msg_mailbox_id r = mid \<and> message_of_row r = m)"

lemma persisted_indexed: "persisted d mid m \<Longrightarrow> indexed d mid m"
  by (auto simp: persisted_def indexed_def message_of_row_def)

lemma update_flags_ok:
  "update_message_flags mid key fl w = (Inr u, w') \<Longrightarrow>
   db w' = (db w)\<lparr>messages_t := map (\<lambda>r. if msg_mailbox_id r = mid \<and> msg_maildir_key r = key
     then r\<lparr>msg_flags := fl\<rparr> else r) (messages_t (db w))\<rparr>"
  by (auto simp: update_message_flags_def dest!: db_exec_ok)

lemma indexed_update_flags:
  assumes "db' = d\<lparr>messages_t := map (\<lambda>r. if c r then r\<lparr>msg_flags := fl\<rparr> else r) (messages_t d)\<rparr>"
  shows "indexed db' mid m = indexed d mid m"
proof -
  let ?f = "\<lambda>r. (msg_mailbox_id r, msg_maildir_key r, msg_uid r)"
  have ix: "indexed d mid m \<longleftrightarrow> (mid, m_key m, m_uid m) \<in> set (map ?f (messages_t d))" for d
    by (force simp: indexed_def)
  have "map ?f (messages_t db') = map ?f (messages_t d)"
    unfolding assms by simp
  then show ?thesis unfolding ix by (simp only:)
qed

lemma uids_below_update_flags:
  assumes "db' = d\<lparr>messages_t := map (\<lambda>r. if c r then r\<lparr>msg_flags := fl\<rparr> else r) (messages_t d)\<rparr>"
    and "uids_below d"
  shows "uids_below db'"
  using assms(2) unfolding uids_below_def assms(1) by (auto split: if_splits)

lemma append_store_facts:
  assumes ok: "db_ok (so_fk s) (db w)" "uids_below (db w)" "mbox_ok (db w) b" "maildir_ok (tree w) (mb_root b)"
    and room: "room_for (db w) (mb_db_id b) 1 uid"
    and fresh: "\<forall>k w1. maildir_deliver (mb_root b) buf w = (Inr k, w1) \<longrightarrow> (\<forall>c. \<not> maildir_has (tree w) (mb_root b) k c)"
    and atoms: "\<forall>f \<in> set flags. flag_atom f"
    and run: "append_store s b buf time flags w = (Inr m, w')"
  shows "db_ok (so_fk s) (db w') \<and> uids_below (db w') \<and> maildir_ok (tree w') (mb_root b) \<and>
    m_uid m = uid \<and> set (m_flags m) = canonical_flag ` set flags \<and> (\<forall>t. time = Some t \<longrightarrow> m_t m = t) \<and>
    (\<forall>x \<in> set (mb_list b). m_uid x < uid \<and> indexed (db w') (mb_db_id b) x) \<and>
    persisted (db w') (mb_db_id b) m \<and> maildir_has (tree w') (mb_root b) (m_key m) buf \<and>
    (\<forall>r k c. (r, k) \<noteq> (mb_root b, m_key m) \<longrightarrow> maildir_has (tree w') r k c = maildir_has (tree w) r k c)"
proof -
  let ?mid = "mb_db_id b" and ?root = "mb_root b"
  from run obtain key w1 t w2 w3 where
    del: "maildir_deliver ?root buf w = (Inr key, w1)"
    and time: "(case time of Some t \<Rightarrow> io_ret t | None \<Rightarrow> time_now) w1 = (Inr t, w2)"
    and ins: "insert_message s ?mid key (maildir_letters_from_flag_list flags) t (int (length buf)) w2 = (Inr (m_uid m), w3)"
    and upd: "(if flags \<noteq> [] then
         io_bind (update_message_flags ?mid key (encode_flags flags)) (\<lambda>_.
         maildir_set_flags ?root key (maildir_letters_from_flag_list flags))
       else io_ret ()) w3 = (Inr (), w')"
    and m: "m = \<lparr>m_uid = m_uid m, m_key = key, m_t = t, m_size = int (length buf),
       m_flags = fold (\<lambda>f l. add_flag (canonical_flag f) l) flags []\<rparr>"
    unfolding append_store_def io_oks by auto
  have k: "keeps same_db (case time of Some t \<Rightarrow> io_ret t | None \<Rightarrow> time_now)"
    "keeps same_tree (case time of Some t \<Rightarrow> io_ret t | None \<Rightarrow> time_now)"
    by (cases time; simp add: fs_effects tree_effects)+
  have db2: "db w2 = db w" using same_db_run [OF maildir_same_db(6) del] same_db_run [OF k(1) time] by simp
  have ok1: "maildir_ok (tree w1) ?root" by (rule deliver_ok [OF ok(4) del]) (use fresh del in blast)
  have tr3: "tree w3 = tree w1"
    using same_tree_run [OF k(2) time] same_tree_run [OF store_same_tree(1) ins] by simp
  have sc: "scanning (so_fk s) ?mid (tree w2) (db w) (unat uid) (Suc 0) w2"
    using ok(1,2) room by (auto simp: scanning_def room_for_def db2)
  from insert_scanning [OF sc ins] have sc3: "db_ok (so_fk s) (db w3)" "uids_below (db w3)"
      "set (messages_t (db w)) \<subseteq> set (messages_t (db w3))"
    by (auto simp: scanning_def db2)
  have uid: "m_uid m = uid"
    using insert_message_ok [OF ins] room by (auto simp: room_for_def db2)
  have "uids_below (db w2)" using ok(2) by (simp add: db2)
  note ins_facts = insert_message_facts [OF this, where s = s and mid = ?mid and key = key
      and flags = "maildir_letters_from_flag_list flags" and date = t and sz = "int (length buf)",
      unfolded ins prod.case sum.case]
  from ins_facts obtain r where rr: "messages_t (db w3) = messages_t (db w2) @ [r]" "msg_mailbox_id r = ?mid"
      "msg_uid r = m_uid m" "msg_maildir_key r = key" "msg_flags r = maildir_letters_from_flag_list flags"
      "msg_internal_date r = t" "msg_size r = int (length buf)"
    by blast
  have r: "r \<in> set (messages_t (db w3))" "msg_flags r = ''''"
    using rr(1,5) by (simp_all add: letters_always_empty)
  note r = r(1) rr(2,3,4) r(2) rr(6,7)
  have old: "m_uid x < uid \<and> indexed (db w3) ?mid x" if "x \<in> set (mb_list b)" for x
  proof -
    from ok(3) that have ix: "indexed (db w) ?mid x" by (simp add: mbox_ok_def)
    then obtain r where "r \<in> set (messages_t (db w2))" "msg_mailbox_id r = ?mid" "msg_uid r = m_uid x"
      by (auto simp: indexed_def db2)
    with ins_facts uid have "m_uid x < uid" by metis
    with indexed_mono [OF ix sc3(3)] show ?thesis by simp
  qed
  have fl: "set (m_flags m) = canonical_flag ` set flags"
    by (subst m) (simp add: fold_add_flag)
  have dec: "decode_flags (encode_flags flags) = m_flags m"
    unfolding decode_flags_def encode_flags_def by (subst m) (use atoms in \<open>simp add: fields_join\<close>)
  have tm: "time = Some t' \<longrightarrow> m_t m = t'" for t'
    by (subst m) (use time in \<open>auto simp: io_ret_def\<close>)
  have key: "m_key m = key" by (subst m) simp
  have has1: "maildir_has (tree w1) ?root key buf" by (rule md.deliver_has [OF del])
  have frame1: "(r', k') \<noteq> (?root, key) \<Longrightarrow> maildir_has (tree w1) r' k' c = maildir_has (tree w) r' k' c"
    for r' k' c by (rule md.deliver_frame [OF del])
  have "db_ok (so_fk s) (db w') \<and> uids_below (db w') \<and> maildir_ok (tree w') ?root \<and>
      (\<forall>x. indexed (db w') ?mid x = indexed (db w3) ?mid x) \<and> persisted (db w') ?mid m \<and>
      (\<forall>r k c. maildir_has (tree w') r k c = maildir_has (tree w1) r k c)"
  proof (cases "flags = []")
    case True
    with upd have "w' = w3" by (simp add: io_ret_def)
    moreover have "message_of_row r = m"
      by (subst m) (use r True in \<open>simp add: message_of_row_def decode_flags_def str_fields_def\<close>)
    ultimately show ?thesis using sc3 ok1 r(1,2) by (auto simp: tr3 persisted_def)
  next
    case False
    with upd obtain w4 u where u: "update_message_flags ?mid key (encode_flags flags) w3 = (Inr u, w4)"
      and sf: "maildir_set_flags ?root key (maildir_letters_from_flag_list flags) w4 = (Inr (), w')"
      by (auto simp: io_oks)
    note d4 = update_flags_ok [OF u]
    have db': "db w' = db w4" by (rule same_db_run [OF maildir_same_db(5) sf])
    have tr4: "tree w4 = tree w1" using same_tree_run [OF store_same_tree(4) u] tr3 by simp
    from ok1 have "maildir_ok (tree w4) ?root" by (simp add: tr4)
    note sff = set_flags_facts [OF this sf]
    have "keeps_ok (so_fk s) w3 (snd (update_message_flags ?mid key (encode_flags flags) w3))"
      by (rule keepsD [OF keeps_ok_store(9)])
    with u sc3(1) have "db_ok (so_fk s) (db w')" by (simp add: keeps_ok_def db')
    moreover have "uids_below (db w')" using uids_below_update_flags [OF d4 sc3(2)] db' by simp
    moreover have "indexed (db w') ?mid x = indexed (db w3) ?mid x" for x
      using indexed_update_flags [OF d4] db' by simp
    moreover have "persisted (db w') ?mid m"
      unfolding persisted_def
    proof (rule bexI [of _ "r\<lparr>msg_flags := encode_flags flags\<rparr>"])
      show "r\<lparr>msg_flags := encode_flags flags\<rparr> \<in> set (messages_t (db w'))"
        unfolding db' d4 using r(1,2,4) by (auto simp: image_iff intro!: bexI [of _ r])
      have "message_of_row (r\<lparr>msg_flags := encode_flags flags\<rparr>) = m"
        by (subst m) (use r dec in \<open>simp add: message_of_row_def, subst (asm) m, simp\<close>)
      with r(2) show "msg_mailbox_id (r\<lparr>msg_flags := encode_flags flags\<rparr>) = ?mid \<and>
          message_of_row (r\<lparr>msg_flags := encode_flags flags\<rparr>) = m" by simp
    qed
    ultimately show ?thesis using sff by (simp add: tr4)
  qed
  then show ?thesis
    using old uid fl tm has1 frame1 unfolding key by simp
qed

text \<open>C27: an appended message is durable and numbered above every other. From a consistent
  mailbox with a UID left, and a generated file name that is new to the folder, a successful APPEND
  returns the mailbox's next UID, above the UID of every listed message; the message, with the
  canonical flags asked for, is added at the end of the list, its bytes are on disk, and its row
  decodes to it, so that a restart finds it again; no file of another message changes. A failing
  APPEND leaves the list alone.\<close>

theorem append_persists:
  assumes "db_ok (so_fk s) (db w)" and "uids_below (db w)" and "mbox_ok (db w) b"
    and "maildir_ok (tree w) (mb_root b)" and "room_for (db w) (mb_db_id b) 1 uid"
    and "\<forall>k w1. maildir_deliver (mb_root b) buf w = (Inr k, w1) \<longrightarrow> (\<forall>c. \<not> maildir_has (tree w) (mb_root b) k c)"
    and "\<forall>f \<in> set flags. flag_atom f"
  shows "case append_bytes s buf time flags (w, b) of
     (Inl e, (w', b')) \<Rightarrow> b' = b
   | (Inr (validity, u), (w', b')) \<Rightarrow> validity = mb_uid_validity b \<and> u = uid \<and>
       (\<exists>m. mb_list b' = mb_list b @ [m] \<and> m_uid m = uid \<and> set (m_flags m) = canonical_flag ` set flags \<and>
          (\<forall>t. time = Some t \<longrightarrow> m_t m = t) \<and>
          persisted (db w') (mb_db_id b) m \<and> maildir_has (tree w') (mb_root b) (m_key m) buf \<and>
          (\<forall>r k c. (r, k) \<noteq> (mb_root b, m_key m) \<longrightarrow> maildir_has (tree w') r k c = maildir_has (tree w) r k c)) \<and>
       db_ok (so_fk s) (db w') \<and> uids_below (db w') \<and> mbox_ok (db w') b' \<and> maildir_ok (tree w') (mb_root b)"
proof (cases "append_store s b buf time flags w")
  case (Pair x w')
  show ?thesis
  proof (cases x)
    case (Inr m)
    note f = append_store_facts [OF assms(1-7) Pair [unfolded Inr]]
    have "mbox_ok (db w') (b\<lparr>mb_list := mb_list b @ [m],
        mb_log := mb_log b @ [NumMessages (num_messages (mb_list b @ [m]))]\<rparr>)"
      using f assms(3) by (auto simp: mbox_ok_def sorted_wrt_append intro: persisted_indexed)
    with f show ?thesis by (simp add: append_run Pair Inr)
  qed (simp add: append_run Pair)
qed

lemma append_persists_witness:
  "case append_bytes \<lparr>so_driver = Sqlite, so_fk = True\<rparr> ''yo'' (Some 4) [flag_seen] (small_state, small_mbox) of
     (Inl e, (w', b')) \<Rightarrow> False
   | (Inr (validity, u), (w', b')) \<Rightarrow> u = 6 \<and> map m_uid (mb_list b') = [6]"
proof -
  let ?s = "\<lparr>so_driver = Sqlite, so_fk = True\<rparr>" and ?k = "format_name 7 (replicate 8 (CHR 0x00)) 3 1 ''mx''"
  have "fst (maildir_deliver [''m''] ''yo'' small_state) = Inr ?k" by code_simp
  moreover have "?k \<noteq> ''7.a''" by code_simp
  ultimately have fresh: "\<forall>k w1. maildir_deliver (mb_root small_mbox) ''yo'' small_state = (Inr k, w1) \<longrightarrow>
      (\<forall>c. \<not> maildir_has (tree small_state) (mb_root small_mbox) k c)"
    using small_world_has by (auto simp: small_mbox_def)
  have "isl (fst (append_bytes ?s ''yo'' (Some 4) [flag_seen] (small_state, small_mbox))) = False" by code_simp
  moreover have "db_ok (so_fk ?s) (db small_state)" "uids_below (db small_state)"
    "mbox_ok (db small_state) small_mbox" "maildir_ok (tree small_state) (mb_root small_mbox)"
    using small_world_ok by (simp_all add: mbox_ok_def small_mbox_def)
  note ok = this
  have "room_for (db small_state) (mb_db_id small_mbox) 1 6" "\<forall>f \<in> set [flag_seen]. flag_atom f"
    by (simp_all add: small_mbox_def room_for_def small_db_def flag_atom_def flag_seen_def is_space_def)
  note append_persists [OF ok this(1) fresh this(2), where time = "Some 4"]
  ultimately show ?thesis
    by (auto simp: small_mbox_def split: prod.splits sum.splits)
qed

end
