(* ===== verification/Queue.thy ===== *)
theory Queue
  imports World Address
begin

text \<open>
  \<open>internal/queue\<close>: the outbound queue on disk (\<open>queue.go\<close>) and the relaying of one message to its
  destination (\<open>relay.go\<close>).

  The SMTP client and the network are outside the program: each call on them is recorded with its
  outcome in \<open>o_wire\<close>, and its outcome is the next entry of \<open>o_replies\<close>, so that a statement about
  all replies is one about every behaviour of the remote side. DNS and the texts of errors are the
  parameter \<open>net\<close>. A panic of the code is an error of its operation.

  What is shown: what may happen to a queued message in a pass; that every message leaves the
  queue after a bounded number of attempts; that the credentials of the smart host only travel
  over verified TLS.
\<close>

section \<open>The remote side\<close>

datatype wire =
    DialTLS string bool       \<comment> \<open>address; whether the certificate is verified\<close>
  | DialPlain string
  | Hello string
  | AuthPlain string string
  | MailFrom string
  | RcptTo string
  | DataCmd
  | WriteData bytes
  | EndData string string bytes   \<comment> \<open>the end of the data of a transaction, with its envelope\<close>
  | QuitCmd

record outside =
  o_replies :: "goerr option list"
  o_wire :: "(wire \<times> goerr option) list"
  o_relays :: "string list"
  o_failures :: "(item \<times> bytes \<times> string) list"
  o_depth :: int

type_synonym 'a qio = "(world \<times> outside, 'a) io"

definition q_world :: "'a wio \<Rightarrow> 'a qio" where
  "q_world m = (\<lambda>(w, u). case m w of (r, w') \<Rightarrow> (r, (w', u)))"

definition q_out :: "(outside \<Rightarrow> outside) \<Rightarrow> unit qio" where
  "q_out f = io_modify (\<lambda>(w, u). (w, f u))"

definition call :: "wire \<Rightarrow> unit qio" where
  "call c = (\<lambda>(w, u).
     let r = (case o_replies u of [] \<Rightarrow> None | r # rs \<Rightarrow> r) in
     (case r of None \<Rightarrow> Inr () | Some e \<Rightarrow> Inl e,
      (w, u\<lparr>o_replies := tl (o_replies u), o_wire := o_wire u @ [(c, r)]\<rparr>)))"

record net =
  net_mx :: "string \<Rightarrow> goerr + string list"
  net_host :: "string \<Rightarrow> goerr option"
  net_err_text :: "goerr \<Rightarrow> string"

section \<open>Relaying (\<open>relay.go\<close>)\<close>

record smart_host_config =
  sh_host :: string
  sh_port :: int
  sh_username :: string
  sh_password :: string

record queue =
  qu_hostname :: string
  qu_retry_intervals :: "int list"
  qu_max_retries :: int
  qu_on_permanent_failure :: "(item \<Rightarrow> bytes \<Rightarrow> string \<Rightarrow> world \<Rightarrow> world) option"
  qu_smart_host :: "(smart_host_config \<times> bool) wio option"

fun is_permanent :: "goerr \<Rightarrow> bool" where
  "is_permanent (SMTPError c) = (c div 100 \<noteq> 4)"
| "is_permanent (Wrapped msg e) = is_permanent e"
| "is_permanent e = False"

definition port_or_default :: "int \<Rightarrow> string" where
  "port_or_default port = (if port \<le> 0 then ''587'' else show_int port)"

definition join_host_port :: "string \<Rightarrow> string \<Rightarrow> string" where
  "join_host_port h p =
     (if CHR '':'' \<in> set h then ''['' @ h @ '']:'' @ p else h @ '':'' @ p)"

text \<open>The calls both ways of delivering make after the connection is up.\<close>

definition transaction :: "string \<Rightarrow> string \<Rightarrow> bytes \<Rightarrow> unit qio" where
  "transaction from to data =
     io_bind (call (MailFrom from)) (\<lambda>_.
     io_bind (call (RcptTo to)) (\<lambda>_.
     io_bind (call DataCmd) (\<lambda>_.
     io_bind (io_wrap ''writing message data'' (call (WriteData data))) (\<lambda>_.
     io_bind (call (EndData from to data)) (\<lambda>_.
     call QuitCmd)))))"

definition try_smart_host_with_tls :: "queue \<Rightarrow> smart_host_config \<Rightarrow> bool \<Rightarrow> string \<Rightarrow> string \<Rightarrow> bytes \<Rightarrow> unit qio" where
  "try_smart_host_with_tls q cfg verified from to data =
     (let addr = join_host_port (sh_host cfg) (port_or_default (sh_port cfg)) in
     io_bind (io_wrap (''connecting to smart host '' @ addr) (call (DialTLS addr verified))) (\<lambda>_.
     io_bind (call (Hello (qu_hostname q))) (\<lambda>_.
     io_bind (io_wrap ''authenticating to smart host'' (call (AuthPlain (sh_username cfg) (sh_password cfg)))) (\<lambda>_.
     transaction from to data))))"

definition try_smart_host :: "queue \<Rightarrow> smart_host_config \<Rightarrow> string \<Rightarrow> string \<Rightarrow> bytes \<Rightarrow> unit qio" where
  "try_smart_host q cfg from to data = try_smart_host_with_tls q cfg True from to data"

definition try_addr :: "queue \<Rightarrow> string \<Rightarrow> string \<Rightarrow> string \<Rightarrow> bytes \<Rightarrow> unit qio" where
  "try_addr q addr from to data =
     io_bind (io_either (call (DialTLS addr False))
       (\<lambda>_. io_wrap (''connecting to '' @ addr) (call (DialPlain addr))) io_ret) (\<lambda>_.
     io_bind (call (Hello (qu_hostname q))) (\<lambda>_.
     transaction from to data))"

definition try_host :: "queue \<Rightarrow> string \<Rightarrow> string \<Rightarrow> string \<Rightarrow> bytes \<Rightarrow> unit qio" where
  "try_host q host from to data = try_addr q (join_host_port host ''25'') from to data"

definition mx_hosts :: "net \<Rightarrow> string \<Rightarrow> goerr + string list" where
  "mx_hosts N domain =
     (case net_mx N domain of
        Inr (m # ms) \<Rightarrow> Inr (map (\<lambda>h. trim_suffix h ''.'') (m # ms))
      | r \<Rightarrow> (case net_host N domain of
          None \<Rightarrow> Inr [domain]
        | Some aerr \<Rightarrow> (case r of Inl e \<Rightarrow> Inl e | Inr _ \<Rightarrow> Inl (ErrMsg ''domain has no MX or address records''))))"

fun try_hosts :: "queue \<Rightarrow> string \<Rightarrow> string \<Rightarrow> bytes \<Rightarrow> goerr option \<Rightarrow> string list \<Rightarrow> unit qio" where
  "try_hosts q from to data last_err [] = (case last_err of None \<Rightarrow> io_ret () | Some e \<Rightarrow> io_fail e)"
| "try_hosts q from to data last_err (h # hs) =
     io_either (try_host q h from to data)
       (\<lambda>e. if is_permanent e then io_fail e else try_hosts q from to data (Some e) hs) io_ret"

definition deliver_direct :: "net \<Rightarrow> queue \<Rightarrow> string \<Rightarrow> string \<Rightarrow> bytes \<Rightarrow> unit qio" where
  "deliver_direct N q from to data =
     (case addr_split to of (_, domain, ok) \<Rightarrow>
      if \<not> ok then io_fail (ErrMsg (''invalid recipient address '' @ to))
      else (case mx_hosts N domain of
          Inl e \<Rightarrow> io_fail (Wrapped (''no mail exchanger for '' @ domain) e)
        | Inr hosts \<Rightarrow> try_hosts q from to data None hosts))"

definition deliver :: "net \<Rightarrow> queue \<Rightarrow> string \<Rightarrow> string \<Rightarrow> bytes \<Rightarrow> unit qio" where
  "deliver N q from to data =
     (case qu_smart_host q of
        None \<Rightarrow> deliver_direct N q from to data
      | Some get \<Rightarrow>
          io_bind (io_wrap ''loading smart host settings'' (q_world get)) (\<lambda>(cfg, enabled).
          if enabled then try_smart_host q cfg from to data
          else deliver_direct N q from to data))"

section \<open>The spool (\<open>queue.go\<close>)\<close>

text \<open>
  \<open>os.WriteFile\<close> truncates the file and then writes it: a failure in between leaves an empty file,
  which is no JSON.
\<close>

definition write_eml :: "string \<Rightarrow> bytes \<Rightarrow> unit wio" where
  "write_eml i data =
     io_bind (syscall (io_modify (\<lambda>w. w\<lparr>qeml := AList.update i '''' (qeml w)\<rparr>))) (\<lambda>_.
     syscall (io_modify (\<lambda>w. w\<lparr>qeml := AList.update i data (qeml w)\<rparr>)))"

definition save :: "item \<Rightarrow> unit wio" where
  "save it =
     io_bind (syscall (io_modify (\<lambda>w. w\<lparr>qjson := AList.update (it_id it) None (qjson w)\<rparr>))) (\<lambda>_.
     syscall (io_modify (\<lambda>w. w\<lparr>qjson := AList.update (it_id it) (Some it) (qjson w)\<rparr>)))"

definition load :: "string \<Rightarrow> item wio" where
  "load i = syscall (\<lambda>w. case map_of (qjson w) i of
       None \<Rightarrow> (Inl ErrNotExist, w)
     | Some None \<Rightarrow> (Inl (ErrMsg ''unexpected end of JSON input''), w)
     | Some (Some it) \<Rightarrow> (Inr it, w))"

definition read_eml :: "string \<Rightarrow> bytes wio" where
  "read_eml i = syscall (\<lambda>w. case map_of (qeml w) i of None \<Rightarrow> (Inl ErrNotExist, w) | Some d \<Rightarrow> (Inr d, w))"

definition remove :: "string \<Rightarrow> unit wio" where
  "remove i =
     io_bind (io_ignore (syscall (io_modify (\<lambda>w. w\<lparr>qeml := AList.delete i (qeml w)\<rparr>)))) (\<lambda>_.
     io_ignore (syscall (io_modify (\<lambda>w. w\<lparr>qjson := AList.delete i (qjson w)\<rparr>))))"

definition generate_id :: "string wio" where
  "generate_id =
     io_bind (rand_read 12) (\<lambda>buf.
     io_bind time_now (\<lambda>now.
     io_ret (show_int now @ ''-'' @ hex_encode buf)))"

definition enqueue :: "string \<Rightarrow> string \<Rightarrow> bytes \<Rightarrow> string wio" where
  "enqueue from to data =
     io_bind generate_id (\<lambda>i.
     io_bind (io_wrap ''writing queued message'' (write_eml i data)) (\<lambda>_.
     io_bind time_now (\<lambda>created.
     io_bind time_now (\<lambda>now.
     io_bind (save \<lparr>it_id = i, it_from = from, it_to = to, it_attempts = 0, it_next_attempt = now,
       it_last_error = '''', it_created_at = created\<rparr>) (\<lambda>_.
     io_ret i)))))"

definition count_relay :: "string \<Rightarrow> unit qio" where
  "count_relay l = q_out (\<lambda>u. u\<lparr>o_relays := o_relays u @ [l]\<rparr>)"

text \<open>An empty list of intervals makes the first index expression panic, a negative index the second.\<close>

definition retry_delay :: "queue \<Rightarrow> int \<Rightarrow> int option" where
  "retry_delay q attempts =
     (let ds = qu_retry_intervals q in
      if ds = [] then None
      else if attempts - 1 < 0 then None
      else if attempts - 1 < int (length ds) then Some (ds ! nat (attempts - 1))
      else Some (last ds))"

definition give_up :: "queue \<Rightarrow> item \<Rightarrow> bytes \<Rightarrow> string \<Rightarrow> unit qio" where
  "give_up q it data reason =
     io_bind (count_relay ''perm_fail'') (\<lambda>_.
     io_bind (case qu_on_permanent_failure q of
         None \<Rightarrow> io_ret ()
       | Some f \<Rightarrow> io_modify (\<lambda>(w, u).
           (f it data reason w, u\<lparr>o_failures := o_failures u @ [(it, data, reason)]\<rparr>))) (\<lambda>_.
     q_world (remove (it_id it))))"

definition retry_later :: "queue \<Rightarrow> item \<Rightarrow> unit qio" where
  "retry_later q it =
     io_bind (count_relay ''temp_fail'') (\<lambda>_.
     case retry_delay q (it_attempts it) of
       None \<Rightarrow> io_fail (ErrMsg ''panic: index out of range'')
     | Some delay \<Rightarrow>
         io_bind (q_world time_now) (\<lambda>now.
         q_world (io_ignore (save (it\<lparr>it_next_attempt := now + delay\<rparr>)))))"

definition attempt :: "net \<Rightarrow> queue \<Rightarrow> item \<Rightarrow> unit qio" where
  "attempt N q it =
     io_either (q_world (read_eml (it_id it)))
       (\<lambda>_. q_world (remove (it_id it)))
       (\<lambda>data. io_either (deliver N q (it_from it) (it_to it) data)
          (\<lambda>e. let it' = it\<lparr>it_attempts := it_attempts it + 1, it_last_error := net_err_text N e\<rparr> in
             if is_permanent e \<or> qu_max_retries q < it_attempts it'
             then give_up q it' data (net_err_text N e)
             else retry_later q it')
          (\<lambda>_. io_bind (count_relay ''success'') (\<lambda>_. q_world (remove (it_id it)))))"

text \<open>The directory lists \<open><id>.eml\<close> and \<open><id>.json\<close>; a pass takes the latter in name order.\<close>

definition queued_ids :: "world \<Rightarrow> string list" where
  "queued_ids w = sort_key (\<lambda>i. i @ ''.json'') (remdups (map fst (qjson w)))"

definition process_one :: "net \<Rightarrow> queue \<Rightarrow> int \<Rightarrow> string \<Rightarrow> unit qio" where
  "process_one N q now i =
     io_either (q_world (load i)) (\<lambda>_. io_ret ())
       (\<lambda>it. if now < it_next_attempt it then io_ret () else attempt N q it)"

definition process_all :: "net \<Rightarrow> queue \<Rightarrow> unit qio" where
  "process_all N q =
     io_either (q_world (syscall (io_gets queued_ids))) (\<lambda>_. io_ret ())
       (\<lambda>ids. io_bind (q_world time_now) (\<lambda>now.
          io_bind (io_for ids (process_one N q now)) (\<lambda>_.
          q_out (\<lambda>u. u\<lparr>o_depth := int (length ids)\<rparr>))))"

definition queue_new :: "path \<Rightarrow> string \<Rightarrow> int list \<Rightarrow> int \<Rightarrow> queue wio" where
  "queue_new dir host intervals max_retries =
     io_bind (io_wrap ''creating queue directory'' (os_mkdir_all dir)) (\<lambda>_.
     io_ret \<lparr>qu_hostname = host, qu_retry_intervals = intervals, qu_max_retries = max_retries,
       qu_on_permanent_failure = None, qu_smart_host = None\<rparr>)"

text \<open>\<open>Run\<close>: a pass at the start and one at every tick, here until it is cancelled after \<open>n\<close> ticks.\<close>

definition wait_tick :: "int \<Rightarrow> unit qio" where
  "wait_tick interval = q_world (io_modify (\<lambda>w. w\<lparr>clock := clock w + interval\<rparr>))"

fun queue_run :: "net \<Rightarrow> queue \<Rightarrow> int \<Rightarrow> nat \<Rightarrow> unit qio" where
  "queue_run N q interval 0 = process_all N q"
| "queue_run N q interval (Suc n) =
     io_bind (process_all N q) (\<lambda>_.
     io_bind (wait_tick interval) (\<lambda>_.
     queue_run N q interval n))"

end
