(* ===== verification/QueueInv.thy ===== *)
theory QueueInv
  imports Queue
begin

text \<open>
  Lemmas and properties of the outbound queue: where the credentials of the smart host may travel,
  and what a pass does with each queued message.
\<close>

section \<open>Credentials\<close>

text \<open>
  Reading a log of calls: \<open>st\<close> says whether the connection in use is TLS with a verified
  certificate. Credentials may only be sent while it is.
\<close>

fun creds_safe :: "bool \<Rightarrow> (wire \<times> goerr option) list \<Rightarrow> bool" where
  "creds_safe st [] = True"
| "creds_safe st ((c, r) # es) =
     (case c of
        DialTLS a v \<Rightarrow> creds_safe (v \<and> r = None) es
      | DialPlain a \<Rightarrow> creds_safe False es
      | AuthPlain n p \<Rightarrow> st \<and> creds_safe st es
      | _ \<Rightarrow> creds_safe st es)"

fun is_dial :: "wire \<Rightarrow> bool" where
  "is_dial (DialTLS a v) = True"
| "is_dial (DialPlain a) = True"
| "is_dial c = False"

lemma creds_safe_mono: "creds_safe False es \<Longrightarrow> creds_safe st es"
  by (induction es) (auto split: wire.splits)

lemma creds_safe_append:
  "creds_safe st es \<Longrightarrow> creds_safe False fs \<Longrightarrow> creds_safe st (es @ fs)"
  by (induction st es rule: creds_safe.induct) (auto split: wire.splits intro: creds_safe_mono)

text \<open>\<open>logs P\<close>: the log grows by events \<open>es\<close> with \<open>P es\<close>.\<close>

definition logs :: "((wire \<times> goerr option) list \<Rightarrow> bool) \<Rightarrow> world \<times> outside \<Rightarrow> world \<times> outside \<Rightarrow> bool" where
  "logs P s t \<longleftrightarrow> (\<exists>es. o_wire (snd t) = o_wire (snd s) @ es \<and> P es)"

interpretation safelog: effect "logs (creds_safe False)"
  by unfold_locales (auto simp: logs_def intro: creds_safe_append)

lemma logs_Nil: "P [] \<Longrightarrow> keeps (logs P) (q_world m)"
  by (auto simp: keeps_def logs_def q_world_def split: prod.splits)

lemma logs_out: "P [] \<Longrightarrow> (\<And>u. o_wire (f u) = o_wire u) \<Longrightarrow> keeps (logs P) (q_out f)"
  by (auto simp: keeps_def logs_def q_out_def io_modify_def split: prod.splits)

lemma logs_call: "(\<And>r. P [(c, r)]) \<Longrightarrow> keeps (logs P) (call c)"
  by (auto simp: keeps_def logs_def call_def Let_def split: prod.splits)

text \<open>Events that neither dial nor authenticate; and those of one connection.\<close>

definition payload :: "(wire \<times> goerr option) list \<Rightarrow> bool" where
  "payload es \<longleftrightarrow> list_all (\<lambda>(c, r). \<not> is_dial c \<and> (\<forall>n p. c \<noteq> AuthPlain n p)) es"

definition dialless :: "(wire \<times> goerr option) list \<Rightarrow> bool" where
  "dialless es \<longleftrightarrow> list_all (\<lambda>(c, r). \<not> is_dial c) es"

interpretation payloadlog: effect "logs payload"
  by unfold_locales (auto simp: logs_def payload_def)

interpretation diallesslog: effect "logs dialless"
  by unfold_locales (auto simp: logs_def dialless_def)

lemma payload_dialless: "payload es \<Longrightarrow> dialless es"
  by (auto simp: payload_def dialless_def list_all_iff)

lemma payload_safe: "payload es \<Longrightarrow> creds_safe st es"
  by (induction st es rule: creds_safe.induct) (auto simp: payload_def split: wire.splits)

lemma dialless_safe: "dialless es \<Longrightarrow> creds_safe True es"
  by (induction es) (auto simp: dialless_def split: wire.splits)

lemma keeps_logs_mono: "keeps (logs P) m \<Longrightarrow> (\<And>es. P es \<Longrightarrow> Q es) \<Longrightarrow> keeps (logs Q) m"
  unfolding keeps_def logs_def by blast

lemma transaction_logs: "keeps (logs payload) (transaction from to data)"
  unfolding transaction_def
  by (intro payloadlog.keeps_rules logs_call) (simp_all add: payload_def)

lemma logs_run: "keeps (logs P) m \<Longrightarrow> m (w, u) = (r, (w', u')) \<Longrightarrow> \<exists>es. o_wire u' = o_wire u @ es \<and> P es"
  unfolding keeps_def logs_def by (metis snd_conv)

text \<open>A connection that is dialled with a verified certificate and used only where that succeeds.\<close>

definition verified_to :: "string \<Rightarrow> (wire \<times> goerr option) list \<Rightarrow> bool" where
  "verified_to addr es \<longleftrightarrow> (\<exists>r fs. es = (DialTLS addr True, r) # fs \<and> dialless fs \<and> (r \<noteq> None \<longrightarrow> fs = []))"

lemma verified_safe: "verified_to addr es \<Longrightarrow> creds_safe st es"
  by (auto simp: verified_to_def dialless_safe)

lemma smart_host_logs:
  "keeps (logs (verified_to (join_host_port (sh_host cfg) (port_or_default (sh_port cfg)))))
     (try_smart_host q cfg from to data)"
proof -
  let ?addr = "join_host_port (sh_host cfg) (port_or_default (sh_port cfg))"
  let ?rest = "\<lambda>_ :: unit. io_bind (call (Hello (qu_hostname q))) (\<lambda>_.
     io_bind (io_wrap ''authenticating to smart host'' (call (AuthPlain (sh_username cfg) (sh_password cfg)))) (\<lambda>_.
     transaction from to data))"
  have rest: "keeps (logs dialless) (?rest x)" for x
    by (intro diallesslog.keeps_rules logs_call keeps_logs_mono [OF transaction_logs payload_dialless])
      (simp_all add: dialless_def)
  show ?thesis
    unfolding keeps_def
  proof
    fix s :: "world \<times> outside"
    obtain w u where s: "s = (w, u)" by fastforce
    let ?u1 = "\<lambda>r. u\<lparr>o_replies := tl (o_replies u), o_wire := o_wire u @ [(DialTLS ?addr True, r)]\<rparr>"
    let ?r = "case o_replies u of [] \<Rightarrow> None | r # rs \<Rightarrow> r"
    have run: "try_smart_host q cfg from to data s = (case ?r of
        None \<Rightarrow> ?rest () (w, ?u1 None)
      | Some e \<Rightarrow> (Inl (Wrapped (''connecting to smart host '' @ ?addr) e), (w, ?u1 (Some e))))"
      by (auto simp: try_smart_host_def try_smart_host_with_tls_def Let_def s io_bind_apply io_wrap_apply call_def
          split: option.splits)
    show "logs (verified_to ?addr) s (snd (try_smart_host q cfg from to data s))"
    proof (cases ?r)
      case None
      obtain x w' u' where step: "?rest () (w, ?u1 None) = (x, (w', u'))" by (metis prod.collapse)
      from logs_run [OF rest this] obtain es where "o_wire u' = o_wire u @ (DialTLS ?addr True, None) # es" "dialless es"
        by auto
      then show ?thesis unfolding run None step by (auto simp: logs_def s verified_to_def)
    next
      case (Some e)
      then show ?thesis unfolding run Some by (simp add: logs_def s verified_to_def dialless_def)
    qed
  qed
qed

lemma direct_logs: "keeps (logs payload) m \<Longrightarrow> keeps (logs (creds_safe False)) m"
  by (erule keeps_logs_mono) (rule payload_safe)

lemma try_host_logs: "keeps (logs (creds_safe False)) (try_host q h from to data)"
  unfolding try_host_def try_addr_def
  by (intro safelog.keeps_rules logs_call direct_logs [OF transaction_logs]) simp_all

lemma try_hosts_logs: "keeps (logs (creds_safe False)) (try_hosts q from to data lst hs)"
proof (induction hs arbitrary: lst)
  case Nil
  show ?case by (cases lst) (auto intro: safelog.keeps_rules)
next
  case (Cons h hs)
  then show ?case by (auto intro!: safelog.keeps_rules try_host_logs)
qed

lemma deliver_direct_logs: "keeps (logs (creds_safe False)) (deliver_direct N q from to data)"
  unfolding deliver_direct_def
  by (auto intro!: safelog.keeps_rules try_hosts_logs split: prod.splits sum.splits)

lemma deliver_logs: "keeps (logs (creds_safe False)) (deliver N q from to data)"
proof -
  have sh: "keeps (logs (creds_safe False)) (try_smart_host q cfg from to data)" for cfg
    by (rule keeps_logs_mono [OF smart_host_logs verified_safe])
  show ?thesis unfolding deliver_def
    by (auto intro!: safelog.keeps_rules deliver_direct_logs sh logs_Nil split: option.splits prod.splits)
qed

lemma attempt_logs: "keeps (logs (creds_safe False)) (attempt N q it)"
proof -
  have gu: "keeps (logs (creds_safe False)) (give_up q it d reason)" for it d reason
    unfolding give_up_def count_relay_def
    by (auto intro!: safelog.keeps_rules logs_out logs_Nil split: option.splits)
      (auto simp: keeps_def logs_def io_modify_def)
  have rl: "keeps (logs (creds_safe False)) (retry_later q it)" for it
    unfolding retry_later_def count_relay_def
    by (auto intro!: safelog.keeps_rules logs_out logs_Nil split: option.splits)
  show ?thesis unfolding attempt_def count_relay_def Let_def
    by (intro safelog.keeps_rules logs_Nil deliver_logs gu rl logs_out) simp_all
qed

lemma process_all_logs: "keeps (logs (creds_safe False)) (process_all N q)"
  unfolding process_all_def process_one_def
  by (intro safelog.keeps_rules logs_Nil attempt_logs logs_out) simp_all

lemma queue_run_logs: "keeps (logs (creds_safe False)) (queue_run N q interval n)"
  by (induction n) (auto intro!: safelog.keeps_rules process_all_logs logs_Nil simp: wait_tick_def)

text \<open>C24: the password of the smart host never travels in the clear. Whatever the remote side
  answers, whatever fails on this side and however often the settings change, in every run of the
  queue each authentication is sent on a connection whose TLS handshake succeeded with the
  certificate verified.\<close>

theorem credentials_over_verified_tls:
  "\<exists>es. o_wire (snd (snd (queue_run N q interval n (w, u)))) = o_wire u @ es \<and> creds_safe False es"
  using keepsD [OF queue_run_logs, where s = "(w, u)"] by (simp add: logs_def)

section \<open>What delivery does\<close>

definition fine :: "world \<Rightarrow> bool" where
  "fine w \<longleftrightarrow> faults w = [] \<and> (\<forall>t \<in> set (ticks w). 0 \<le> t)"

text \<open>Without failures the spool stays as it is, and the clock does not run backwards.\<close>

definition quiet :: "world \<Rightarrow> world \<Rightarrow> bool" where
  "quiet w w' \<longleftrightarrow> (fine w \<longrightarrow> fine w' \<and> clock w \<le> clock w' \<and> qeml w' = qeml w \<and> qjson w' = qjson w)"

interpretation quietop: effect quiet
  by unfold_locales (auto simp: quiet_def)

lemma quiet_time_now: "keeps quiet time_now"
  by (auto simp: keeps_def quiet_def time_now_def fine_def split: list.splits)

definition out_ext :: "outside \<Rightarrow> outside \<Rightarrow> bool" where
  "out_ext u u' \<longleftrightarrow> (\<exists>es. o_wire u' = o_wire u @ es) \<and> (\<exists>fs. o_failures u' = o_failures u @ fs)"

definition quiet2 :: "world \<times> outside \<Rightarrow> world \<times> outside \<Rightarrow> bool" where
  "quiet2 s t \<longleftrightarrow> quiet (fst s) (fst t) \<and> out_ext (snd s) (snd t)"

lemma out_ext_refl [simp]: "out_ext u u"
  by (simp add: out_ext_def)

lemma out_ext_trans: "out_ext u v \<Longrightarrow> out_ext v x \<Longrightarrow> out_ext u x"
  by (auto simp: out_ext_def)

interpretation quiet2: effect quiet2
  by unfold_locales (auto simp: quiet2_def intro: quietop.R_refl quietop.R_trans out_ext_trans)

lemma quiet2_world: "keeps quiet m \<Longrightarrow> keeps quiet2 (q_world m)"
  by (auto simp: keeps_def quiet2_def q_world_def split: prod.splits) (metis snd_conv)

lemma quiet2_call: "keeps quiet2 (call c)"
  by (auto simp: keeps_def quiet2_def call_def Let_def out_ext_def intro: quietop.R_refl)

lemma quiet2_transaction: "keeps quiet2 (transaction from to data)"
  unfolding transaction_def by (intro quiet2.keeps_rules quiet2_call)

lemma quiet2_smart_host: "keeps quiet2 (try_smart_host q cfg from to data)"
  unfolding try_smart_host_def try_smart_host_with_tls_def Let_def
  by (intro quiet2.keeps_rules quiet2_call quiet2_transaction)

lemma quiet2_try_hosts: "keeps quiet2 (try_hosts q from to data lst hs)"
proof (induction hs arbitrary: lst)
  case Nil
  show ?case by (cases lst) (auto intro: quiet2.keeps_rules)
next
  case (Cons h hs)
  show ?case unfolding try_hosts.simps try_host_def try_addr_def
    by (intro quiet2.keeps_rules quiet2_call quiet2_transaction Cons.IH)
qed

lemma quiet2_direct: "keeps quiet2 (deliver_direct N q from to data)"
  unfolding deliver_direct_def
  by (auto intro!: quiet2.keeps_rules quiet2_try_hosts split: prod.splits sum.splits)

subsection \<open>Success means that the remote side accepted\<close>

definition accepted :: "string \<Rightarrow> string \<Rightarrow> bytes \<Rightarrow> outside \<Rightarrow> outside \<Rightarrow> bool" where
  "accepted from to data u u' \<longleftrightarrow>
     (\<exists>es. o_wire u' = o_wire u @ es \<and> (EndData from to data, None) \<in> set es)"

lemma accepted_ext: "out_ext u v \<Longrightarrow> accepted f t d v x \<Longrightarrow> out_ext x y \<Longrightarrow> accepted f t d u y"
  by (auto simp: accepted_def out_ext_def)

lemma call_ok:
  "call c (w, u) = (Inr x, s) \<longleftrightarrow> (case o_replies u of [] \<Rightarrow> True | r # rs \<Rightarrow> r = None) \<and>
     s = (w, u\<lparr>o_replies := tl (o_replies u), o_wire := o_wire u @ [(c, None)]\<rparr>)"
  by (auto simp: call_def Let_def split: list.splits option.splits)

lemma transaction_ok: "transaction from to data (w, u) = (Inr x, (w', u')) \<Longrightarrow> accepted from to data u u'"
  by (auto simp: transaction_def io_oks call_ok accepted_def)

lemma quiet2_run: "keeps quiet2 m \<Longrightarrow> m (w, u) = (r, (w', u')) \<Longrightarrow> quiet w w' \<and> out_ext u u'"
  unfolding keeps_def quiet2_def by (metis fst_conv snd_conv)

text \<open>A computation that ends in a transaction, after others that only add to the log.\<close>

lemma bind_accepted:
  assumes "keeps quiet2 m" and "\<And>x w u y w' u'. k x (w, u) = (Inr y, (w', u')) \<Longrightarrow> accepted f t d u u'"
    and "io_bind m k (w, u) = (Inr y, (w', u'))"
  shows "accepted f t d u u'"
proof -
  from assms(3) obtain x w1 u1 where m: "m (w, u) = (Inr x, (w1, u1))" and k: "k x (w1, u1) = (Inr y, (w', u'))"
    by (auto simp: io_bind_ok)
  from accepted_ext [OF _ assms(2) [OF k] out_ext_refl] quiet2_run [OF assms(1) m] show ?thesis by blast
qed

lemma try_host_ok: "try_host q h from to data (w, u) = (Inr x, (w', u')) \<Longrightarrow> accepted from to data u u'"
  unfolding try_host_def try_addr_def
  by (erule bind_accepted [rotated 2], intro quiet2.keeps_rules quiet2_call,
      erule bind_accepted [rotated 2], intro quiet2.keeps_rules quiet2_call, erule transaction_ok)

lemma smart_host_ok: "try_smart_host q cfg from to data (w, u) = (Inr x, (w', u')) \<Longrightarrow> accepted from to data u u'"
  unfolding try_smart_host_def try_smart_host_with_tls_def Let_def
  by (erule bind_accepted [rotated 2], intro quiet2.keeps_rules quiet2_call,
      erule bind_accepted [rotated 2], intro quiet2.keeps_rules quiet2_call,
      erule bind_accepted [rotated 2], intro quiet2.keeps_rules quiet2_call, erule transaction_ok)

lemma try_hosts_ok:
  "try_hosts q from to data lst hs (w, u) = (Inr x, (w', u')) \<Longrightarrow> hs \<noteq> [] \<or> lst \<noteq> None \<Longrightarrow> accepted from to data u u'"
proof (induction hs arbitrary: lst w u)
  case Nil
  then show ?case by (auto simp: io_fail_def)
next
  case (Cons h hs)
  obtain r w1 u1 where t: "try_host q h from to data (w, u) = (r, (w1, u1))" by (metis prod.collapse)
  show ?case
  proof (cases r)
    case (Inr y)
    with Cons.prems(1) t have "w1 = w'" "u1 = u'" by (auto simp: io_either_apply io_ret_def)
    with try_host_ok [OF t [unfolded Inr]] show ?thesis by simp
  next
    case (Inl e)
    have "keeps quiet2 (try_host q h from to data)"
      unfolding try_host_def try_addr_def by (intro quiet2.keeps_rules quiet2_call quiet2_transaction)
    from quiet2_run [OF this t] have ext: "out_ext u u1" by simp
    from Cons.prems(1) t Inl have "try_hosts q from to data (Some e) hs (w1, u1) = (Inr x, (w', u'))"
      by (auto simp: io_either_apply io_fail_def split: if_splits)
    from Cons.IH [OF this] have "accepted from to data u1 u'" by simp
    with ext show ?thesis by (blast intro: accepted_ext out_ext_refl)
  qed
qed

lemma mx_hosts_nonempty: "mx_hosts N domain = Inr hs \<Longrightarrow> hs \<noteq> []"
  by (auto simp: mx_hosts_def split: sum.splits list.splits option.splits)

lemma deliver_direct_ok:
  "deliver_direct N q from to data (w, u) = (Inr x, (w', u')) \<Longrightarrow> accepted from to data u u'"
  by (auto simp: deliver_direct_def io_fail_def split: prod.splits if_splits sum.splits
      dest!: try_hosts_ok dest: mx_hosts_nonempty)

lemma q_world_ok: "q_world m (w, u) = (r, (w', u')) \<longleftrightarrow> m w = (r, w') \<and> u' = u"
  by (auto simp: q_world_def split: prod.splits)

lemma delivery_ok: "deliver N q from to data (w, u) = (Inr x, (w', u')) \<Longrightarrow> accepted from to data u u'"
  by (auto simp: deliver_def io_oks q_world_ok split: option.splits prod.splits if_splits
      dest: deliver_direct_ok smart_host_ok)

section \<open>What a pass does with a message\<close>

definition queued :: "world \<Rightarrow> item \<Rightarrow> bytes \<Rightarrow> bool" where
  "queued w it d \<longleftrightarrow> map_of (qjson w) (it_id it) = Some (Some it) \<and> map_of (qeml w) (it_id it) = Some d"

definition gone :: "world \<Rightarrow> string \<Rightarrow> bool" where
  "gone w i \<longleftrightarrow> map_of (qjson w) i = None \<and> map_of (qeml w) i = None"

definition spool_ok :: "world \<Rightarrow> bool" where
  "spool_ok w \<longleftrightarrow> (\<forall>i it. map_of (qjson w) i = Some (Some it) \<longrightarrow> it_id it = i \<and> 0 \<le> it_attempts it \<and> map_of (qeml w) i \<noteq> None)"

definition same_spool :: "string \<Rightarrow> world \<Rightarrow> world \<Rightarrow> bool" where
  "same_spool i w w' \<longleftrightarrow> map_of (qjson w') i = map_of (qjson w) i \<and> map_of (qeml w') i = map_of (qeml w) i"

definition same_msg :: "item \<Rightarrow> item \<Rightarrow> bool" where
  "same_msg it it' \<longleftrightarrow> it_id it' = it_id it \<and> it_from it' = it_from it \<and> it_to it' = it_to it \<and> it_created_at it' = it_created_at it"

text \<open>\<open>OnPermanentFailure\<close> was called for the message.\<close>

definition reported :: "item \<Rightarrow> bytes \<Rightarrow> outside \<Rightarrow> outside \<Rightarrow> bool" where
  "reported it d u u' \<longleftrightarrow>
     (\<exists>fs it' reason. o_failures u' = o_failures u @ fs \<and> (it', d, reason) \<in> set fs \<and> same_msg it it')"

definition settled :: "item \<Rightarrow> bytes \<Rightarrow> outside \<Rightarrow> outside \<Rightarrow> world \<Rightarrow> bool" where
  "settled it d u u' w' \<longleftrightarrow> gone w' (it_id it) \<and> (accepted (it_from it) (it_to it) d u u' \<or> reported it d u u')"

definition deferred :: "queue \<Rightarrow> item \<Rightarrow> bytes \<Rightarrow> world \<Rightarrow> bool" where
  "deferred q it d w' \<longleftrightarrow> (\<exists>it' delay. queued w' it' d \<and> same_msg it it' \<and> it_attempts it' = it_attempts it + 1 \<and>
     it_attempts it' \<le> qu_max_retries q \<and> delay \<in> set (qu_retry_intervals q) \<and> it_next_attempt it' \<le> clock w' + delay)"

definition fate :: "queue \<Rightarrow> int \<Rightarrow> item \<Rightarrow> bytes \<Rightarrow> outside \<Rightarrow> outside \<Rightarrow> world \<Rightarrow> bool" where
  "fate q now it d u u' w' \<longleftrightarrow>
     (if now < it_next_attempt it then queued w' it d else settled it d u u' w' \<or> deferred q it d w')"

lemma accepted_mono: "accepted f t d u v \<Longrightarrow> out_ext v x \<Longrightarrow> accepted f t d u x"
  using accepted_ext [OF out_ext_refl] .

lemma accepted_later: "out_ext u v \<Longrightarrow> accepted f t d v x \<Longrightarrow> accepted f t d u x"
  using accepted_ext [OF _ _ out_ext_refl] .

lemma reported_mono: "reported it d u v \<Longrightarrow> out_ext v x \<Longrightarrow> reported it d u x"
  by (fastforce simp: reported_def out_ext_def)

lemma reported_later: "out_ext u v \<Longrightarrow> reported it d v x \<Longrightarrow> reported it d u x"
  by (fastforce simp: reported_def out_ext_def)

lemma settled_mono:
  "settled it d u v w \<Longrightarrow> out_ext v x \<Longrightarrow> same_spool (it_id it) w w' \<Longrightarrow> settled it d u x w'"
  by (auto simp: settled_def gone_def same_spool_def intro: accepted_mono reported_mono)

lemma fate_mono:
  assumes "fate q now it d u v w" "out_ext v x" "same_spool (it_id it) w w'" "clock w \<le> clock w'"
  shows "fate q now it d u x w'"
proof -
  have dm: "deferred q it d w'" if "deferred q it d w"
  proof -
    from that obtain it' delay where "queued w it' d" and m: "same_msg it it'" and a: "it_attempts it' = it_attempts it + 1"
      "it_attempts it' \<le> qu_max_retries q" "delay \<in> set (qu_retry_intervals q)" "it_next_attempt it' \<le> clock w + delay"
      unfolding deferred_def by blast
    moreover from this have "queued w' it' d" using assms(3) by (simp add: queued_def same_spool_def same_msg_def)
    ultimately show ?thesis unfolding deferred_def using assms(4) by (intro exI [of _ it'] exI [of _ delay]) simp
  qed
  have "queued w it d \<Longrightarrow> queued w' it d" using assms(3) by (simp add: queued_def same_spool_def)
  with assms(1) dm show ?thesis by (auto simp: fate_def intro: settled_mono [OF _ assms(2,3)])
qed

lemma fate_later:
  assumes "fate q now it d v x w'" "out_ext u v"
  shows "fate q now it d u x w'"
  using assms by (auto simp: fate_def settled_def intro: accepted_later reported_later)

lemma same_spool_refl [simp]: "same_spool i w w"
  by (simp add: same_spool_def)

lemma same_spool_trans: "same_spool i w w1 \<Longrightarrow> same_spool i w1 w2 \<Longrightarrow> same_spool i w w2"
  by (simp add: same_spool_def)

lemma fine_may_fail: "fine w \<Longrightarrow> may_fail e m w = m w"
  by (simp add: may_fail_def fine_def)

lemma fine_upd [simp]:
  "fine (w\<lparr>qeml := a\<rparr>) = fine w" "fine (w\<lparr>qjson := b\<rparr>) = fine w"
  by (simp_all add: fine_def)

lemma remove_fine:
  "fine w \<Longrightarrow> remove i w = (Inr (), w\<lparr>qeml := AList.delete i (qeml w), qjson := AList.delete i (qjson w)\<rparr>)"
  by (simp add: remove_def fine_may_fail io_simps)

lemma q_remove_fine:
  "fine w \<Longrightarrow> q_world (remove i) (w, u) =
     (Inr (), (w\<lparr>qeml := AList.delete i (qeml w), qjson := AList.delete i (qjson w)\<rparr>, u))"
  by (simp add: q_world_def remove_fine)

lemma save_fine:
  "fine w \<Longrightarrow> save it w = (Inr (), w\<lparr>qjson := AList.update (it_id it) (Some it) (AList.update (it_id it) None (qjson w))\<rparr>)"
  by (simp add: save_def fine_may_fail io_simps)

lemma time_now_fine: "fine w \<Longrightarrow> \<exists>now w'. time_now w = (Inr now, w') \<and> quiet w w' \<and> clock w' = now"
  using quiet_time_now by (auto simp: time_now_def keeps_def split: list.splits)

text \<open>What the queue relies on: the source of the relay settings and the bounce leave the spool
  alone and fail only with the system; the configuration has retry intervals.\<close>

locale relaying =
  fixes q :: queue
  assumes getter_quiet: "qu_smart_host q = Some get \<Longrightarrow> keeps quiet get"
    and callback_set: "qu_on_permanent_failure q \<noteq> None"
    and callback_quiet: "qu_on_permanent_failure q = Some f \<Longrightarrow> quiet w (f it d reason w)"
    and intervals_set: "qu_retry_intervals q \<noteq> []"
begin

lemma quiet2_deliver: "keeps quiet2 (deliver N q from to data)"
  unfolding deliver_def
  by (auto intro!: quiet2.keeps_rules quiet2_direct quiet2_smart_host quiet2_world getter_quiet
      split: option.splits)

lemma retry_delay_in: "1 \<le> n \<Longrightarrow> \<exists>delay \<in> set (qu_retry_intervals q). retry_delay q n = Some delay"
  using intervals_set by (auto simp: retry_delay_def Let_def)

lemma give_up_fine:
  assumes "fine w"
  shows "\<exists>w' u'. give_up q it d reason (w, u) = (Inr (), (w', u')) \<and> fine w' \<and> clock w \<le> clock w' \<and>
    (\<forall>j. j \<noteq> it_id it \<longrightarrow> same_spool j w w') \<and> gone w' (it_id it) \<and>
    o_wire u' = o_wire u \<and> o_failures u' = o_failures u @ [(it, d, reason)]"
proof -
  obtain f where f: "qu_on_permanent_failure q = Some f" using callback_set by auto
  let ?w = "f it d reason w"
  from callback_quiet [OF f] assms have w: "fine ?w" "clock w \<le> clock ?w" "qeml ?w = qeml w" "qjson ?w = qjson w"
    by (auto simp: quiet_def)
  show ?thesis
    using w by (simp add: give_up_def f count_relay_def q_out_def io_simps q_world_def remove_fine gone_def same_spool_def)
qed

lemma retry_later_fine:
  assumes "fine w" and "1 \<le> it_attempts it"
  shows "\<exists>w' u' now delay. retry_later q it (w, u) = (Inr (), (w', u')) \<and> fine w' \<and> clock w \<le> clock w' \<and>
    (\<forall>j. j \<noteq> it_id it \<longrightarrow> same_spool j w w') \<and> out_ext u u' \<and> delay \<in> set (qu_retry_intervals q) \<and>
    map_of (qjson w') (it_id it) = Some (Some (it\<lparr>it_next_attempt := now + delay\<rparr>)) \<and>
    map_of (qeml w') (it_id it) = map_of (qeml w) (it_id it) \<and> now \<le> clock w'"
proof -
  from retry_delay_in [OF assms(2)] obtain delay where d: "delay \<in> set (qu_retry_intervals q)"
      "retry_delay q (it_attempts it) = Some delay" by blast
  from time_now_fine [OF assms(1)] obtain now w1 where t: "time_now w = (Inr now, w1)" "quiet w w1" "clock w1 = now"
    by blast
  with assms(1) have w1: "fine w1" "clock w \<le> clock w1" "qeml w1 = qeml w" "qjson w1 = qjson w"
    by (auto simp: quiet_def)
  have run: "retry_later q it (w, u) = (Inr (), (snd (save (it\<lparr>it_next_attempt := now + delay\<rparr>) w1),
      u\<lparr>o_relays := o_relays u @ [''temp_fail'']\<rparr>))"
    using d t by (simp add: retry_later_def count_relay_def q_out_def io_simps q_world_def)
  let ?w = "snd (save (it\<lparr>it_next_attempt := now + delay\<rparr>) w1)"
  have "fine ?w" "clock w \<le> clock ?w" "now \<le> clock ?w" "map_of (qeml ?w) (it_id it) = map_of (qeml w) (it_id it)"
    "map_of (qjson ?w) (it_id it) = Some (Some (it\<lparr>it_next_attempt := now + delay\<rparr>))"
    "\<forall>j. j \<noteq> it_id it \<longrightarrow> same_spool j w ?w"
    using w1 t by (simp_all add: save_fine same_spool_def)
  moreover have "out_ext u (u\<lparr>o_relays := o_relays u @ [''temp_fail'']\<rparr>)" by (simp add: out_ext_def)
  ultimately show ?thesis using run d(1) by blast
qed

lemma attempt_fate:
  assumes fine: "fine w" and body: "map_of (qeml w) (it_id it) = Some d" and pos: "0 \<le> it_attempts it"
    and due: "it_next_attempt it \<le> now"
  shows "\<exists>w' u'. attempt N q it (w, u) = (Inr (), (w', u')) \<and> fine w' \<and> clock w \<le> clock w' \<and> out_ext u u' \<and>
    (\<forall>j. j \<noteq> it_id it \<longrightarrow> same_spool j w w') \<and> fate q now it d u u' w'"
proof -
  have read: "q_world (read_eml (it_id it)) (w, u) = (Inr d, (w, u))"
    using fine body by (simp add: q_world_def read_eml_def fine_may_fail)
  obtain r w1 u1 where dl: "deliver N q (it_from it) (it_to it) d (w, u) = (r, (w1, u1))" by (metis prod.collapse)
  from quiet2_run [OF quiet2_deliver dl] fine have
    w1: "fine w1" "clock w \<le> clock w1" "qeml w1 = qeml w" "qjson w1 = qjson w" and ext: "out_ext u u1"
    by (auto simp: quiet_def)
  show ?thesis
  proof (cases r)
    case (Inr x)
    with delivery_ok dl have acc: "accepted (it_from it) (it_to it) d u u1" by blast
    have run: "attempt N q it (w, u) = (Inr (), (w1\<lparr>qeml := AList.delete (it_id it) (qeml w1),
        qjson := AList.delete (it_id it) (qjson w1)\<rparr>, u1\<lparr>o_relays := o_relays u1 @ [''success'']\<rparr>))"
      using w1(1) dl by (simp add: attempt_def io_either_apply read Inr count_relay_def q_out_def io_simps
          q_remove_fine)
    show ?thesis
      unfolding run using w1 ext acc due
      by (auto simp: fate_def settled_def gone_def same_spool_def out_ext_def accepted_def)
  next
    case (Inl e)
    let ?it = "it\<lparr>it_attempts := it_attempts it + 1, it_last_error := net_err_text N e\<rparr>"
    have same: "same_msg it ?it" by (simp add: same_msg_def)
    show ?thesis
    proof (cases "is_permanent e \<or> qu_max_retries q < it_attempts ?it")
      case True
      then have run: "attempt N q it (w, u) = give_up q ?it d (net_err_text N e) (w1, u1)"
        using dl by (simp add: attempt_def io_either_apply read Inl)
      from give_up_fine [OF w1(1), of ?it d "net_err_text N e" u1] obtain w' u' where
        g: "give_up q ?it d (net_err_text N e) (w1, u1) = (Inr (), (w', u'))" "fine w'" "clock w1 \<le> clock w'"
          "\<forall>j. j \<noteq> it_id it \<longrightarrow> same_spool j w1 w'" "gone w' (it_id it)"
          "o_wire u' = o_wire u1" "o_failures u' = o_failures u1 @ [(?it, d, net_err_text N e)]" by auto
      have "reported it d u1 u'" unfolding reported_def using g(7) same by fastforce
      then have "reported it d u u'" using ext by (blast intro: reported_later)
      moreover have "out_ext u u'" using ext g(6,7) by (auto simp: out_ext_def)
      ultimately show ?thesis
        unfolding run using g w1 due by (auto simp: fate_def settled_def same_spool_def)
    next
      case False
      then have run: "attempt N q it (w, u) = retry_later q ?it (w1, u1)"
        using dl by (simp add: attempt_def io_either_apply read Inl)
      from retry_later_fine [OF w1(1), of ?it u1] pos obtain w' u' t delay where
        g: "retry_later q ?it (w1, u1) = (Inr (), (w', u'))" "fine w'" "clock w1 \<le> clock w'"
          "\<forall>j. j \<noteq> it_id it \<longrightarrow> same_spool j w1 w'" "out_ext u1 u'" "delay \<in> set (qu_retry_intervals q)"
          "map_of (qjson w') (it_id it) = Some (Some (?it\<lparr>it_next_attempt := t + delay\<rparr>))"
          "map_of (qeml w') (it_id it) = map_of (qeml w1) (it_id it)" "t \<le> clock w'" by auto
      have "deferred q it d w'"
        unfolding deferred_def queued_def using g(6-9) False w1(3) body same
        by (intro exI [of _ "?it\<lparr>it_next_attempt := t + delay\<rparr>"] exI [of _ delay]) (auto simp: same_msg_def)
      then show ?thesis
        unfolding run using g(1-5) w1 due ext by (auto simp: fate_def same_spool_def intro: out_ext_trans)
    qed
  qed
qed

end

lemma set_queued_ids: "i \<in> set (queued_ids w) \<longleftrightarrow> map_of (qjson w) i \<noteq> None"
  by (simp add: queued_ids_def set_map_fst_iff)

lemma distinct_queued_ids [simp]: "distinct (queued_ids w)"
  by (simp add: queued_ids_def)

text \<open>What one pass has done for every message of the given ids.\<close>

definition fates :: "queue \<Rightarrow> int \<Rightarrow> string list \<Rightarrow> world \<Rightarrow> world \<Rightarrow> outside \<Rightarrow> outside \<Rightarrow> bool" where
  "fates q now ids w w' u u' \<longleftrightarrow> (\<forall>it d. queued w it d \<longrightarrow> it_id it \<in> set ids \<longrightarrow> fate q now it d u u' w')"

definition pass_ok :: "queue \<Rightarrow> int \<Rightarrow> string list \<Rightarrow> world \<Rightarrow> world \<Rightarrow> outside \<Rightarrow> outside \<Rightarrow> bool" where
  "pass_ok q now ids w w' u u' \<longleftrightarrow> fine w' \<and> spool_ok w' \<and> clock w \<le> clock w' \<and> out_ext u u' \<and>
     (\<forall>j. j \<notin> set ids \<longrightarrow> same_spool j w w') \<and> fates q now ids w w' u u'"

lemma deferred_attempts: "deferred q it d w' \<Longrightarrow> map_of (qjson w') (it_id it) = Some (Some x) \<Longrightarrow>
    it_id x = it_id it \<and> it_attempts x = it_attempts it + 1 \<and> map_of (qeml w') (it_id it) \<noteq> None"
  by (auto simp: deferred_def queued_def same_msg_def)

lemma spool_ok_one:
  assumes "spool_ok w" and "\<And>j. j \<noteq> i \<Longrightarrow> same_spool j w w'"
    and "\<And>x. map_of (qjson w') i = Some (Some x) \<Longrightarrow> it_id x = i \<and> 0 \<le> it_attempts x \<and> map_of (qeml w') i \<noteq> None"
  shows "spool_ok w'"
  unfolding spool_ok_def
proof (intro allI impI)
  fix j x
  assume j: "map_of (qjson w') j = Some (Some x)"
  show "it_id x = j \<and> 0 \<le> it_attempts x \<and> map_of (qeml w') j \<noteq> None"
  proof (cases "j = i")
    case False
    from assms(2) [OF False] j have e: "map_of (qjson w) j = Some (Some x)" "map_of (qeml w') j = map_of (qeml w) j"
      by (simp_all add: same_spool_def)
    from assms(1) e(1) have "it_id x = j \<and> 0 \<le> it_attempts x \<and> map_of (qeml w) j \<noteq> None"
      unfolding spool_ok_def by blast
    with e(2) show ?thesis by simp
  qed (use assms(3) j in simp)
qed

context relaying begin

lemma process_one_fate:
  assumes fine: "fine w" and sp: "spool_ok w"
  shows "\<exists>w' u'. process_one N q now i (w, u) = (Inr (), (w', u')) \<and> pass_ok q now [i] w w' u u'"
proof (cases "map_of (qjson w) i")
  case None
  then show ?thesis using fine sp
    by (auto simp: process_one_def io_either_apply q_world_def load_def fine_may_fail io_ret_def pass_ok_def
        fates_def queued_def)
next
  case (Some j)
  show ?thesis
  proof (cases j)
    case None
    with Some show ?thesis using fine sp
      by (auto simp: process_one_def io_either_apply q_world_def load_def fine_may_fail io_ret_def pass_ok_def
          fates_def queued_def)
  next
    case (Some it)
    with \<open>map_of (qjson w) i = Some j\<close> have it: "map_of (qjson w) i = Some (Some it)" by simp
    with sp obtain d where d: "it_id it = i" "0 \<le> it_attempts it" "map_of (qeml w) i = Some d"
      by (auto simp: spool_ok_def)
    have only: "fates q now [i] w w' u u'" if f: "fate q now it d u u' w'" for w' u'
      unfolding fates_def
    proof (intro allI impI)
      fix x e
      assume "queued w x e" "it_id x \<in> set [i]"
      with it d have "x = it" "e = d" by (simp_all add: queued_def)
      with f show "fate q now x e u u' w'" by simp
    qed
    have run: "process_one N q now i (w, u) = (if now < it_next_attempt it then (Inr (), (w, u)) else attempt N q it (w, u))"
      using fine it by (simp add: process_one_def io_either_apply q_world_def load_def fine_may_fail io_ret_def)
    show ?thesis
    proof (cases "now < it_next_attempt it")
      case True
      have "fate q now it d u u w" using True it d by (simp add: fate_def queued_def)
      from only [OF this] True fine sp show ?thesis unfolding run by (simp add: pass_ok_def)
    next
      case False
      from attempt_fate [OF fine _ d(2), of d now N u] d(1,3) False obtain w' u' where
        a: "attempt N q it (w, u) = (Inr (), (w', u'))" "fine w'" "clock w \<le> clock w'" "out_ext u u'"
          "\<forall>j. j \<noteq> i \<longrightarrow> same_spool j w w'" "fate q now it d u u' w'" by auto
      have "spool_ok w'"
      proof (rule spool_ok_one [OF sp])
        show "same_spool j w w'" if "j \<noteq> i" for j using a(5) that by blast
        show "it_id x = i \<and> 0 \<le> it_attempts x \<and> map_of (qeml w') i \<noteq> None" if "map_of (qjson w') i = Some (Some x)" for x
          using a(6) False d that deferred_attempts [of q it d w' x]
          by (auto simp: fate_def settled_def gone_def)
      qed
      with a False only [OF a(6)] show ?thesis unfolding run by (auto simp: pass_ok_def)
    qed
  qed
qed

lemma process_ids_fate:
  assumes "fine w" and "spool_ok w" and "distinct ids"
  shows "\<exists>w' u'. io_for ids (process_one N q now) (w, u) = (Inr (), (w', u')) \<and> pass_ok q now ids w w' u u'"
  using assms
proof (induction ids arbitrary: w u)
  case Nil
  then show ?case by (simp add: io_ret_def pass_ok_def fates_def)
next
  case (Cons i ids)
  from process_one_fate [OF Cons.prems(1,2), of N now i u] obtain w1 u1 where
    one: "process_one N q now i (w, u) = (Inr (), (w1, u1))" and p1: "pass_ok q now [i] w w1 u u1" by blast
  from p1 have "fine w1" "spool_ok w1" by (simp_all add: pass_ok_def)
  from Cons.IH [OF this, of u1] Cons.prems(3) obtain w' u' where
    rest: "io_for ids (process_one N q now) (w1, u1) = (Inr (), (w', u'))" and p2: "pass_ok q now ids w1 w' u1 u'"
    by auto
  have "fate q now it d u u' w'" if it: "queued w it d" "it_id it \<in> set (i # ids)" for it d
  proof (cases "it_id it = i")
    case True
    with p1 it have "fate q now it d u u1 w1" by (simp add: pass_ok_def fates_def)
    moreover have "same_spool (it_id it) w1 w'" using p2 True Cons.prems(3) by (simp add: pass_ok_def)
    ultimately show ?thesis using p2 fate_mono by (simp add: pass_ok_def)
  next
    case False
    with p1 it have "queued w1 it d" by (auto simp: pass_ok_def queued_def same_spool_def)
    with p2 it False have "fate q now it d u1 u' w'" by (auto simp: pass_ok_def fates_def)
    with p1 show ?thesis using fate_later by (simp add: pass_ok_def)
  qed
  with p1 p2 have "pass_ok q now (i # ids) w w' u u'"
    unfolding pass_ok_def fates_def by (auto intro: out_ext_trans same_spool_trans)
  then show ?case using one rest by (simp add: io_bind_apply)
qed

lemma process_all_fate:
  assumes "fine w" and "spool_ok w"
  shows "\<exists>now w' u'. process_all N q (w, u) = (Inr (), (w', u')) \<and> clock w \<le> now \<and>
    fine w' \<and> spool_ok w' \<and> clock w \<le> clock w' \<and> out_ext u u' \<and>
    (\<forall>j. map_of (qjson w) j = None \<longrightarrow> same_spool j w w') \<and>
    (\<forall>it d. queued w it d \<longrightarrow> fate q now it d u u' w')"
proof -
  let ?ids = "queued_ids w"
  from time_now_fine [OF assms(1)] obtain now w1 where t: "time_now w = (Inr now, w1)" "quiet w w1" "clock w1 = now"
    by blast
  with assms have w1: "fine w1" "clock w \<le> now" "qeml w1 = qeml w" "qjson w1 = qjson w" "spool_ok w1"
    by (auto simp: quiet_def spool_ok_def)
  from process_ids_fate [OF w1(1,5) distinct_queued_ids, of w N now u] obtain w' u' where
    run: "io_for ?ids (process_one N q now) (w1, u) = (Inr (), (w', u'))" and p: "pass_ok q now ?ids w1 w' u u'"
    by blast
  let ?u = "u'\<lparr>o_depth := int (length ?ids)\<rparr>"
  have "process_all N q (w, u) = (Inr (), (w', ?u))"
    using assms(1) t run by (simp add: process_all_def io_either_apply io_bind_apply q_world_def fine_may_fail
        io_gets_def q_out_def io_modify_def)
  moreover have e: "out_ext u' ?u" by (simp add: out_ext_def)
  moreover have "fate q now it d u ?u w'" if "queued w it d" for it d
  proof -
    from that have "it_id it \<in> set ?ids" by (simp add: queued_def set_queued_ids)
    moreover from that have "queued w1 it d" using w1 by (simp add: queued_def)
    ultimately have "fate q now it d u u' w'" using p by (simp add: pass_ok_def fates_def)
    then show ?thesis using e by (rule fate_mono) simp_all
  qed
  moreover have "\<forall>j. map_of (qjson w) j = None \<longrightarrow> same_spool j w w'"
    using p w1 by (auto simp: pass_ok_def set_queued_ids same_spool_def)
  moreover have "out_ext u ?u" using p e by (auto simp: pass_ok_def intro: out_ext_trans)
  ultimately show ?thesis using p w1(2) t(3) by (auto simp: pass_ok_def)
qed

end

section \<open>The queue drains\<close>

lemma wait_tick_run: "wait_tick interval (w, u) = (Inr (), (w\<lparr>clock := clock w + interval\<rparr>, u))"
  by (simp add: wait_tick_def q_world_def io_modify_def)

lemma clock_upd [simp]:
  "fine (w\<lparr>clock := c\<rparr>) = fine w" "spool_ok (w\<lparr>clock := c\<rparr>) = spool_ok w"
  "queued (w\<lparr>clock := c\<rparr>) = queued w" "gone (w\<lparr>clock := c\<rparr>) = gone w"
  "same_spool i (w\<lparr>clock := c\<rparr>) w' = same_spool i w w'"
  by (simp_all add: fine_def spool_ok_def queued_def gone_def same_spool_def fun_eq_iff)

context relaying begin

lemma queue_run_keeps:
  assumes "fine w" and "spool_ok w"
  shows "\<exists>w' u'. queue_run N q interval n (w, u) = (Inr (), (w', u')) \<and> fine w' \<and> spool_ok w' \<and> out_ext u u' \<and>
    (\<forall>j. map_of (qjson w) j = None \<longrightarrow> same_spool j w w')"
  using assms
proof (induction n arbitrary: w u)
  case 0
  from process_all_fate [OF 0, of N u] show ?case by fastforce
next
  case (Suc n)
  from process_all_fate [OF Suc.prems, of N u] obtain w1 u1 where p: "process_all N q (w, u) = (Inr (), (w1, u1))"
      "fine w1" "spool_ok w1" "out_ext u u1" "\<forall>j. map_of (qjson w) j = None \<longrightarrow> same_spool j w w1" by blast
  let ?w1 = "w1\<lparr>clock := clock w1 + interval\<rparr>"
  from p have "fine ?w1" "spool_ok ?w1" by simp_all
  from Suc.IH [OF this, of u1] obtain w' u' where r: "queue_run N q interval n (?w1, u1) = (Inr (), (w', u'))"
      "fine w'" "spool_ok w'" "out_ext u1 u'" "\<forall>j. map_of (qjson w1) j = None \<longrightarrow> same_spool j w1 w'" by auto
  have "\<forall>j. map_of (qjson w) j = None \<longrightarrow> same_spool j w w'"
  proof (intro allI impI)
    fix j
    assume none: "map_of (qjson w) j = None"
    with p(5) have s: "same_spool j w w1" by blast
    with none r(5) have "same_spool j w1 w'" by (simp add: same_spool_def)
    with s show "same_spool j w w'" by (rule same_spool_trans)
  qed
  then show ?case using p r by (auto simp: io_bind_apply wait_tick_run intro: out_ext_trans)
qed

lemma queue_run_drains:
  assumes K: "1 \<le> K" "0 \<le> interval" "\<forall>delay \<in> set (qu_retry_intervals q). delay \<le> int K * interval"
    and "fine w" "spool_ok w" "queued w it d" "it_next_attempt it \<le> clock w + int k * interval"
    and "nat (qu_max_retries q - it_attempts it) * K + k \<le> n"
  shows "\<exists>w' u'. queue_run N q interval n (w, u) = (Inr (), (w', u')) \<and> settled it d u u' w'"
  using assms(4-)
proof (induction n arbitrary: w u it k)
  case 0
  from process_all_fate [OF 0(1,2), of N u] obtain now w' u' where
    p: "process_all N q (w, u) = (Inr (), (w', u'))" "clock w \<le> now" and f: "fate q now it d u u' w'"
    using 0(3) by blast
  from 0(5) K(1) have "k = 0" "qu_max_retries q \<le> it_attempts it" by auto
  with 0(4) p(2) f have "settled it d u u' w'" by (auto simp: fate_def deferred_def)
  with p show ?case by auto
next
  case (Suc n)
  from process_all_fate [OF Suc.prems(1,2), of N u] obtain now w1 u1 where
    p: "process_all N q (w, u) = (Inr (), (w1, u1))" "clock w \<le> now" "fine w1" "spool_ok w1" "clock w \<le> clock w1"
      "out_ext u u1" and f: "fate q now it d u u1 w1"
    using Suc.prems(3) by blast
  let ?w1 = "w1\<lparr>clock := clock w1 + interval\<rparr>"
  have run: "queue_run N q interval (Suc n) (w, u) = queue_run N q interval n (?w1, u1)"
    using p(1) by (simp add: io_bind_apply wait_tick_run)
  have step: "\<exists>w' u'. queue_run N q interval (Suc n) (w, u) = (Inr (), (w', u')) \<and> settled it d u u' w'"
    if q: "queued w1 it' d" "same_msg it it'" and nx: "it_next_attempt it' \<le> clock ?w1 + int k' * interval"
      and le: "nat (qu_max_retries q - it_attempts it') * K + k' \<le> n" for it' k'
  proof -
    from Suc.IH [OF _ _ _ nx le, of u1] p(3,4) q(1) obtain w' u' where
      r: "queue_run N q interval n (?w1, u1) = (Inr (), (w', u'))" and s: "settled it' d u1 u' w'" by auto
    from s q(2) have "settled it d u1 u' w'" by (auto simp: settled_def same_msg_def reported_def)
    then have "settled it d u u' w'"
      using p(6) by (auto simp: settled_def intro: accepted_later reported_later)
    with r run show ?thesis by auto
  qed
  show ?case
  proof (cases "now < it_next_attempt it")
    case True
    with f have kept: "queued w1 it d" by (simp add: fate_def)
    from True Suc.prems(4) p(2) have "k \<noteq> 0" by (cases k) simp_all
    then obtain k' where k': "k = Suc k'" by (cases k) auto
    have "it_next_attempt it \<le> clock ?w1 + int k' * interval"
      using Suc.prems(4) p(5) by (simp add: k' algebra_simps)
    with step [OF kept _ this] Suc.prems(5) k' show ?thesis by (simp add: same_msg_def)
  next
    case False
    with f have "settled it d u u1 w1 \<or> deferred q it d w1" by (simp add: fate_def)
    then show ?thesis
    proof
      assume s: "settled it d u u1 w1"
      from queue_run_keeps [of ?w1 N interval n u1] p(3,4) obtain w' u' where
        r: "queue_run N q interval n (?w1, u1) = (Inr (), (w', u'))" "out_ext u1 u'"
          "\<forall>j. map_of (qjson w1) j = None \<longrightarrow> same_spool j w1 w'" by auto
      from r(3) s have "same_spool (it_id it) w1 w'" by (simp add: settled_def gone_def)
      from settled_mono [OF s r(2) this] r(1) run show ?thesis by auto
    next
      assume "deferred q it d w1"
      then obtain it' delay where g: "queued w1 it' d" "same_msg it it'" "it_attempts it' = it_attempts it + 1"
        "it_attempts it' \<le> qu_max_retries q" "delay \<in> set (qu_retry_intervals q)" "it_next_attempt it' \<le> clock w1 + delay"
        unfolding deferred_def by blast
      obtain K' where K': "K = Suc K'" using K(1) by (cases K) auto
      have "it_next_attempt it' \<le> clock ?w1 + int K' * interval"
        using g(6) bspec [OF K(3) g(5)] by (simp add: K' algebra_simps)
      moreover have "nat (qu_max_retries q - it_attempts it') * K + K' \<le> n"
      proof -
        have "nat (qu_max_retries q - it_attempts it) = Suc (nat (qu_max_retries q - it_attempts it'))"
          using g(3,4) by simp
        with Suc.prems(5) show ?thesis by (simp add: K')
      qed
      ultimately show ?thesis using step g(1,2) by blast
    qed
  qed
qed

end

section \<open>System calls are quiet\<close>

lemma quiet_may_fail: "keeps quiet m \<Longrightarrow> keeps quiet (may_fail e m)"
  by (auto simp: keeps_def quiet_def may_fail_def fine_def split: list.splits)

lemma quiet_syscalls:
  "keeps quiet (os_mkdir_all p)" "keeps quiet (os_read_dir p)" "keeps quiet (os_create_excl p)"
  "keeps quiet (file_write p d)" "keeps quiet file_sync" "keeps quiet file_close" "keeps quiet (os_rename p q)"
  "keeps quiet (os_remove p)" "keeps quiet (rand_read n)" "keeps quiet os_hostname"
  unfolding os_mkdir_all_def os_read_dir_def os_create_excl_def file_write_def file_sync_def file_close_def
    os_rename_def os_remove_def rand_read_def os_hostname_def
  by (rule quiet_may_fail;
      auto simp: keeps_def quiet_def fine_def io_ret_def io_gets_def split: option.splits node.splits)+

lemma quiet_counter: "keeps quiet next_counter"
  by (simp add: keeps_def quiet_def next_counter_def fine_def)

lemmas quiet_effects = quietop.keeps_rules quiet_syscalls quiet_counter quiet_time_now

section \<open>Enqueueing\<close>

lemma syscall_modify_ok:
  "syscall (io_modify f) w = (Inr x, w') \<Longrightarrow> \<exists>bs. w' = f (w\<lparr>faults := bs\<rparr>)"
  by (cases w) (auto simp: may_fail_def io_modify_def split: list.splits if_splits intro: exI [of _ "faults w"])

lemma syscall_modify_err:
  "syscall (io_modify f) w = (Inl e, w') \<Longrightarrow> \<exists>bs. w' = w\<lparr>faults := bs\<rparr>"
  by (auto simp: may_fail_def io_modify_def split: list.splits if_splits)

definition same_queue :: "world \<Rightarrow> world \<Rightarrow> bool" where
  "same_queue w w' \<longleftrightarrow> qeml w' = qeml w \<and> qjson w' = qjson w"

lemma same_queue_run: "keeps same_db m \<Longrightarrow> m w = (r, w') \<Longrightarrow> same_queue w w'"
  unfolding keeps_def same_db_def same_queue_def by (metis snd_conv)

lemma generate_id_same_db: "keeps same_db generate_id"
  unfolding generate_id_def by (intro fs_effects)

lemma write_eml_ok:
  assumes "write_eml i d w = (Inr x, w')"
  shows "qjson w' = qjson w \<and> map_of (qeml w') i = Some d \<and> (\<forall>j. j \<noteq> i \<longrightarrow> map_of (qeml w') j = map_of (qeml w) j)"
  using assms by (auto simp: write_eml_def io_oks dest!: syscall_modify_ok)

lemma write_eml_err: "write_eml i d w = (Inl e, w') \<Longrightarrow> qjson w' = qjson w"
  by (auto simp: write_eml_def io_bind_err dest!: syscall_modify_ok syscall_modify_err)

lemma save_ok:
  assumes "save it w = (Inr x, w')"
  shows "qeml w' = qeml w \<and> map_of (qjson w') (it_id it) = Some (Some it) \<and>
    (\<forall>j. j \<noteq> it_id it \<longrightarrow> map_of (qjson w') j = map_of (qjson w) j)"
  using assms by (auto simp: save_def io_oks dest!: syscall_modify_ok)

lemma save_err:
  "save it w = (Inl e, w') \<Longrightarrow> map_of (qjson w') j = Some (Some x) \<Longrightarrow> map_of (qjson w) j = Some (Some x)"
  by (auto simp: save_def io_bind_err split: if_splits dest!: syscall_modify_ok syscall_modify_err)


lemma enqueue_ok:
  assumes "enqueue from to d w = (Inr i, w')"
  shows "\<exists>it. it_id it = i \<and> it_from it = from \<and> it_to it = to \<and> it_attempts it = 0 \<and> queued w' it d \<and>
    (\<forall>j. j \<noteq> i \<longrightarrow> same_spool j w w') \<and> it_next_attempt it = clock w' \<and> (fine w \<longrightarrow> fine w')"
proof -
  from assms obtain w1 w2 w3 w4 created now where
    g: "generate_id w = (Inr i, w1)" and e: "write_eml i d w1 = (Inr (), w2)"
    and t: "time_now w2 = (Inr created, w3)" "time_now w3 = (Inr now, w4)"
    and s: "save \<lparr>it_id = i, it_from = from, it_to = to, it_attempts = 0, it_next_attempt = now,
       it_last_error = '''', it_created_at = created\<rparr> w4 = (Inr (), w')"
    by (auto simp: enqueue_def io_oks)
  have "same_queue w w1" "same_queue w2 w3" "same_queue w3 w4"
    using same_queue_run [OF generate_id_same_db g] same_queue_run [OF keeps_time_now t(1)]
      same_queue_run [OF keeps_time_now t(2)] by simp_all
  moreover have "clock w' = clock w4" using s by (auto simp: save_def io_oks dest!: syscall_modify_ok)
  moreover have "clock w4 = now" using t(2) by (auto simp: time_now_def split: list.splits)
  moreover have "fine w'" if "fine w"
  proof -
    have "keeps quiet generate_id" unfolding generate_id_def by (intro quiet_effects)
    from keepsD [OF this, of w] g that have 1: "fine w1" by (simp add: quiet_def)
    with e have 2: "fine w2" by (auto simp: write_eml_def fine_may_fail io_simps)
    from keepsD [OF quiet_time_now, of w2] t(1) 2 have 3: "fine w3" by (simp add: quiet_def)
    from keepsD [OF quiet_time_now, of w3] t(2) 3 have "fine w4" by (simp add: quiet_def)
    with s show ?thesis by (auto simp: save_fine)
  qed
  ultimately show ?thesis using write_eml_ok [OF e] save_ok [OF s]
    by (intro exI [of _ "\<lparr>it_id = i, it_from = from, it_to = to, it_attempts = 0, it_next_attempt = now,
       it_last_error = '''', it_created_at = created\<rparr>"]) (simp add: queued_def same_spool_def same_queue_def)
qed

lemma enqueue_err:
  assumes "enqueue from to d w = (Inl e, w')" and "map_of (qjson w') j = Some (Some x)"
  shows "map_of (qjson w) j = Some (Some x)"
proof -
  let ?J = "qjson w" and ?E = "\<lambda>e w'. \<forall>j x. map_of (qjson w') j = Some (Some x) \<longrightarrow> map_of (qjson w) j = Some (Some x)"
  let ?P = "\<lambda>w. qjson w = ?J"
  have keep: "triple ?P m (\<lambda>_. ?P) ?E" if "keeps same_db m" for m :: "'a wio"
    by (rule tripleI; drule same_queue_run [OF that]; simp add: same_queue_def)
  have eml: "triple ?P (io_wrap msg (write_eml i d)) (\<lambda>_. ?P) ?E" for msg i
    by (rule triple_wrap, rule tripleI) (auto dest: write_eml_ok write_eml_err)
  have sv: "triple ?P (save it) (\<lambda>_ _. True) ?E" for it
    by (rule tripleI) (auto dest: save_err)
  have "triple ?P (enqueue from to d) (\<lambda>_ _. True) ?E"
    unfolding enqueue_def
    by (rule triple_bind [OF keep [OF generate_id_same_db]], rule triple_bind [OF eml],
        rule triple_bind [OF keep [OF keeps_time_now]], rule triple_bind [OF keep [OF keeps_time_now]],
        rule triple_bind [OF sv]) (rule triple_ret, simp)
  from tripleD_err [OF this refl assms(1)] assms(2) show ?thesis by blast
qed


text \<open>One failed read of the body, and the message is gone without an attempt and without a report.\<close>

lemma read_fault_loses:
  assumes "faults w = [True]"
  shows "attempt N q it (w, u) = (Inr (), (w\<lparr>faults := [], qeml := AList.delete (it_id it) (qeml w),
    qjson := AList.delete (it_id it) (qjson w)\<rparr>, u))"
  using assms by (simp add: attempt_def io_either_apply q_world_def read_eml_def may_fail_def remove_def io_simps)

end
