(* ===== verification/Bounce.thy ===== *)
theory Bounce
  imports QueueInv Maildir Store Config
begin

text \<open>
  The part of \<open>cmd/mailserver/main.go\<close> that wires the outbound queue: the relay settings read before
  every delivery, and the notification delivered to the sender when a message is given up. The
  text of a date is the parameter \<open>fmt_date\<close>.

  What is shown: the queue built by the program satisfies the interface \<open>relaying\<close>, hence every
  message handed to it leaves it, delivered or reported, after a bounded number of ticks; and a
  report reaches the INBOX of a local sender.
\<close>

definition crlf :: string where
  "crlf = [CHR 0x0D, CHR 0x0A]"

definition config_path :: "string \<Rightarrow> path" where
  "config_path s = pjoin [] s"

definition bounce_text :: "(int \<Rightarrow> string) \<Rightarrow> config \<Rightarrow> item \<Rightarrow> bytes \<Rightarrow> string \<Rightarrow> int \<Rightarrow> bytes" where
  "bounce_text fmt_date cfg it original reason now =
     ''From: Mail Delivery System <mailer-daemon@'' @ cf_hostname cfg @ ''>'' @ crlf @
     ''To: '' @ it_from it @ crlf @
     ''Subject: Undelivered Mail Returned to Sender'' @ crlf @
     ''Date: '' @ fmt_date now @ crlf @
     ''Content-Type: text/plain; charset=utf-8'' @ crlf @ crlf @
     ''The following message could not be delivered to '' @ it_to it @ '' after '' @ show_int (it_attempts it) @
     '' attempt(s):'' @ crlf @ crlf @ reason @ crlf @ crlf @
     ''--- Original message follows ---'' @ crlf @ crlf @ original"

definition bounce :: "(int \<Rightarrow> string) \<Rightarrow> config \<Rightarrow> item \<Rightarrow> bytes \<Rightarrow> string \<Rightarrow> unit wio" where
  "bounce fmt_date cfg it original reason =
     (case addr_split (it_from it) of (local_part, domain, ok) \<Rightarrow>
      if \<not> ok \<or> \<not> is_local_domain cfg domain then io_ret ()
      else io_bind time_now (\<lambda>now.
        let root = user_root (config_path (st_maildir_path (cf_storage cfg))) domain local_part in
        io_bind (maildir_deliver (folder_path root ''INBOX'') (bounce_text fmt_date cfg it original reason now)) (\<lambda>_.
        io_ret ())))"

text \<open>The callback only logs an error of \<open>bounce\<close>.\<close>

definition on_permanent_failure :: "(int \<Rightarrow> string) \<Rightarrow> config \<Rightarrow> item \<Rightarrow> bytes \<Rightarrow> string \<Rightarrow> world \<Rightarrow> world" where
  "on_permanent_failure fmt_date cfg it data reason w = snd (bounce fmt_date cfg it data reason w)"

definition smart_host :: "(smart_host_config \<times> bool) wio" where
  "smart_host =
     io_bind get_relay_settings (\<lambda>rs.
     if \<not> rel_enabled rs then io_ret (\<lparr>sh_host = '''', sh_port = 0, sh_username = '''', sh_password = ''''\<rparr>, False)
     else io_ret (\<lparr>sh_host = rel_host rs, sh_port = rel_port rs, sh_username = rel_username rs,
            sh_password = rel_password rs\<rparr>, True))"

definition minute :: int where
  "minute = 60 * 10 ^ 9"

definition mail_queue :: "(int \<Rightarrow> string) \<Rightarrow> config \<Rightarrow> queue" where
  "mail_queue fmt_date cfg =
     \<lparr>qu_hostname = cf_hostname cfg,
      qu_retry_intervals = map (\<lambda>m. m * minute) (qc_retry_interval_minutes (cf_queue cfg)),
      qu_max_retries = qc_max_retries (cf_queue cfg),
      qu_on_permanent_failure = Some (on_permanent_failure fmt_date cfg),
      qu_smart_host = Some smart_host\<rparr>"

definition open_mail_queue :: "(int \<Rightarrow> string) \<Rightarrow> config \<Rightarrow> queue wio" where
  "open_mail_queue fmt_date cfg =
     io_bind (queue_new (config_path (st_queue_path (cf_storage cfg))) (cf_hostname cfg)
       (map (\<lambda>m. m * minute) (qc_retry_interval_minutes (cf_queue cfg))) (qc_max_retries (cf_queue cfg))) (\<lambda>q.
     io_ret (q\<lparr>qu_on_permanent_failure := Some (on_permanent_failure fmt_date cfg), qu_smart_host := Some smart_host\<rparr>))"

section \<open>The parts are quiet\<close>

lemma quiet_deliver: "keeps quiet (maildir_deliver root d)"
  unfolding maildir_deliver_def unique_name_def write_new_def abandon_def maildir_init_def Let_def
  by (intro quiet_effects)

lemma quiet_bounce: "keeps quiet (bounce fmt cfg it d reason)"
  unfolding bounce_def Let_def
  by (auto intro!: quiet_effects quiet_deliver split: prod.splits)

lemma quiet_db_get: "keeps quiet (db_get f)"
  unfolding db_get_def
  by (rule quiet_may_fail) (auto simp: keeps_def quiet_def split: option.splits)

lemma quiet_smart_host: "keeps quiet smart_host"
  unfolding smart_host_def get_relay_settings_def if_no_rows_def
  by (intro quiet_effects quiet_db_get)

locale configured =
  fixes cfg :: config
  assumes has_intervals: "qc_retry_interval_minutes (cf_queue cfg) \<noteq> []"

sublocale configured \<subseteq> mq: relaying "mail_queue fmt_date cfg" for fmt_date
proof unfold_locales
  show "keeps quiet get" if "qu_smart_host (mail_queue fmt_date cfg) = Some get" for get
    using that quiet_smart_host by (simp add: mail_queue_def)
  show "quiet w (f it d reason w)" if "qu_on_permanent_failure (mail_queue fmt_date cfg) = Some f" for f it d reason w
    using that keepsD [OF quiet_bounce] by (auto simp: mail_queue_def on_permanent_failure_def)
qed (use has_intervals in \<open>simp_all add: mail_queue_def\<close>)

lemma load_config_defaults:
  "load_config um env f = Inr cfg \<Longrightarrow> \<exists>c. cfg = apply_defaults c"
  by (auto simp: load_config_def Let_def split: sum.splits)

interpretation loaded: configured "apply_defaults c" for c
  by unfold_locales (simp add: apply_defaults_def)

section \<open>Properties\<close>

text \<open>C22: an accepted message never stays in the queue. With a loaded configuration, working
  disk and clock, and a fresh identifier, a message that \<open>Enqueue\<close> took is after enough ticks of
  \<open>Run\<close> no longer in the queue, and either the remote side has acknowledged its data under its
  envelope or its failure has been reported, whatever the remote side answered. \<open>K\<close> ticks have to
  cover the longest retry interval; then \<open>K\<close> times the number of retries are enough.\<close>

theorem queue_drains:
  assumes load: "load_config um env f = Inr cfg"
    and w: "fine w" "spool_ok w" and enq: "enqueue from to d w = (Inr i, w1)" and fresh: "map_of (qjson w) i = None"
    and K: "1 \<le> K" "0 \<le> interval"
      "\<forall>m \<in> set (qc_retry_interval_minutes (cf_queue cfg)). m * minute \<le> int K * interval"
    and n: "nat (qc_max_retries (cf_queue cfg)) * K \<le> n"
  shows "\<exists>w' u'. queue_run N (mail_queue fmt_date cfg) interval n (w1, u) = (Inr (), (w', u')) \<and> gone w' i \<and>
    (accepted from to d u u' \<or>
     (\<exists>fs it reason. o_failures u' = o_failures u @ fs \<and> (it, d, reason) \<in> set fs \<and>
        it_id it = i \<and> it_from it = from \<and> it_to it = to))"
proof -
  from load_config_defaults [OF load] obtain c where c: "cfg = apply_defaults c" by blast
  from enqueue_ok [OF enq] w(1) obtain it where it: "it_id it = i" "it_from it = from" "it_to it = to"
      "it_attempts it = 0" "queued w1 it d" "\<forall>j. j \<noteq> i \<longrightarrow> same_spool j w w1" "it_next_attempt it = clock w1" "fine w1"
    by blast
  have sp: "spool_ok w1"
  proof (rule spool_ok_one [OF w(2)])
    show "same_spool j w w1" if "j \<noteq> i" for j using it(6) that by blast
    show "it_id x = i \<and> 0 \<le> it_attempts x \<and> map_of (qeml w1) i \<noteq> None" if "map_of (qjson w1) i = Some (Some x)" for x
      using that it(1,4,5) by (auto simp: queued_def)
  qed
  have "\<forall>delay \<in> set (qu_retry_intervals (mail_queue fmt_date cfg)). delay \<le> int K * interval"
    using K(3) by (simp add: mail_queue_def)
  moreover have "it_next_attempt it \<le> clock w1 + int 0 * interval" using it(7) by simp
  moreover have "nat (qu_max_retries (mail_queue fmt_date cfg) - it_attempts it) * K + 0 \<le> n"
    using n it(4) by (simp add: mail_queue_def)
  ultimately obtain w' u' where "queue_run N (mail_queue fmt_date cfg) interval n (w1, u) = (Inr (), (w', u'))"
      "settled it d u u' w'"
    using loaded.mq.queue_run_drains [where c = c and fmt_date = fmt_date] K(1,2) it(5,8) sp unfolding c by blast
  then show ?thesis
    unfolding settled_def reported_def same_msg_def using it(1-3) by blast
qed

definition small_config :: config where
  "small_config = apply_defaults (zero_config\<lparr>cf_hostname := ''mx'', cf_domains := [''x.org'']\<rparr>)"

lemma small_config_load:
  "load_config (\<lambda>_. Inr (zero_config\<lparr>cf_hostname := ''mx'', cf_domains := [''x.org'']\<rparr>)) (\<lambda>_. None) (Inr '''') = Inr small_config"
  by (simp add: load_config_def apply_env_overrides_def override_def validate_def zero_config_def small_config_def
      config_defs)

lemma queue_drains_witness:
  "\<exists>i w1 w' u'. enqueue ''bob@x.org'' ''al@y.net'' ''hi'' blank_world = (Inr i, w1) \<and>
     queue_run \<lparr>net_mx = \<lambda>_. Inr [], net_host = \<lambda>_. Some ErrIO, net_err_text = \<lambda>_. ''no host''\<rparr>
       (mail_queue (\<lambda>_. '''') small_config) (30 * 10 ^ 9) 23040
       (w1, \<lparr>o_replies = [], o_wire = [], o_relays = [], o_failures = [], o_depth = 0\<rparr>) = (Inr (), (w', u')) \<and> gone w' i"
proof -
  let ?r = "enqueue ''bob@x.org'' ''al@y.net'' ''hi'' blank_world"
  have "isl (fst ?r) = False" by code_simp
  then obtain i where e: "?r = (Inr i, snd ?r)" by (cases "fst ?r") (auto simp: prod_eq_iff)
  have w: "fine blank_world" "spool_ok blank_world" "map_of (qjson blank_world) i = None"
    by (simp_all add: fine_def spool_ok_def blank_world_def)
  have q: "cf_queue small_config = \<lparr>qc_max_retries = 8, qc_retry_interval_minutes = [1, 5, 15, 60, 240, 1440]\<rparr>"
    by code_simp
  then have K: "\<forall>m \<in> set (qc_retry_interval_minutes (cf_queue small_config)). m * minute \<le> int 2880 * (30 * 10 ^ 9)"
    "nat (qc_max_retries (cf_queue small_config)) * 2880 \<le> (23040 :: nat)"
    by (simp_all add: minute_def)
  have "1 \<le> (2880 :: nat)" "(0 :: int) \<le> 30 * 10 ^ 9" by simp_all
  from queue_drains [OF small_config_load w(1,2) e w(3) this K] e show ?thesis by blast
qed

text \<open>C23: a pass loses nothing and touches nothing that is not due. With working disk and clock,
  one pass of the queue the program runs leaves every message that is not due as it was; every due
  one was acknowledged by the remote side and removed, or reported as failed and removed, or is
  still there with its bytes and envelope, one more attempt within the limit, and its next attempt
  set by a retry interval. Nothing appears in the queue that was not there.\<close>

theorem queue_pass:
  assumes load: "load_config um env f = Inr cfg" and w: "fine w" "spool_ok w"
  shows "\<exists>now w' u'. process_all N (mail_queue fmt_date cfg) (w, u) = (Inr (), (w', u')) \<and>
    clock w \<le> now \<and> fine w' \<and> spool_ok w' \<and>
    (\<forall>j. map_of (qjson w) j = None \<longrightarrow> same_spool j w w') \<and>
    (\<forall>it d. queued w it d \<longrightarrow>
       (if now < it_next_attempt it then queued w' it d
        else gone w' (it_id it) \<and> (accepted (it_from it) (it_to it) d u u' \<or> reported it d u u') \<or>
          (\<exists>it' m. queued w' it' d \<and> same_msg it it' \<and> it_attempts it' = it_attempts it + 1 \<and>
             it_attempts it' \<le> qc_max_retries (cf_queue cfg) \<and>
             m \<in> set (qc_retry_interval_minutes (cf_queue cfg)) \<and> it_next_attempt it' \<le> clock w' + m * minute)))"
proof -
  from load_config_defaults [OF load] obtain c where c: "cfg = apply_defaults c" by blast
  have un: "fate (mail_queue fmt_date cfg) now it d u u' w' \<longleftrightarrow>
      (if now < it_next_attempt it then queued w' it d
       else gone w' (it_id it) \<and> (accepted (it_from it) (it_to it) d u u' \<or> reported it d u u') \<or>
          (\<exists>it' m. queued w' it' d \<and> same_msg it it' \<and> it_attempts it' = it_attempts it + 1 \<and>
             it_attempts it' \<le> qc_max_retries (cf_queue cfg) \<and>
             m \<in> set (qc_retry_interval_minutes (cf_queue cfg)) \<and> it_next_attempt it' \<le> clock w' + m * minute))"
    for now it d u' w'
    unfolding fate_def settled_def deferred_def by (auto simp: mail_queue_def)
  from loaded.mq.process_all_fate [OF w, of N fmt_date c u] show ?thesis
    unfolding c [symmetric] un by blast
qed

definition waiting_item :: item where
  "waiting_item = \<lparr>it_id = ''q1'', it_from = ''bob@x.org'', it_to = ''al@y.net'', it_attempts = 8,
     it_next_attempt = 5, it_last_error = '''', it_created_at = 1\<rparr>"

definition waiting_world :: world where
  "waiting_world = blank_world\<lparr>qeml := [(''q1'', ''hi'')], qjson := [(''q1'', Some waiting_item)]\<rparr>"

lemma queue_pass_witness:
  "\<exists>w' u'. process_all \<lparr>net_mx = \<lambda>_. Inr [], net_host = \<lambda>_. Some ErrIO, net_err_text = \<lambda>_. ''no host''\<rparr>
       (mail_queue (\<lambda>_. '''') small_config)
       (waiting_world, \<lparr>o_replies = [], o_wire = [], o_relays = [], o_failures = [], o_depth = 0\<rparr>) = (Inr (), (w', u')) \<and>
     gone w' ''q1''"
proof -
  have w: "fine waiting_world" "spool_ok waiting_world"
    by (auto simp: fine_def spool_ok_def waiting_world_def waiting_item_def blank_world_def split: if_splits)
  have q: "queued waiting_world waiting_item ''hi''"
    by (simp add: queued_def waiting_world_def waiting_item_def)
  have c: "clock waiting_world = 7" "it_next_attempt waiting_item = 5" "it_attempts waiting_item = 8"
      "it_id waiting_item = ''q1''" "qc_max_retries (cf_queue small_config) = 8" by code_simp+
  from queue_pass [OF small_config_load w] q c show ?thesis by force
qed

text \<open>C39: the report of a failed message reaches its sender. When the sender's address is in a
  local domain and \<open>bounce\<close> succeeds, the notification, which names the recipient, the reason and
  holds the whole original message, is in the sender's INBOX and every other message is as it was;
  for every other sender nothing happens at all; and a failing \<open>bounce\<close> leaves every message as it
  was.\<close>

theorem bounce_reaches_sender:
  "case bounce fmt_date cfg it original reason w of
     (Inl e, w') \<Rightarrow> maildir_has (tree w') = maildir_has (tree w)
   | (Inr u, w') \<Rightarrow>
       (case addr_split (it_from it) of (l, d, ok) \<Rightarrow>
          if ok \<and> is_local_domain cfg d
          then (\<exists>key now. let box = folder_path (user_root (config_path (st_maildir_path (cf_storage cfg))) d l) ''INBOX''
                in maildir_has (tree w') box key (bounce_text fmt_date cfg it original reason now) \<and>
                   (\<lambda>r k c. (r, k) = (box, key) \<or> maildir_has (tree w') r k c) =
                   (\<lambda>r k c. (r, k) = (box, key) \<or> maildir_has (tree w) r k c))
          else w' = w)"
proof -
  obtain l d ok where s: "addr_split (it_from it) = (l, d, ok)" by (metis prod.collapse)
  let ?box = "folder_path (user_root (config_path (st_maildir_path (cf_storage cfg))) d l) ''INBOX''"
  show ?thesis
  proof (cases "ok \<and> is_local_domain cfg d")
    case False
    then show ?thesis using s by (auto simp: bounce_def io_ret_def)
  next
    case True
    obtain t w1 where tm: "time_now w = (Inr t, w1)" by (cases "ticks w") (auto simp: time_now_def)
    have tr: "tree w1 = tree w"
      using keepsD [OF keeps_tree_ops(1), of w] tm by (simp add: same_tree_def)
    obtain r w2 where dl: "maildir_deliver ?box (bounce_text fmt_date cfg it original reason t) w1 = (r, w2)"
      by (metis prod.collapse)
    have run: "bounce fmt_date cfg it original reason w = (case r of Inl e \<Rightarrow> (Inl e, w2) | Inr k \<Rightarrow> (Inr (), w2))"
      using True s tm dl by (simp add: bounce_def Let_def io_bind_apply io_ret_def split: sum.splits)
    show ?thesis
    proof (cases r)
      case (Inl e)
      from md.deliver_err [OF dl [unfolded Inl]] have "maildir_has (tree w2) = maildir_has (tree w)"
        by (simp add: fun_eq_iff tr)
      then show ?thesis by (simp add: run Inl)
    next
      case (Inr key)
      note h = md.deliver_has [OF dl [unfolded Inr]]
      have "(\<lambda>r k c. (r, k) = (?box, key) \<or> maildir_has (tree w2) r k c) =
          (\<lambda>r k c. (r, k) = (?box, key) \<or> maildir_has (tree w) r k c)"
        using md.deliver_frame [OF dl [unfolded Inr]] by (auto simp: fun_eq_iff tr)
      with h True s show ?thesis unfolding run Inr by (auto simp: Let_def)
    qed
  qed
qed

end
