(* ===== verification/User.thy ===== *)
theory User
  imports Mailbox Config RateLimit
begin

text \<open>
  \<open>internal/imapbackend/user.go\<close>, \<open>session.go\<close>, \<open>server.go\<close> and \<open>provision.go\<close>: the users of the running
  server with their cached folders, the sessions of their connections, logging in, and the
  folders of a new user.

  A pointer to a mailbox or a user is an index into the heaps \<open>sv_heap\<close> and \<open>sv_users\<close>, so that two
  sessions of one person share a mailbox and a renamed mailbox keeps its identity. An operation runs
  on the pair of the world and this state; the locks of the code make each operation one step.
\<close>

section \<open>State\<close>

record muser =
  mu_row :: user_row
  mu_boxes :: "(string \<times> nat) list"

record srv =
  sv_heap :: "mbox list"
  sv_users :: "muser list"
  sv_index :: "(string \<times> nat) list"
  sv_limiter :: "limiter option"

type_synonym 'a sio = "(world \<times> srv, 'a) io"

text \<open>\<open>bk_match_list\<close> is the pattern match of the IMAP library.\<close>

record backend =
  bk_config :: config
  bk_store :: store
  bk_bcrypt :: bcrypt
  bk_match_list :: "string \<Rightarrow> string \<Rightarrow> string \<Rightarrow> bool"

definition new_backend :: "limiter option \<Rightarrow> srv" where
  "new_backend l = \<lparr>sv_heap = [], sv_users = [], sv_index = [], sv_limiter = l\<rparr>"

definition the_srv :: "srv sio" where
  "the_srv = io_gets snd"

definition upd_srv :: "(srv \<Rightarrow> srv) \<Rightarrow> unit sio" where
  "upd_srv f = io_modify (\<lambda>(w, s). (w, f s))"

text \<open>An operation on the mailbox a pointer leads to.\<close>

definition at_box :: "nat \<Rightarrow> 'a mio \<Rightarrow> 'a sio" where
  "at_box i m = (\<lambda>(w, s). case m (w, sv_heap s ! i) of
     (r, (w', b)) \<Rightarrow> (r, (w', s\<lparr>sv_heap := (sv_heap s)[i := b]\<rparr>)))"

definition box :: "nat \<Rightarrow> mbox sio" where
  "box i = at_box i the_mbox"

definition upd_user :: "nat \<Rightarrow> (muser \<Rightarrow> muser) \<Rightarrow> unit sio" where
  "upd_user ui f = upd_srv (\<lambda>s. s\<lparr>sv_users := (sv_users s)[ui := f (sv_users s ! ui)]\<rparr>)"

section \<open>Users (\<open>user.go\<close>)\<close>

definition canonical_mailbox_name :: "string \<Rightarrow> string" where
  "canonical_mailbox_name name0 =
     (let name = trim_right_byte name0 (CHR ''/'') in if equal_fold name ''INBOX'' then ''INBOX'' else name)"

definition maildir_base :: "config \<Rightarrow> path" where
  "maildir_base cfg = pjoin [] (st_maildir_path (cf_storage cfg))"

definition root_of :: "config \<Rightarrow> user_row \<Rightarrow> path" where
  "root_of cfg u = (case addr_split (usr_email u) of (l, d, ok) \<Rightarrow> user_root (maildir_base cfg) d l)"

definition non_existent :: goerr where "non_existent = IMAPError ''NONEXISTENT''"
definition try_create :: goerr where "try_create = IMAPError ''TRYCREATE''"
definition already_exists :: goerr where "already_exists = IMAPError ''ALREADYEXISTS''"
definition identical_mailboxes :: goerr where "identical_mailboxes = IMAPError ''''"
definition auth_failed :: goerr where "auth_failed = IMAPError ''AUTHENTICATIONFAILED''"

text \<open>\<open>newMailbox\<close> with its pointer put into the user's cache under \<open>name\<close>.\<close>

definition load_box :: "backend \<Rightarrow> nat \<Rightarrow> string \<Rightarrow> mailbox_row \<Rightarrow> nat sio" where
  "load_box B ui name r =
     io_bind the_srv (\<lambda>s.
     io_bind (on_world (new_mailbox (bk_store B) (root_of (bk_config B) (mu_row (sv_users s ! ui))) r)) (\<lambda>b.
     let i = length (sv_heap s) in
     io_bind (upd_srv (\<lambda>s. s\<lparr>sv_heap := sv_heap s @ [b]\<rparr>)) (\<lambda>_.
     io_bind (upd_user ui (\<lambda>u. u\<lparr>mu_boxes := AList.update name i (mu_boxes u)\<rparr>)) (\<lambda>_.
     io_ret i))))"

definition mailbox_locked :: "backend \<Rightarrow> nat \<Rightarrow> string \<Rightarrow> nat sio" where
  "mailbox_locked B ui name0 =
     (let name = canonical_mailbox_name name0 in
      io_bind the_srv (\<lambda>s.
      case map_of (mu_boxes (sv_users s ! ui)) name of
        Some i \<Rightarrow> io_ret i
      | None \<Rightarrow>
          io_bind (io_either (on_world (get_mailbox (usr_id (mu_row (sv_users s ! ui))) name))
            (\<lambda>e. io_fail (if e = ErrNotFound then non_existent else e)) io_ret) (\<lambda>r.
          load_box B ui name r)))"

definition mailbox :: "backend \<Rightarrow> nat \<Rightarrow> string \<Rightarrow> nat sio" where
  "mailbox B ui name = mailbox_locked B ui name"

definition user_status :: "backend \<Rightarrow> nat \<Rightarrow> string \<Rightarrow> status_options \<Rightarrow> status_data sio" where
  "user_status B ui name opts =
     io_bind (mailbox B ui name) (\<lambda>i. at_box i (status_data_locked (bk_store B) opts))"

text \<open>\<open>List\<close>: every folder is loaded; the answer without patterns is one empty entry.\<close>

definition user_list :: "backend \<Rightarrow> nat \<Rightarrow> string \<Rightarrow> string list \<Rightarrow> list_options \<Rightarrow> list_data list sio" where
  "user_list B ui ref patterns opts =
     io_bind the_srv (\<lambda>s0.
     io_bind (on_world (list_mailboxes (usr_id (mu_row (sv_users s0 ! ui))))) (\<lambda>rows.
     io_bind (io_for rows (\<lambda>r. io_bind the_srv (\<lambda>s.
         if map_of (mu_boxes (sv_users s ! ui)) (mbx_name r) = None
         then io_bind (load_box B ui (mbx_name r) r) (\<lambda>_. io_ret ()) else io_ret ()))) (\<lambda>_.
     io_bind the_srv (\<lambda>s1.
     if patterns = [] then io_ret [\<lparr>ld_mailbox = '''', ld_attrs = [CHR 0x5C # ''Noselect''], ld_status = None\<rparr>]
     else io_bind (io_map (\<lambda>i. io_bind (box i) (\<lambda>b.
            if list_ex (\<lambda>p. bk_match_list B (mb_name b) ref p) patterns
            then at_box i (list_mailbox (bk_store B) opts) else io_ret None))
          (map snd (mu_boxes (sv_users s1 ! ui)))) (\<lambda>ds.
       io_ret (sort_key ld_mailbox (List.map_filter id ds)))))))"

definition user_append :: "backend \<Rightarrow> nat \<Rightarrow> string \<Rightarrow> bytes list \<Rightarrow> int option \<Rightarrow> flag list \<Rightarrow> (u32 \<times> u32) sio" where
  "user_append B ui name blocks t flags =
     io_bind (io_either (mailbox B ui name) (\<lambda>_. io_fail try_create) io_ret) (\<lambda>i.
     at_box i (append_literal (bk_store B) blocks t flags))"

definition user_create :: "backend \<Rightarrow> nat \<Rightarrow> string \<Rightarrow> unit sio" where
  "user_create B ui name0 =
     (let name = canonical_mailbox_name name0 in
      io_bind the_srv (\<lambda>s.
      let uid = usr_id (mu_row (sv_users s ! ui)) in
      io_either (on_world (get_mailbox uid name))
        (\<lambda>_. io_bind (on_world (ensure_mailbox (bk_store B) uid name)) (\<lambda>r.
             io_bind (load_box B ui name r) (\<lambda>_. io_ret ())))
        (\<lambda>_. io_fail already_exists)))"

definition user_delete :: "backend \<Rightarrow> nat \<Rightarrow> string \<Rightarrow> unit sio" where
  "user_delete B ui name0 =
     (let name = canonical_mailbox_name name0 in
      io_bind (mailbox_locked B ui name) (\<lambda>i.
      io_bind (box i) (\<lambda>b.
      io_bind (on_world (delete_mailbox (bk_store B) (mb_db_id b))) (\<lambda>_.
      io_bind (on_world (os_remove_all (mb_root b))) (\<lambda>_.
      upd_user ui (\<lambda>u. u\<lparr>mu_boxes := AList.delete name (mu_boxes u)\<rparr>))))))"

definition user_rename :: "backend \<Rightarrow> nat \<Rightarrow> string \<Rightarrow> string \<Rightarrow> unit sio" where
  "user_rename B ui old0 new0 =
     (let old = canonical_mailbox_name old0; new = canonical_mailbox_name new0 in
      io_bind (mailbox_locked B ui old) (\<lambda>i.
      io_bind the_srv (\<lambda>s.
      let u = mu_row (sv_users s ! ui) in
      io_either (on_world (get_mailbox (usr_id u) new))
        (\<lambda>_. let new_root = folder_path (root_of (bk_config B) u) new in
             io_bind (box i) (\<lambda>b.
             io_bind (on_world (os_rename (mb_root b) new_root)) (\<lambda>_.
             io_bind (on_world (rename_mailbox (mb_db_id b) new)) (\<lambda>_.
             io_bind (at_box i (rename_mbox new)) (\<lambda>_.
             io_bind (at_box i (upd_mbox (\<lambda>b. b\<lparr>mb_root := new_root\<rparr>))) (\<lambda>_.
             upd_user ui (\<lambda>u. u\<lparr>mu_boxes := AList.delete old (AList.update new i (mu_boxes u))\<rparr>)))))))
        (\<lambda>_. io_fail already_exists))))"

definition user_subscribe :: "backend \<Rightarrow> nat \<Rightarrow> string \<Rightarrow> unit sio" where
  "user_subscribe B ui name = io_bind (mailbox B ui name) (\<lambda>i. at_box i (set_subscribed True))"

definition user_unsubscribe :: "backend \<Rightarrow> nat \<Rightarrow> string \<Rightarrow> unit sio" where
  "user_unsubscribe B ui name = io_bind (mailbox B ui name) (\<lambda>i. at_box i (set_subscribed False))"

definition namespace_delims :: "char list" where
  "namespace_delims = [CHR ''/'']"

section \<open>Logging in (\<open>server.go\<close>)\<close>

definition user_for :: "user_row \<Rightarrow> nat sio" where
  "user_for row =
     (let email = to_lower (usr_email row) in
      io_bind the_srv (\<lambda>s.
      case map_of (sv_index s) email of
        Some ui \<Rightarrow> io_ret ui
      | None \<Rightarrow>
          let ui = length (sv_users s) in
          io_bind (upd_srv (\<lambda>s. s\<lparr>sv_users := sv_users s @ [\<lparr>mu_row = row, mu_boxes = []\<rparr>],
              sv_index := AList.update email ui (sv_index s)\<rparr>)) (\<lambda>_.
          io_ret ui)))"

text \<open>\<open>net.SplitHostPort\<close> of the peer is the parameter \<open>peer\<close>; no peer and a failing split give the
  empty address, for which the limiter is not asked.\<close>

definition client_ip :: "string option \<Rightarrow> string" where
  "client_ip peer = (case peer of None \<Rightarrow> '''' | Some ip \<Rightarrow> ip)"

definition limited :: "string \<Rightarrow> bool sio" where
  "limited ip =
     io_bind the_srv (\<lambda>s.
     case sv_limiter s of
       None \<Rightarrow> io_ret False
     | Some l \<Rightarrow> if ip = '''' then io_ret False
         else io_bind (on_world time_now) (\<lambda>now. io_ret (\<not> allowed l now ip)))"

definition note_failure :: "string \<Rightarrow> unit sio" where
  "note_failure ip =
     io_bind the_srv (\<lambda>s.
     case sv_limiter s of
       None \<Rightarrow> io_ret ()
     | Some l \<Rightarrow> if ip = '''' then io_ret ()
         else io_bind (on_world time_now) (\<lambda>now. upd_srv (\<lambda>s. s\<lparr>sv_limiter := Some (record_failure now ip l)\<rparr>)))"

definition note_success :: "string \<Rightarrow> unit sio" where
  "note_success ip =
     upd_srv (\<lambda>s. if ip = '''' then s else s\<lparr>sv_limiter := map_option (record_success ip) (sv_limiter s)\<rparr>)"

definition login :: "backend \<Rightarrow> string option \<Rightarrow> string \<Rightarrow> string \<Rightarrow> nat sio" where
  "login B peer username password =
     (let ip = client_ip peer in
      io_bind (limited ip) (\<lambda>blocked.
      if blocked then io_fail auth_failed
      else let email = to_lower (trim_space username) in
        io_bind (io_either (on_world (get_user_by_email email)) (\<lambda>_. io_ret None)
            (\<lambda>u. io_ret (if verify_password (bk_bcrypt B) u password then Some u else None))) (\<lambda>r.
        case r of
          None \<Rightarrow> io_bind (note_failure ip) (\<lambda>_. io_fail auth_failed)
        | Some u \<Rightarrow> io_bind (note_success ip) (\<lambda>_. user_for u))))"

section \<open>Sessions (\<open>session.go\<close>)\<close>

text \<open>A session is its user and, once a mailbox is selected, that mailbox with the view of it.\<close>

record session =
  ss_user :: nat
  ss_selected :: "(nat \<times> view) option"

definition new_user_session :: "nat \<Rightarrow> session" where
  "new_user_session ui = \<lparr>ss_user = ui, ss_selected = None\<rparr>"

definition session_select :: "backend \<Rightarrow> session \<Rightarrow> string \<Rightarrow> view \<Rightarrow> (session \<times> select_data) sio" where
  "session_select B ss name v =
     io_bind (mailbox B (ss_user ss) name) (\<lambda>i.
     io_bind (box i) (\<lambda>b.
     io_ret (ss\<lparr>ss_selected := Some (i, v)\<rparr>, select_data_locked b)))"

definition session_unselect :: "session \<Rightarrow> session" where
  "session_unselect ss = ss\<lparr>ss_selected := None\<rparr>"

text \<open>The messages of a number set, with the selected mailbox locked.\<close>

definition chosen :: "mbox \<Rightarrow> view \<Rightarrow> num_set \<Rightarrow> message list" where
  "chosen b v ns = map snd (filter (\<lambda>(seq, m). selected v (static_num_set b (vw_search_res v) ns) seq m) (numbered (mb_list b)))"

text \<open>One message copied to the destination: the source and the assigned UID.\<close>

definition copy_one :: "backend \<Rightarrow> path \<Rightarrow> nat \<Rightarrow> message \<Rightarrow> (u32 \<times> u32) sio" where
  "copy_one B root dest m =
     io_bind (on_world (maildir_open root (m_key m))) (\<lambda>buf.
     io_bind (at_box dest (append_bytes (bk_store B) buf (Some (m_t m)) (m_flags m))) (\<lambda>(_, uid).
     io_ret (m_uid m, uid)))"

definition copy_dest :: "backend \<Rightarrow> session \<Rightarrow> string \<Rightarrow> (nat \<times> nat \<times> view) sio" where
  "copy_dest B ss dest_name =
     io_bind (io_either (mailbox B (ss_user ss) dest_name) (\<lambda>_. io_fail try_create) io_ret) (\<lambda>dest.
     case ss_selected ss of
       None \<Rightarrow> io_fail (ErrMsg ''panic: nil pointer dereference'')
     | Some (i, v) \<Rightarrow> if dest = i then io_fail identical_mailboxes else io_ret (dest, i, v))"

definition session_copy :: "backend \<Rightarrow> session \<Rightarrow> num_set \<Rightarrow> string \<Rightarrow> (u32 \<times> (u32 \<times> u32) list) sio" where
  "session_copy B ss ns dest_name =
     io_bind (copy_dest B ss dest_name) (\<lambda>(dest, i, v).
     io_bind (box i) (\<lambda>b.
     io_bind (io_map (copy_one B (mb_root b) dest) (chosen b v ns)) (\<lambda>uids.
     io_bind (box dest) (\<lambda>d.
     io_ret (mb_uid_validity d, uids)))))"

definition session_move :: "backend \<Rightarrow> session \<Rightarrow> num_set \<Rightarrow> string \<Rightarrow> (u32 \<times> (u32 \<times> u32) list \<times> u32 list) sio" where
  "session_move B ss ns dest_name =
     io_bind (copy_dest B ss dest_name) (\<lambda>(dest, i, v).
     io_bind (box i) (\<lambda>b.
     let ms = chosen b v ns in
     io_bind (io_map (copy_one B (mb_root b) dest) ms) (\<lambda>uids.
     io_bind (io_for ms (\<lambda>m.
         io_bind (on_world (maildir_remove (mb_root b) (m_key m))) (\<lambda>_.
         on_world (delete_message_by_key (mb_db_id b) (m_key m))))) (\<lambda>_.
     io_bind (at_box i (expunge_locked (map m_uid ms))) (\<lambda>nums.
     io_bind (box dest) (\<lambda>d.
     io_ret (mb_uid_validity d, uids, map (vw_enc v) nums)))))))"

definition session_poll :: "backend \<Rightarrow> session \<Rightarrow> unit sio" where
  "session_poll B ss = (case ss_selected ss of None \<Rightarrow> io_ret () | Some (i, v) \<Rightarrow> at_box i (poll (bk_store B)))"

definition session_idle :: "backend \<Rightarrow> session \<Rightarrow> nat \<Rightarrow> unit sio" where
  "session_idle B ss n = (case ss_selected ss of None \<Rightarrow> io_ret () | Some (i, v) \<Rightarrow> at_box i (view_idle (bk_store B) n))"

section \<open>The folders of a new user (\<open>provision.go\<close>)\<close>

definition provision_mailboxes :: "config \<Rightarrow> store \<Rightarrow> user_row \<Rightarrow> unit wio" where
  "provision_mailboxes cfg s u =
     (case addr_split (usr_email u) of (l, d, ok) \<Rightarrow>
      if \<not> ok then io_fail (ErrMsg (''invalid user email '' @ usr_email u))
      else let root = user_root (maildir_base cfg) d l in
        io_for (''INBOX'' # default_folders) (\<lambda>name.
          io_bind (io_wrap (''ensuring mailbox '' @ name) (ensure_mailbox s (usr_id u) name)) (\<lambda>_.
          io_wrap (''initializing maildir '' @ name) (maildir_init (folder_path root name)))))"

section \<open>Commands of a connection\<close>

text \<open>
  The commands of an authenticated connection, as the IMAP library dispatches them: those of the
  selected state are refused without a selected mailbox. The result is the new session; an error
  leaves the session as it was.
\<close>

datatype imap_op =
    CmdStatus string status_options | CmdList string "string list" list_options
  | CmdAppend string "bytes list" "int option" "flag list" | CmdCreate string | CmdDelete string
  | CmdRename string string | CmdSubscribe string | CmdUnsubscribe string
  | CmdSelect string view | CmdUnselect | CmdCopy num_set string | CmdMove num_set string
  | CmdFetch num_set fetch_options | CmdStore num_set flag_op "flag list" bool
  | CmdExpunge "(u32 \<times> u32) list option" | CmdPoll | CmdIdle nat

definition at_selected :: "session \<Rightarrow> (view \<Rightarrow> 'a mio) \<Rightarrow> session sio" where
  "at_selected ss f = (case ss_selected ss of
     None \<Rightarrow> io_fail (IMAPError ''BAD'')
   | Some (i, v) \<Rightarrow> io_bind (at_box i (f v)) (\<lambda>_. io_ret ss))"

fun imap_cmd :: "backend \<Rightarrow> imap_op \<Rightarrow> session \<Rightarrow> session sio" where
  "imap_cmd B (CmdStatus n opts) ss = io_bind (user_status B (ss_user ss) n opts) (\<lambda>_. io_ret ss)"
| "imap_cmd B (CmdList r ps opts) ss = io_bind (user_list B (ss_user ss) r ps opts) (\<lambda>_. io_ret ss)"
| "imap_cmd B (CmdAppend n bs t fs) ss = io_bind (user_append B (ss_user ss) n bs t fs) (\<lambda>_. io_ret ss)"
| "imap_cmd B (CmdCreate n) ss = io_bind (user_create B (ss_user ss) n) (\<lambda>_. io_ret ss)"
| "imap_cmd B (CmdDelete n) ss = io_bind (user_delete B (ss_user ss) n) (\<lambda>_. io_ret ss)"
| "imap_cmd B (CmdRename n m) ss = io_bind (user_rename B (ss_user ss) n m) (\<lambda>_. io_ret ss)"
| "imap_cmd B (CmdSubscribe n) ss = io_bind (user_subscribe B (ss_user ss) n) (\<lambda>_. io_ret ss)"
| "imap_cmd B (CmdUnsubscribe n) ss = io_bind (user_unsubscribe B (ss_user ss) n) (\<lambda>_. io_ret ss)"
| "imap_cmd B (CmdSelect n v) ss = io_bind (session_select B ss n v) (\<lambda>(ss', d). io_ret ss')"
| "imap_cmd B CmdUnselect ss = io_ret (session_unselect ss)"
| "imap_cmd B (CmdCopy ns n) ss = (if ss_selected ss = None then io_fail (IMAPError ''BAD'')
     else io_bind (session_copy B ss ns n) (\<lambda>_. io_ret ss))"
| "imap_cmd B (CmdMove ns n) ss = (if ss_selected ss = None then io_fail (IMAPError ''BAD'')
     else io_bind (session_move B ss ns n) (\<lambda>_. io_ret ss))"
| "imap_cmd B (CmdFetch ns fo) ss = at_selected ss (\<lambda>v. fetch_messages v ns fo)"
| "imap_cmd B (CmdStore ns op fs silent) ss = at_selected ss (\<lambda>v. store_messages v ns op fs silent)"
| "imap_cmd B (CmdExpunge uids) ss = at_selected ss (\<lambda>v. expunge v uids)"
| "imap_cmd B CmdPoll ss = io_bind (session_poll B ss) (\<lambda>_. io_ret ss)"
| "imap_cmd B (CmdIdle n) ss = io_bind (session_idle B ss n) (\<lambda>_. io_ret ss)"

text \<open>Several connections: each command names its connection.\<close>

fun imap_run :: "backend \<Rightarrow> (nat \<times> imap_op) list \<Rightarrow> (world \<times> srv) \<times> session list \<Rightarrow> (world \<times> srv) \<times> session list" where
  "imap_run B [] st = st"
| "imap_run B ((k, a) # as) (t, sess) = imap_run B as
     (case imap_cmd B a (sess ! k) t of (Inl e, t') \<Rightarrow> (t', sess) | (Inr ss, t') \<Rightarrow> (t', sess[k := ss]))"

end
