(* ===== verification/UserInv.thy ===== *)
theory UserInv
  imports User MailboxInv
begin

text \<open>
  Lemmas and properties of users and sessions: no command of one user reaches the index of
  another, moving loses no message, and logging in is guarded by the limiter.
\<close>

section \<open>What a mailbox operation may change in the database\<close>

definition box_names :: "database \<Rightarrow> (int \<times> int \<times> string) list" where
  "box_names d = map (\<lambda>r. (mbx_id r, mbx_user_id r, mbx_name r)) (mailboxes_t d)"

definition box_change :: "int \<Rightarrow> database \<Rightarrow> database \<Rightarrow> bool" where
  "box_change mid d d' \<longleftrightarrow> users_t d' = users_t d \<and> forwarding_t d' = forwarding_t d \<and>
     mailboxes_seq d' = mailboxes_seq d \<and> box_names d' = box_names d \<and>
     filter (\<lambda>r. mbx_id r \<noteq> mid) (mailboxes_t d') = filter (\<lambda>r. mbx_id r \<noteq> mid) (mailboxes_t d) \<and>
     filter (\<lambda>r. msg_mailbox_id r \<noteq> mid) (messages_t d') = filter (\<lambda>r. msg_mailbox_id r \<noteq> mid) (messages_t d)"

definition db_rel :: "(database \<Rightarrow> database \<Rightarrow> bool) \<Rightarrow> world \<Rightarrow> world \<Rightarrow> bool" where
  "db_rel R w w' \<longleftrightarrow> R (db w) (db w')"

interpretation boxop: effect "db_rel (box_change mid)" for mid
  by unfold_locales (simp_all add: db_rel_def box_change_def)

lemma db_rel_may_fail: "keeps (db_rel R) m \<Longrightarrow> (\<And>d. R d d) \<Longrightarrow> keeps (db_rel R) (may_fail e m)"
  unfolding keeps_def db_rel_def may_fail_def by (auto split: list.splits) (metis world.select_convs(4) world.surjective world.update_convs(5))+

lemma db_rel_exec:
  assumes "\<And>d x d'. f d = Inr (x, d') \<Longrightarrow> R d d'" and "\<And>d. R d d"
  shows "keeps (db_rel R) (db_exec f)"
  unfolding db_exec_def using assms
  by (intro db_rel_may_fail) (auto simp: keeps_def db_rel_def split: sum.splits)

lemma db_rel_get: "(\<And>d. R d d) \<Longrightarrow> keeps (db_rel R) (db_get f)"
  unfolding db_get_def by (intro db_rel_may_fail) (auto simp: keeps_def db_rel_def split: option.splits)

lemma db_rel_select: "(\<And>d. R d d) \<Longrightarrow> keeps (db_rel R) (db_select f)"
  unfolding db_select_def by (intro db_rel_may_fail) (auto simp: keeps_def db_rel_def io_gets_def)

lemma db_rel_same: "keeps same_db m \<Longrightarrow> (\<And>d. R d d) \<Longrightarrow> keeps (db_rel R) m"
  unfolding keeps_def db_rel_def same_db_def by metis

lemma box_change_refl [simp]: "box_change mid d d"
  by (simp add: box_change_def)

lemma box_in_tx:
  assumes "keeps (db_rel (box_change mid)) m"
  shows "keeps (db_rel (box_change mid)) (in_tx m)"
proof -
  have k: "keeps (db_rel (box_change mid)) (io_bind m (\<lambda>x. may_fail ErrDB (io_ret x)))"
    by (intro boxop.keeps_rules assms db_rel_may_fail) simp
  show ?thesis unfolding in_tx_def
  proof (rule db_rel_may_fail)
    show "keeps (db_rel (box_change mid)) (\<lambda>w. case io_bind m (\<lambda>x. may_fail ErrDB (io_ret x)) w of
        (Inl e, w') \<Rightarrow> (Inl e, w'\<lparr>db := db w\<rparr>) | (Inr x, w') \<Rightarrow> (Inr x, w'))"
      unfolding keeps_def
    proof
      fix w
      obtain r w' where run: "io_bind m (\<lambda>x. may_fail ErrDB (io_ret x)) w = (r, w')" by force
      from keepsD [OF k, of w] run show "db_rel (box_change mid) w (snd (case io_bind m (\<lambda>x. may_fail ErrDB (io_ret x)) w of
          (Inl e, w') \<Rightarrow> (Inl e, w'\<lparr>db := db w\<rparr>) | (Inr x, w') \<Rightarrow> (Inr x, w')))"
        by (cases r) (simp_all add: db_rel_def)
    qed
  qed simp
qed

lemma filter_map_same: "(\<And>x. f x \<noteq> x \<Longrightarrow> \<not> P x \<and> \<not> P (f x)) \<Longrightarrow> filter P (map f xs) = filter P xs"
  by (induction xs) (simp, metis filter.simps(2) list.simps(9))

lemma box_ops:
  "keeps (db_rel (box_change mid)) (list_messages mid)"
  "keeps (db_rel (box_change mid)) (delete_messages_not_in mid ks)"
  "keeps (db_rel (box_change mid)) (update_message_flags mid k fl)"
  "keeps (db_rel (box_change mid)) (delete_message_by_key mid k)"
  "keeps (db_rel (box_change mid)) (set_mailbox_subscribed mid b)"
  "keeps (db_rel (box_change mid)) (insert_message s mid k fl t z)"
proof -
  have upd: "box_change mid d d'" if "update_mailbox g mid d = Inr (x, d')" "\<And>r. mbx_id (g r) = mbx_id r"
      "\<And>r. mbx_user_id (g r) = mbx_user_id r" "\<And>r. mbx_name (g r) = mbx_name r" for g d x d'
  proof -
    from that(1) have d': "d' = d\<lparr>mailboxes_t := map (\<lambda>r. if mbx_id r = mid then g r else r) (mailboxes_t d)\<rparr>"
      by (simp add: update_mailbox_def)
    have "filter (\<lambda>r. mbx_id r \<noteq> mid) (map (\<lambda>r. if mbx_id r = mid then g r else r) (mailboxes_t d)) =
        filter (\<lambda>r. mbx_id r \<noteq> mid) (mailboxes_t d)"
      by (rule filter_map_same) (auto simp: that split: if_splits)
    then show ?thesis by (auto simp: d' box_change_def box_names_def that)
  qed
  have del: "box_change mid d d'" if "delete_messages P d = Inr (x, d')" "\<And>r. P r \<Longrightarrow> msg_mailbox_id r = mid" for P d x d'
  proof -
    have "filter (\<lambda>r. msg_mailbox_id r \<noteq> mid \<and> \<not> P r) xs = filter (\<lambda>r. msg_mailbox_id r \<noteq> mid) xs" for xs
      using that(2) by (intro filter_cong) auto
    with that(1) show ?thesis by (auto simp: delete_messages_def box_change_def box_names_def conj_commute)
  qed
  show "keeps (db_rel (box_change mid)) (list_messages mid)"
    unfolding list_messages_def by (rule db_rel_select) simp
  show "keeps (db_rel (box_change mid)) (delete_messages_not_in mid ks)"
    unfolding delete_messages_not_in_def by (intro boxop.keeps_if db_rel_exec) (auto elim!: del)
  show "keeps (db_rel (box_change mid)) (delete_message_by_key mid k)"
    unfolding delete_message_by_key_def by (intro db_rel_exec) (auto elim!: del)
  show "keeps (db_rel (box_change mid)) (set_mailbox_subscribed mid b)"
    unfolding set_mailbox_subscribed_def by (intro db_rel_exec) (auto elim!: upd)
  show "keeps (db_rel (box_change mid)) (update_message_flags mid k fl)"
    unfolding update_message_flags_def
  proof (intro db_rel_exec)
    fix d x d'
    assume "Inr ((), d\<lparr>messages_t := map (\<lambda>r. if msg_mailbox_id r = mid \<and> msg_maildir_key r = k then r\<lparr>msg_flags := fl\<rparr> else r)
       (messages_t d)\<rparr>) = (Inr (x, d') :: goerr + unit \<times> database)"
    moreover have "filter (\<lambda>r. msg_mailbox_id r \<noteq> mid) (map (\<lambda>r. if msg_mailbox_id r = mid \<and> msg_maildir_key r = k
        then r\<lparr>msg_flags := fl\<rparr> else r) (messages_t d)) = filter (\<lambda>r. msg_mailbox_id r \<noteq> mid) (messages_t d)"
      by (rule filter_map_same) (auto split: if_splits)
    ultimately show "box_change mid d d'" by (auto simp: box_change_def box_names_def)
  qed simp
  show "keeps (db_rel (box_change mid)) (insert_message s mid k fl t z)"
    unfolding insert_message_def
  proof (intro box_in_tx boxop.keeps_rules db_rel_get db_rel_exec)
    show "box_change mid d d'" if "insert_message_row (so_fk s) mid u k fl t z d = Inr (x, d')" for u d x d'
      using that by (auto simp: insert_message_row_def box_change_def box_names_def split: if_splits)
    show "box_change mid d d'" if "update_mailbox (\<lambda>r. r\<lparr>mbx_uid_next := n\<rparr>) mid d = Inr (x, d')" for n d x d'
      by (rule upd [OF that]) simp_all
  qed simp_all
qed

section \<open>Mailbox operations\<close>

definition box_eff :: "int \<Rightarrow> world \<times> mbox \<Rightarrow> world \<times> mbox \<Rightarrow> bool" where
  "box_eff mid s t \<longleftrightarrow> (mb_db_id (snd s) = mid \<longrightarrow> mb_db_id (snd t) = mid \<and> db_rel (box_change mid) (fst s) (fst t))"

interpretation boxeff: effect "box_eff mid" for mid
  by unfold_locales (auto simp: box_eff_def intro: boxop.R_refl boxop.R_trans)

lemma box_eff_world: "keeps (db_rel (box_change mid)) m \<Longrightarrow> keeps (box_eff mid) (on_world m)"
  by (auto simp: keeps_def box_eff_def on_world_def split: prod.splits) (metis snd_conv)

lemma box_eff_same_db: "keeps same_db m \<Longrightarrow> keeps (box_eff mid) (on_world m)"
  by (rule box_eff_world, rule db_rel_same) simp_all

lemma box_eff_the_mbox:
  "(\<And>b. mb_db_id b = mid \<Longrightarrow> keeps (box_eff mid) (k b)) \<Longrightarrow> keeps (box_eff mid) (io_bind the_mbox k)"
  by (auto simp: keeps_def box_eff_def the_mbox_def io_bind_apply io_gets_def)

lemma box_eff_upd: "(\<And>b. mb_db_id (f b) = mb_db_id b) \<Longrightarrow> keeps (box_eff mid) (upd_mbox f)"
  by (auto simp: keeps_def box_eff_def upd_mbox_def io_modify_def intro: boxop.R_refl)

lemma box_eff_queue: "keeps (box_eff mid) (queue_event e)"
  unfolding queue_event_def by (rule box_eff_upd) simp

lemmas box_effects = boxeff.keeps_rules box_eff_queue box_eff_world [OF box_ops(1)] box_eff_world [OF box_ops(2)]
  box_eff_world [OF box_ops(3)] box_eff_world [OF box_ops(4)] box_eff_world [OF box_ops(5)]
  box_eff_world [OF box_ops(6)] box_eff_same_db [OF maildir_same_db(1)] box_eff_same_db [OF maildir_same_db(3)]
  box_eff_same_db [OF maildir_same_db(4)] box_eff_same_db [OF maildir_same_db(5)]

lemma scan_disk_change: "mb_db_id b = mid \<Longrightarrow> keeps (db_rel (box_change mid)) (scan_disk s b)"
proof -
  assume mid: "mb_db_id b = mid"
  have new: "keeps (db_rel (box_change mid)) (index_new s b dm)" for dm
    unfolding index_new_def Let_def mid
    by (intro boxop.keeps_rules box_ops db_rel_same [OF maildir_same_db(2)] db_rel_same [OF keeps_time_now]) simp_all
  show ?thesis
    unfolding scan_disk_def index_message_def mid
    by (intro boxop.keeps_rules box_ops db_rel_same [OF maildir_same_db(1)])
      (auto split: option.splits intro: boxop.keeps_rules new)
qed

lemma reload_eff: "keeps (box_eff mid) (reload_locked s)"
  unfolding reload_locked_def
  by (intro box_eff_the_mbox boxeff.keeps_rules box_eff_world scan_disk_change box_eff_queue box_eff_upd) simp_all

lemma status_eff: "keeps (box_eff mid) (status_data_locked s opts)"
  unfolding status_data_locked_def Let_def by (intro boxeff.keeps_rules reload_eff box_eff_the_mbox)

lemma list_eff: "keeps (box_eff mid) (list_mailbox s opts)"
  unfolding list_mailbox_def Let_def
  by (intro box_eff_the_mbox boxeff.keeps_rules keeps_case_option status_eff)

lemma subscribed_eff: "keeps (box_eff mid) (set_subscribed b)"
  unfolding set_subscribed_def
  by (intro boxeff.keeps_rules box_eff_upd box_eff_the_mbox) (auto intro: box_effects)

lemma append_store_change: "mb_db_id b = mid \<Longrightarrow> keeps (db_rel (box_change mid)) (append_store s b buf t fl)"
  unfolding append_store_def
  by (auto intro!: boxop.keeps_rules box_ops keeps_case_option db_rel_same [OF maildir_same_db(6)]
      db_rel_same [OF maildir_same_db(5)] db_rel_same [OF keeps_time_now])

lemma append_eff: "keeps (box_eff mid) (append_bytes s buf t fl)"
  unfolding append_bytes_def
  by (intro box_eff_the_mbox boxeff.keeps_rules box_eff_world append_store_change box_eff_upd box_eff_queue) simp_all

lemma persist_eff: "keeps (box_eff mid) (persist_flags_locked m)"
  unfolding persist_flags_locked_def by (rule box_eff_the_mbox) (auto intro!: box_effects)

lemma put_eff: "keeps (box_eff mid) (put_message m)"
  unfolding put_message_def by (rule box_eff_upd) simp

lemma for_each_eff: "(\<And>seq m. keeps (box_eff mid) (f seq m)) \<Longrightarrow> keeps (box_eff mid) (for_each_locked v ns f)"
  unfolding for_each_locked_def by (rule box_eff_the_mbox) (auto intro!: boxeff.keeps_for)

lemma fetch_eff: "keeps (box_eff mid) (fetch_messages v ns opts)"
  unfolding fetch_messages_def fetch_message_def
  by (intro for_each_eff boxeff.keeps_rules put_eff persist_eff box_eff_the_mbox box_eff_queue box_eff_same_db fs_effects
      maildir_same_db)

lemma store_eff: "keeps (box_eff mid) (store_messages v ns op fs silent)"
  unfolding store_messages_def Let_def
  by (intro for_each_eff boxeff.keeps_rules put_eff persist_eff box_eff_queue fetch_eff)

lemma expunge_locked_eff: "keeps (box_eff mid) (expunge_locked uids)"
  unfolding expunge_locked_def Let_def
  by (intro box_eff_the_mbox boxeff.keeps_rules box_eff_queue box_eff_upd) simp

lemma expunge_eff: "keeps (box_eff mid) (expunge v uids)"
proof -
  have rm: "keeps (box_eff mid) (remove_message ok m)" for ok m
    unfolding remove_message_def by (rule box_eff_the_mbox) (auto intro!: box_effects)
  show ?thesis unfolding expunge_def Let_def
    by (intro box_eff_the_mbox boxeff.keeps_rules rm expunge_locked_eff)
qed

lemma poll_eff: "keeps (box_eff mid) (poll s)"
  unfolding poll_def by (intro boxeff.keeps_rules reload_eff)

lemma view_idle_eff: "keeps (box_eff mid) (view_idle s n)"
  unfolding view_idle_def by (intro boxeff.keeps_for boxeff.keeps_rules reload_eff)

section \<open>Commands of a user\<close>

text \<open>A mailbox identifier belongs to a user: it was given out, and its row, if there is one, is
  theirs. Identifiers are not given out again, so this lasts.\<close>

definition owned :: "database \<Rightarrow> int \<Rightarrow> int \<Rightarrow> bool" where
  "owned d u mid \<longleftrightarrow> mid \<le> mailboxes_seq d \<and> (\<forall>r \<in> set (mailboxes_t d). mbx_id r = mid \<longrightarrow> mbx_user_id r = u)"

definition boxes_keyed :: "database \<Rightarrow> bool" where
  "boxes_keyed d \<longleftrightarrow> keyed (mailboxes_seq d) (map mbx_id (mailboxes_t d))"

definition grow :: "database \<Rightarrow> database \<Rightarrow> bool" where
  "grow d d' \<longleftrightarrow> mailboxes_seq d \<le> mailboxes_seq d' \<and>
     (\<forall>r' \<in> set (mailboxes_t d'). mbx_id r' \<le> mailboxes_seq d \<longrightarrow>
        (\<exists>r \<in> set (mailboxes_t d). mbx_id r = mbx_id r' \<and> mbx_user_id r = mbx_user_id r'))"

text \<open>What a user's command may do to the database: nothing to the rows of anyone else.\<close>

definition user_change :: "int \<Rightarrow> database \<Rightarrow> database \<Rightarrow> bool" where
  "user_change uid d d' \<longleftrightarrow> (boxes_keyed d \<longrightarrow> boxes_keyed d' \<and> grow d d' \<and>
     (\<forall>v. v \<noteq> uid \<longrightarrow> rows_of v d' = rows_of v d))"

lemma grow_refl [simp]: "grow d d"
  by (auto simp: grow_def)

lemma grow_trans:
  assumes "grow d d'" and "grow d' d''"
  shows "grow d d''"
  unfolding grow_def
proof (intro conjI ballI impI)
  show "mailboxes_seq d \<le> mailboxes_seq d''" using assms by (auto simp: grow_def)
  fix r''
  assume r: "r'' \<in> set (mailboxes_t d'')" "mbx_id r'' \<le> mailboxes_seq d"
  with assms have "mbx_id r'' \<le> mailboxes_seq d'" by (auto simp: grow_def)
  with assms(2) r obtain r' where r': "r' \<in> set (mailboxes_t d')" "mbx_id r' = mbx_id r''" "mbx_user_id r' = mbx_user_id r''"
    unfolding grow_def by blast
  with assms(1) r(2) obtain r0 where "r0 \<in> set (mailboxes_t d)" "mbx_id r0 = mbx_id r'" "mbx_user_id r0 = mbx_user_id r'"
    unfolding grow_def by metis
  with r' show "\<exists>r \<in> set (mailboxes_t d). mbx_id r = mbx_id r'' \<and> mbx_user_id r = mbx_user_id r''" by auto
qed

interpretation userop: effect "db_rel (user_change uid)" for uid
  by unfold_locales (auto simp: db_rel_def user_change_def intro: grow_trans)

lemma user_change_refl [simp]: "user_change uid d d"
  by (simp add: user_change_def)

lemma owned_grow:
  assumes "owned d u mid" and "grow d d'"
  shows "owned d' u mid"
  unfolding owned_def
proof (intro conjI ballI impI)
  show "mid \<le> mailboxes_seq d'" using assms by (auto simp: owned_def grow_def)
  fix r'
  assume r': "r' \<in> set (mailboxes_t d')" "mbx_id r' = mid"
  with assms obtain r where "r \<in> set (mailboxes_t d)" "mbx_id r = mid" "mbx_user_id r = mbx_user_id r'"
    unfolding owned_def grow_def by blast
  with assms(1) show "mbx_user_id r' = u" by (auto simp: owned_def)
qed

lemma owned_other:
  "owned d uid mid \<Longrightarrow> v \<noteq> uid \<Longrightarrow> r \<in> set (mailboxes_t d) \<Longrightarrow> mbx_user_id r = v \<Longrightarrow> mbx_id r \<noteq> mid"
  by (auto simp: owned_def)

lemma box_names_ids: "box_names d' = box_names d \<Longrightarrow> map mbx_id (mailboxes_t d') = map mbx_id (mailboxes_t d)"
  by (drule arg_cong [where f = "map fst"]) (simp add: box_names_def comp_def)

lemma box_change_user:
  assumes "box_change mid d d'" and own: "owned d uid mid"
  shows "user_change uid d d'"
  unfolding user_change_def
proof (intro impI conjI allI)
  assume "boxes_keyed d"
  moreover from assms(1) have "box_names d' = box_names d" by (simp add: box_change_def)
  then have "map mbx_id (mailboxes_t d') = map mbx_id (mailboxes_t d)" by (rule box_names_ids)
  ultimately show "boxes_keyed d'" using assms(1) by (simp only: boxes_keyed_def box_change_def)
  have "set (box_names d') = set (box_names d)" using assms(1) by (simp add: box_change_def)
  then have "\<exists>r \<in> set (mailboxes_t d). mbx_id r = mbx_id r' \<and> mbx_user_id r = mbx_user_id r'"
    if "r' \<in> set (mailboxes_t d')" for r'
  proof -
    from that have "(mbx_id r', mbx_user_id r', mbx_name r') \<in> set (box_names d')" by (auto simp: box_names_def)
    with \<open>set (box_names d') = set (box_names d)\<close> have "(mbx_id r', mbx_user_id r', mbx_name r') \<in> set (box_names d)" by simp
    then show ?thesis by (auto simp: box_names_def)
  qed
  moreover have "mailboxes_seq d \<le> mailboxes_seq d'" using assms(1) by (simp add: box_change_def)
  ultimately show "grow d d'" unfolding grow_def by blast
  fix v
  assume v: "v \<noteq> uid"
  have own': "owned d' uid mid" using \<open>grow d d'\<close> own by (rule owned_grow [rotated])
  have ms: "filter (\<lambda>r. mbx_user_id r = v) (mailboxes_t e) =
      filter (\<lambda>r. mbx_user_id r = v) (filter (\<lambda>r. mbx_id r \<noteq> mid) (mailboxes_t e))" if "owned e uid mid" for e
    using owned_other [OF that v] by (auto simp: filter_filter intro!: filter_cong)
  have mb: "filter (\<lambda>r. mbx_user_id r = v) (mailboxes_t d') = filter (\<lambda>r. mbx_user_id r = v) (mailboxes_t d)"
    using assms(1) unfolding ms [OF own'] ms [OF own] by (simp add: box_change_def)
  let ?ids = "mbx_id ` set (filter (\<lambda>r. mbx_user_id r = v) (mailboxes_t d))"
  have ids: "mid \<notin> ?ids" using owned_other [OF own v] by auto
  have sub: "filter (\<lambda>r. msg_mailbox_id r \<in> ?ids) xs =
      filter (\<lambda>r. msg_mailbox_id r \<in> ?ids) (filter (\<lambda>r. msg_mailbox_id r \<noteq> mid) xs)" for xs
    unfolding filter_filter by (rule filter_cong) (use ids in auto)
  have "filter (\<lambda>r. msg_mailbox_id r \<noteq> mid) (messages_t d') = filter (\<lambda>r. msg_mailbox_id r \<noteq> mid) (messages_t d)"
    using assms(1) by (simp add: box_change_def)
  then have "filter (\<lambda>r. msg_mailbox_id r \<in> ?ids) (messages_t d') = filter (\<lambda>r. msg_mailbox_id r \<in> ?ids) (messages_t d)"
    by (subst (1 2) sub) (rule arg_cong)
  with assms(1) mb show "rows_of v d' = rows_of v d"
    by (simp add: rows_of_def Let_def box_change_def)
qed

lemma user_ops:
  "keeps (db_rel (user_change uid)) (get_mailbox u n)" "keeps (db_rel (user_change uid)) (list_mailboxes u)"
  "keeps (db_rel (user_change uid)) (ensure_mailbox s uid name)"
proof -
  show g: "keeps (db_rel (user_change uid)) (get_mailbox u n)" for u n
    unfolding get_mailbox_def not_found_def if_no_rows_def
    by (intro userop.keeps_rules db_rel_get user_change_refl)
  show "keeps (db_rel (user_change uid)) (list_mailboxes u)"
    unfolding list_mailboxes_def by (intro db_rel_select user_change_refl)
  have ins: "user_change uid d d'" if "insert_mailbox fk uid name v d = Inr (x, d')" for fk v d x d'
  proof -
    from that have d': "d' = d\<lparr>mailboxes_t := mailboxes_t d @ [x], mailboxes_seq := mailboxes_seq d + 1\<rparr>"
      and x: "mbx_id x = mailboxes_seq d + 1" "mbx_user_id x = uid"
      by (auto simp: insert_mailbox_def Let_def split: if_splits)
    show ?thesis
      unfolding user_change_def
    proof (intro impI conjI allI)
      assume "boxes_keyed d"
      then show "boxes_keyed d'" by (simp add: boxes_keyed_def d' x keyed_append)
      show "grow d d'" by (auto simp: grow_def d' x)
      show "rows_of v d' = rows_of v d" if "v \<noteq> uid" for v using that by (simp add: rows_of_def d' x)
    qed
  qed
  show "keeps (db_rel (user_change uid)) (ensure_mailbox s uid name)"
    unfolding ensure_mailbox_def Let_def
    by (cases "so_driver s"; auto intro!: userop.keeps_rules g db_rel_exec db_rel_same [OF keeps_time_now] elim!: ins)
qed

lemma delete_mailbox_user:
  assumes own: "owned d uid mid" and "delete_mailboxes fk (\<lambda>r. mbx_id r = mid) d = d'"
  shows "user_change uid d d'"
  unfolding user_change_def
proof (intro impI conjI allI)
  have mb: "mailboxes_t d' = filter (\<lambda>r. mbx_id r \<noteq> mid) (mailboxes_t d)" "mailboxes_seq d' = mailboxes_seq d"
    using assms(2) by (auto simp: delete_mailboxes_def Let_def)
  show "boxes_keyed d'" if "boxes_keyed d" using that by (simp add: boxes_keyed_def mb keyed_filter)
  show "grow d d'" by (auto simp: grow_def mb)
  fix v
  assume v: "v \<noteq> uid"
  let ?mine = "filter (\<lambda>r. mbx_user_id r = v) (mailboxes_t d)"
  have same: "filter (\<lambda>r. mbx_user_id r = v) (mailboxes_t d') = ?mine"
    using owned_other [OF own v] by (auto simp: mb filter_filter intro!: filter_cong)
  have "mid \<notin> mbx_id ` set ?mine" using owned_other [OF own v] by auto
  then have "filter (\<lambda>r. msg_mailbox_id r \<in> mbx_id ` set ?mine) (messages_t d') =
      filter (\<lambda>r. msg_mailbox_id r \<in> mbx_id ` set ?mine) (messages_t d)"
  proof -
    obtain P where "messages_t d' = filter P (messages_t d)" "\<And>r. msg_mailbox_id r \<noteq> mid \<Longrightarrow> P r"
      using assms(2) by (force simp: delete_mailboxes_def Let_def)
    moreover from this(2) \<open>mid \<notin> mbx_id ` set ?mine\<close> have "msg_mailbox_id r \<in> mbx_id ` set ?mine \<Longrightarrow> P r" for r
      by metis
    ultimately show ?thesis by (simp add: filter_filter) (intro filter_cong, auto)
  qed
  moreover have "users_t d' = users_t d" "forwarding_t d' = forwarding_t d"
    using assms(2) by (auto simp: delete_mailboxes_def Let_def)
  ultimately show "rows_of v d' = rows_of v d" by (simp add: rows_of_def Let_def same)
qed

lemma rename_mailbox_user:
  assumes own: "owned d uid mid" and "update_mailbox_name name mid d = Inr (x, d')"
  shows "user_change uid d d'"
  unfolding user_change_def
proof (intro impI conjI allI)
  let ?f = "\<lambda>r. if mbx_id r = mid then r\<lparr>mbx_name := name\<rparr> else r"
  from assms(2) have d': "d' = d\<lparr>mailboxes_t := map ?f (mailboxes_t d)\<rparr>"
    by (auto simp: update_mailbox_name_def update_mailbox_def split: if_splits)
  show "boxes_keyed d'" if "boxes_keyed d" using that by (simp add: boxes_keyed_def d' comp_upd_field)
  show "grow d d'" by (auto simp: grow_def d')
  fix v
  assume v: "v \<noteq> uid"
  have "filter (\<lambda>r. mbx_user_id r = v) (map ?f xs) = filter (\<lambda>r. mbx_user_id r = v) xs"
    if "set xs \<subseteq> set (mailboxes_t d)" for xs
    using that owned_other [OF own v] by (induction xs) auto
  then show "rows_of v d' = rows_of v d" by (simp add: rows_of_def d')
qed

section \<open>The state of the server\<close>

text \<open>
  What holds around every command of the user \<open>uid\<close>: the cached folders of each user are mailboxes
  of that user; the users \<open>V\<close> are who they are, the pointers \<open>Q\<close> lead to mailboxes of their users, the
  identifiers \<open>M\<close> belong to theirs; nothing of any other user has changed in the database since \<open>d0\<close>.
\<close>

definition srv_ok :: "database \<Rightarrow> srv \<Rightarrow> bool" where
  "srv_ok d s \<longleftrightarrow> boxes_keyed d \<and> (\<forall>ui < length (sv_users s). \<forall>n i. (n, i) \<in> set (mu_boxes (sv_users s ! ui)) \<longrightarrow>
     i < length (sv_heap s) \<and> owned d (usr_id (mu_row (sv_users s ! ui))) (mb_db_id (sv_heap s ! i)))"

definition ptr_ok :: "database \<Rightarrow> srv \<Rightarrow> nat \<times> int \<Rightarrow> bool" where
  "ptr_ok d s = (\<lambda>(i, u). i < length (sv_heap s) \<and> owned d u (mb_db_id (sv_heap s ! i)))"

definition usr_ok :: "srv \<Rightarrow> nat \<times> int \<Rightarrow> bool" where
  "usr_ok s = (\<lambda>(ui, u). ui < length (sv_users s) \<and> usr_id (mu_row (sv_users s ! ui)) = u)"

definition around :: "int \<Rightarrow> database \<Rightarrow> (nat \<times> int) set \<Rightarrow> (nat \<times> int) set \<Rightarrow> (int \<times> int) set \<Rightarrow> world \<times> srv \<Rightarrow> bool" where
  "around uid d0 V Q M = (\<lambda>(w, s). srv_ok (db w) s \<and> (\<forall>v. v \<noteq> uid \<longrightarrow> rows_of v (db w) = rows_of v d0) \<and>
     (\<forall>x \<in> V. usr_ok s x) \<and> (\<forall>x \<in> Q. ptr_ok (db w) s x) \<and> (\<forall>(mid, u) \<in> M. owned (db w) u mid))"

lemma around_mono: "around uid d0 V Q M t \<Longrightarrow> Q' \<subseteq> Q \<Longrightarrow> M' \<subseteq> M \<Longrightarrow> around uid d0 V Q' M' t"
  unfolding around_def by blast

lemma around_db:
  assumes "around uid d0 V Q M (w, s)" and "user_change uid (db w) (db w')"
  shows "around uid d0 V Q M (w', s)"
proof -
  from assms have k: "boxes_keyed (db w)" by (simp add: around_def srv_ok_def)
  with assms(2) have c: "boxes_keyed (db w')" "grow (db w) (db w')" "\<forall>v. v \<noteq> uid \<longrightarrow> rows_of v (db w') = rows_of v (db w)"
    by (auto simp: user_change_def)
  then show ?thesis
    using assms(1) owned_grow [OF _ c(2)] unfolding around_def srv_ok_def ptr_ok_def
    by (auto split: prod.splits)
qed

lemma triple_world:
  assumes "keeps (db_rel (user_change uid)) m"
  shows "triple (around uid d0 V Q M) (on_world m) (\<lambda>_. around uid d0 V Q M) (\<lambda>_. around uid d0 V Q M)"
proof (rule tripleI)
  have run: "around uid d0 V Q M s'" if "around uid d0 V Q M t" "on_world m t = (r, s')" for t r s'
  proof -
    obtain w s where t: "t = (w, s)" by fastforce
    with that(2) obtain w' where m: "m w = (r, w')" "s' = (w', s)" by (auto simp: on_world_def split: prod.splits)
    from keepsD [OF assms, of w] m(1) have "user_change uid (db w) (db w')" by (simp add: db_rel_def)
    with that(1) show ?thesis unfolding t m(2) by (rule around_db)
  qed
  show "around uid d0 V Q M s'" if "around uid d0 V Q M t" "on_world m t = (Inr x, s')" for t x s' using run that by blast
  show "around uid d0 V Q M s'" if "around uid d0 V Q M t" "on_world m t = (Inl e, s')" for t e s' using run that by blast
qed

lemma triple_world_owned:
  assumes "\<And>d. owned d uid mid \<Longrightarrow> (\<And>w. db w = d \<Longrightarrow> user_change uid d (db (snd (m w))))" and "(mid, uid) \<in> M"
  shows "triple (around uid d0 V Q M) (on_world m) (\<lambda>_. around uid d0 V Q M) (\<lambda>_. around uid d0 V Q M)"
proof (rule tripleI)
  have run: "around uid d0 V Q M s'" if "around uid d0 V Q M t" "on_world m t = (r, s')" for t r s'
  proof -
    obtain w s where t: "t = (w, s)" by fastforce
    with that(2) obtain w' where m: "m w = (r, w')" "s' = (w', s)" by (auto simp: on_world_def split: prod.splits)
    from that(1) assms(2) have "owned (db w) uid mid" by (auto simp: t around_def)
    from assms(1) [OF this refl] m(1) have "user_change uid (db w) (db w')" by simp
    with that(1) show ?thesis unfolding t m(2) by (rule around_db)
  qed
  show "around uid d0 V Q M s'" if "around uid d0 V Q M t" "on_world m t = (Inr x, s')" for t x s' using run that by blast
  show "around uid d0 V Q M s'" if "around uid d0 V Q M t" "on_world m t = (Inl e, s')" for t e s' using run that by blast
qed

text \<open>A mailbox operation through a pointer of the user.\<close>

lemma around_box:
  assumes a: "around uid d0 V Q M (w, s)" and i: "(i, uid) \<in> Q" and b: "mb_db_id b = mb_db_id (sv_heap s ! i)"
    and c: "box_change (mb_db_id (sv_heap s ! i)) (db w) (db w')"
  shows "around uid d0 V Q M (w', s\<lparr>sv_heap := (sv_heap s)[i := b]\<rparr>)"
proof -
  from a i have "owned (db w) uid (mb_db_id (sv_heap s ! i))" "i < length (sv_heap s)"
    by (auto simp: around_def ptr_ok_def)
  with c have "user_change uid (db w) (db w')" by (auto intro: box_change_user)
  from around_db [OF a this] have a': "around uid d0 V Q M (w', s)" .
  have "mb_db_id ((sv_heap s)[i := b] ! j) = mb_db_id (sv_heap s ! j)" for j
    using b by (cases "i < length (sv_heap s)") (auto simp: nth_list_update list_update_beyond)
  with a' show ?thesis by (auto simp: around_def srv_ok_def ptr_ok_def usr_ok_def)
qed

lemma triple_at_box:
  assumes "\<And>mid. keeps (box_eff mid) m" and "(i, uid) \<in> Q"
  shows "triple (around uid d0 V Q M) (at_box i m) (\<lambda>_. around uid d0 V Q M) (\<lambda>_. around uid d0 V Q M)"
proof (rule tripleI)
  have run: "around uid d0 V Q M s'" if a: "around uid d0 V Q M t" and r: "at_box i m t = (r, s')" for t r s'
  proof -
    obtain w s where t: "t = (w, s)" by fastforce
    obtain w' b where m: "m (w, sv_heap s ! i) = (r, (w', b))" "s' = (w', s\<lparr>sv_heap := (sv_heap s)[i := b]\<rparr>)"
      using r t by (auto simp: at_box_def split: prod.splits)
    from keepsD [OF assms(1), of "mb_db_id (sv_heap s ! i)" "(w, sv_heap s ! i)"] m(1)
    have "mb_db_id b = mb_db_id (sv_heap s ! i)" "box_change (mb_db_id (sv_heap s ! i)) (db w) (db w')"
      by (auto simp: box_eff_def db_rel_def)
    with a assms(2) show ?thesis unfolding t m(2) by (intro around_box)
  qed
  show "around uid d0 V Q M s'" if "around uid d0 V Q M t" "at_box i m t = (Inr x, s')" for t x s' using run that by blast
  show "around uid d0 V Q M s'" if "around uid d0 V Q M t" "at_box i m t = (Inl e, s')" for t e s' using run that by blast
qed

lemma triple_box:
  assumes "(i, uid) \<in> Q"
  shows "triple (around uid d0 V Q M) (box i) (\<lambda>b. around uid d0 V Q (insert (mb_db_id b, uid) M)) E"
proof (rule tripleI)
  fix t b s'
  assume a: "around uid d0 V Q M t" and r: "box i t = (Inr b, s')"
  obtain w s where t: "t = (w, s)" by fastforce
  from r t have "b = sv_heap s ! i" "s' = (w, s\<lparr>sv_heap := (sv_heap s)[i := sv_heap s ! i]\<rparr>)"
    by (auto simp: box_def at_box_def the_mbox_def io_gets_def)
  with a assms t show "around uid d0 V Q (insert (mb_db_id b, uid) M) s'"
    by (auto simp: around_def ptr_ok_def)
qed (auto simp: box_def at_box_def the_mbox_def io_gets_def split: prod.splits)

lemma triple_the_srv:
  assumes "\<And>s. triple (\<lambda>t. P t \<and> snd t = s) (k s) Q E"
  shows "triple P (io_bind the_srv k) Q E"
proof (rule tripleI)
  fix t x s'
  assume "P t" "io_bind the_srv k t = (Inr x, s')"
  with tripleD_ok [OF assms, of t "snd t" x s'] show "Q x s'" by (simp add: the_srv_def io_bind_apply io_gets_def)
next
  fix t e s'
  assume "P t" "io_bind the_srv k t = (Inl e, s')"
  with tripleD_err [OF assms, of t "snd t" e s'] show "E e s'" by (simp add: the_srv_def io_bind_apply io_gets_def)
qed

lemma triple_given: "(\<And>t. P t \<Longrightarrow> b) \<Longrightarrow> (b \<Longrightarrow> triple P m Q E) \<Longrightarrow> triple P m Q E"
  by (cases b) (auto simp: triple_def)

lemma triple_pre: "triple P' m Q E \<Longrightarrow> (\<And>t. P t \<Longrightarrow> P' t) \<Longrightarrow> triple P m Q E"
  by (rule triple_weaken)

section \<open>Users\<close>

lemma owned_row: "boxes_keyed d \<Longrightarrow> r \<in> set (mailboxes_t d) \<Longrightarrow> owned d (mbx_user_id r) (mbx_id r)"
  unfolding boxes_keyed_def owned_def keyed_def by (auto simp: distinct_map inj_on_def)

lemma triple_world_result:
  assumes "keeps (db_rel (user_change uid)) m"
    and "\<And>w x w'. boxes_keyed (db w) \<Longrightarrow> m w = (Inr x, w') \<Longrightarrow> boxes_keyed (db w') \<Longrightarrow> \<forall>r \<in> N x. r \<in> set (mailboxes_t (db w')) \<and> mbx_user_id r = uid"
  shows "triple (around uid d0 V Q M) (on_world m) (\<lambda>x. around uid d0 V Q (M \<union> (\<lambda>r. (mbx_id r, uid)) ` N x)) (\<lambda>_. around uid d0 V Q M)"
proof (rule tripleI)
  fix t x s'
  assume a: "around uid d0 V Q M t" and r: "on_world m t = (Inr x, s')"
  have a': "around uid d0 V Q M s'" using tripleD_ok [OF triple_world [OF assms(1)] a r] .
  obtain w s where t: "t = (w, s)" by fastforce
  with r obtain w' where m: "m w = (Inr x, w')" "s' = (w', s)" by (auto simp: on_world_def split: prod.splits)
  have k: "boxes_keyed (db w)" "boxes_keyed (db w')" using a a' by (auto simp: t m around_def srv_ok_def)
  have "owned (db w') uid (mbx_id r)" if "r \<in> N x" for r
    using bspec [OF assms(2) [OF k(1) m(1) k(2)] that] owned_row [OF k(2)] by auto
  with a' show "around uid d0 V Q (M \<union> (\<lambda>r. (mbx_id r, uid)) ` N x) s'" by (auto simp: m around_def)
next
  show "around uid d0 V Q M s'" if "around uid d0 V Q M t" "on_world m t = (Inl e, s')" for t e s'
    using tripleD_err [OF triple_world [OF assms(1)] that] .
qed

lemma get_mailbox_row:
  assumes "get_mailbox uid n w = (Inr r, w')"
  shows "r \<in> set (mailboxes_t (db w')) \<and> mbx_user_id r = uid \<and> mbx_name r = n \<and> db w' = db w"
proof -
  obtain w1 where "db_get (\<lambda>d. find (\<lambda>r. mbx_user_id r = uid \<and> mbx_name r = n) (mailboxes_t d)) w = (Inr r, w1)" "w' = w1"
    using assms by (auto simp: get_mailbox_def not_found_def if_no_rows_def io_either_apply io_ret_def io_fail_def
        split: prod.splits sum.splits if_splits)
  with db_get_ok [OF this(1)] show ?thesis by (auto simp: find_Some_iff)
qed

lemma triple_get_mailbox:
  "triple (around uid d0 V Q M) (on_world (get_mailbox uid n)) (\<lambda>r. around uid d0 V Q (insert (mbx_id r, uid) M)) (\<lambda>_. around uid d0 V Q M)"
proof -
  have "r \<in> set (mailboxes_t (db w')) \<and> mbx_user_id r = uid" if "get_mailbox uid n w = (Inr r, w')" for w r w'
    using get_mailbox_row [OF that] by auto
  then show ?thesis using triple_world_result [OF user_ops(1), where N = "\<lambda>r. {r}"] by simp
qed

lemma ensure_mailbox_row:
  assumes "ensure_mailbox s uid n w = (Inr r, w')"
  shows "r \<in> set (mailboxes_t (db w')) \<and> mbx_user_id r = uid \<and> mbx_name r = n"
proof (cases "get_mailbox uid n w")
  case (Pair x w1)
  show ?thesis
  proof (cases x)
    case (Inr r1)
    with assms Pair get_mailbox_row [of uid n w r1 w1] show ?thesis
      by (auto simp: ensure_mailbox_def io_either_apply io_ret_def)
  next
    case (Inl e)
    have ins: "y \<in> set (mailboxes_t (db w3)) \<and> mbx_user_id y = uid \<and> mbx_name y = n"
      if "db_exec (insert_mailbox fk uid n v) w2 = (Inr y, w3)" for fk v w2 y w3
      using db_exec_ok [OF that] unfolding insert_mailbox_def Let_def
      by (auto split: if_splits dest!: sym [where t = "db w3"])
    from assms Pair Inl obtain w2 v where step:
      "(case so_driver s of Postgres \<Rightarrow> db_exec (insert_mailbox (so_fk s) uid n v)
        | Sqlite \<Rightarrow> io_bind (db_exec (insert_mailbox (so_fk s) uid n v)) (\<lambda>_. get_mailbox uid n)) w2 = (Inr r, w')"
      by (auto simp: ensure_mailbox_def io_either_apply io_fail_def Let_def io_bind_apply split: if_splits prod.splits sum.splits)
    show ?thesis
    proof (cases "so_driver s")
      case Postgres
      with step ins show ?thesis by simp
    next
      case Sqlite
      with step obtain w3 where "get_mailbox uid n w3 = (Inr r, w')"
        by (auto simp: io_bind_apply split: prod.splits sum.splits)
      with get_mailbox_row show ?thesis by blast
    qed
  qed
qed

lemma triple_ensure_mailbox:
  "triple (around uid d0 V Q M) (on_world (ensure_mailbox s uid n)) (\<lambda>r. around uid d0 V Q (insert (mbx_id r, uid) M)) (\<lambda>_. around uid d0 V Q M)"
  using triple_world_result [OF user_ops(3), where N = "\<lambda>r. {r}"] ensure_mailbox_row by simp

lemma triple_list_mailboxes:
  "triple (around uid d0 V Q M) (on_world (list_mailboxes uid)) (\<lambda>rs. around uid d0 V Q (M \<union> (\<lambda>r. (mbx_id r, uid)) ` set rs)) (\<lambda>_. around uid d0 V Q M)"
proof (rule triple_world_result [OF user_ops(2)])
  show "\<forall>r \<in> set rs. r \<in> set (mailboxes_t (db w')) \<and> mbx_user_id r = uid" if "list_mailboxes uid w = (Inr rs, w')" for w rs w'
    using db_select_ok [OF that [unfolded list_mailboxes_def]] by auto
qed

lemma new_mailbox_change: "keeps (db_rel (box_change (mbx_id r))) (new_mailbox s root r)"
proof -
  have "db_rel (box_change (mbx_id r)) w (snd ((\<lambda>w. case reload_locked s (w, b) of
      (Inl e, (w', b')) \<Rightarrow> (Inl e, w') | (Inr u, (w', b')) \<Rightarrow> (Inr b', w')) w))" if "mb_db_id b = mbx_id r" for w b
    using keepsD [OF reload_eff [where s = s], of "mbx_id r" "(w, b)"] that by (auto simp: box_eff_def split: prod.splits sum.splits)
  then show ?thesis unfolding new_mailbox_def Let_def
    by (intro boxop.keeps_rules db_rel_same [OF maildir_same_db(7)]) (simp_all add: keeps_def)
qed

lemma new_mailbox_id:
  assumes "new_mailbox s root r w = (Inr b, w')"
  shows "mb_db_id b = mbx_id r"
proof -
  have "mb_db_id b' = mbx_id r" if "reload_locked s (w1, b0) = (x, (w2, b'))" "mb_db_id b0 = mbx_id r" for w1 b0 x w2 b'
    using keepsD [OF reload_eff [where s = s], of "mbx_id r" "(w1, b0)"] that by (simp add: box_eff_def)
  with assms show ?thesis
    by (fastforce simp: new_mailbox_def Let_def io_bind_apply split: prod.splits sum.splits)
qed

lemma load_box_run:
  "load_box B ui n r (w, s) = (case new_mailbox (bk_store B) (root_of (bk_config B) (mu_row (sv_users s ! ui))) r w of
     (Inl e, w') \<Rightarrow> (Inl e, (w', s))
   | (Inr b, w') \<Rightarrow> (Inr (length (sv_heap s)), (w', s\<lparr>sv_heap := sv_heap s @ [b], sv_users := (sv_users s)[ui :=
       (sv_users s ! ui)\<lparr>mu_boxes := AList.update n (length (sv_heap s)) (mu_boxes (sv_users s ! ui))\<rparr>]\<rparr>)))"
  by (simp add: load_box_def the_srv_def upd_user_def upd_srv_def io_bind_apply io_gets_def io_modify_def on_world_def
      io_ret_def Let_def split: prod.splits sum.splits)

lemma alist_update_set: "x \<in> set (AList.update k v xs) \<Longrightarrow> x = (k, v) \<or> x \<in> set xs"
  by (induction xs) (auto split: if_splits)

lemma around_load:
  assumes a: "around uid d0 V Q M (w, s)" and v: "(ui, uid) \<in> V" and b: "owned (db w) uid (mb_db_id b)"
  shows "around uid d0 V (insert (length (sv_heap s), uid) Q) M (w, s\<lparr>sv_heap := sv_heap s @ [b], sv_users := (sv_users s)[ui :=
       (sv_users s ! ui)\<lparr>mu_boxes := AList.update n (length (sv_heap s)) (mu_boxes (sv_users s ! ui))\<rparr>]\<rparr>)"
    (is "around uid d0 V _ M (w, ?s)")
proof -
  have ui: "ui < length (sv_users s)" "usr_id (mu_row (sv_users s ! ui)) = uid"
    using a v by (auto simp: around_def usr_ok_def)
  have row: "mu_row (sv_users ?s ! j) = mu_row (sv_users s ! j)" for j
    by (cases "j = ui") (simp_all add: ui)
  have ptr: "ptr_ok (db w) ?s x" if "ptr_ok (db w) s x" for x
    using that by (auto simp: ptr_ok_def nth_append split: prod.splits)
  have "srv_ok (db w) ?s"
    unfolding srv_ok_def
  proof (intro conjI allI impI)
    show "boxes_keyed (db w)" using a by (simp add: around_def srv_ok_def)
    fix uj m i
    assume uj: "uj < length (sv_users ?s)" and m: "(m, i) \<in> set (mu_boxes (sv_users ?s ! uj))"
    show "i < length (sv_heap ?s)" "owned (db w) (usr_id (mu_row (sv_users ?s ! uj))) (mb_db_id (sv_heap ?s ! i))"
    proof -
      have "ptr_ok (db w) ?s (i, usr_id (mu_row (sv_users s ! uj)))"
      proof (cases "uj = ui \<and> i = length (sv_heap s)")
        case True
        with b ui show ?thesis by (simp add: ptr_ok_def)
      next
        case False
        with m ui have "(m, i) \<in> set (mu_boxes (sv_users s ! uj))"
          using alist_update_set by (cases "uj = ui") fastforce+
        with a uj have "ptr_ok (db w) s (i, usr_id (mu_row (sv_users s ! uj)))"
          by (auto simp: around_def srv_ok_def ptr_ok_def)
        then show ?thesis by (rule ptr)
      qed
      with row show "i < length (sv_heap ?s)" "owned (db w) (usr_id (mu_row (sv_users ?s ! uj))) (mb_db_id (sv_heap ?s ! i))"
        by (simp_all add: ptr_ok_def)
    qed
  qed
  moreover have "usr_ok ?s x" if "usr_ok s x" for x
    using that row by (auto simp: usr_ok_def split: prod.splits)
  moreover have "ptr_ok (db w) ?s (length (sv_heap s), uid)" using b by (simp add: ptr_ok_def)
  ultimately show ?thesis using a ptr by (simp add: around_def)
qed

lemma triple_load_box:
  assumes "(ui, uid) \<in> V" and "(mbx_id r, uid) \<in> M"
  shows "triple (around uid d0 V Q M) (load_box B ui n r) (\<lambda>i. around uid d0 V (insert (i, uid) Q) M) (\<lambda>_. around uid d0 V Q M)"
proof -
  have world: "around uid d0 V Q M (w', s)" "new_mailbox st root r w = (Inr b, w') \<Longrightarrow> owned (db w') uid (mb_db_id b)"
    if a: "around uid d0 V Q M (w, s)" and run: "new_mailbox st root r w = (x, w')" for w s st root x w' b
  proof -
    have own: "owned (db w) uid (mbx_id r)" using a assms(2) by (auto simp: around_def)
    have "box_change (mbx_id r) (db w) (db w')" using keepsD [OF new_mailbox_change, of r w st root] run by (simp add: db_rel_def)
    from around_db [OF a box_change_user [OF this own]] show a': "around uid d0 V Q M (w', s)" .
    show "owned (db w') uid (mb_db_id b)" if "new_mailbox st root r w = (Inr b, w')"
      using a' assms(2) new_mailbox_id [OF that] by (auto simp: around_def)
  qed
  show ?thesis
  proof (rule tripleI)
    fix t i s'
    assume a: "around uid d0 V Q M t" and run: "load_box B ui n r t = (Inr i, s')"
    obtain w s where t: "t = (w, s)" by fastforce
    from run obtain b w' where b: "new_mailbox (bk_store B) (root_of (bk_config B) (mu_row (sv_users s ! ui))) r w = (Inr b, w')"
      and i: "i = length (sv_heap s)" and s': "s' = (w', s\<lparr>sv_heap := sv_heap s @ [b], sv_users := (sv_users s)[ui :=
       (sv_users s ! ui)\<lparr>mu_boxes := AList.update n (length (sv_heap s)) (mu_boxes (sv_users s ! ui))\<rparr>]\<rparr>)"
      by (auto simp: t load_box_run split: prod.splits sum.splits)
    from around_load [OF world(1) assms(1) world(2)] a b show "around uid d0 V (insert (i, uid) Q) M s'"
      unfolding t i s' by blast
  next
    fix t e s'
    assume a: "around uid d0 V Q M t" and run: "load_box B ui n r t = (Inl e, s')"
    obtain w s where t: "t = (w, s)" by fastforce
    from run obtain w' where "new_mailbox (bk_store B) (root_of (bk_config B) (mu_row (sv_users s ! ui))) r w = (Inl e, w')" "s' = (w', s)"
      by (auto simp: t load_box_run split: prod.splits sum.splits)
    with world(1) a show "around uid d0 V Q M s'" unfolding t by blast
  qed
qed

lemma triple_mailbox_locked:
  assumes "(ui, uid) \<in> V"
  shows "triple (around uid d0 V Q M) (mailbox_locked B ui n) (\<lambda>i. around uid d0 V (insert (i, uid) Q) M) (\<lambda>_. around uid d0 V Q M)"
  unfolding mailbox_locked_def Let_def
proof (rule triple_the_srv)
  fix s
  let ?A = "around uid d0 V Q M"
  let ?n = "canonical_mailbox_name n"
  show "triple (\<lambda>t. ?A t \<and> snd t = s) (case map_of (mu_boxes (sv_users s ! ui)) ?n of
      None \<Rightarrow> io_bind (io_either (on_world (get_mailbox (usr_id (mu_row (sv_users s ! ui))) ?n))
          (\<lambda>e. io_fail (if e = ErrNotFound then non_existent else e)) io_ret) (load_box B ui ?n)
      | Some i \<Rightarrow> io_ret i) (\<lambda>i. around uid d0 V (insert (i, uid) Q) M) (\<lambda>_. ?A)"
  proof (rule triple_given [where b = "ui < length (sv_users s) \<and> usr_id (mu_row (sv_users s ! ui)) = uid"])
    show "ui < length (sv_users s) \<and> usr_id (mu_row (sv_users s ! ui)) = uid" if "?A t \<and> snd t = s" for t
      using that assms by (auto simp: around_def usr_ok_def)
  next
    assume ui: "ui < length (sv_users s) \<and> usr_id (mu_row (sv_users s ! ui)) = uid"
    have "triple ?A (io_bind (io_either (on_world (get_mailbox uid ?n))
          (\<lambda>e. io_fail (if e = ErrNotFound then non_existent else e)) io_ret) (load_box B ui ?n))
        (\<lambda>i. around uid d0 V (insert (i, uid) Q) M) (\<lambda>_. ?A)"
      by (rule triple_bind, rule triple_either, rule triple_get_mailbox, rule triple_fail, assumption, rule triple_ret, assumption)
        (rule triple_weaken [OF triple_load_box [OF assms insertI1]], auto elim: around_mono)
    moreover have "triple (\<lambda>t. ?A t \<and> snd t = s) (io_ret i) (\<lambda>i. around uid d0 V (insert (i, uid) Q) M) (\<lambda>_. ?A)"
      if "map_of (mu_boxes (sv_users s ! ui)) ?n = Some i" for i
    proof (rule triple_ret)
      fix t
      assume t: "?A t \<and> snd t = s"
      then have "srv_ok (db (fst t)) s" by (auto simp: around_def)
      with ui map_of_SomeD [OF that] have "ptr_ok (db (fst t)) s (i, uid)" unfolding srv_ok_def ptr_ok_def by auto
      with t show "around uid d0 V (insert (i, uid) Q) M t" by (auto simp: around_def)
    qed
    ultimately show "triple (\<lambda>t. ?A t \<and> snd t = s) (case map_of (mu_boxes (sv_users s ! ui)) ?n of
      None \<Rightarrow> io_bind (io_either (on_world (get_mailbox (usr_id (mu_row (sv_users s ! ui))) ?n))
          (\<lambda>e. io_fail (if e = ErrNotFound then non_existent else e)) io_ret) (load_box B ui ?n)
      | Some i \<Rightarrow> io_ret i) (\<lambda>i. around uid d0 V (insert (i, uid) Q) M) (\<lambda>_. ?A)"
      using ui by (auto split: option.splits elim: triple_pre)
  qed
qed

lemmas triple_mailbox = triple_mailbox_locked [folded mailbox_def]

lemma triple_at_pointer:
  assumes "\<And>mid. keeps (box_eff mid) m"
  shows "triple (around uid d0 V (insert (i, uid) Q) M) (at_box i m) (\<lambda>_. around uid d0 V Q M) (\<lambda>_. around uid d0 V Q M)"
  by (rule triple_weaken [OF triple_at_box [OF assms insertI1]]) (auto elim: around_mono)

lemma triple_with_mailbox:
  assumes "(ui, uid) \<in> V" and "\<And>mid. keeps (box_eff mid) m"
  shows "triple (around uid d0 V Q M) (io_bind (mailbox B ui n) (\<lambda>i. at_box i m)) (\<lambda>_. around uid d0 V Q M) (\<lambda>_. around uid d0 V Q M)"
  by (rule triple_bind [OF triple_mailbox [OF assms(1)] triple_at_pointer [OF assms(2)]])

lemma triple_user_easy:
  assumes "(ui, uid) \<in> V"
  shows "triple (around uid d0 V Q M) (user_status B ui n opts) (\<lambda>_. around uid d0 V Q M) (\<lambda>_. around uid d0 V Q M)"
    and "triple (around uid d0 V Q M) (user_subscribe B ui n) (\<lambda>_. around uid d0 V Q M) (\<lambda>_. around uid d0 V Q M)"
    and "triple (around uid d0 V Q M) (user_unsubscribe B ui n) (\<lambda>_. around uid d0 V Q M) (\<lambda>_. around uid d0 V Q M)"
    and "triple (around uid d0 V Q M) (user_append B ui n bs t fs) (\<lambda>_. around uid d0 V Q M) (\<lambda>_. around uid d0 V Q M)"
proof -
  show "triple (around uid d0 V Q M) (user_status B ui n opts) (\<lambda>_. around uid d0 V Q M) (\<lambda>_. around uid d0 V Q M)"
    unfolding user_status_def by (rule triple_with_mailbox [OF assms status_eff])
  show "triple (around uid d0 V Q M) (user_subscribe B ui n) (\<lambda>_. around uid d0 V Q M) (\<lambda>_. around uid d0 V Q M)"
    "triple (around uid d0 V Q M) (user_unsubscribe B ui n) (\<lambda>_. around uid d0 V Q M) (\<lambda>_. around uid d0 V Q M)"
    unfolding user_subscribe_def user_unsubscribe_def by (rule triple_with_mailbox [OF assms subscribed_eff])+
  show "triple (around uid d0 V Q M) (user_append B ui n bs t fs) (\<lambda>_. around uid d0 V Q M) (\<lambda>_. around uid d0 V Q M)"
    unfolding user_append_def append_literal_def
    by (rule triple_bind, rule triple_either, rule triple_mailbox [OF assms], rule triple_fail, assumption,
        rule triple_ret, assumption) (rule triple_at_pointer [OF append_eff])
qed

text \<open>What the user row says of the user a session belongs to.\<close>

lemma triple_user_row:
  assumes "(ui, uid) \<in> V"
    and "\<And>s. usr_id (mu_row (sv_users s ! ui)) = uid \<Longrightarrow> triple (around uid d0 V Q M) (k s) R E"
  shows "triple (around uid d0 V Q M) (io_bind the_srv k) R E"
proof (rule triple_the_srv)
  show "triple (\<lambda>t. around uid d0 V Q M t \<and> snd t = s) (k s) R E" for s
  proof (rule triple_given [where b = "usr_id (mu_row (sv_users s ! ui)) = uid"])
    show "usr_id (mu_row (sv_users s ! ui)) = uid" if "around uid d0 V Q M t \<and> snd t = s" for t
      using that assms(1) by (auto simp: around_def usr_ok_def)
    show "triple (\<lambda>t. around uid d0 V Q M t \<and> snd t = s) (k s) R E" if "usr_id (mu_row (sv_users s ! ui)) = uid"
      by (rule triple_pre [OF assms(2) [OF that]]) simp
  qed
qed

lemma triple_user_create:
  assumes "(ui, uid) \<in> V"
  shows "triple (around uid d0 V Q M) (user_create B ui n) (\<lambda>_. around uid d0 V Q M) (\<lambda>_. around uid d0 V Q M)"
  unfolding user_create_def Let_def
proof (rule triple_user_row [OF assms])
  let ?A = "around uid d0 V Q M" and ?n = "canonical_mailbox_name n"
  fix s
  assume u: "usr_id (mu_row (sv_users s ! ui)) = uid"
  have l: "triple (around uid d0 V Q (insert (mbx_id r, uid) M)) (io_bind (load_box B ui ?n r) (\<lambda>_. io_ret ())) (\<lambda>_. ?A) (\<lambda>_. ?A)" for r
    by (rule triple_bind [where R = "\<lambda>_. ?A"], rule triple_weaken [OF triple_load_box [OF assms insertI1]])
      (auto elim: around_mono intro!: triple_ret)
  show "triple ?A (io_either (on_world (get_mailbox (usr_id (mu_row (sv_users s ! ui))) ?n))
      (\<lambda>_. io_bind (on_world (ensure_mailbox (bk_store B) (usr_id (mu_row (sv_users s ! ui))) ?n)) (\<lambda>r.
           io_bind (load_box B ui ?n r) (\<lambda>_. io_ret ())))
      (\<lambda>_. io_fail already_exists)) (\<lambda>_. ?A) (\<lambda>_. ?A)"
    unfolding u
    by (rule triple_either [OF triple_get_mailbox triple_bind [OF triple_ensure_mailbox l]])
      (rule triple_fail, erule around_mono, auto)
qed

lemma around_update_boxes:
  assumes a: "around uid d0 V Q M (w, s)" and v: "(ui, uid) \<in> V"
    and f: "\<And>u. mu_row (f u) = mu_row u"
    and boxes: "\<And>n i. (n, i) \<in> set (mu_boxes (f (sv_users s ! ui))) \<Longrightarrow>
        (n, i) \<in> set (mu_boxes (sv_users s ! ui)) \<or> (i, uid) \<in> Q"
  shows "around uid d0 V Q M (w, s\<lparr>sv_users := (sv_users s)[ui := f (sv_users s ! ui)]\<rparr>)"
proof -
  let ?s = "s\<lparr>sv_users := (sv_users s)[ui := f (sv_users s ! ui)]\<rparr>"
  have ui: "ui < length (sv_users s)" "usr_id (mu_row (sv_users s ! ui)) = uid"
    using a v by (auto simp: around_def usr_ok_def)
  have row: "mu_row (sv_users ?s ! j) = mu_row (sv_users s ! j)" for j
    by (cases "j = ui") (simp_all add: ui f)
  have "ptr_ok (db w) s (i, usr_id (mu_row (sv_users s ! j)))"
    if j: "j < length (sv_users s)" "(n, i) \<in> set (mu_boxes (sv_users ?s ! j))" for j n i
  proof (cases "j = ui \<and> (n, i) \<notin> set (mu_boxes (sv_users s ! ui))")
    case True
    with j boxes ui have "(i, uid) \<in> Q" by auto
    with a ui True show ?thesis by (auto simp: around_def)
  next
    case False
    with j ui have "(n, i) \<in> set (mu_boxes (sv_users s ! j))" by (cases "j = ui") auto
    with a j(1) show ?thesis by (auto simp: around_def srv_ok_def ptr_ok_def)
  qed
  with a row have "srv_ok (db w) ?s" by (simp add: around_def srv_ok_def ptr_ok_def)
  moreover have "usr_ok ?s x" if "usr_ok s x" for x using that row by (auto simp: usr_ok_def split: prod.splits)
  ultimately show ?thesis using a by (simp add: around_def ptr_ok_def)
qed

lemma triple_upd_user:
  assumes "(ui, uid) \<in> V" and "\<And>u. mu_row (f u) = mu_row u"
    and "\<And>u. set (mu_boxes (f u)) \<subseteq> set (mu_boxes u) \<union> {(n, i) | n i. (i, uid) \<in> Q}"
  shows "triple (around uid d0 V Q M) (upd_user ui f) (\<lambda>_. around uid d0 V Q M) (\<lambda>_. around uid d0 V Q M)"
proof (rule tripleI)
  fix t x s'
  assume a: "around uid d0 V Q M t" and run: "upd_user ui f t = (Inr x, s')"
  obtain w s where t: "t = (w, s)" by fastforce
  with run have s': "s' = (w, s\<lparr>sv_users := (sv_users s)[ui := f (sv_users s ! ui)]\<rparr>)"
    by (simp add: upd_user_def upd_srv_def io_modify_def)
  show "around uid d0 V Q M s'" unfolding s'
    by (rule around_update_boxes [OF a [unfolded t] assms(1,2)]) (use assms(3) in blast)
qed (simp add: upd_user_def upd_srv_def io_modify_def split: prod.splits)

lemma db_exec_step: "(\<And>x d'. f (db w) = Inr (x, d') \<Longrightarrow> R (db w) d') \<Longrightarrow> (\<And>d. R d d) \<Longrightarrow> R (db w) (db (snd (db_exec f w)))"
  by (auto simp: db_exec_def may_fail_def split: list.splits sum.splits prod.splits)

lemma triple_fs:
  "keeps same_db m \<Longrightarrow> triple (around uid d0 V Q M) (on_world m) (\<lambda>_. around uid d0 V Q M) (\<lambda>_. around uid d0 V Q M)"
  by (intro triple_world db_rel_same) simp_all

abbreviation safe :: "int \<Rightarrow> database \<Rightarrow> (nat \<times> int) set \<Rightarrow> (nat \<times> int) set \<Rightarrow> (int \<times> int) set \<Rightarrow> 'a sio \<Rightarrow> bool" where
  "safe uid d0 V Q M m \<equiv> triple (around uid d0 V Q M) m (\<lambda>_. around uid d0 V Q M) (\<lambda>_. around uid d0 V Q M)"

lemma safe_bind: "safe uid d0 V Q M m \<Longrightarrow> (\<And>x. safe uid d0 V Q M (k x)) \<Longrightarrow> safe uid d0 V Q M (io_bind m k)"
  by (rule triple_bind)

lemma safe_bind_ptr:
  assumes "triple (around uid d0 V Q M) m (\<lambda>i. around uid d0 V (insert (i, uid) Q) M) (\<lambda>_. around uid d0 V Q M)"
    and "\<And>i. safe uid d0 V (insert (i, uid) Q) M (k i)"
  shows "safe uid d0 V Q M (io_bind m k)"
  by (rule triple_bind [OF assms(1)], rule triple_weaken [OF assms(2)]) (auto elim: around_mono)

lemma safe_bind_id:
  assumes "triple (around uid d0 V Q M) m (\<lambda>r. around uid d0 V Q (insert (g r, uid) M)) (\<lambda>_. around uid d0 V Q M)"
    and "\<And>r. safe uid d0 V Q (insert (g r, uid) M) (k r)"
  shows "safe uid d0 V Q M (io_bind m k)"
  by (rule triple_bind [OF assms(1)], rule triple_weaken [OF assms(2)]) (auto elim: around_mono)

lemma safe_ret: "safe uid d0 V Q M (io_ret x)" and safe_fail: "safe uid d0 V Q M (io_fail e)"
  by (auto intro: triple_ret triple_fail)

lemma safe_user_delete: "(ui, uid) \<in> V \<Longrightarrow> safe uid d0 V Q M (user_delete B ui n)"
proof -
  assume V: "(ui, uid) \<in> V"
  have del: "user_change uid d (db (snd (delete_mailbox s mid w)))" if "owned d uid mid" "db w = d" for d mid w s
    unfolding delete_mailbox_def that(2) [symmetric]
    by (rule db_exec_step [where R = "user_change uid"]) (use that delete_mailbox_user in auto)
  have up: "safe uid d0 V Q' M' (upd_user ui (\<lambda>u. u\<lparr>mu_boxes := AList.delete n' (mu_boxes u)\<rparr>))" for Q' M' n'
    by (rule triple_upd_user [OF V]) (auto simp: AList.delete_eq)
  show ?thesis unfolding user_delete_def Let_def
    by (rule safe_bind_ptr [OF triple_mailbox_locked [OF V]], rule safe_bind_id [OF triple_box [OF insertI1]],
        rule safe_bind [OF triple_world_owned [OF del insertI1]], assumption, assumption,
        rule safe_bind [OF triple_fs], rule fs_effects, rule up)
qed

lemma safe_user_rename: "(ui, uid) \<in> V \<Longrightarrow> safe uid d0 V Q M (user_rename B ui old new)"
proof -
  assume V: "(ui, uid) \<in> V"
  have ren: "user_change uid d (db (snd (rename_mailbox mid n w)))" if "owned d uid mid" "db w = d" for d mid w n
    unfolding rename_mailbox_def that(2) [symmetric]
    by (rule db_exec_step [where R = "user_change uid"]) (use that rename_mailbox_user in auto)
  have up: "safe uid d0 V (insert (i, uid) Q') M' (upd_user ui (\<lambda>u. u\<lparr>mu_boxes := AList.delete o' (AList.update n' i (mu_boxes u))\<rparr>))"
    for Q' M' i n' o'
    by (rule triple_upd_user [OF V]) (auto simp: AList.delete_eq dest: alist_update_set)
  have eff: "keeps (box_eff mid) (rename_mbox n')" "keeps (box_eff mid) (upd_mbox (\<lambda>b. b\<lparr>mb_root := p\<rparr>))" for mid n' p
    unfolding rename_mbox_def by (rule box_eff_upd, simp)+
  have at: "safe uid d0 V (insert (i, uid) Q') M' (at_box i m)" if "\<And>mid. keeps (box_eff mid) m" for i Q' M' and m :: "unit mio"
    by (rule triple_at_box [OF that insertI1])
  show ?thesis unfolding user_rename_def Let_def
  proof (rule safe_bind_ptr [OF triple_mailbox_locked [OF V]], rule triple_user_row [OF V])
    fix i s
    assume u: "usr_id (mu_row (sv_users s ! ui)) = uid"
    let ?Q = "insert (i, uid) Q" and ?old = "canonical_mailbox_name old" and ?new = "canonical_mailbox_name new"
    let ?root = "folder_path (root_of (bk_config B) (mu_row (sv_users s ! ui))) ?new"
    have "safe uid d0 V ?Q M (io_bind (box i) (\<lambda>b.
        io_bind (on_world (os_rename (mb_root b) ?root)) (\<lambda>_.
        io_bind (on_world (rename_mailbox (mb_db_id b) ?new)) (\<lambda>_.
        io_bind (at_box i (rename_mbox ?new)) (\<lambda>_.
        io_bind (at_box i (upd_mbox (\<lambda>b. b\<lparr>mb_root := ?root\<rparr>))) (\<lambda>_.
        upd_user ui (\<lambda>u. u\<lparr>mu_boxes := AList.delete ?old (AList.update ?new i (mu_boxes u))\<rparr>)))))))"
      by (rule safe_bind_id [OF triple_box [OF insertI1]], rule safe_bind [OF triple_fs], rule fs_effects,
          rule safe_bind [OF triple_world_owned [OF ren insertI1]], assumption, assumption,
          rule safe_bind [OF at], rule eff, rule safe_bind [OF at], rule eff, rule up)
    then show "safe uid d0 V ?Q M (io_either (on_world (get_mailbox (usr_id (mu_row (sv_users s ! ui))) ?new))
      (\<lambda>_. io_bind (box i) (\<lambda>b.
        io_bind (on_world (os_rename (mb_root b) ?root)) (\<lambda>_.
        io_bind (on_world (rename_mailbox (mb_db_id b) ?new)) (\<lambda>_.
        io_bind (at_box i (rename_mbox ?new)) (\<lambda>_.
        io_bind (at_box i (upd_mbox (\<lambda>b. b\<lparr>mb_root := ?root\<rparr>))) (\<lambda>_.
        upd_user ui (\<lambda>u. u\<lparr>mu_boxes := AList.delete ?old (AList.update ?new i (mu_boxes u))\<rparr>)))))))
      (\<lambda>_. io_fail already_exists))"
      unfolding u by (rule triple_either [OF triple_world [OF user_ops(1)]]) (rule safe_fail)
  qed
qed

lemma safe_for: "(\<And>x. x \<in> set xs \<Longrightarrow> safe uid d0 V Q M (f x)) \<Longrightarrow> safe uid d0 V Q M (io_for xs f)"
  by (rule triple_for)

lemma safe_map: "(\<And>x. x \<in> set xs \<Longrightarrow> safe uid d0 V Q M (f x)) \<Longrightarrow> safe uid d0 V Q M (io_map f xs)"
  using triple_map [where I = "\<lambda>_ _. around uid d0 V Q M"] by (metis in_set_conv_decomp)

lemma safe_more: "safe uid d0 V (Q \<union> Q') M m \<Longrightarrow> triple (\<lambda>t. around uid d0 V Q M t \<and> (\<forall>x \<in> Q'. ptr_ok (db (fst t)) (snd t) x)) m
    (\<lambda>_. around uid d0 V Q M) (\<lambda>_. around uid d0 V Q M)"
  by (erule triple_weaken) (auto simp: around_def)

lemma safe_at_owned: "(\<And>mid. keeps (box_eff mid) m) \<Longrightarrow> (i, uid) \<in> Q \<Longrightarrow> safe uid d0 V Q M (at_box i m)"
  by (rule triple_at_box)

lemma safe_box_bind:
  "(i, uid) \<in> Q \<Longrightarrow> (\<And>b. safe uid d0 V Q (insert (mb_db_id b, uid) M) (k b)) \<Longrightarrow> safe uid d0 V Q M (io_bind (box i) k)"
  by (rule safe_bind_id [OF triple_box])

lemma safe_user_list: "(ui, uid) \<in> V \<Longrightarrow> safe uid d0 V Q M (user_list B ui ref ps opts)"
proof -
  assume V: "(ui, uid) \<in> V"
  let ?row = "\<lambda>r. (mbx_id r, uid)"
  let ?load = "\<lambda>r. io_bind the_srv (\<lambda>s. if map_of (mu_boxes (sv_users s ! ui)) (mbx_name r) = None
         then io_bind (load_box B ui (mbx_name r) r) (\<lambda>_. io_ret ()) else io_ret ())"
  let ?one = "\<lambda>i. io_bind (box i) (\<lambda>b. if list_ex (\<lambda>p. bk_match_list B (mb_name b) ref p) ps
            then at_box i (list_mailbox (bk_store B) opts) else io_ret None)"
  have load: "safe uid d0 V Q M' (?load r)" if "?row r \<in> M'" for r M'
  proof (rule triple_user_row [OF V])
    fix s
    have "safe uid d0 V Q M' (io_bind (load_box B ui (mbx_name r) r) (\<lambda>_. io_ret ()))"
      by (rule safe_bind_ptr [OF triple_load_box [OF V that] safe_ret])
    then show "safe uid d0 V Q M' (if map_of (mu_boxes (sv_users s ! ui)) (mbx_name r) = None
         then io_bind (load_box B ui (mbx_name r) r) (\<lambda>_. io_ret ()) else io_ret ())" by (simp add: safe_ret)
  qed
  have one: "safe uid d0 V Q' M' (?one i)" if "(i, uid) \<in> Q'" for i Q' M'
    using that triple_at_box [OF list_eff that] by (intro safe_box_bind) (auto simp: safe_ret)
  have rest: "safe uid d0 V Q M' (io_bind the_srv (\<lambda>s1.
     if ps = [] then io_ret [\<lparr>ld_mailbox = '''', ld_attrs = [CHR 0x5C # ''Noselect''], ld_status = None\<rparr>]
     else io_bind (io_map ?one (map snd (mu_boxes (sv_users s1 ! ui)))) (\<lambda>ds.
       io_ret (sort_key ld_mailbox (List.map_filter id ds)))))" (is "safe uid d0 V Q M' (io_bind the_srv ?k)") for M'
  proof (rule triple_the_srv)
    fix s :: srv
    let ?is = "map snd (mu_boxes (sv_users s ! ui))"
    have "safe uid d0 V (Q \<union> (\<lambda>i. (i, uid)) ` set ?is) M' (?k s)"
      by (auto intro!: safe_bind [OF safe_map] one safe_ret)
    then show "triple (\<lambda>t. around uid d0 V Q M' t \<and> snd t = s) (?k s) (\<lambda>_. around uid d0 V Q M') (\<lambda>_. around uid d0 V Q M')"
      by (rule triple_pre [OF safe_more]) (use V in \<open>auto simp: around_def usr_ok_def srv_ok_def ptr_ok_def\<close>)
  qed
  show ?thesis unfolding user_list_def
  proof (rule triple_user_row [OF V])
    fix s
    assume u: "usr_id (mu_row (sv_users s ! ui)) = uid"
    show "safe uid d0 V Q M (io_bind (on_world (list_mailboxes (usr_id (mu_row (sv_users s ! ui))))) (\<lambda>rows.
      io_bind (io_for rows ?load) (\<lambda>_. io_bind the_srv (\<lambda>s1.
       if ps = [] then io_ret [\<lparr>ld_mailbox = '''', ld_attrs = [CHR 0x5C # ''Noselect''], ld_status = None\<rparr>]
       else io_bind (io_map ?one (map snd (mu_boxes (sv_users s1 ! ui)))) (\<lambda>ds.
         io_ret (sort_key ld_mailbox (List.map_filter id ds)))))))"
      unfolding u
    proof (rule triple_bind [OF triple_list_mailboxes])
      fix rows
      have "safe uid d0 V Q (M \<union> ?row ` set rows) (io_bind (io_for rows ?load) (\<lambda>_. io_bind the_srv (\<lambda>s1.
       if ps = [] then io_ret [\<lparr>ld_mailbox = '''', ld_attrs = [CHR 0x5C # ''Noselect''], ld_status = None\<rparr>]
       else io_bind (io_map ?one (map snd (mu_boxes (sv_users s1 ! ui)))) (\<lambda>ds.
         io_ret (sort_key ld_mailbox (List.map_filter id ds))))))"
        by (rule safe_bind [OF safe_for [OF load] rest]) auto
      then show "triple (around uid d0 V Q (M \<union> ?row ` set rows)) (io_bind (io_for rows ?load) (\<lambda>_. io_bind the_srv (\<lambda>s1.
       if ps = [] then io_ret [\<lparr>ld_mailbox = '''', ld_attrs = [CHR 0x5C # ''Noselect''], ld_status = None\<rparr>]
       else io_bind (io_map ?one (map snd (mu_boxes (sv_users s1 ! ui)))) (\<lambda>ds.
         io_ret (sort_key ld_mailbox (List.map_filter id ds))))))
        (\<lambda>_. around uid d0 V Q M) (\<lambda>_. around uid d0 V Q M)"
        by (rule triple_weaken) (auto elim: around_mono)
    qed
  qed
qed

section \<open>Sessions\<close>

lemma safe_copy_one:
  assumes "(dest, uid) \<in> Q"
  shows "safe uid d0 V Q M (copy_one B root dest m)"
  unfolding copy_one_def
  by (rule safe_bind [OF triple_fs [OF maildir_same_db(3)]], rule safe_bind [OF triple_at_box [OF append_eff assms]])
    (auto intro: safe_ret)

text \<open>The destination of COPY and MOVE; the source is the selected mailbox.\<close>

lemma triple_copy_dest:
  assumes "(ss_user ss, uid) \<in> V" and "\<And>i v. ss_selected ss = Some (i, v) \<Longrightarrow> (i, uid) \<in> Q"
    and "\<And>dest i v. (i, uid) \<in> Q \<Longrightarrow> safe uid d0 V (insert (dest, uid) Q) M (k (dest, i, v))"
  shows "safe uid d0 V Q M (io_bind (copy_dest B ss n) k)"
proof (rule triple_bind)
  show "triple (around uid d0 V Q M) (copy_dest B ss n) (\<lambda>(dest, i, v) t. around uid d0 V (insert (dest, uid) Q) M t \<and> (i, uid) \<in> Q)
      (\<lambda>_. around uid d0 V Q M)"
    unfolding copy_dest_def
  proof (rule triple_bind)
    show "triple (around uid d0 V Q M) (io_either (mailbox B (ss_user ss) n) (\<lambda>_. io_fail try_create) io_ret)
        (\<lambda>dest. around uid d0 V (insert (dest, uid) Q) M) (\<lambda>_. around uid d0 V Q M)"
      by (rule triple_either [OF triple_mailbox [OF assms(1)]]) (auto intro: triple_fail triple_ret)
    show "triple (around uid d0 V (insert (dest, uid) Q) M) (case ss_selected ss of
          None \<Rightarrow> io_fail (ErrMsg ''panic: nil pointer dereference'')
        | Some (i, v) \<Rightarrow> if dest = i then io_fail identical_mailboxes else io_ret (dest, i, v))
        (\<lambda>(dest, i, v) t. around uid d0 V (insert (dest, uid) Q) M t \<and> (i, uid) \<in> Q) (\<lambda>_. around uid d0 V Q M)" for dest
      using assms(2) by (auto split: option.splits intro!: triple_fail triple_ret elim: around_mono)
  qed
  fix x :: "nat \<times> nat \<times> view"
  obtain dest i v where x: "x = (dest, i, v)" by (cases x)
  show "triple (case x of (dest, i, v) \<Rightarrow> \<lambda>t. around uid d0 V (insert (dest, uid) Q) M t \<and> (i, uid) \<in> Q) (k x)
      (\<lambda>_. around uid d0 V Q M) (\<lambda>_. around uid d0 V Q M)"
    unfolding x prod.case
    by (rule triple_pure, rule triple_weaken [OF assms(3)]) (auto elim: around_mono)
qed

lemma safe_session_copy:
  assumes "(ss_user ss, uid) \<in> V" and "\<And>i v. ss_selected ss = Some (i, v) \<Longrightarrow> (i, uid) \<in> Q"
  shows "safe uid d0 V Q M (session_copy B ss ns n)"
  unfolding session_copy_def
proof (rule triple_copy_dest [OF assms], assumption)
  fix dest i :: nat and v :: view
  assume i: "(i, uid) \<in> Q"
  show "safe uid d0 V (insert (dest, uid) Q) M (case (dest, i, v) of (dest, i, v) \<Rightarrow>
     io_bind (box i) (\<lambda>b. io_bind (io_map (copy_one B (mb_root b) dest) (chosen b v ns)) (\<lambda>uids.
     io_bind (box dest) (\<lambda>d. io_ret (mb_uid_validity d, uids)))))"
    unfolding prod.case
    by (rule safe_box_bind, use i in simp, rule safe_bind [OF safe_map [OF safe_copy_one [OF insertI1]]],
        rule safe_box_bind [OF insertI1 safe_ret])
qed

lemma safe_delete_message: "safe uid d0 V Q (insert (mid, uid) M) (on_world (delete_message_by_key mid k))"
proof (rule triple_world_owned [OF _ insertI1])
  show "user_change uid d (db (snd (delete_message_by_key mid k w)))" if "owned d uid mid" "db w = d" for d w
    using box_change_user [OF _ that(1)] keepsD [OF box_ops(4) [where k = k], of mid w] that(2) by (simp add: db_rel_def)
qed

lemma safe_session_move:
  assumes "(ss_user ss, uid) \<in> V" and "\<And>i v. ss_selected ss = Some (i, v) \<Longrightarrow> (i, uid) \<in> Q"
  shows "safe uid d0 V Q M (session_move B ss ns n)"
  unfolding session_move_def
proof (rule triple_copy_dest [OF assms], assumption)
  fix dest i :: nat and v :: view
  assume i: "(i, uid) \<in> Q"
  then have i': "(i, uid) \<in> insert (dest, uid) Q" by simp
  show "safe uid d0 V (insert (dest, uid) Q) M (case (dest, i, v) of (dest, i, v) \<Rightarrow>
     io_bind (box i) (\<lambda>b. let ms = chosen b v ns in
     io_bind (io_map (copy_one B (mb_root b) dest) ms) (\<lambda>uids.
     io_bind (io_for ms (\<lambda>m. io_bind (on_world (maildir_remove (mb_root b) (m_key m))) (\<lambda>_.
         on_world (delete_message_by_key (mb_db_id b) (m_key m))))) (\<lambda>_.
     io_bind (at_box i (expunge_locked (map m_uid ms))) (\<lambda>nums.
     io_bind (box dest) (\<lambda>d. io_ret (mb_uid_validity d, uids, map (vw_enc v) nums)))))))"
    unfolding prod.case Let_def
    by (rule safe_box_bind [OF i'], rule safe_bind [OF safe_map [OF safe_copy_one [OF insertI1]]],
        rule safe_bind [OF safe_for [OF safe_bind [OF triple_fs [OF maildir_same_db(4)] safe_delete_message]]],
        rule safe_bind [OF triple_at_box [OF expunge_locked_eff i']], rule safe_box_bind [OF insertI1 safe_ret])
qed

text \<open>What is known of a session of the user with identifier \<open>uid\<close>.\<close>

definition session_ok :: "database \<Rightarrow> srv \<Rightarrow> int \<Rightarrow> session \<Rightarrow> bool" where
  "session_ok d s uid ss \<longleftrightarrow> usr_ok s (ss_user ss, uid) \<and>
     (\<forall>i v. ss_selected ss = Some (i, v) \<longrightarrow> ptr_ok d s (i, uid))"

lemma triple_imap_cmd:
  assumes V: "(ss_user ss, uid) \<in> V" and Q: "\<And>i v. ss_selected ss = Some (i, v) \<Longrightarrow> (i, uid) \<in> Q"
  shows "triple (around uid d0 V Q M) (imap_cmd B a ss)
    (\<lambda>ss' t. around uid d0 V Q M t \<and> session_ok (db (fst t)) (snd t) uid ss' \<and> ss_user ss' = ss_user ss) (\<lambda>_. around uid d0 V Q M)"
    (is "triple ?A _ ?R _")
proof -
  have now: "session_ok (db (fst t)) (snd t) uid ss" if "?A t" for t
    using that V Q by (auto simp: around_def session_ok_def)
  have keep: "triple ?A (io_bind m (\<lambda>_. io_ret ss)) ?R (\<lambda>_. ?A)" if "safe uid d0 V Q M m" for m :: "'b sio"
    by (rule triple_bind [OF that]) (auto intro!: triple_ret now)
  have fail: "triple ?A (io_fail e) ?R (\<lambda>_. ?A)" for e by (auto intro: triple_fail)
  have at: "triple ?A (at_selected ss f) ?R (\<lambda>_. ?A)" if "\<And>v mid. keeps (box_eff mid) (f v)" for f :: "view \<Rightarrow> 'b mio"
    unfolding at_selected_def using Q
    by (auto split: option.splits intro!: fail keep triple_at_box [OF that])
  have unsel: "session_ok d s uid (session_unselect ss)" if "session_ok d s uid ss" for d s
    using that by (simp add: session_ok_def session_unselect_def)
  have sel: "triple ?A (session_select B ss n v) (\<lambda>x. ?R (fst x)) (\<lambda>_. ?A)" for n v
    unfolding session_select_def
  proof (rule triple_bind [OF triple_mailbox [OF V]], rule triple_bind)
    show "triple (around uid d0 V (insert (i, uid) Q) M) (box i) (\<lambda>b. around uid d0 V (insert (i, uid) Q) M) (\<lambda>_. ?A)" for i
      by (rule triple_weaken [OF triple_box [OF insertI1]]) (auto elim: around_mono)
    show "triple (around uid d0 V (insert (i, uid) Q) M) (io_ret (ss\<lparr>ss_selected := Some (i, v)\<rparr>, select_data_locked b))
        (\<lambda>x. ?R (fst x)) (\<lambda>_. ?A)" for i b
      using V by (auto intro!: triple_ret simp: around_def session_ok_def)
  qed
  show ?thesis
  proof (cases a)
    case (CmdSelect n v)
    have "triple (?R (fst x)) (case x of (ss', d) \<Rightarrow> io_ret ss') ?R (\<lambda>_. ?A)" for x :: "session \<times> select_data"
      by (cases x) (auto intro: triple_ret)
    then show ?thesis unfolding CmdSelect imap_cmd.simps by (rule triple_bind [OF sel])
  next
    case CmdPoll
    have "safe uid d0 V Q M (session_poll B ss)"
      unfolding session_poll_def using Q by (auto split: option.splits intro!: safe_ret triple_at_box [OF poll_eff])
    then show ?thesis unfolding CmdPoll imap_cmd.simps by (rule keep)
  next
    case (CmdIdle n)
    have "safe uid d0 V Q M (session_idle B ss n)"
      unfolding session_idle_def using Q by (auto split: option.splits intro!: safe_ret triple_at_box [OF view_idle_eff])
    then show ?thesis unfolding CmdIdle imap_cmd.simps by (rule keep)
  next
    case CmdUnselect
    show ?thesis unfolding CmdUnselect imap_cmd.simps
      by (rule triple_ret) (intro conjI unsel now, auto simp: session_unselect_def)
  qed (use V Q in \<open>auto intro!: keep fail at triple_user_easy safe_user_list triple_user_create safe_user_delete safe_user_rename
      safe_session_copy safe_session_move fetch_eff store_eff expunge_eff\<close>)
qed

section \<open>Properties\<close>

definition sessions_ok :: "world \<times> srv \<Rightarrow> int list \<Rightarrow> session list \<Rightarrow> bool" where
  "sessions_ok t who sess \<longleftrightarrow> srv_ok (db (fst t)) (snd t) \<and> list_all2 (session_ok (db (fst t)) (snd t)) who sess"

lemma imap_step_isolated:
  assumes ok: "sessions_ok (w, s) who sess" and k: "k < length sess"
    and run: "imap_cmd B a (sess ! k) (w, s) = (r, (w', s'))"
  shows "sessions_ok (w', s') who (case r of Inl e \<Rightarrow> sess | Inr ss \<Rightarrow> sess[k := ss])"
    and "v \<noteq> who ! k \<Longrightarrow> rows_of v (db w') = rows_of v (db w)"
proof -
  let ?V = "{(ss_user (sess ! j), who ! j) | j. j < length sess}"
  have len: "length who = length sess" and all: "\<And>j. j < length sess \<Longrightarrow> session_ok (db w) s (who ! j) (sess ! j)"
    using ok by (auto simp: sessions_ok_def list_all2_conv_all_nth)
  let ?P = "{(i, who ! j) | i v j. j < length sess \<and> ss_selected (sess ! j) = Some (i, v)}"
  have a: "around (who ! k) (db w) ?V ?P {} (w, s)"
    using ok all by (auto simp: around_def sessions_ok_def session_ok_def)
  have t: "triple (around (who ! k) (db w) ?V ?P {}) (imap_cmd B a (sess ! k))
     (\<lambda>ss' t. around (who ! k) (db w) ?V ?P {} t \<and> session_ok (db (fst t)) (snd t) (who ! k) ss' \<and> ss_user ss' = ss_user (sess ! k))
     (\<lambda>_. around (who ! k) (db w) ?V ?P {})"
    by (rule triple_imap_cmd) (use k in auto)
  have after: "around (who ! k) (db w) ?V ?P {} (w', s')"
  proof (cases r)
    case (Inl e)
    show ?thesis by (rule tripleD_err [OF t a run [unfolded Inl]])
  next
    case (Inr ss)
    show ?thesis using tripleD_ok [OF t a run [unfolded Inr]] by (rule conjunct1)
  qed
  have new: "session_ok (db w') s' (who ! k) ss" if "r = Inr ss" for ss
    using tripleD_ok [OF t a run [unfolded that]] unfolding fst_conv snd_conv by blast
  have "session_ok (db w') s' (who ! j) (sess ! j)" if "j < length sess" for j
    using after that unfolding around_def session_ok_def prod.case by blast
  then have "session_ok (db w') s' (who ! j) (sess[k := ss] ! j)" if "j < length sess" "r = Inr ss" for j ss
    using new that by (cases "j = k") simp_all
  with \<open>\<And>j. j < length sess \<Longrightarrow> session_ok (db w') s' (who ! j) (sess ! j)\<close> after len
  show "sessions_ok (w', s') who (case r of Inl e \<Rightarrow> sess | Inr ss \<Rightarrow> sess[k := ss])"
    by (simp add: sessions_ok_def around_def list_all2_conv_all_nth split: sum.splits)
  show "rows_of v (db w') = rows_of v (db w)" if "v \<noteq> who ! k" using after that by (simp add: around_def)
qed

text \<open>
  C2: the commands of one person's IMAP connections cannot reach another's data. Take any number of
  connections, each owned by the user listed in \<open>who\<close>, and any sequence of commands (SELECT, STATUS,
  LIST, CREATE, DELETE, RENAME, SUBSCRIBE, APPEND, FETCH, STORE, EXPUNGE, COPY, MOVE, polls and IDLE,
  interleaved over the connections, whatever mailbox names they give and whichever system calls fail).
  A user none of whose connections issued a command has the same user row, mailboxes, messages and
  forwarding in the database as before, and every cached folder and every selected mailbox still
  belongs to the owner of its user or connection.
\<close>

theorem users_isolated:
  assumes "sessions_ok (w, s) who sess"
    and "\<forall>(k, a) \<in> set cmds. k < length sess \<and> who ! k \<noteq> uid"
    and "imap_run B cmds ((w, s), sess) = ((w', s'), sess')"
  shows "rows_of uid (db w') = rows_of uid (db w) \<and> sessions_ok (w', s') who sess'"
  using assms
proof (induction cmds arbitrary: w s sess)
  case Nil
  then show ?case by simp
next
  case (Cons c cmds)
  obtain k a where c: "c = (k, a)" by fastforce
  obtain r w1 s1 where step: "imap_cmd B a (sess ! k) (w, s) = (r, (w1, s1))" by (metis surj_pair)
  let ?sess = "case r of Inl e \<Rightarrow> sess | Inr ss \<Rightarrow> sess[k := ss]"
  have k: "k < length sess" "uid \<noteq> who ! k" using Cons.prems(2) c by auto
  have ok: "sessions_ok (w1, s1) who ?sess" by (rule imap_step_isolated(1) [OF Cons.prems(1) k(1) step])
  have same: "rows_of uid (db w1) = rows_of uid (db w)" by (rule imap_step_isolated(2) [OF Cons.prems(1) k(1) step k(2)])
  have "rows_of uid (db w') = rows_of uid (db w1) \<and> sessions_ok (w', s') who sess'"
  proof (rule Cons.IH [OF ok])
    show "\<forall>(k, a) \<in> set cmds. k < length ?sess \<and> who ! k \<noteq> uid" using Cons.prems(2) by (auto split: sum.splits)
    show "imap_run B cmds ((w1, s1), ?sess) = ((w', s'), sess')" using Cons.prems(3) by (cases r) (simp_all add: c step)
  qed
  with same show ?case by simp
qed

text \<open>A state for the witnesses: bob and his INBOX, ann with nothing yet, one connection each.\<close>

definition bob_and_ann :: srv where
  "bob_and_ann = \<lparr>sv_heap = [small_mbox],
     sv_users = [\<lparr>mu_row = \<lparr>usr_id = 1, usr_domain_id = 1, usr_local_part = ''bob'', usr_email = ''bob@x.org'',
         usr_password_hash = ''$pw'', usr_is_admin = False\<rparr>, mu_boxes = [(''INBOX'', 0)]\<rparr>,
       \<lparr>mu_row = \<lparr>usr_id = 2, usr_domain_id = 1, usr_local_part = ''ann'', usr_email = ''ann@x.org'',
         usr_password_hash = ''$pw'', usr_is_admin = False\<rparr>, mu_boxes = []\<rparr>],
     sv_index = [(''bob@x.org'', 0), (''ann@x.org'', 1)], sv_limiter = Some (new_limiter 3 100 50)\<rparr>"

definition small_backend :: backend where
  "small_backend = \<lparr>bk_config = zero_config, bk_store = \<lparr>so_driver = Sqlite, so_fk = True\<rparr>, bk_bcrypt = plain_bcrypt,
     bk_match_list = (\<lambda>_ _ _. True)\<rparr>"

lemma bob_and_ann_ok: "sessions_ok (small_state, bob_and_ann) [1, 2] [new_user_session 0, new_user_session 1]"
  by (auto simp: sessions_ok_def srv_ok_def boxes_keyed_def keyed_def small_db_def empty_db_def bob_and_ann_def small_mbox_def
      owned_def session_ok_def usr_ok_def new_user_session_def nth_Cons' split: if_splits)

lemma users_isolated_witness:
  "case imap_run small_backend [(1, CmdCreate ''INBOX''), (1, CmdDelete ''../bob'')]
      ((small_state, bob_and_ann), [new_user_session 0, new_user_session 1]) of
     ((w', s'), sess') \<Rightarrow> rows_of 1 (db w') = rows_of 1 small_db"
proof -
  let ?cmds = "[(1, CmdCreate ''INBOX''), (1, CmdDelete ''../bob'')]"
  obtain w' s' sess' where run: "imap_run small_backend ?cmds ((small_state, bob_and_ann),
      [new_user_session 0, new_user_session 1]) = ((w', s'), sess')" by (metis surj_pair)
  have "\<forall>(k, a) \<in> set ?cmds. k < length [new_user_session 0, new_user_session 1] \<and> [1, 2] ! k \<noteq> (1 :: int)" by simp
  from users_isolated [OF bob_and_ann_ok this run] run show ?thesis by simp
qed

text \<open>Logging in.\<close>

definition next_time :: "world \<Rightarrow> int" where
  "next_time w = clock w + (case ticks w of [] \<Rightarrow> 0 | d # ds \<Rightarrow> d)"

definition login_blocked :: "world \<Rightarrow> srv \<Rightarrow> string \<Rightarrow> bool" where
  "login_blocked w s ip \<longleftrightarrow> ip \<noteq> '''' \<and> (case sv_limiter s of None \<Rightarrow> False | Some l \<Rightarrow> \<not> allowed l (next_time w) ip)"

definition indexed_users :: "srv \<Rightarrow> bool" where
  "indexed_users s \<longleftrightarrow> (\<forall>(e, ui) \<in> set (sv_index s). ui < length (sv_users s) \<and>
     to_lower (usr_email (mu_row (sv_users s ! ui))) = e)"

lemma time_now_run: "time_now w = (Inr (next_time w), snd (time_now w))"
  by (simp add: time_now_def next_time_def split: list.splits)

lemma limited_run: "\<exists>w'. limited ip (w, s) = (Inr (login_blocked w s ip), (w', s)) \<and> same_db w w' \<and> faults w' = faults w"
  using time_now_run [of w]
  by (auto simp: limited_def login_blocked_def the_srv_def io_bind_apply io_gets_def io_ret_def on_world_def same_db_def
      time_now_def next_time_def split: option.splits list.splits)

lemma note_failure_run:
  "\<exists>w' now. note_failure ip (w, s) = (Inr (), (w', s\<lparr>sv_limiter :=
     if ip = '''' then sv_limiter s else map_option (record_failure now ip) (sv_limiter s)\<rparr>)) \<and> same_db w w'"
proof -
  have "note_failure ip (w, s) = (Inr (), (if ip = '''' \<or> sv_limiter s = None then w else snd (time_now w), s\<lparr>sv_limiter :=
     if ip = '''' then sv_limiter s else map_option (record_failure (next_time w) ip) (sv_limiter s)\<rparr>))"
    using time_now_run [of w]
    by (auto simp: note_failure_def the_srv_def upd_srv_def io_bind_apply io_gets_def io_ret_def io_modify_def on_world_def
        split: option.splits prod.splits)
  moreover have "same_db w (snd (time_now w))" using keepsD [OF keeps_time_now] .
  then have "same_db w (if ip = '''' \<or> sv_limiter s = None then w else snd (time_now w))" by (simp add: same_db_def)
  ultimately show ?thesis by (intro exI conjI)
qed

lemma note_success_run: "note_success ip (w, s) = (Inr (), (w, s\<lparr>sv_limiter :=
     if ip = '''' then sv_limiter s else map_option (record_success ip) (sv_limiter s)\<rparr>))"
  by (simp add: note_success_def upd_srv_def io_modify_def)

lemma user_for_run:
  assumes "indexed_users s"
  shows "\<exists>ui s'. user_for u (w, s) = (Inr ui, (w, s')) \<and> indexed_users s' \<and> sv_heap s' = sv_heap s \<and> sv_limiter s' = sv_limiter s \<and>
    ui < length (sv_users s') \<and> to_lower (usr_email (mu_row (sv_users s' ! ui))) = to_lower (usr_email u)"
proof (cases "map_of (sv_index s) (to_lower (usr_email u))")
  case (Some ui)
  from map_of_SomeD [OF this] assms have "ui < length (sv_users s) \<and> to_lower (usr_email (mu_row (sv_users s ! ui))) = to_lower (usr_email u)"
    unfolding indexed_users_def by blast
  with Some assms show ?thesis
    by (simp add: user_for_def the_srv_def io_bind_apply io_gets_def io_ret_def Let_def)
next
  case None
  let ?s = "s\<lparr>sv_users := sv_users s @ [\<lparr>mu_row = u, mu_boxes = []\<rparr>],
              sv_index := AList.update (to_lower (usr_email u)) (length (sv_users s)) (sv_index s)\<rparr>"
  have "indexed_users ?s"
    unfolding indexed_users_def
  proof
    fix x
    assume "x \<in> set (sv_index ?s)"
    then have "x = (to_lower (usr_email u), length (sv_users s)) \<or> x \<in> set (sv_index s)"
      using alist_update_set by fastforce
    with assms show "case x of (e, ui) \<Rightarrow> ui < length (sv_users ?s) \<and> to_lower (usr_email (mu_row (sv_users ?s ! ui))) = e"
      by (auto simp: indexed_users_def nth_append)
  qed
  with None show ?thesis
    by (simp add: user_for_def the_srv_def upd_srv_def io_bind_apply io_gets_def io_ret_def io_modify_def Let_def)
qed

lemma get_user_run:
  assumes "get_user_by_email e w = (y, w')"
  shows "db w' = db w" and "y = Inr u \<Longrightarrow> find (\<lambda>u. usr_email u = to_lower e) (users_t (db w)) = Some u"
    and "y = Inl x \<Longrightarrow> faults w = [] \<Longrightarrow> find (\<lambda>u. usr_email u = to_lower e) (users_t (db w)) = None"
  using assms unfolding get_user_by_email_def not_found_def if_no_rows_def db_get_def may_fail_def io_either_apply
  by (auto simp: io_ret_def io_fail_def split: list.splits option.splits if_splits)

definition right_password :: "bcrypt \<Rightarrow> database \<Rightarrow> string \<Rightarrow> string \<Rightarrow> user_row \<Rightarrow> bool" where
  "right_password bc d email pw u \<longleftrightarrow> find (\<lambda>u. usr_email u = email) (users_t d) = Some u \<and> bc_compare bc (usr_password_hash u) pw"

lemma check_run:
  "\<exists>x w'. io_either (on_world (get_user_by_email e)) (\<lambda>_. io_ret None)
      (\<lambda>u. io_ret (if verify_password bc u pw then Some u else None)) (w, s) = (Inr x, (w', s)) \<and> db w' = db w \<and>
    (\<forall>u. x = Some u \<longrightarrow> right_password bc (db w) (to_lower e) pw u) \<and>
    (x = None \<longrightarrow> faults w = [] \<longrightarrow> \<not> (\<exists>u. right_password bc (db w) (to_lower e) pw u))"
proof -
  obtain y w' where get: "get_user_by_email e w = (y, w')" by (rule prod.exhaust)
  note g = get_user_run [OF get]
  show ?thesis
  proof (cases y)
    case (Inl x)
    with get g(1) g(3) [OF Inl] show ?thesis
      by (auto simp: io_either_apply on_world_def io_ret_def right_password_def)
  next
    case (Inr u)
    with get g(1) g(2) [OF Inr] show ?thesis
      by (auto simp: io_either_apply on_world_def io_ret_def right_password_def verify_password_def)
  qed
qed

text \<open>
  C9: LOGIN lets in exactly those who are not banned and know the password, and the limiter hears of
  every attempt. While the peer's address is banned the attempt fails and nothing changes, whatever the
  password. Otherwise success means that the row of the trimmed, lower-cased user name has a hash the
  password matches, that the session is of a user with this address, and that the failures of the
  peer's address are forgotten; a failure is always the same error, gives no session and counts
  against the peer's address. Without database errors the right password is accepted.
\<close>

theorem login_guarded:
  assumes "indexed_users s"
    and "login B peer username password (w, s) = (r, (w', s'))"
  shows "db w' = db w \<and> indexed_users s' \<and> sv_heap s' = sv_heap s \<and>
    (let ip = client_ip peer; email = to_lower (trim_space username) in
     if login_blocked w s ip then r = Inl auth_failed \<and> s' = s
     else (case r of
       Inr ui \<Rightarrow> (\<exists>u. find (\<lambda>u. usr_email u = email) (users_t (db w)) = Some u \<and>
           bc_compare (bk_bcrypt B) (usr_password_hash u) password) \<and>
         ui < length (sv_users s') \<and> to_lower (usr_email (mu_row (sv_users s' ! ui))) = email \<and>
         sv_limiter s' = (if ip = '''' then sv_limiter s else map_option (record_success ip) (sv_limiter s))
     | Inl e \<Rightarrow> e = auth_failed \<and> (\<exists>now. s' = s\<lparr>sv_limiter :=
           if ip = '''' then sv_limiter s else map_option (record_failure now ip) (sv_limiter s)\<rparr>) \<and>
         (faults w = [] \<longrightarrow> \<not> (\<exists>u. find (\<lambda>u. usr_email u = email) (users_t (db w)) = Some u \<and>
           bc_compare (bk_bcrypt B) (usr_password_hash u) password))))"
proof -
  let ?ip = "client_ip peer" and ?email = "to_lower (trim_space username)"
  obtain w1 where lim: "limited ?ip (w, s) = (Inr (login_blocked w s ?ip), (w1, s))" and w1: "db w1 = db w" "faults w1 = faults w"
    using limited_run unfolding same_db_def by blast
  show ?thesis
  proof (cases "login_blocked w s ?ip")
    case True
    with assms lim w1 show ?thesis by (auto simp: login_def Let_def io_bind_apply io_fail_def)
  next
    case False
    from check_run [of ?email "bk_bcrypt B" password w1 s] obtain x w2 where
      check: "io_either (on_world (get_user_by_email ?email)) (\<lambda>_. io_ret None)
          (\<lambda>u. io_ret (if verify_password (bk_bcrypt B) u password then Some u else None)) (w1, s) = (Inr x, (w2, s))"
      and db2: "db w2 = db w" and x: "\<And>u. x = Some u \<Longrightarrow> right_password (bk_bcrypt B) (db w) ?email password u"
      and none: "x = None \<Longrightarrow> faults w = [] \<Longrightarrow> \<not> (\<exists>u. right_password (bk_bcrypt B) (db w) ?email password u)"
      by (auto simp: w1)
    show ?thesis
    proof (cases x)
      case None
      obtain w3 now where f: "note_failure ?ip (w2, s) = (Inr (), (w3, s\<lparr>sv_limiter :=
          if ?ip = '''' then sv_limiter s else map_option (record_failure now ?ip) (sv_limiter s)\<rparr>))" "same_db w2 w3"
        using note_failure_run by blast
      with assms False lim check None db2 none [OF None] show ?thesis
        by (auto simp: login_def Let_def io_bind_apply io_fail_def indexed_users_def same_db_def right_password_def)
    next
      case (Some u)
      let ?s = "s\<lparr>sv_limiter := if ?ip = '''' then sv_limiter s else map_option (record_success ?ip) (sv_limiter s)\<rparr>"
      have "indexed_users ?s" using assms(1) by (simp add: indexed_users_def)
      from user_for_run [OF this] obtain ui s2 where u: "user_for u (w2, ?s) = (Inr ui, (w2, s2))" "indexed_users s2"
        "sv_heap s2 = sv_heap s" "sv_limiter s2 = sv_limiter ?s" "ui < length (sv_users s2)"
        "to_lower (usr_email (mu_row (sv_users s2 ! ui))) = to_lower (usr_email u)" by force
      moreover have "to_lower (usr_email u) = ?email" using x [OF Some] by (auto simp: right_password_def find_Some_iff)
      moreover have "r = Inr ui" "w' = w2" "s' = s2"
        using assms False lim check Some u by (auto simp: login_def Let_def io_bind_apply note_success_run)
      ultimately show ?thesis using False db2 x [OF Some] by (auto simp: Let_def right_password_def)
    qed
  qed
qed

lemma login_guarded_witness:
  "\<exists>ui w' s'. login small_backend (Some ''10.0.0.1'') '' Bob@X.org'' ''pw''
     (blank_world\<lparr>db := small_db\<lparr>users_t := [\<lparr>usr_id = 1, usr_domain_id = 1, usr_local_part = ''bob'', usr_email = ''bob@x.org'',
         usr_password_hash = ''$pw'', usr_is_admin = False\<rparr>]\<rparr>\<rparr>, bob_and_ann) = (Inr ui, (w', s')) \<and>
     to_lower (usr_email (mu_row (sv_users s' ! ui))) = ''bob@x.org''"
proof -
  let ?u = "\<lparr>usr_id = 1, usr_domain_id = 1, usr_local_part = ''bob'', usr_email = ''bob@x.org'',
         usr_password_hash = ''$pw'', usr_is_admin = False\<rparr>"
  let ?w = "blank_world\<lparr>db := small_db\<lparr>users_t := [?u]\<rparr>\<rparr>"
  obtain r w' s' where run: "login small_backend (Some ''10.0.0.1'') '' Bob@X.org'' ''pw'' (?w, bob_and_ann) = (r, (w', s'))"
    by (metis surj_pair)
  have ix: "indexed_users bob_and_ann" unfolding indexed_users_def by code_simp
  have email: "to_lower (trim_space '' Bob@X.org'') = ''bob@x.org''" by code_simp
  have free: "\<not> login_blocked ?w bob_and_ann ''10.0.0.1''" by code_simp
  have "bc_compare (bk_bcrypt small_backend) (usr_password_hash ?u) ''pw''" by (simp add: small_backend_def plain_bcrypt_def)
  moreover have "find (\<lambda>u. usr_email u = ''bob@x.org'') (users_t (db ?w)) = Some ?u" "faults ?w = []" by simp_all
  ultimately show ?thesis
    using login_guarded [OF ix run] free run unfolding client_ip_def email
    by (cases r) (auto simp: Let_def)
qed

end
