(* ===== verification/MoveInv.thy ===== *)
theory MoveInv
  imports UserInv
begin

text \<open>
  \<open>MOVE\<close> (\<open>session.go\<close>): the messages are copied to the destination before any is removed from the
  source. Shown: whatever system call fails, every chosen message is still in one of the two
  folders, and no other message of any folder is lost.
\<close>

section \<open>Folders that do not overlap\<close>

definition maildir_subs :: "string set" where
  "maildir_subs = {''tmp'', ''new'', ''cur''}"

definition roots_apart :: "path \<Rightarrow> path \<Rightarrow> bool" where
  "roots_apart r q \<longleftrightarrow> r \<noteq> q \<and> (\<forall>d \<in> maildir_subs. \<not> is_prefix (r @ [d]) q \<and> \<not> is_prefix (q @ [d]) r)"

definition only_in :: "path \<Rightarrow> (path \<Rightarrow> bytes option option) \<Rightarrow> (path \<Rightarrow> bytes option option) \<Rightarrow> bool" where
  "only_in q T T' \<longleftrightarrow> (\<exists>D \<subseteq> maildir_dirs q. \<forall>p. (\<forall>d \<in> maildir_subs. \<forall>n. p \<noteq> q @ [d, n]) \<longrightarrow> T' p = with_dirs D T p)"

lemma is_prefix_self_append: "is_prefix r (r @ x)"
  by (simp add: is_prefix_def)

lemma only_in_ok:
  assumes ok: "maildir_ok T r" and a: "roots_apart r q" and o: "only_in q T T'"
  shows "maildir_ok T' r"
proof -
  from o obtain D where D: "D \<subseteq> maildir_dirs q"
    and T': "\<And>p. (\<forall>d \<in> maildir_subs. \<forall>n. p \<noteq> q @ [d, n]) \<Longrightarrow> T' p = with_dirs D T p"
    unfolding only_in_def by blast
  have off: "r @ [d, n] \<notin> maildir_dirs q" if "d \<in> {''new'', ''cur''}" for d n
  proof
    assume "r @ [d, n] \<in> maildir_dirs q"
    then obtain e where "e \<in> maildir_subs" "r @ [d, n] \<in> set (path_prefixes (q @ [e]))"
      unfolding maildir_dirs_def maildir_subs_def by blast
    then obtain x where x: "r @ [d, n] = take x (q @ [e])" unfolding path_prefixes_def set_map by blast
    have "butlast (q @ [e]) = butlast ((r @ [d, n]) @ drop x (q @ [e]))"
      by (simp only: x append_take_drop_id)
    then have "q = (r @ [d]) @ butlast (n # drop x (q @ [e]))" by (simp add: butlast_append)
    then have "is_prefix (r @ [d]) q" by (metis is_prefix_self_append)
    with a that show False by (auto simp: roots_apart_def maildir_subs_def)
  qed
  have leaf: "T' (r @ [d, n]) = T (r @ [d, n])" if "d \<in> {''new'', ''cur''}" for d n
    using T' [of "r @ [d, n]"] a off [OF that] D by (auto simp: roots_apart_def with_dirs_def)
  have dir: "T' (r @ [d]) = Some None" if "d \<in> {''new'', ''cur''}" "T (r @ [d]) = Some None" for d
  proof -
    have "r @ [d] \<noteq> q @ [e, n]" if "e \<in> maildir_subs" for e n
    proof
      assume "r @ [d] = q @ [e, n]"
      then have "r = q @ [e]" by simp
      with a that show False by (auto simp: roots_apart_def is_prefix_def)
    qed
    then show ?thesis using T' [of "r @ [d]"] that by (simp add: with_dirs_def)
  qed
  show ?thesis
    unfolding maildir_ok_def
  proof (intro conjI ballI allI impI, goal_cases)
    case (1 d n)
    then show ?case using maildir_ok_file [OF ok, of d n] leaf [of d n] by simp
  next
    case (2 d n)
    then show ?case using maildir_ok_file [OF ok, of d n] leaf [of d n] dir [of d] by simp
  next
    case (3 d n)
    then show ?case using maildir_ok_file [OF ok, of d n] leaf [of d n] by auto
  next
    case (4 d d' n n')
    then show ?case using maildir_ok_unique [OF ok, of d d' n n'] leaf [of d n] leaf [of d' n'] by simp
  next
    case (5 d d' n n')
    then show ?case using maildir_ok_unique [OF ok, of d d' n n'] leaf [of d n] leaf [of d' n'] by simp
  qed
qed

lemma deliver_only_in: "maildir_deliver q data w = (x, w') \<Longrightarrow> only_in q (tree w) (tree w')"
proof (cases x)
  case (Inl e)
  assume "maildir_deliver q data w = (x, w')"
  with Inl have "only_tmp_differs (tree w) q w'" using tripleD_err [OF triple_deliver refl] by blast
  then obtain D n where "D \<subseteq> maildir_dirs q" "\<forall>p. p \<noteq> q @ [''tmp'', n] \<longrightarrow> tree w' p = with_dirs D (tree w) p"
    unfolding only_tmp_differs_def by blast
  then show ?thesis unfolding only_in_def maildir_subs_def by blast
next
  case (Inr k)
  assume "maildir_deliver q data w = (x, w')"
  with deliver_tree Inr have "tree w' = (with_dirs (maildir_dirs q) (tree w))(q @ [''new'', k] \<mapsto> Some data)" by blast
  then show ?thesis unfolding only_in_def maildir_subs_def by (intro exI [of _ "maildir_dirs q"]) auto
qed

lemma set_flags_only_in:
  assumes "maildir_ok (tree w) q" and "maildir_set_flags q k fl w = (x, w')"
  shows "only_in q (tree w) (tree w') \<and> maildir_ok (tree w') q \<and> (\<forall>r k c. has_message w' r k c = has_message w r k c)"
proof (cases x)
  case (Inl e)
  with assms tripleD_err [OF triple_set_flags [OF assms(1)] refl] have "tree w' = tree w" by blast
  then show ?thesis using assms(1) by (auto simp: only_in_def with_dirs_def intro!: exI [of _ "{}"])
next
  case (Inr u)
  from tripleD_ok [OF triple_set_flags [OF assms(1)] refl assms(2) [unfolded Inr]] obtain d n c where
    "located (tree w) q k (d, n)"
    "tree w' = (tree w)(q @ [d, n] := None, q @ [''cur'', k @ '':2,'' @ normal_letters fl] \<mapsto> Some c)" by blast
  then have "only_in q (tree w) (tree w')"
    by (auto simp: only_in_def with_dirs_def maildir_subs_def located_def intro!: exI [of _ "{}"])
  with set_flags_facts [OF assms(1) assms(2) [unfolded Inr]] show ?thesis by blast
qed

section \<open>The counter of message names\<close>

definition same_counter :: "world \<Rightarrow> world \<Rightarrow> bool" where
  "same_counter w w' \<longleftrightarrow> counter w' = counter w"

interpretation countop: effect same_counter
  by unfold_locales (simp_all add: same_counter_def)

lemma counter_may_fail: "keeps same_counter m \<Longrightarrow> keeps same_counter (may_fail e m)"
  by (auto simp: keeps_def same_counter_def may_fail_def split: list.splits)

lemma counter_syscalls:
  "keeps same_counter (os_mkdir_all p)" "keeps same_counter (os_read_dir p)" "keeps same_counter (os_create_excl p)"
  "keeps same_counter (file_write p d)" "keeps same_counter file_sync" "keeps same_counter file_close"
  "keeps same_counter (os_read_file p)" "keeps same_counter (os_rename p q)" "keeps same_counter (os_remove p)"
  "keeps same_counter (rand_read n)" "keeps same_counter os_hostname" "keeps same_counter time_now"
  "keeps same_counter (db_select f)" "keeps same_counter (db_get g)" "keeps same_counter (db_exec h)"
  unfolding os_mkdir_all_def os_read_dir_def os_create_excl_def file_write_def file_sync_def file_close_def
    os_read_file_def os_rename_def os_remove_def rand_read_def os_hostname_def db_select_def db_get_def db_exec_def
  by ((rule counter_may_fail)?; auto simp: keeps_def same_counter_def io_ret_def io_gets_def time_now_def
      split: option.splits node.splits list.splits sum.splits)+

lemma counter_in_tx: "keeps same_counter m \<Longrightarrow> keeps same_counter (in_tx m)"
proof -
  assume m: "keeps same_counter m"
  have k: "keeps same_counter (io_bind m (\<lambda>x. may_fail ErrDB (io_ret x)))"
    by (intro countop.keeps_rules counter_may_fail m)
  show ?thesis unfolding in_tx_def
  proof (rule counter_may_fail)
    show "keeps same_counter (\<lambda>w. case io_bind m (\<lambda>x. may_fail ErrDB (io_ret x)) w of
        (Inl e, w') \<Rightarrow> (Inl e, w'\<lparr>db := db w\<rparr>) | (Inr x, w') \<Rightarrow> (Inr x, w'))"
      unfolding keeps_def
    proof
      fix w
      obtain r w' where run: "io_bind m (\<lambda>x. may_fail ErrDB (io_ret x)) w = (r, w')" by force
      from keepsD [OF k, of w] run show "same_counter w (snd (case io_bind m (\<lambda>x. may_fail ErrDB (io_ret x)) w of
          (Inl e, w') \<Rightarrow> (Inl e, w'\<lparr>db := db w\<rparr>) | (Inr x, w') \<Rightarrow> (Inr x, w')))"
        by (cases r) (simp_all add: same_counter_def)
    qed
  qed
qed

lemmas counter_effects = countop.keeps_rules counter_syscalls counter_in_tx

lemma counter_ops:
  "keeps same_counter (maildir_open root k)" "keeps same_counter (maildir_set_flags root k f)"
  "keeps same_counter (insert_message s mid k f t z)" "keeps same_counter (update_message_flags mid k f)"
  "keeps same_counter (maildir_init root)" "keeps same_counter (write_new root n d)"
proof -
  have find: "keeps same_counter (maildir_find root k)" for root k
    unfolding maildir_find_def find_in_def by (intro counter_effects keeps_case_option)
  show "keeps same_counter (maildir_open root k)" "keeps same_counter (maildir_set_flags root k f)"
    unfolding maildir_open_def maildir_set_flags_def Let_def by (intro counter_effects keeps_case_prod find)+
  show "keeps same_counter (insert_message s mid k f t z)" "keeps same_counter (update_message_flags mid k f)"
    unfolding insert_message_def update_message_flags_def by (intro counter_effects)+
  show "keeps same_counter (maildir_init root)" "keeps same_counter (write_new root n d)"
    unfolding maildir_init_def write_new_def abandon_def Let_def by (intro counter_effects)+
qed

text \<open>The name a delivery gives carries the next value of the counter.\<close>

definition named_with :: "64 word \<Rightarrow> string \<Rightarrow> bool" where
  "named_with n k \<longleftrightarrow> (\<exists>ts buf p h. k = format_name ts buf p n h)"

lemma named_with_inj: "named_with n k \<Longrightarrow> named_with n' k \<Longrightarrow> n = n'"
  unfolding named_with_def using format_name_counter by metis

lemma counter_run: "keeps same_counter m \<Longrightarrow> m w = (x, w') \<Longrightarrow> counter w' = counter w"
  by (auto simp: keeps_def same_counter_def) (metis snd_conv)

lemma unique_name_counter:
  assumes "unique_name w = (Inr n, w')"
  shows "counter w' = counter w + 1 \<and> named_with (counter w + 1) n"
proof -
  from assms obtain host w1 buf w2 m w3 ts w4 where
    1: "io_either os_hostname (\<lambda>_. io_ret ''localhost'') io_ret w = (Inr host, w1)"
    and 2: "rand_read 8 w1 = (Inr buf, w2)" and 3: "next_counter w2 = (Inr m, w3)" and 4: "time_now w3 = (Inr ts, w4)"
    and r: "n = format_name ts buf (pid w4) m (escape_host host)" "w' = w4"
    by (auto simp: unique_name_def io_oks io_gets_def)
  have "keeps same_counter (io_either os_hostname (\<lambda>_. io_ret ''localhost'') io_ret)" by (intro counter_effects)
  from counter_run [OF this 1] counter_run [OF counter_syscalls(10) 2] counter_run [OF counter_syscalls(12) 4] 3 r
  show ?thesis by (auto simp: next_counter_def named_with_def)
qed

lemma deliver_counter:
  assumes "maildir_deliver root d w = (Inr k, w')"
  shows "counter w' = counter w + 1 \<and> named_with (counter w + 1) k"
proof -
  from assms obtain u w1 n w2 where 1: "maildir_init root w = (Inr u, w1)" and 2: "unique_name w1 = (Inr n, w2)"
    and 3: "write_new root n d w2 = (Inr k, w')" by (auto simp: maildir_deliver_def io_oks)
  have "message_name n" by (rule unique_name_name [OF 2])
  from tripleD_ok [OF triple_write_new [OF this] refl 3] have "k = n" by blast
  with counter_run [OF counter_ops(5) 1] unique_name_counter [OF 2] counter_run [OF counter_ops(6) 3]
  show ?thesis by simp
qed

section \<open>Copying one message\<close>

text \<open>Both folders are well formed, the counter stands at \<open>n\<close> and the messages are those of \<open>H\<close>.\<close>

definition holding :: "path \<Rightarrow> path \<Rightarrow> 64 word \<Rightarrow> (path \<Rightarrow> string \<Rightarrow> bytes \<Rightarrow> bool) \<Rightarrow> world \<Rightarrow> bool" where
  "holding src dst n H w \<longleftrightarrow> maildir_ok (tree w) src \<and> maildir_ok (tree w) dst \<and> counter w = n \<and>
     (\<forall>r k c. has_message w r k c = H r k c)"

lemma holding_keep:
  assumes "keeps same_tree m" and "keeps same_counter m"
  shows "triple (holding src dst n H) m (\<lambda>_. holding src dst n H) (\<lambda>_. holding src dst n H)"
proof -
  have "holding src dst n H w'" if "holding src dst n H w" "m w = (x, w')" for w x w'
    using that keepsD [OF assms(1), of w] keepsD [OF assms(2), of w]
    by (simp add: holding_def same_tree_def same_counter_def)
  then show ?thesis by (intro tripleI) blast+
qed

lemma holding_set_flags:
  assumes "roots_apart src dst"
  shows "triple (holding src dst n H) (maildir_set_flags dst k f) (\<lambda>_. holding src dst n H) (\<lambda>_. holding src dst n H)"
proof -
  have "holding src dst n H w'" if h: "holding src dst n H w" and run: "maildir_set_flags dst k f w = (x, w')" for w x w'
    using h set_flags_only_in [OF _ run] only_in_ok [OF _ assms] counter_run [OF counter_ops(2) run]
    by (auto simp: holding_def)
  then show ?thesis by (intro tripleI) blast+
qed

lemma append_store_run:
  assumes h: "holding src (mb_root b) n H w" and a: "roots_apart src (mb_root b)"
    and fresh: "\<And>k c. named_with (n + 1) k \<Longrightarrow> \<not> H (mb_root b) k c"
    and run: "append_store s b buf t fl w = (x, w')"
  shows "(\<forall>r k c. H r k c \<longrightarrow> has_message w' r k c) \<and>
    (case x of Inl e \<Rightarrow> True
     | Inr m \<Rightarrow> named_with (n + 1) (m_key m) \<and>
         holding src (mb_root b) (n + 1) (has_message w') w' \<and>
         (\<forall>r k c. (r, k) \<noteq> (mb_root b, m_key m) \<longrightarrow> has_message w' r k c = H r k c) \<and>
         has_message w' (mb_root b) (m_key m) buf)"
proof (cases "maildir_deliver (mb_root b) buf w")
  case (Pair y w1)
  show ?thesis
  proof (cases y)
    case (Inl e)
    with Pair run have "x = Inl (Wrapped ''delivering appended message'' e)" "w' = w1"
      by (auto simp: append_store_def io_bind_apply io_wrap_apply)
    with h md.deliver_err [OF Pair [unfolded Inl]] show ?thesis by (auto simp: holding_def)
  next
    case (Inr key)
    let ?root = "mb_root b" and ?letters = "maildir_letters_from_flag_list fl"
    note del = Pair [unfolded Inr]
    from deliver_counter [OF del] h have key: "counter w1 = n + 1" "named_with (n + 1) key" by (simp_all add: holding_def)
    let ?H = "\<lambda>r k c. has_message w1 r k c"
    have "\<forall>c. \<not> maildir_has (tree w) ?root key c" using fresh [OF key(2)] h by (simp add: holding_def)
    then have "maildir_ok (tree w1) ?root" using deliver_ok [OF _ del] h by (simp add: holding_def)
    moreover have "maildir_ok (tree w1) src"
      using only_in_ok [OF _ a deliver_only_in [OF del]] h by (simp add: holding_def)
    ultimately have h1: "holding src ?root (n + 1) ?H w1" using key by (simp add: holding_def)
    let ?tail = "io_bind (case t of Some t \<Rightarrow> io_ret t | None \<Rightarrow> time_now) (\<lambda>t.
     io_bind (io_wrap ''indexing appended message'' (insert_message s (mb_db_id b) key ?letters t (int (length buf)))) (\<lambda>uid.
     io_bind (if fl \<noteq> [] then
         io_bind (update_message_flags (mb_db_id b) key (encode_flags fl)) (\<lambda>_.
         maildir_set_flags (mb_root b) key ?letters)
       else io_ret ()) (\<lambda>_.
     io_ret \<lparr>m_uid = uid, m_key = key, m_t = t, m_size = int (length buf),
       m_flags = fold (\<lambda>f l. add_flag (canonical_flag f) l) fl []\<rparr>)))"
    let ?K = "holding src ?root (n + 1) ?H"
    have tail: "triple ?K ?tail (\<lambda>m w. ?K w \<and> m_key m = key) (\<lambda>_. ?K)"
    proof (rule triple_bind [where R = "\<lambda>_. ?K"])
      show "triple ?K (case t of Some t \<Rightarrow> io_ret t | None \<Rightarrow> time_now) (\<lambda>_. ?K) (\<lambda>_. ?K)"
        by (rule holding_keep) (auto split: option.splits intro: tree_effects counter_effects)
      fix t'
      show "triple ?K (io_bind (io_wrap ''indexing appended message'' (insert_message s (mb_db_id b) key ?letters t' (int (length buf)))) (\<lambda>uid.
         io_bind (if fl \<noteq> [] then
             io_bind (update_message_flags (mb_db_id b) key (encode_flags fl)) (\<lambda>_.
             maildir_set_flags (mb_root b) key ?letters)
           else io_ret ()) (\<lambda>_.
         io_ret \<lparr>m_uid = uid, m_key = key, m_t = t', m_size = int (length buf),
           m_flags = fold (\<lambda>f l. add_flag (canonical_flag f) l) fl []\<rparr>))) (\<lambda>m w. ?K w \<and> m_key m = key) (\<lambda>_. ?K)"
      proof (rule triple_bind [where R = "\<lambda>_. ?K"], rule triple_wrap, rule holding_keep)
        show "triple ?K (io_bind (if fl \<noteq> [] then
             io_bind (update_message_flags (mb_db_id b) key (encode_flags fl)) (\<lambda>_.
             maildir_set_flags (mb_root b) key ?letters)
           else io_ret ()) (\<lambda>_. io_ret \<lparr>m_uid = uid, m_key = key, m_t = t', m_size = int (length buf),
           m_flags = fold (\<lambda>f l. add_flag (canonical_flag f) l) fl []\<rparr>)) (\<lambda>m w. ?K w \<and> m_key m = key) (\<lambda>_. ?K)" for uid
        proof (rule triple_bind [where R = "\<lambda>_. ?K"])
          show "triple ?K (if fl \<noteq> [] then io_bind (update_message_flags (mb_db_id b) key (encode_flags fl)) (\<lambda>_.
             maildir_set_flags (mb_root b) key ?letters) else io_ret ()) (\<lambda>_. ?K) (\<lambda>_. ?K)"
            by (auto intro!: triple_ret triple_bind [OF holding_keep holding_set_flags [OF a]] store_same_tree counter_ops)
        qed (auto intro: triple_ret)
      qed (intro store_same_tree counter_ops)+
    qed
    have run1: "?tail w1 = (x, w')"
      using run Pair Inr by (simp add: append_store_def io_bind_apply io_wrap_apply Let_def)
    have K: "?K w'" "\<And>m. x = Inr m \<Longrightarrow> m_key m = key"
    proof -
      show "?K w'"
      proof (cases x)
        case (Inl e)
        show ?thesis by (rule tripleD_err [OF tail h1 run1 [unfolded Inl]])
      next
        case (Inr m)
        show ?thesis using tripleD_ok [OF tail h1 run1 [unfolded Inr]] by (rule conjunct1)
      qed
      show "m_key m = key" if "x = Inr m" for m using tripleD_ok [OF tail h1 run1 [unfolded that]] by (rule conjunct2)
    qed
    then have same: "has_message w' r k c = has_message w1 r k c" for r k c by (simp add: holding_def)
    have frame: "has_message w1 r k c = H r k c" if "(r, k) \<noteq> (?root, key)" for r k c
      using md.deliver_frame [OF del that] h by (simp add: holding_def)
    have none: "\<not> H ?root key c" for c by (rule fresh [OF key(2)])
    have up: "H r k c \<longrightarrow> has_message w' r k c" for r k c
      using frame [of r k c] none same by (cases "(r, k) = (?root, key)") auto
    have "holding src ?root (n + 1) (has_message w') w'" using K(1) by (simp add: holding_def)
    with up K(2) key(2) md.deliver_has [OF del] same frame show ?thesis by (auto split: sum.splits)
  qed
qed

section \<open>The copies\<close>

record move_setup =
  mv_src :: path
  mv_dst :: path
  mv_box :: nat
  mv_dest :: nat
  mv_mbox :: mbox
  mv_has :: "path \<Rightarrow> string \<Rightarrow> bytes \<Rightarrow> bool"
  mv_counter :: "64 word"
  mv_num :: nat

definition copying :: "move_setup \<Rightarrow> nat \<Rightarrow> world \<times> srv \<Rightarrow> bool" where
  "copying S j = (\<lambda>(w, s). holding (mv_src S) (mv_dst S) (mv_counter S + word_of_nat j) (has_message w) w \<and>
     (\<forall>k c. has_message w (mv_src S) k c = mv_has S (mv_src S) k c) \<and>
     (\<forall>r k c. mv_has S r k c \<longrightarrow> has_message w r k c) \<and>
     (\<forall>k c l. has_message w (mv_dst S) k c \<longrightarrow> j < l \<longrightarrow> l \<le> mv_num S \<longrightarrow> \<not> named_with (mv_counter S + word_of_nat l) k) \<and>
     mb_root (sv_heap s ! mv_dest S) = mv_dst S \<and> sv_heap s ! mv_box S = mv_mbox S \<and> mv_dest S < length (sv_heap s))"

definition copied :: "move_setup \<Rightarrow> message list \<Rightarrow> world \<times> srv \<Rightarrow> bool" where
  "copied S ms = (\<lambda>(w, s). \<forall>m \<in> set ms. \<forall>c. mv_has S (mv_src S) (m_key m) c \<longrightarrow> (\<exists>k. has_message w (mv_dst S) k c))"

definition all_there :: "move_setup \<Rightarrow> world \<times> srv \<Rightarrow> bool" where
  "all_there S = (\<lambda>(w, s). \<forall>r k c. mv_has S r k c \<longrightarrow> has_message w r k c)"

lemma content_unique: "maildir_ok T r \<Longrightarrow> maildir_has T r k c \<Longrightarrow> maildir_has T r k c' \<Longrightarrow> c = c'"
  unfolding has_located using located_unique by (metis option.inject)

lemma counter_distinct: "j < l \<Longrightarrow> l < 2 ^ 64 \<Longrightarrow> (c0 :: 64 word) + word_of_nat l \<noteq> c0 + word_of_nat j"
proof
  assume "j < l" "l < 2 ^ 64" "c0 + word_of_nat l = c0 + word_of_nat j"
  then have "(word_of_nat l :: 64 word) = word_of_nat j" by simp
  then have "unat (word_of_nat l :: 64 word) = unat (word_of_nat j :: 64 word)" by simp
  with \<open>j < l\<close> \<open>l < 2 ^ 64\<close> show False by (simp add: unat_of_nat take_bit_eq_mod)
qed

lemma at_box_append_run:
  "at_box i (append_bytes st buf t fl) (w, s) = (case append_store st (sv_heap s ! i) buf t fl w of
     (Inl e, w') \<Rightarrow> (Inl e, (w', s\<lparr>sv_heap := (sv_heap s)[i := sv_heap s ! i]\<rparr>))
   | (Inr m, w') \<Rightarrow> (Inr (mb_uid_validity (sv_heap s ! i), m_uid m), (w', s\<lparr>sv_heap := (sv_heap s)[i :=
       (sv_heap s ! i)\<lparr>mb_list := mb_list (sv_heap s ! i) @ [m],
          mb_log := mb_log (sv_heap s ! i) @ [NumMessages (num_messages (mb_list (sv_heap s ! i) @ [m]))]\<rparr>]\<rparr>)))"
  by (auto simp: at_box_def append_run split: prod.splits sum.splits)

lemma copy_one_step:
  assumes C: "copying S j (w, s)" and j: "j < mv_num S" "mv_num S < 2 ^ 64"
    and apart: "roots_apart (mv_src S) (mv_dst S)" and ne: "mv_dest S \<noteq> mv_box S"
    and run: "copy_one B (mv_src S) (mv_dest S) m (w, s) = (x, t)"
  shows "all_there S t \<and> (\<forall>k c. has_message w (mv_dst S) k c \<longrightarrow> has_message (fst t) (mv_dst S) k c) \<and>
    (\<forall>y. x = Inr y \<longrightarrow> copying S (Suc j) t \<and> copied S [m] t)"
proof (cases "maildir_open (mv_src S) (m_key m) w")
  case (Pair y w1)
  let ?src = "mv_src S" and ?dst = "mv_dst S" and ?c = "mv_counter S"
  have same: "has_message w1 r k c = has_message w r k c" for r k c by (rule md.open_frame [OF Pair])
  have ok: "maildir_ok (tree w) ?src" using C by (simp add: copying_def holding_def)
  show ?thesis
  proof (cases y)
    case (Inl e)
    with Pair run have "x = Inl e" "t = (w1, s)" by (auto simp: copy_one_def io_bind_apply on_world_def)
    with C same show ?thesis by (auto simp: copying_def all_there_def)
  next
    case (Inr buf)
    let ?b = "sv_heap s ! mv_dest S"
    obtain z w2 where app: "append_store (bk_store B) ?b buf (Some (m_t m)) (m_flags m) w1 = (z, w2)" by fastforce
    have root: "mb_root ?b = ?dst" using C by (simp add: copying_def)
    have next_word: "?c + word_of_nat j + 1 = ?c + word_of_nat (Suc j)" by (simp add: algebra_simps)
    have tree1: "tree w1 = tree w" using tripleD_ok [OF triple_open refl Pair [unfolded Inr]] by (rule conjunct1)
    have "holding ?src (mb_root ?b) (?c + word_of_nat j) (has_message w) w1"
      using C counter_run [OF counter_ops(1) Pair] tree1 same by (simp add: copying_def holding_def root)
    moreover have "\<not> has_message w (mb_root ?b) k c" if "named_with (?c + word_of_nat j + 1) k" for k c
    proof
      assume "has_message w (mb_root ?b) k c"
      with C have "j < Suc j \<longrightarrow> Suc j \<le> mv_num S \<longrightarrow> \<not> named_with (?c + word_of_nat (Suc j)) k"
        unfolding root copying_def prod.case by blast
      with that j(1) show False unfolding next_word by simp
    qed
    ultimately have F: "\<forall>r k c. has_message w r k c \<longrightarrow> has_message w2 r k c"
      and G: "\<And>m'. z = Inr m' \<Longrightarrow> named_with (?c + word_of_nat (Suc j)) (m_key m') \<and>
         holding ?src ?dst (?c + word_of_nat (Suc j)) (has_message w2) w2 \<and>
         (\<forall>r k c. (r, k) \<noteq> (?dst, m_key m') \<longrightarrow> has_message w2 r k c = has_message w r k c) \<and> has_message w2 ?dst (m_key m') buf"
      using append_store_run [OF _ _ _ app, where src = ?src and n = "?c + word_of_nat j" and H = "has_message w"] apart
      unfolding root next_word by auto
    have t: "fst t = w2" "isl x = isl z"
      using run Pair Inr app by (auto simp: copy_one_def io_bind_apply on_world_def at_box_append_run io_ret_def split: prod.splits sum.splits)
    have there: "all_there S t"
    proof -
      have "\<forall>r k c. mv_has S r k c \<longrightarrow> has_message w r k c" using C by (simp add: copying_def)
      with F have "\<forall>r k c. mv_has S r k c \<longrightarrow> has_message (fst t) r k c" unfolding t(1) by blast
      then show ?thesis by (cases t) (simp add: all_there_def)
    qed
    have "copying S (Suc j) t \<and> copied S [m] t" if "x = Inr xx" for xx
    proof -
      from t(2) that obtain m' where z: "z = Inr m'" by (cases z) auto
      note G = G [OF z]
      from run Pair Inr app z have t': "t = (w2, s\<lparr>sv_heap := (sv_heap s)[mv_dest S := ?b\<lparr>mb_list := mb_list ?b @ [m'],
          mb_log := mb_log ?b @ [NumMessages (num_messages (mb_list ?b @ [m']))]\<rparr>]\<rparr>)"
        by (simp add: copy_one_def io_bind_apply on_world_def at_box_append_run io_ret_def)
      have names: "\<not> named_with (?c + word_of_nat l) k" if k: "has_message w2 ?dst k c" and l: "Suc j < l" "l \<le> mv_num S" for k c l
      proof (cases "k = m_key m'")
        case True
        have "?c + word_of_nat l \<noteq> ?c + word_of_nat (Suc j)" by (rule counter_distinct) (use l j in auto)
        with G True named_with_inj show ?thesis by metis
      next
        case False
        with G k have "has_message w ?dst k c" by auto
        with C l show ?thesis unfolding copying_def by auto
      qed
      have "?src \<noteq> ?dst" using apart by (simp add: roots_apart_def)
      with C G have "\<forall>k c. has_message w2 ?src k c = mv_has S ?src k c" by (simp add: copying_def)
      with C G names there ne t' root have "copying S (Suc j) t" by (auto simp: copying_def all_there_def)
      moreover have "copied S [m] t"
      proof -
        have "c = buf" if "mv_has S ?src (m_key m) c" for c
        proof -
          have "has_message w ?src (m_key m) c" using C that by (simp add: copying_def)
          moreover have "has_message w ?src (m_key m) buf" using md.open_has [OF Pair [unfolded Inr]] .
          ultimately show ?thesis using content_unique [OF ok] by blast
        qed
        with G show ?thesis unfolding t' copied_def by auto
      qed
      ultimately show ?thesis ..
    qed
    with there F t(1) show ?thesis by auto
  qed
qed

lemma copies:
  assumes j: "mv_num S = length ms" "mv_num S < 2 ^ 64"
    and apart: "roots_apart (mv_src S) (mv_dst S)" and ne: "mv_dest S \<noteq> mv_box S"
  shows "triple (copying S 0) (io_map (copy_one B (mv_src S) (mv_dest S)) ms)
    (\<lambda>_ t. copying S (length ms) t \<and> copied S ms t) (\<lambda>_. all_there S)"
proof -
  let ?I = "\<lambda>pre (ys :: (u32 \<times> u32) list) t. copying S (length pre) t \<and> copied S pre t"
  have "triple (?I [] []) (io_map (copy_one B (mv_src S) (mv_dest S)) ms) (\<lambda>ys. ?I ms ys) (\<lambda>_. all_there S)"
  proof (rule triple_map [where I = ?I])
    fix pre m rest and ys :: "(u32 \<times> u32) list"
    assume "ms = pre @ m # rest"
    then have l: "length pre < mv_num S" using j(1) by simp
    show "triple (\<lambda>t. copying S (length pre) t \<and> copied S pre t) (copy_one B (mv_src S) (mv_dest S) m)
        (\<lambda>y t. copying S (length (pre @ [m])) t \<and> copied S (pre @ [m]) t) (\<lambda>_. all_there S)"
    proof (rule tripleI)
      fix t y t'
      assume a: "copying S (length pre) t \<and> copied S pre t" and r: "copy_one B (mv_src S) (mv_dest S) m t = (Inr y, t')"
      obtain w s where t: "t = (w, s)" by fastforce
      note st = copy_one_step [OF conjunct1 [OF a [unfolded t]] l j(2) apart ne r [unfolded t]]
      have "copied S pre t'"
        using a st unfolding t copied_def by (cases t') fastforce
      with st show "copying S (length (pre @ [m])) t' \<and> copied S (pre @ [m]) t'"
        by (cases t') (auto simp: copied_def)
    next
      fix t e t'
      assume a: "copying S (length pre) t \<and> copied S pre t" and r: "copy_one B (mv_src S) (mv_dest S) m t = (Inl e, t')"
      obtain w s where t: "t = (w, s)" by fastforce
      show "all_there S t'"
        using copy_one_step [OF conjunct1 [OF a [unfolded t]] l j(2) apart ne r [unfolded t]] by blast
    qed
  qed
  then show ?thesis by (simp add: copied_def case_prod_beta)
qed

section \<open>The removals\<close>

lemma remove_keeps_ok:
  assumes ok: "maildir_ok (tree w) r" and run: "maildir_remove r k w = (x, w')"
  shows "maildir_ok (tree w') r"
proof (cases x)
  case (Inl e)
  with tripleD_err [OF triple_maildir_remove [OF ok] refl] run ok show ?thesis by auto
next
  case (Inr u)
  with remove_tree [OF ok] run obtain d n where "located (tree w) r k (d, n)" and T: "tree w' = (tree w)(r @ [d, n] := None)"
    by blast
  have sub: "tree w' p \<noteq> None \<Longrightarrow> tree w' p = tree w p" for p unfolding T by (cases "p = r @ [d, n]") simp_all
  have dir: "tree w' (r @ [e]) = tree w (r @ [e])" for e unfolding T by simp
  show ?thesis
    unfolding maildir_ok_def dir
  proof (intro conjI ballI allI impI, goal_cases)
    case (1 e m)
    then show ?case using maildir_ok_file [OF ok, of e m] sub by metis
  next
    case (2 e m)
    then show ?case using maildir_ok_file [OF ok, of e m] sub by metis
  next
    case (3 e m)
    then show ?case using maildir_ok_file [OF ok, of e m] sub by (metis option.inject option.distinct(1))
  next
    case (4 e e' m m')
    then show ?case using maildir_ok_unique [OF ok, of e e' m m'] sub by metis
  next
    case (5 e e' m m')
    then show ?case using maildir_ok_unique [OF ok, of e e' m m'] sub by metis
  qed
qed

definition removing :: "path \<Rightarrow> (path \<Rightarrow> string \<Rightarrow> bytes \<Rightarrow> bool) \<Rightarrow> string set \<Rightarrow> string set \<Rightarrow> world \<times> srv \<Rightarrow> bool" where
  "removing src H K G = (\<lambda>(w, s). maildir_ok (tree w) src \<and>
     (\<forall>r k c. \<not> (r = src \<and> k \<in> K) \<longrightarrow> H r k c \<longrightarrow> has_message w r k c) \<and> (\<forall>k \<in> G. \<forall>c. \<not> has_message w src k c))"

lemma removals:
  assumes "m_key ` set ms \<subseteq> K"
  shows "triple (removing src H K G) (io_for ms (\<lambda>m. io_bind (on_world (maildir_remove src (m_key m))) (\<lambda>_.
      on_world (delete_message_by_key mid (m_key m))))) (\<lambda>_. removing src H K (G \<union> m_key ` set ms)) (\<lambda>_. removing src H K {})"
  using assms
proof (induction ms arbitrary: G)
  case Nil
  show ?case by (auto intro: triple_ret)
next
  case (Cons m ms)
  have one: "removing src H K (case x of Inl e \<Rightarrow> {} | Inr u \<Rightarrow> insert (m_key m) G) t'"
    if R: "removing src H K G t" and run: "on_world (maildir_remove src (m_key m)) t = (x, t')" for t x t'
  proof -
    obtain w s where t: "t = (w, s)" by fastforce
    with run obtain w' where w': "maildir_remove src (m_key m) w = (x, w')" "t' = (w', s)"
      by (auto simp: on_world_def split: prod.splits)
    have ok: "maildir_ok (tree w) src" using R by (simp add: t removing_def)
    have frame: "has_message w' r k c = has_message w r k c" if "(r, k) \<noteq> (src, m_key m)" for r k c
      by (rule md.remove_frame [OF ok w'(1) that])
    have K: "m_key m \<in> K" using Cons.prems by simp
    have "has_message w' r k c" if "\<not> (r = src \<and> k \<in> K)" "H r k c" for r k c
      using R that frame [of r k c] K by (auto simp: t removing_def)
    moreover have "\<not> has_message w' src k c" if "x = Inr u" "k \<in> insert (m_key m) G" for k c u
    proof (cases "k = m_key m")
      case True
      with md.remove_gone [OF ok w'(1) [unfolded that(1)]] show ?thesis by simp
    next
      case False
      with that R frame [of src k c] show ?thesis by (auto simp: t removing_def)
    qed
    ultimately show ?thesis using remove_keeps_ok [OF ok w'(1)] by (auto simp: w'(2) removing_def split: sum.splits)
  qed
  have row: "removing src H K G' t'" if "removing src H K G' t" "on_world (delete_message_by_key mid k) t = (x, t')"
    for G' t x t' k
    using that keepsD [OF store_same_tree(5) [where mid = mid and k = k], of "fst t"]
    by (cases t) (auto simp: on_world_def same_tree_def removing_def split: prod.splits)
  have less: "removing src H K {} t" if "removing src H K G' t" for G' t using that by (auto simp: removing_def)
  have step: "triple (removing src H K G) (io_bind (on_world (maildir_remove src (m_key m))) (\<lambda>_.
      on_world (delete_message_by_key mid (m_key m)))) (\<lambda>_. removing src H K (insert (m_key m) G)) (\<lambda>_. removing src H K {})"
  proof (rule triple_bind)
    show "triple (removing src H K G) (on_world (maildir_remove src (m_key m))) (\<lambda>_. removing src H K (insert (m_key m) G)) (\<lambda>_. removing src H K {})"
      using one by (intro tripleI) fastforce+
    show "triple (removing src H K (insert (m_key m) G)) (on_world (delete_message_by_key mid (m_key m)))
        (\<lambda>_. removing src H K (insert (m_key m) G)) (\<lambda>_. removing src H K {})"
      using row less by (intro tripleI) blast+
  qed
  have IH: "triple (removing src H K (insert (m_key m) G)) (io_for ms (\<lambda>m. io_bind (on_world (maildir_remove src (m_key m))) (\<lambda>_.
      on_world (delete_message_by_key mid (m_key m))))) (\<lambda>_. removing src H K (insert (m_key m) G \<union> m_key ` set ms)) (\<lambda>_. removing src H K {})"
    by (rule Cons.IH) (use Cons.prems in simp)
  have "G \<union> m_key ` set (m # ms) = insert (m_key m) G \<union> m_key ` set ms" by auto
  then show ?case unfolding io_for.simps by (metis triple_bind [OF step IH])
qed

section \<open>Moving\<close>

text \<open>No message of the folder carries one of the next \<open>n\<close> values of the counter in its name.\<close>

definition names_free :: "(path \<Rightarrow> bytes option option) \<Rightarrow> path \<Rightarrow> 64 word \<Rightarrow> nat \<Rightarrow> bool" where
  "names_free T root c n \<longleftrightarrow> (\<forall>k b l. maildir_has T root k b \<longrightarrow> 0 < l \<longrightarrow> l \<le> n \<longrightarrow> \<not> named_with (c + word_of_nat l) k)"

lemma copy_dest_cached:
  assumes "map_of (mu_boxes (sv_users s ! ss_user ss)) (canonical_mailbox_name name) = Some dest"
    and "ss_selected ss = Some (i, v)" and "dest \<noteq> i"
  shows "copy_dest B ss name (w, s) = (Inr (dest, i, v), (w, s))"
  using assms by (simp add: copy_dest_def mailbox_def mailbox_locked_def the_srv_def io_bind_apply io_either_apply
      io_gets_def io_ret_def Let_def)

lemma move_tail:
  "fst (snd (io_bind (at_box i (expunge_locked uids)) (\<lambda>nums. io_bind (box dest) (\<lambda>d.
     io_ret (mb_uid_validity d, us, map (vw_enc v) nums))) t)) = fst t \<and>
   (\<exists>y. fst (io_bind (at_box i (expunge_locked uids)) (\<lambda>nums. io_bind (box dest) (\<lambda>d.
     io_ret (mb_uid_validity d, us, map (vw_enc v) nums))) t) = Inr y)"
  by (cases t) (simp add: io_bind_apply at_box_def expunge_locked_run box_def the_mbox_def io_gets_def io_ret_def)

text \<open>The second half: the copies are there, the originals are removed.\<close>

lemma remove_phase:
  assumes R: "removing src H (m_key ` set ms) {} t"
    and run: "io_bind (io_for ms (\<lambda>m. io_bind (on_world (maildir_remove src (m_key m))) (\<lambda>_.
        on_world (delete_message_by_key mid (m_key m))))) (\<lambda>_.
      io_bind (at_box i (expunge_locked uids)) (\<lambda>nums. io_bind (box dest) (\<lambda>d.
        io_ret (mb_uid_validity d, us, map (vw_enc v) nums)))) t = (r, (w', s'))"
  shows "\<not> (q = src \<and> k \<in> m_key ` set ms) \<Longrightarrow> H q k c \<Longrightarrow> has_message w' q k c"
    and "r = Inr z \<Longrightarrow> k \<in> m_key ` set ms \<Longrightarrow> \<not> has_message w' src k c"
proof -
  let ?K = "m_key ` set ms"
  let ?rm = "io_for ms (\<lambda>m. io_bind (on_world (maildir_remove src (m_key m))) (\<lambda>_. on_world (delete_message_by_key mid (m_key m))))"
  obtain y t2 where rm: "?rm t = (y, t2)" by (rule prod.exhaust)
  obtain w2 s2 where t2: "t2 = (w2, s2)" by (rule prod.exhaust)
  have R2: "removing src H ?K (case y of Inl e \<Rightarrow> {} | Inr _ \<Rightarrow> ?K) t2"
    using tripleD_ok [OF removals [OF order_refl] R, of mid] tripleD_err [OF removals [OF order_refl] R, of mid] rm
    by (auto split: sum.splits)
  have w': "w' = w2 \<and> (r = Inr z \<longrightarrow> (\<exists>u. y = Inr u))"
  proof (cases y)
    case (Inl e)
    with run rm show ?thesis by (auto simp: io_bind_apply t2)
  next
    case (Inr u)
    with run rm have "io_bind (at_box i (expunge_locked uids)) (\<lambda>nums. io_bind (box dest) (\<lambda>d.
        io_ret (mb_uid_validity d, us, map (vw_enc v) nums))) t2 = (r, (w', s'))" by (simp add: io_bind_apply)
    with move_tail [of i uids dest us v t2] Inr show ?thesis by (simp add: t2)
  qed
  show "has_message w' q k c" if "\<not> (q = src \<and> k \<in> ?K)" "H q k c"
    using R2 that w' by (auto simp: removing_def t2)
  show "\<not> has_message w' src k c" if "r = Inr z" "k \<in> ?K"
    using R2 w' that by (auto simp: removing_def t2)
qed

text \<open>
  C6: MOVE loses no mail. Take a selected folder and a loaded destination, both well formed on disk,
  neither inside a subdirectory of the other, with the next names unused in the destination. Whatever
  system call or statement fails, every chosen message is afterwards still in the source or, with the
  same bytes, in the destination, and no other message of any folder is lost. When MOVE succeeds, none
  of the chosen messages is in the source any more and each one is in the destination.
\<close>

theorem move_loses_nothing:
  assumes "map_of (mu_boxes (sv_users s ! ss_user ss)) (canonical_mailbox_name name) = Some dest"
    and "ss_selected ss = Some (i, v)" and "dest \<noteq> i" and "dest < length (sv_heap s)"
    and "mb_root (sv_heap s ! i) = src" and "mb_root (sv_heap s ! dest) = dst"
    and "maildir_ok (tree w) src" and "maildir_ok (tree w) dst" and "roots_apart src dst"
    and "chosen (sv_heap s ! i) v ns = ms" and "length ms < 2 ^ 64"
    and "names_free (tree w) dst (counter w) (length ms)"
    and "session_move B ss ns name (w, s) = (r, (w', s'))"
  shows "(\<forall>m \<in> set ms. \<forall>c. has_message w src (m_key m) c \<longrightarrow>
      has_message w' src (m_key m) c \<or> (\<exists>k. has_message w' dst k c)) \<and>
    (\<forall>q k c. \<not> (q = src \<and> k \<in> m_key ` set ms) \<longrightarrow> has_message w q k c \<longrightarrow> has_message w' q k c) \<and>
    (\<forall>x. r = Inr x \<longrightarrow> (\<forall>m \<in> set ms. \<forall>c. \<not> has_message w' src (m_key m) c \<and>
      (has_message w src (m_key m) c \<longrightarrow> (\<exists>k. has_message w' dst k c))))"
proof -
  let ?b = "sv_heap s ! i" and ?K = "m_key ` set ms"
  define S where "S = \<lparr>mv_src = src, mv_dst = dst, mv_box = i, mv_dest = dest, mv_mbox = ?b, mv_has = has_message w,
    mv_counter = counter w, mv_num = length ms\<rparr>"
  have box: "box i (w, s) = (Inr ?b, (w, s))" by (simp add: box_def at_box_def the_mbox_def io_gets_def)
  have run: "io_bind (io_map (copy_one B src dest) ms) (\<lambda>us. io_bind (io_for ms (\<lambda>m.
      io_bind (on_world (maildir_remove src (m_key m))) (\<lambda>_. on_world (delete_message_by_key (mb_db_id ?b) (m_key m))))) (\<lambda>_.
      io_bind (at_box i (expunge_locked (map m_uid ms))) (\<lambda>nums. io_bind (box dest) (\<lambda>d.
      io_ret (mb_uid_validity d, us, map (vw_enc v) nums))))) (w, s) = (r, (w', s'))"
    using assms(13) copy_dest_cached [OF assms(1-3)] box
    by (simp add: session_move_def io_bind_apply [where m = "copy_dest B ss name"] io_bind_apply [where m = "box i"] assms(5,10) Let_def)
  have C: "copying S 0 (w, s)"
    using assms(4-8,12) by (auto simp: copying_def holding_def S_def names_free_def)
  have copy: "triple (copying S 0) (io_map (copy_one B src dest) ms)
      (\<lambda>_ t. copying S (length ms) t \<and> copied S ms t) (\<lambda>_. all_there S)"
    using copies [of S ms B] assms(3,9,11) by (simp add: S_def)
  obtain x w1 s1 where cp: "io_map (copy_one B src dest) ms (w, s) = (x, (w1, s1))" by (metis surj_pair)
  show ?thesis
  proof (cases x)
    case (Inl e)
    from tripleD_err [OF copy C cp [unfolded Inl]] run cp Inl show ?thesis
      by (auto simp: all_there_def S_def io_bind_apply)
  next
    case (Inr us)
    from tripleD_ok [OF copy C cp [unfolded Inr]] have st: "copying S (length ms) (w1, s1)" "copied S ms (w1, s1)" by blast+
    have R: "removing src (has_message w1) ?K {} (w1, s1)"
      using st(1) by (simp add: removing_def copying_def holding_def S_def)
    have keep: "has_message w1 q k c" if "has_message w q k c" for q k c
      using st(1) that by (simp add: copying_def S_def)
    note phase = remove_phase [OF R, of "mb_db_id ?b" i "map m_uid ms" dest us v r w' s']
    have "src \<noteq> dst" using assms(9) by (simp add: roots_apart_def)
    then have in_dst: "\<exists>k. has_message w' dst k c" if "m \<in> set ms" "has_message w src (m_key m) c" for m c
      using st(2) that run cp Inr phase(1) [of dst] by (fastforce simp: copied_def S_def io_bind_apply)
    have stay: "has_message w' q k c" if "\<not> (q = src \<and> k \<in> ?K)" "has_message w q k c" for q k c
      using phase(1) [OF _ that(1) keep [OF that(2)]] run cp Inr by (simp add: io_bind_apply)
    have gone: "\<not> has_message w' src (m_key m) c" if "r = Inr y" "m \<in> set ms" for y m c
      using phase(2) [OF _ that(1) imageI [OF that(2)]] run cp Inr by (simp add: io_bind_apply)
    from in_dst stay gone show ?thesis by (intro conjI ballI allI impI) auto
  qed
qed

text \<open>A connection with its INBOX selected, and its Sent folder loaded.\<close>

definition two_boxes :: srv where
  "two_boxes = \<lparr>sv_heap = [small_mbox\<lparr>mb_list := [\<lparr>m_uid = 5, m_key = ''7.a'', m_t = 0, m_size = 2, m_flags = []\<rparr>]\<rparr>,
       small_mbox\<lparr>mb_root := [''n''], mb_db_id := 2, mb_name := ''Sent''\<rparr>],
     sv_users = [\<lparr>mu_row = \<lparr>usr_id = 1, usr_domain_id = 1, usr_local_part = ''bob'', usr_email = ''bob@x.org'',
       usr_password_hash = ''h'', usr_is_admin = False\<rparr>, mu_boxes = [(''INBOX'', 0), (''Sent'', 1)]\<rparr>],
     sv_index = [(''bob@x.org'', 0)], sv_limiter = None\<rparr>"

lemma move_loses_nothing_witness:
  "\<exists>c. has_message small_state [''m''] ''7.a'' c \<and>
     (case session_move small_backend \<lparr>ss_user = 0, ss_selected = Some (0, plain_view)\<rparr> (UIDSet [(5, 5)]) ''Sent'' (small_state, two_boxes) of
        (r, (w', s')) \<Rightarrow> has_message w' [''m''] ''7.a'' c \<or> (\<exists>k. has_message w' [''n''] k c))"
proof -
  let ?ss = "\<lparr>ss_user = 0, ss_selected = Some (0, plain_view)\<rparr>"
  let ?m = "\<lparr>m_uid = 5, m_key = ''7.a'', m_t = 0, m_size = 2, m_flags = []\<rparr>"
  obtain r w' s' where run: "session_move small_backend ?ss (UIDSet [(5, 5)]) ''Sent'' (small_state, two_boxes) = (r, (w', s'))"
    by (metis surj_pair)
  have ch: "chosen (sv_heap two_boxes ! 0) plain_view (UIDSet [(5, 5)]) = [?m]" by code_simp
  have name: "map_of (mu_boxes (sv_users two_boxes ! ss_user ?ss)) (canonical_mailbox_name ''Sent'') = Some 1" by code_simp
  have ok: "maildir_ok (tree small_state) [''m'']" using small_world_ok by simp
  have none: "\<not> maildir_has (tree small_world) [''n''] k c" for k c
    by (auto simp: maildir_has_def small_world_def tree_of_def split: if_splits)
  have ok': "maildir_ok (tree small_state) [''n'']"
    by (auto simp: maildir_ok_def small_world_def tree_of_def split: if_splits)
  have apart: "roots_apart [''m''] [''n'']" by (simp add: roots_apart_def maildir_subs_def is_prefix_def)
  have free: "names_free (tree small_state) [''n''] (counter small_state) (length [?m])" by (simp add: names_free_def none)
  have boxes: "mb_root (sv_heap two_boxes ! 0) = [''m'']" "mb_root (sv_heap two_boxes ! 1) = [''n'']" "1 < length (sv_heap two_boxes)"
    by (simp_all add: two_boxes_def small_mbox_def)
  have sel: "ss_selected ?ss = Some (0, plain_view)" "(1 :: nat) \<noteq> 0" "length [?m] < 2 ^ 64" by simp_all
  have "has_message small_state [''m''] ''7.a'' ''hi''"
    unfolding maildir_has_def by (rule bexI [of _ "''new''"], rule exI [of _ "''7.a''"])
      (simp_all add: small_world_def tree_of_def plain_name_def)
  moreover from this move_loses_nothing [OF name sel(1,2) boxes(3,1,2) ok ok' apart ch sel(3) free run]
  have "has_message w' [''m''] ''7.a'' ''hi'' \<or> (\<exists>k. has_message w' [''n''] k ''hi'')" by simp
  ultimately show ?thesis using run by auto
qed

end
