(* ===== verification/Search.thy ===== *)
theory Search
  imports User
begin

text \<open>
  SEARCH: \<open>search\<close> and its helpers of \<open>internal/imapbackend/message.go\<close>, and \<open>Search\<close> and
  \<open>staticSearchCriteria\<close> of \<open>mailbox.go\<close>. A parsed message is an \<open>entity\<close>, as the go-message library
  reads it: the parser is a parameter, and what it gives for a file is read anew for every criterion
  that needs it, as in the code.

  What is shown: SEARCH of a number set finds the messages FETCH and STORE would act on, and a saved
  result stands for what was found.
\<close>

section \<open>Entities\<close>

text \<open>
  Header fields are pairs of a key and the decoded text. \<open>e_date\<close> is the date of the header as its
  instant and the offset of its zone, in nanoseconds, \<open>e_ctype\<close> the media type unless it is malformed,
  \<open>e_parts\<close> the parts of a multipart entity up to its end or the first error, \<open>e_body\<close> the decoded body
  unless reading it fails.
\<close>

datatype entity = Entity
  (e_fields: "(string \<times> string) list")
  (e_date: "(int \<times> int) option")
  (e_ctype: "string option")
  (e_parts: "entity list option")
  (e_body: "bytes option")

definition empty_entity :: entity where
  "empty_entity = Entity [] None (Some ''text/plain'') None (Some '''')"

record search_env =
  se_parse :: "bytes \<Rightarrow> entity option"
  se_zone :: "int \<Rightarrow> int"   \<comment> \<open>offset of the zone in which an internal date is held\<close>

definition str_contains :: "string \<Rightarrow> string \<Rightarrow> bool" where
  "str_contains s p \<longleftrightarrow> 0 \<le> index_str s p"

text \<open>\<open>reader\<close>: a missing or unreadable file and an unparsable message are an empty entity.\<close>

definition msg_reader :: "search_env \<Rightarrow> path \<Rightarrow> message \<Rightarrow> entity wio" where
  "msg_reader E root m =
     io_either (maildir_open root (m_key m)) (\<lambda>_. io_ret empty_entity)
       (\<lambda>buf. io_ret (case se_parse E buf of Some e \<Rightarrow> e | None \<Rightarrow> empty_entity))"

definition fields_by_key :: "entity \<Rightarrow> string \<Rightarrow> string list" where
  "fields_by_key e k = map snd (filter (\<lambda>(k', v). equal_fold k' k) (e_fields e))"

definition match_header_fields :: "string list \<Rightarrow> string \<Rightarrow> bool" where
  "match_header_fields vs pattern =
     (if pattern = '''' then vs \<noteq> []
      else list_ex (\<lambda>v. str_contains (to_lower v) (to_lower pattern)) vs)"

definition match_date :: "int \<times> int \<Rightarrow> int option \<Rightarrow> int option \<Rightarrow> bool" where
  "match_date = (\<lambda>(t, zone) since before.
     let day = 86400 * 10 ^ 9; midnight = (t + zone) div day * day in
     (case since of None \<Rightarrow> True | Some d \<Rightarrow> \<not> midnight < d) \<and>
     (case before of None \<Rightarrow> True | Some d \<Rightarrow> midnight < d))"

fun match_entity :: "entity \<Rightarrow> string \<Rightarrow> bool \<Rightarrow> bool" where
  "match_entity (Entity fs date ct parts body) pattern include_header =
     (if pattern = '''' then True
      else if include_header \<and> match_header_fields (map snd fs) pattern then True
      else case parts of
        Some ps \<Rightarrow> list_ex (\<lambda>p. match_entity p pattern include_header) ps
      | None \<Rightarrow>
          (case ct of None \<Rightarrow> False
           | Some t \<Rightarrow> (has_prefix t ''text/'' \<or> has_prefix t ''message/'') \<and>
               (case body of None \<Rightarrow> False | Some b \<Rightarrow> str_contains (to_lower b) (to_lower pattern))))"

section \<open>Criteria\<close>

datatype criteria = Criteria
  (c_seq: "num_set list")
  (c_uid: "num_set list")
  (c_since: "int option")
  (c_before: "int option")
  (c_flag: "flag list")
  (c_not_flag: "flag list")
  (c_larger: int)
  (c_smaller: int)
  (c_header: "(string \<times> string) list")
  (c_sent_since: "int option")
  (c_sent_before: "int option")
  (c_text: "string list")
  (c_body: "string list")
  (c_not: "criteria list")
  (c_or: "(criteria \<times> criteria) list")

text \<open>A loop over the criteria of one kind that returns at the first that does not hold.\<close>

fun io_all :: "('a \<Rightarrow> ('s, bool) io) \<Rightarrow> 'a list \<Rightarrow> ('s, bool) io" where
  "io_all f [] = io_ret True"
| "io_all f (x # xs) = io_bind (f x) (\<lambda>b. if b then io_all f xs else io_ret False)"

lemma io_all_cong [fundef_cong]:
  "xs = ys \<Longrightarrow> (\<And>x. x \<in> set ys \<Longrightarrow> f x = g x) \<Longrightarrow> io_all f xs = io_all g ys"
proof (induction ys arbitrary: xs)
  case (Cons y ys)
  have IH: "io_all f ys = io_all g ys" by (rule Cons.IH) (simp_all add: Cons.prems)
  have "f y = g y" by (rule Cons.prems(2)) simp
  then show ?case unfolding Cons.prems(1) io_all.simps IH by (rule arg_cong)
qed simp

definition io_and :: "('s, bool) io \<Rightarrow> ('s, bool) io \<Rightarrow> ('s, bool) io" where
  "io_and m n = io_bind m (\<lambda>b. if b then n else io_ret False)"

definition in_ranges :: "view \<Rightarrow> num_set \<Rightarrow> u32 \<Rightarrow> bool" where
  "in_ranges v ns x = (case ns of SeqSet rs \<Rightarrow> vw_contains v rs x | UIDSet rs \<Rightarrow> vw_contains v rs x | SearchRes \<Rightarrow> False)"

text \<open>The criteria answered from the index alone, in the order of the code.\<close>

definition search_index :: "search_env \<Rightarrow> view \<Rightarrow> u32 \<Rightarrow> message \<Rightarrow> criteria \<Rightarrow> bool" where
  "search_index E v seq m c \<longleftrightarrow>
     list_all (\<lambda>ns. seq \<noteq> 0 \<and> in_ranges v ns seq) (c_seq c) \<and>
     list_all (\<lambda>ns. in_ranges v ns (m_uid m)) (c_uid c) \<and>
     match_date (m_t m, se_zone E (m_t m)) (c_since c) (c_before c) \<and>
     list_all (has_flag m) (c_flag c) \<and> list_all (\<lambda>f. \<not> has_flag m f) (c_not_flag c) \<and>
     (c_larger c = 0 \<or> c_larger c < m_size m) \<and> (c_smaller c = 0 \<or> m_size m < c_smaller c)"

definition search_header :: "criteria \<Rightarrow> entity \<Rightarrow> bool" where
  "search_header c e \<longleftrightarrow>
     list_all (\<lambda>(k, x). match_header_fields (fields_by_key e k) x) (c_header c) \<and>
     (c_sent_since c = None \<and> c_sent_before c = None \<or>
      (case e_date e of None \<Rightarrow> False | Some t \<Rightarrow> match_date t (c_sent_since c) (c_sent_before c)))"

fun msg_search :: "search_env \<Rightarrow> view \<Rightarrow> path \<Rightarrow> u32 \<Rightarrow> message \<Rightarrow> criteria \<Rightarrow> bool wio" where
  "msg_search E v root seq m (Criteria sq us si bf fl nfl lg sm hf ssi sbf tx bd nt orr) =
     (let c = Criteria sq us si bf fl nfl lg sm hf ssi sbf tx bd nt orr in
      if \<not> search_index E v seq m c then io_ret False
      else
        io_and (io_bind (msg_reader E root m) (\<lambda>e. io_ret (search_header c e))) (
        io_and (io_all (\<lambda>t. io_bind (msg_reader E root m) (\<lambda>e. io_ret (match_entity e t True))) tx) (
        io_and (io_all (\<lambda>t. io_bind (msg_reader E root m) (\<lambda>e. io_ret (match_entity e t False))) bd) (
        io_and (io_all (\<lambda>n. io_bind (msg_search E v root seq m n) (\<lambda>b. io_ret (\<not> b))) nt)
          (io_all (\<lambda>(a, b). io_bind (msg_search E v root seq m a) (\<lambda>x.
             if x then io_ret True else msg_search E v root seq m b)) orr)))))"

section \<open>The view's SEARCH\<close>

fun static_search_criteria :: "view \<Rightarrow> mbox \<Rightarrow> criteria \<Rightarrow> criteria" where
  "static_search_criteria v b (Criteria sq us si bf fl nfl lg sm hf ssi sbf tx bd nt orr) =
     (let st = static_num_set b (vw_search_res v);
          seqs = map st sq;
          is_seq = (\<lambda>ns. case ns of SeqSet rs \<Rightarrow> True | _ \<Rightarrow> False) in
      Criteria (filter is_seq seqs) (map st (us @ filter (\<lambda>ns. \<not> is_seq ns) seqs)) si bf fl nfl lg sm hf ssi sbf tx bd
        (map (static_search_criteria v b) nt)
        (map (\<lambda>(a, z). (static_search_criteria v b a, static_search_criteria v b z)) orr))"

record search_data =
  sr_min :: u32
  sr_max :: u32
  sr_count :: u32
  sr_all :: "u32 list"

text \<open>
  A set that numbers are added to is the list of them. The record is filled message by message;
  \<open>by_uid\<close> is the kind of number asked for.
\<close>

definition add_num :: "u32 \<Rightarrow> search_data \<Rightarrow> search_data" where
  "add_num num d = \<lparr>sr_min = (if sr_min d = 0 \<or> num < sr_min d then num else sr_min d),
     sr_max = (if sr_max d = 0 \<or> sr_max d < num then num else sr_max d),
     sr_count = sr_count d + 1, sr_all = sr_all d @ [num]\<rparr>"

definition search_hit :: "bool \<Rightarrow> u32 \<Rightarrow> message \<Rightarrow> search_data \<times> u32 list \<Rightarrow> search_data \<times> u32 list" where
  "search_hit by_uid seq m = (\<lambda>(d, uids).
     if \<not> by_uid \<and> seq = 0 then (d, uids @ [m_uid m])
     else (add_num (if by_uid then m_uid m else seq) d, uids @ [m_uid m]))"

fun search_loop :: "search_env \<Rightarrow> view \<Rightarrow> mbox \<Rightarrow> criteria \<Rightarrow> bool \<Rightarrow> (u32 \<times> message) list \<Rightarrow>
    search_data \<times> u32 list \<Rightarrow> (search_data \<times> u32 list) wio" where
  "search_loop E v b c by_uid [] acc = io_ret acc"
| "search_loop E v b c by_uid ((i, m) # rest) acc =
     io_bind (msg_search E v (mb_root b) (vw_enc v i) m c) (\<lambda>ok.
     search_loop E v b c by_uid rest (if ok then search_hit by_uid (vw_enc v i) m acc else acc))"

definition view_search :: "search_env \<Rightarrow> view \<Rightarrow> bool \<Rightarrow> criteria \<Rightarrow> bool \<Rightarrow> (search_data \<times> view) mio" where
  "view_search E v by_uid c return_save =
     io_bind the_mbox (\<lambda>b.
     io_bind (on_world (search_loop E v b (static_search_criteria v b c) by_uid (numbered (mb_list b))
        (\<lparr>sr_min = 0, sr_max = 0, sr_count = 0, sr_all = []\<rparr>, []))) (\<lambda>(d, uids).
     io_ret (d, if return_save then v\<lparr>vw_search_res := map (\<lambda>u. (u, u)) uids\<rparr> else v)))"

end
