(* ===== verification/SearchInv.thy ===== *)
theory SearchInv
  imports Search MailboxInv
begin

text \<open>
  Properties of SEARCH: its numbers are consistent, it never fails, and a number set means to SEARCH
  what it means to FETCH and STORE.
\<close>

section \<open>Results of a search\<close>

text \<open>A search of one message always answers.\<close>

lemma msg_reader_total: "\<exists>e w'. msg_reader E root m w = (Inr e, w')"
  by (cases "maildir_open root (m_key m) w") (auto simp: msg_reader_def io_either_apply io_ret_def split: sum.splits)

definition answers :: "('s, bool) io \<Rightarrow> bool" where
  "answers m \<longleftrightarrow> (\<forall>s. \<exists>b s'. m s = (Inr b, s'))"

lemma answers_ret: "answers (io_ret b)"
  by (simp add: answers_def io_ret_def)

lemma answers_bind: "answers m \<Longrightarrow> (\<And>b. answers (k b)) \<Longrightarrow> answers (io_bind m k)"
  by (simp add: answers_def io_bind_apply) (metis (no_types, lifting) old.prod.case sum.case(2))

lemma answers_reader: "answers (io_bind (msg_reader E root m) (\<lambda>e. io_ret (f e)))"
  unfolding answers_def
proof
  fix w
  from msg_reader_total obtain e w' where "msg_reader E root m w = (Inr e, w')" by blast
  then show "\<exists>b s'. io_bind (msg_reader E root m) (\<lambda>e. io_ret (f e)) w = (Inr b, s')"
    by (simp add: io_bind_apply io_ret_def)
qed

lemma answers_and: "answers m \<Longrightarrow> answers n \<Longrightarrow> answers (io_and m n)"
  unfolding io_and_def by (rule answers_bind) (auto intro: answers_ret)

lemma answers_all: "(\<And>x. x \<in> set xs \<Longrightarrow> answers (f x)) \<Longrightarrow> answers (io_all f xs)"
  by (induction xs) (auto intro!: answers_ret answers_bind)

lemma msg_search_answers: "answers (msg_search E v root seq m c)"
proof (induction E v root seq m c rule: msg_search.induct)
  case (1 E v root seq m sq us si bf fl nfl lg sm hf ssi sbf tx bd nt orr)
  have nots: "answers (io_all (\<lambda>n. io_bind (msg_search E v root seq m n) (\<lambda>b. io_ret (\<not> b))) nt)"
    if "search_index E v seq m (Criteria sq us si bf fl nfl lg sm hf ssi sbf tx bd nt orr)"
    using 1(1) [OF refl] that by (intro answers_all answers_bind answers_ret) auto
  have ors: "answers (io_all (\<lambda>(a, b). io_bind (msg_search E v root seq m a) (\<lambda>x.
             if x then io_ret True else msg_search E v root seq m b)) orr)"
    if "search_index E v seq m (Criteria sq us si bf fl nfl lg sm hf ssi sbf tx bd nt orr)"
    using 1(2,3) [OF refl] that by (auto intro!: answers_all answers_bind answers_ret)
  show ?case
    by (auto simp: Let_def intro!: answers_ret answers_and answers_reader answers_all nots ors)
qed

lemma search_loop_total:
  "\<exists>r w'. search_loop E v b c k ms acc w = (Inr r, w')"
proof (induction ms arbitrary: acc w)
  case Nil
  show ?case by (simp add: io_ret_def)
next
  case (Cons x ms)
  obtain i m where x: "x = (i, m)" by fastforce
  from msg_search_answers [of E v "mb_root b" "vw_enc v i" m c] obtain ok w1 where
    "msg_search E v (mb_root b) (vw_enc v i) m c w = (Inr ok, w1)" unfolding answers_def by blast
  with Cons.IH show ?case by (simp add: x io_bind_apply)
qed

text \<open>What the record says of the numbers collected.\<close>

definition data_ok :: "search_data \<Rightarrow> bool" where
  "data_ok d \<longleftrightarrow> sr_count d = word_of_nat (length (sr_all d)) \<and> 0 \<notin> set (sr_all d) \<and>
     (if sr_all d = [] then sr_min d = 0 \<and> sr_max d = 0
      else sr_min d \<in> set (sr_all d) \<and> sr_max d \<in> set (sr_all d) \<and>
        (\<forall>n \<in> set (sr_all d). sr_min d \<le> n \<and> n \<le> sr_max d))"

lemma all_add_num: "sr_all (add_num n d) = sr_all d @ [n]"
  by (simp add: add_num_def)

lemma data_ok_add:
  assumes "data_ok d" and "n \<noteq> 0"
  shows "data_ok (add_num n d)"
proof (cases "sr_all d = []")
  case True
  with assms show ?thesis by (simp add: data_ok_def add_num_def)
next
  case False
  with assms(1) have "sr_min d \<noteq> 0" "sr_max d \<noteq> 0" by (auto simp: data_ok_def)
  with False assms show ?thesis by (auto simp: data_ok_def add_num_def not_less)
qed

lemma search_loop_data:
  assumes "search_loop E v b c k ms (d, us) w = (Inr (d', us'), w')" and "data_ok d"
    and "\<forall>(i, m) \<in> set ms. m_uid m \<noteq> 0"
  shows "data_ok d' \<and> (k \<longrightarrow> (us = sr_all d \<longrightarrow> us' = sr_all d')) \<and>
    set (sr_all d') \<subseteq> set (sr_all d) \<union> (if k then m_uid ` snd ` set ms else vw_enc v ` fst ` set ms)"
  using assms
proof (induction ms arbitrary: d us w)
  case Nil
  then show ?case by (simp add: io_ret_def)
next
  case (Cons x ms)
  obtain i m where x: "x = (i, m)" by fastforce
  from msg_search_answers [of E v "mb_root b" "vw_enc v i" m c] obtain ok w1 where
    s: "msg_search E v (mb_root b) (vw_enc v i) m c w = (Inr ok, w1)" unfolding answers_def by blast
  obtain d1 us1 where acc: "(if ok then search_hit k (vw_enc v i) m (d, us) else (d, us)) = (d1, us1)" by fastforce
  have run: "search_loop E v b c k ms (d1, us1) w1 = (Inr (d', us'), w')"
    using Cons.prems(1) s acc by (simp add: x io_bind_apply)
  have uid: "m_uid m \<noteq> 0" using Cons.prems(3) x by auto
  have d1: "data_ok d1" "k \<longrightarrow> us = sr_all d \<longrightarrow> us1 = sr_all d1"
    "set (sr_all d1) \<subseteq> set (sr_all d) \<union> (if k then {m_uid m} else {vw_enc v i})"
    using acc Cons.prems(2) uid data_ok_add [OF Cons.prems(2)]
    by (auto simp: search_hit_def all_add_num split: if_splits)
  have "data_ok d' \<and> (k \<longrightarrow> (us1 = sr_all d1 \<longrightarrow> us' = sr_all d')) \<and>
    set (sr_all d') \<subseteq> set (sr_all d1) \<union> (if k then m_uid ` snd ` set ms else vw_enc v ` fst ` set ms)"
    by (rule Cons.IH [OF run d1(1)]) (use Cons.prems(3) in auto)
  with d1 show ?case by (auto simp: x split: if_splits)
qed

lemma view_search_run:
  "view_search E v k c save (w, b) = (case search_loop E v b (static_search_criteria v b c) k (numbered (mb_list b))
      (\<lparr>sr_min = 0, sr_max = 0, sr_count = 0, sr_all = []\<rparr>, []) w of
     (Inl e, w') \<Rightarrow> (Inl e, (w', b))
   | (Inr (d, uids), w') \<Rightarrow> (Inr (d, if save then v\<lparr>vw_search_res := map (\<lambda>u. (u, u)) uids\<rparr> else v), (w', b)))"
  by (simp add: view_search_def the_mbox_def on_world_def io_bind_apply io_gets_def io_ret_def split: prod.splits sum.splits)

lemma set_numbered: "snd ` set (numbered l) = set l"
  by (simp add: numbered_def image_set del: list.set_map)


definition two_messages :: mbox where
  "two_messages = small_mbox\<lparr>mb_list := [\<lparr>m_uid = 5, m_key = ''7.a'', m_t = 0, m_size = 2, m_flags = [flag_seen]\<rparr>,
     \<lparr>m_uid = 9, m_key = ''8.b'', m_t = 0, m_size = 300, m_flags = []\<rparr>]\<rparr>"

definition no_parser :: search_env where
  "no_parser = \<lparr>se_parse = (\<lambda>_. None), se_zone = (\<lambda>_. 0)\<rparr>"


section \<open>SEARCH of a number set\<close>

definition set_criteria :: "num_set \<Rightarrow> criteria" where
  "set_criteria ns = (case ns of
     UIDSet rs \<Rightarrow> Criteria [] [ns] None None [] [] 0 0 [] None None [] [] [] []
   | _ \<Rightarrow> Criteria [ns] [] None None [] [] 0 0 [] None None [] [] [] [])"

lemma msg_search_sets:
  "\<exists>w'. msg_search E v root seq m (Criteria sq us None None [] [] 0 0 [] None None [] [] [] []) w =
     (Inr (list_all (\<lambda>ns. seq \<noteq> 0 \<and> in_ranges v ns seq) sq \<and> list_all (\<lambda>ns. in_ranges v ns (m_uid m)) us), w')"
proof -
  obtain e w' where "msg_reader E root m w = (Inr e, w')" using msg_reader_total by blast
  then show ?thesis
    by (auto simp: search_index_def search_header_def match_date_def Let_def io_and_def io_bind_apply io_ret_def)
qed

lemma search_loop_sets:
  assumes "\<And>i m. (i, m) \<in> set ms \<Longrightarrow> P (i, m) \<longleftrightarrow> list_all (\<lambda>ns. vw_enc v i \<noteq> 0 \<and> in_ranges v ns (vw_enc v i)) sq \<and>
      list_all (\<lambda>ns. in_ranges v ns (m_uid m)) us"
  shows "\<exists>d w'. search_loop E v b (Criteria sq us None None [] [] 0 0 [] None None [] [] [] []) True ms (d0, us0) w =
      (Inr (d, us0 @ map (m_uid \<circ> snd) (filter P ms)), w') \<and> sr_all d = sr_all d0 @ map (m_uid \<circ> snd) (filter P ms)"
  using assms
proof (induction ms arbitrary: d0 us0 w)
  case Nil
  show ?case by (simp add: io_ret_def)
next
  case (Cons x ms)
  obtain i m where x: "x = (i, m)" by fastforce
  have P: "P (i, m) \<longleftrightarrow> list_all (\<lambda>ns. vw_enc v i \<noteq> 0 \<and> in_ranges v ns (vw_enc v i)) sq \<and>
      list_all (\<lambda>ns. in_ranges v ns (m_uid m)) us" by (rule Cons.prems) (simp add: x)
  obtain w1 where "msg_search E v (mb_root b) (vw_enc v i) m (Criteria sq us None None [] [] 0 0 [] None None [] [] [] []) w =
      (Inr (P (i, m)), w1)" unfolding P using msg_search_sets by blast
  moreover obtain d1 us1 where acc: "(if P (i, m) then search_hit True (vw_enc v i) m (d0, us0) else (d0, us0)) = (d1, us1)" by fastforce
  moreover have "us1 = us0 @ map (m_uid \<circ> snd) (filter P [x])" "sr_all d1 = sr_all d0 @ map (m_uid \<circ> snd) (filter P [x])"
    using acc by (auto simp: x search_hit_def all_add_num split: if_splits)
  ultimately show ?case using Cons.IH [OF Cons.prems, of d1 us1 w1] by (cases "P (i, m)") (auto simp: x io_bind_apply)
qed

lemma static_num_range_fixed: "a \<noteq> 0 \<Longrightarrow> z \<noteq> 0 \<Longrightarrow> static_num_range a z mx = (a, z)"
  by (simp add: static_num_range_def Let_def)

lemma static_set_criteria:
  assumes "\<forall>(a, z) \<in> set (vw_search_res v). a \<noteq> 0 \<and> z \<noteq> 0"
  shows "\<exists>sq us. static_search_criteria v b (set_criteria ns) = Criteria sq us None None [] [] 0 0 [] None None [] [] [] [] \<and>
    (\<forall>i m. (list_all (\<lambda>ns. vw_enc v i \<noteq> 0 \<and> in_ranges v ns (vw_enc v i)) sq \<and> list_all (\<lambda>ns. in_ranges v ns (m_uid m)) us) =
      selected v (static_num_set b (vw_search_res v) ns) i m)"
proof (cases ns)
  case SearchRes
  have "map (\<lambda>(a, z). static_num_range a z mx) (vw_search_res v) = vw_search_res v" for mx
    using assms by (auto intro!: map_idI simp: static_num_range_fixed)
  with SearchRes show ?thesis
    by (simp add: set_criteria_def static_num_set_def selected_def in_ranges_def)
qed (auto simp: set_criteria_def static_num_set_def selected_def in_ranges_def)

text \<open>
  C35: a set of messages means to SEARCH what it means to FETCH, STORE, COPY and MOVE. For a set of
  sequence numbers, of UIDs or the saved result \<open>$\<close>, with \<open>*\<close> in either, SEARCH answers exactly the
  UIDs of the messages those commands would act on, in the order of the folder; and with RETURN
  (SAVE) a following command on \<open>$\<close> acts on exactly these messages.
\<close>

theorem search_finds_chosen:
  assumes "\<forall>(a, z) \<in> set (vw_search_res v). a \<noteq> 0 \<and> z \<noteq> 0"
    and "\<forall>us x. vw_contains v (map (\<lambda>u. (u, u)) us) x \<longleftrightarrow> x \<in> set us"
    and "distinct (map m_uid (mb_list b))"
    and "view_search E v True (set_criteria ns) save (w, b) = (r, (w', b'))"
  shows "b' = b \<and> (\<exists>d v'. r = Inr (d, v') \<and> sr_all d = map m_uid (chosen b v ns) \<and>
    (save \<longrightarrow> chosen b v' SearchRes = chosen b v ns))"
proof -
  let ?P = "\<lambda>(i, m). selected v (static_num_set b (vw_search_res v) ns) i m"
  let ?d0 = "\<lparr>sr_min = 0, sr_max = 0, sr_count = 0, sr_all = []\<rparr>"
  let ?us = "map m_uid (chosen b v ns)"
  from static_set_criteria [OF assms(1), of b ns] obtain sq us where
    st: "static_search_criteria v b (set_criteria ns) = Criteria sq us None None [] [] 0 0 [] None None [] [] [] []"
    and sel: "\<forall>i m. (list_all (\<lambda>ns. vw_enc v i \<noteq> 0 \<and> in_ranges v ns (vw_enc v i)) sq \<and> list_all (\<lambda>ns. in_ranges v ns (m_uid m)) us) =
      selected v (static_num_set b (vw_search_res v) ns) i m"
    by blast
  have us: "map (m_uid \<circ> snd) (filter ?P (numbered (mb_list b))) = ?us" by (simp add: chosen_def)
  have "\<exists>d w'. search_loop E v b (static_search_criteria v b (set_criteria ns)) True (numbered (mb_list b)) (?d0, []) w =
      (Inr (d, [] @ map (m_uid \<circ> snd) (filter ?P (numbered (mb_list b)))), w') \<and>
      sr_all d = sr_all ?d0 @ map (m_uid \<circ> snd) (filter ?P (numbered (mb_list b)))"
    unfolding st by (rule search_loop_sets) (simp add: sel)
  then obtain d w1 where
    loop: "search_loop E v b (static_search_criteria v b (set_criteria ns)) True (numbered (mb_list b)) (?d0, []) w = (Inr (d, ?us), w1)"
    and all: "sr_all d = ?us" unfolding us by auto
  have saved: "chosen b (v\<lparr>vw_search_res := map (\<lambda>u. (u, u)) ?us\<rparr>) SearchRes = chosen b v ns"
  proof -
    have "filter (\<lambda>(i, m). m_uid m \<in> set ?us) (numbered (mb_list b)) = filter ?P (numbered (mb_list b))"
    proof (rule filter_cong [OF refl])
      fix x
      assume x: "x \<in> set (numbered (mb_list b))"
      have d: "distinct (map (m_uid \<circ> snd) (numbered (mb_list b)))"
        using assms(3) by (simp add: numbered_def flip: map_map)
      have "m_uid (snd x) \<in> set ?us \<longleftrightarrow> ?P x"
        using x d unfolding us [symmetric] by (auto simp: distinct_map inj_on_def)
      then show "(case x of (i, m) \<Rightarrow> m_uid m \<in> set ?us) = ?P x" by (cases x) simp
    qed
    moreover have "selected (v\<lparr>vw_search_res := map (\<lambda>u. (u, u)) us\<rparr>)
        (static_num_set b (vw_search_res (v\<lparr>vw_search_res := map (\<lambda>u. (u, u)) us\<rparr>)) SearchRes) i m \<longleftrightarrow> m_uid m \<in> set us" for us i m
      using assms(2) by (simp add: selected_def static_num_set_def)
    then have "chosen b (v\<lparr>vw_search_res := map (\<lambda>u. (u, u)) ?us\<rparr>) SearchRes =
        map snd (filter (\<lambda>(i, m). m_uid m \<in> set ?us) (numbered (mb_list b)))" by (simp only: chosen_def)
    ultimately show ?thesis unfolding chosen_def [of b v ns] by (simp only:)
  qed
  show ?thesis using assms(4) loop all saved by (auto simp: view_search_run)
qed

lemma search_finds_chosen_witness:
  "\<exists>d v'. fst (view_search no_parser plain_view True (set_criteria (SeqSet [(2, 0)])) True (small_state, two_messages)) = Inr (d, v') \<and>
     sr_all d = [9] \<and> map m_uid (chosen two_messages v' SearchRes) = [9]"
proof -
  obtain r w' b' where run: "view_search no_parser plain_view True (set_criteria (SeqSet [(2, 0)])) True (small_state, two_messages) = (r, (w', b'))"
    by (metis surj_pair)
  have 1: "\<forall>(a, z) \<in> set (vw_search_res plain_view). a \<noteq> 0 \<and> z \<noteq> 0" by (simp add: plain_view_def)
  have 2: "\<forall>us x. vw_contains plain_view (map (\<lambda>u. (u, u)) us) x \<longleftrightarrow> x \<in> set us"
    by (auto simp: plain_view_def list_ex_iff)
  have 3: "distinct (map m_uid (mb_list two_messages))" by (simp add: two_messages_def)
  have "map m_uid (chosen two_messages plain_view (SeqSet [(2, 0)])) = [9]" by code_simp
  with search_finds_chosen [OF 1 2 3 run] run show ?thesis by auto
qed

end
