(* ===== verification/WebApi.thy ===== *)
theory WebApi
  imports Search
begin

text \<open>
  \<open>internal/imapbackend/webapi.go\<close>: an account as the webmail sees it, on the same mailboxes the IMAP
  server uses. An account is the pointer of its user. What the go-message library makes of a file is
  a parameter: its envelope, and its MIME parts in order.
\<close>

section \<open>What the mail library reads\<close>

record mail_addr =
  ma_name :: string
  ma_addr :: string   \<comment> \<open>\<open>Addr()\<close>, empty for a group\<close>

record envelope =
  env_subject :: string
  env_from :: "mail_addr list"
  env_to :: "mail_addr list"
  env_cc :: "mail_addr list"
  env_date :: "int option"
  env_message_id :: string
  env_in_reply_to :: "string list"

text \<open>A part with its decoded body, as far as it can be read; \<open>mp_broken\<close>: reading it ends in an error.\<close>

record mime_part =
  mp_attachment :: bool
  mp_ctype :: string
  mp_filename :: string
  mp_body :: bytes
  mp_broken :: bool

text \<open>The parts before the end, or before the error \<open>mr_err\<close> of \<open>NextPart\<close>.\<close>

record mail_reader =
  mr_references :: "string list"
  mr_parts :: "mime_part list"
  mr_err :: "goerr option"

record mail_lib =
  ml_envelope :: "bytes \<Rightarrow> envelope option"
  ml_reader :: "bytes \<Rightarrow> goerr + mail_reader"
  ml_search :: search_env

section \<open>Accounts\<close>

definition authenticate :: "backend \<Rightarrow> string \<Rightarrow> string \<Rightarrow> nat sio" where
  "authenticate B email password =
     io_either (on_world (get_user_by_email (to_lower (trim_space email))))
       (\<lambda>_. io_fail (ErrMsg ''invalid credentials''))
       (\<lambda>u. if \<not> verify_password (bk_bcrypt B) u password then io_fail (ErrMsg ''invalid credentials'') else user_for u)"

definition account_email :: "srv \<Rightarrow> nat \<Rightarrow> string" where
  "account_email s a = usr_email (mu_row (sv_users s ! a))"

definition account_id :: "srv \<Rightarrow> nat \<Rightarrow> int" where
  "account_id s a = usr_id (mu_row (sv_users s ! a))"

definition account_is_admin :: "srv \<Rightarrow> nat \<Rightarrow> bool" where
  "account_is_admin s a = usr_is_admin (mu_row (sv_users s ! a))"

definition change_password :: "backend \<Rightarrow> nat \<Rightarrow> string \<Rightarrow> string \<Rightarrow> unit sio" where
  "change_password B a current new =
     io_bind the_srv (\<lambda>s.
     io_bind (on_world (io_wrap ''looking up account'' (get_user_by_id (account_id s a)))) (\<lambda>fresh.
     if \<not> verify_password (bk_bcrypt B) fresh current then io_fail (ErrMsg ''current password is incorrect'')
     else on_world (set_password (bk_bcrypt B) (usr_id fresh) new)))"

section \<open>Folders\<close>

record folder_info =
  fi_name :: string
  fi_total :: int
  fi_unseen :: int

definition inbox_less :: "folder_info \<Rightarrow> folder_info \<Rightarrow> bool" where
  "inbox_less x y =
     (if fi_name x = ''INBOX'' then True else if fi_name y = ''INBOX'' then False else fi_name x < fi_name y)"

text \<open>\<open>sort.Slice\<close> with the comparison of the code; with distinct names the order is the only one.\<close>

fun insort_less :: "('a \<Rightarrow> 'a \<Rightarrow> bool) \<Rightarrow> 'a \<Rightarrow> 'a list \<Rightarrow> 'a list" where
  "insort_less lt x [] = [x]"
| "insort_less lt x (y # ys) = (if lt y x then y # insort_less lt x ys else x # y # ys)"

definition sort_folders_inbox_first :: "folder_info list \<Rightarrow> folder_info list" where
  "sort_folders_inbox_first infos = foldr (insort_less inbox_less) infos []"

definition folders :: "backend \<Rightarrow> nat \<Rightarrow> folder_info list sio" where
  "folders B a =
     io_bind the_srv (\<lambda>s.
     io_bind (on_world (list_mailboxes (account_id s a))) (\<lambda>rows.
     io_bind (io_map (\<lambda>r.
         io_bind (mailbox B a (mbx_name r)) (\<lambda>i.
         io_bind (at_box i (reload_locked (bk_store B))) (\<lambda>_.
         io_bind (box i) (\<lambda>b.
         io_ret \<lparr>fi_name = mbx_name r, fi_total = int (length (mb_list b)),
           fi_unseen = int (length (mb_list b)) - int (unat (count_by_flag flag_seen (mb_list b)))\<rparr>)))) rows) (\<lambda>infos.
     io_ret (sort_folders_inbox_first infos))))"

section \<open>Message lists\<close>

record summary =
  su_uid :: u32
  su_subject :: string
  su_from :: string
  su_to :: string
  su_date :: int
  su_flags :: "string list"
  su_size :: int

definition summary_has_flag :: "summary \<Rightarrow> string \<Rightarrow> bool" where
  "summary_has_flag s f = list_ex (\<lambda>g. equal_fold g f) (su_flags s)"

definition format_address_list :: "mail_addr list \<Rightarrow> string" where
  "format_address_list as = join_str '', '' (map (\<lambda>a. if ma_name a \<noteq> '''' then ma_name a @ '' <'' @ ma_addr a @ ''>'' else ma_addr a)
     (filter (\<lambda>a. ma_addr a \<noteq> '''') as))"

definition summarize :: "mail_lib \<Rightarrow> path \<Rightarrow> message \<Rightarrow> summary wio" where
  "summarize L root m =
     (let base = \<lparr>su_uid = m_uid m, su_subject = '''', su_from = '''', su_to = '''', su_date = m_t m,
        su_flags = m_flags m, su_size = m_size m\<rparr> in
     io_either (maildir_open root (m_key m)) (\<lambda>_. io_ret base) (\<lambda>buf.
     io_ret (case ml_envelope L buf of
        None \<Rightarrow> base
      | Some env \<Rightarrow> base\<lparr>su_subject := env_subject env, su_from := format_address_list (env_from env),
          su_to := format_address_list (env_to env),
          su_date := (case env_date env of Some d \<Rightarrow> d | None \<Rightarrow> m_t m)\<rparr>)))"

text \<open>Go's \<open>int\<close> has 64 bits.\<close>

definition go_int :: "int \<Rightarrow> int" where
  "go_int x = sint (word_of_int x :: 64 word)"

text \<open>The messages of a page, newest first; \<open>None\<close> is the panic of an index out of range.\<close>

definition page_messages :: "'a list \<Rightarrow> int \<Rightarrow> int \<Rightarrow> 'a list option" where
  "page_messages l page0 size0 =
     (let total = int (length l);
          page = (if page0 < 1 then 1 else page0);
          size = (if size0 < 1 then 25 else size0);
          stop = go_int (total - go_int (go_int (page - 1) * size)) in
      if stop \<le> 0 then Some []
      else let start = (if go_int (stop - size) < 0 then 0 else go_int (stop - size)) in
      if total < stop then None
      else Some (rev (drop (nat start) (take (nat stop) l))))"

definition list_messages_page :: "backend \<Rightarrow> mail_lib \<Rightarrow> nat \<Rightarrow> string \<Rightarrow> int \<Rightarrow> int \<Rightarrow> (summary list \<times> int) sio" where
  "list_messages_page B L a folder page psize =
     io_bind (mailbox B a folder) (\<lambda>i.
     io_bind (at_box i (reload_locked (bk_store B))) (\<lambda>_.
     io_bind (box i) (\<lambda>b.
     case page_messages (mb_list b) page psize of
       None \<Rightarrow> io_fail (ErrMsg ''panic: index out of range'')
     | Some ms \<Rightarrow> io_bind (io_map (\<lambda>m. on_world (summarize L (mb_root b) m)) ms) (\<lambda>sums.
         io_ret (sums, int (length (mb_list b)))))))"

definition no_message :: goerr where "no_message = ErrMsg ''message not found''"

definition get_summary :: "backend \<Rightarrow> mail_lib \<Rightarrow> nat \<Rightarrow> string \<Rightarrow> u32 \<Rightarrow> summary sio" where
  "get_summary B L a folder uid =
     io_bind (mailbox B a folder) (\<lambda>i.
     io_bind (box i) (\<lambda>b.
     case find_by_uid uid (mb_list b) of
       None \<Rightarrow> io_fail no_message
     | Some m \<Rightarrow> on_world (summarize L (mb_root b) m)))"

text \<open>The webmail's search: IMAP's SEARCH TEXT over the folder, newest first, without a connection.\<close>

definition no_view :: view where
  "no_view = \<lparr>vw_enc = (\<lambda>_. 0), vw_contains = (\<lambda>_ _. False), vw_search_res = []\<rparr>"

fun search_summaries :: "mail_lib \<Rightarrow> path \<Rightarrow> criteria \<Rightarrow> message list \<Rightarrow> summary list wio" where
  "search_summaries L root c [] = io_ret []"
| "search_summaries L root c (m # ms) =
     io_bind (msg_search (ml_search L) no_view root 0 m c) (\<lambda>ok.
     if ok then io_bind (summarize L root m) (\<lambda>s. io_bind (search_summaries L root c ms) (\<lambda>ss. io_ret (s # ss)))
     else search_summaries L root c ms)"

definition search_text :: "backend \<Rightarrow> mail_lib \<Rightarrow> nat \<Rightarrow> string \<Rightarrow> string \<Rightarrow> summary list sio" where
  "search_text B L a folder query =
     io_bind (mailbox B a folder) (\<lambda>i.
     io_bind (at_box i (reload_locked (bk_store B))) (\<lambda>_.
     io_bind (box i) (\<lambda>b.
     on_world (search_summaries L (mb_root b) (Criteria [] [] None None [] [] 0 0 [] None None [query] [] [] []) (rev (mb_list b))))))"

section \<open>One message\<close>

record attachment_info =
  at_part_num :: nat
  at_filename :: string
  at_ctype :: string
  at_size :: int

record full_message =
  fm_summary :: summary
  fm_cc :: string
  fm_message_id :: string
  fm_in_reply_to :: string
  fm_references :: string
  fm_text :: string
  fm_html :: string
  fm_attachments :: "attachment_info list"

text \<open>The walk over the parts: the first text and HTML bodies so far, and the attachments so far.\<close>

fun body_parts :: "mime_part list \<Rightarrow> string \<times> string \<times> attachment_info list \<Rightarrow> string \<times> string \<times> attachment_info list" where
  "body_parts [] acc = acc"
| "body_parts (p # ps) (txt, html, atts) = body_parts ps
     (if mp_attachment p
      then (txt, html, atts @ [\<lparr>at_part_num = length atts + 1, at_filename = mp_filename p, at_ctype = mp_ctype p,
              at_size = int (length (mp_body p))\<rparr>])
      else if has_prefix (mp_ctype p) ''text/html'' \<and> html = '''' then (txt, mp_body p, atts)
      else if has_prefix (mp_ctype p) ''text/plain'' \<and> txt = '''' then (mp_body p, html, atts)
      else (txt, html, atts))"

definition extract_body :: "mail_lib \<Rightarrow> bytes \<Rightarrow> string \<times> string \<times> string list \<times> attachment_info list" where
  "extract_body L raw =
     (case ml_reader L raw of
        Inl e \<Rightarrow> ('''', '''', [], [])
      | Inr r \<Rightarrow> (case body_parts (mr_parts r) ('''', '''', []) of (txt, html, atts) \<Rightarrow> (txt, html, mr_references r, atts)))"

definition attachment_not_found :: goerr where "attachment_not_found = ErrMsg ''attachment not found''"

fun nth_attachment :: "mime_part list \<Rightarrow> goerr option \<Rightarrow> nat \<Rightarrow> nat \<Rightarrow> goerr + bytes \<times> string \<times> string" where
  "nth_attachment [] err i num = (case err of Some e \<Rightarrow> Inl e | None \<Rightarrow> Inl attachment_not_found)"
| "nth_attachment (p # ps) err i num =
     (if \<not> mp_attachment p then nth_attachment ps err i num
      else if i + 1 \<noteq> num then nth_attachment ps err (i + 1) num
      else if mp_broken p then Inl (ErrMsg ''unexpected EOF'')
      else Inr (mp_body p, mp_filename p, mp_ctype p))"

definition extract_attachment :: "mail_lib \<Rightarrow> bytes \<Rightarrow> nat \<Rightarrow> goerr + bytes \<times> string \<times> string" where
  "extract_attachment L raw num =
     (case ml_reader L raw of Inl e \<Rightarrow> Inl e | Inr r \<Rightarrow> nth_attachment (mr_parts r) (mr_err r) 0 num)"

definition get_message :: "backend \<Rightarrow> mail_lib \<Rightarrow> nat \<Rightarrow> string \<Rightarrow> u32 \<Rightarrow> full_message sio" where
  "get_message B L a folder uid =
     io_bind (mailbox B a folder) (\<lambda>i.
     io_bind (box i) (\<lambda>b.
     case find_by_uid uid (mb_list b) of
       None \<Rightarrow> io_fail no_message
     | Some m \<Rightarrow>
         io_bind (io_wrap ''reading message'' (on_world (maildir_open (mb_root b) (m_key m)))) (\<lambda>buf.
         io_bind (if \<not> has_flag m flag_seen
            then io_bind (at_box i (put_message (mark_seen m))) (\<lambda>_.
                 io_bind (at_box i (persist_flags_locked (mark_seen m))) (\<lambda>_. io_ret (mark_seen m)))
            else io_ret m) (\<lambda>m.
         io_bind (on_world (summarize L (mb_root b) m)) (\<lambda>sum.
         case extract_body L buf of (txt, html, refs, atts) \<Rightarrow>
         io_ret (case ml_envelope L buf of
             None \<Rightarrow> \<lparr>fm_summary = sum, fm_cc = '''', fm_message_id = '''', fm_in_reply_to = '''',
               fm_references = join_str '' '' refs, fm_text = txt, fm_html = html, fm_attachments = atts\<rparr>
           | Some env \<Rightarrow> \<lparr>fm_summary = sum, fm_cc = format_address_list (env_cc env), fm_message_id = env_message_id env,
               fm_in_reply_to = (case env_in_reply_to env of [] \<Rightarrow> '''' | r # _ \<Rightarrow> r),
               fm_references = join_str '' '' refs, fm_text = txt, fm_html = html, fm_attachments = atts\<rparr>))))))"

definition get_attachment :: "backend \<Rightarrow> mail_lib \<Rightarrow> nat \<Rightarrow> string \<Rightarrow> u32 \<Rightarrow> nat \<Rightarrow> (bytes \<times> string \<times> string) sio" where
  "get_attachment B L a folder uid num =
     io_bind (mailbox B a folder) (\<lambda>i.
     io_bind (box i) (\<lambda>b.
     case find_by_uid uid (mb_list b) of
       None \<Rightarrow> io_fail no_message
     | Some m \<Rightarrow>
         io_bind (io_wrap ''reading message'' (on_world (maildir_open (mb_root b) (m_key m)))) (\<lambda>buf.
         case extract_attachment L buf num of Inl e \<Rightarrow> io_fail e | Inr x \<Rightarrow> io_ret x)))"

section \<open>Changing\<close>

definition account_append :: "backend \<Rightarrow> nat \<Rightarrow> string \<Rightarrow> bytes \<Rightarrow> string list \<Rightarrow> u32 sio" where
  "account_append B a folder raw flags =
     io_bind (mailbox B a folder) (\<lambda>i.
     io_bind (at_box i (append_bytes (bk_store B) raw None flags)) (\<lambda>(v, uid).
     io_ret uid))"

definition account_set_flags :: "backend \<Rightarrow> nat \<Rightarrow> string \<Rightarrow> u32 \<Rightarrow> string list \<Rightarrow> unit sio" where
  "account_set_flags B a folder uid flags =
     io_bind (mailbox B a folder) (\<lambda>i.
     io_bind (box i) (\<lambda>b.
     case find_by_uid uid (mb_list b) of
       None \<Rightarrow> io_fail no_message
     | Some m \<Rightarrow>
         let m' = m\<lparr>m_flags := fold (\<lambda>f l. add_flag (canonical_flag f) l) flags []\<rparr> in
         io_bind (at_box i (put_message m')) (\<lambda>_. at_box i (persist_flags_locked m'))))"

text \<open>\<open>moveTo\<close>: the source and the destination may be the same folder.\<close>

definition move_to :: "backend \<Rightarrow> nat \<Rightarrow> string \<Rightarrow> u32 \<Rightarrow> string \<Rightarrow> unit sio" where
  "move_to B a folder uid dest_folder =
     io_bind (mailbox B a folder) (\<lambda>src.
     io_bind (mailbox B a dest_folder) (\<lambda>dest.
     io_bind (box src) (\<lambda>b.
     case find_by_uid uid (mb_list b) of
       None \<Rightarrow> io_fail no_message
     | Some m \<Rightarrow>
         io_bind (io_wrap ''reading message'' (on_world (maildir_open (mb_root b) (m_key m)))) (\<lambda>buf.
         io_bind (io_wrap (''copying to '' @ dest_folder) (at_box dest (append_bytes (bk_store B) buf (Some (m_t m)) (m_flags m)))) (\<lambda>_.
         io_bind (io_wrap ''removing original'' (on_world (maildir_remove (mb_root b) (m_key m)))) (\<lambda>_.
         io_bind (on_world (delete_message_by_key (mb_db_id b) (m_key m))) (\<lambda>_.
         io_bind (at_box src (expunge_locked [m_uid m])) (\<lambda>_. io_ret ()))))))))"

definition account_expunge :: "backend \<Rightarrow> nat \<Rightarrow> string \<Rightarrow> u32 \<Rightarrow> unit sio" where
  "account_expunge B a folder uid =
     io_bind (mailbox B a folder) (\<lambda>i.
     io_bind (box i) (\<lambda>b.
     case find_by_uid uid (mb_list b) of
       None \<Rightarrow> io_fail no_message
     | Some m \<Rightarrow>
         io_bind (io_wrap ''removing message'' (on_world (maildir_remove (mb_root b) (m_key m)))) (\<lambda>_.
         io_bind (on_world (delete_message_by_key (mb_db_id b) (m_key m))) (\<lambda>_.
         io_bind (at_box i (expunge_locked [m_uid m])) (\<lambda>_. io_ret ())))))"

definition account_delete :: "backend \<Rightarrow> nat \<Rightarrow> string \<Rightarrow> u32 \<Rightarrow> unit sio" where
  "account_delete B a folder uid =
     (if equal_fold folder ''Trash'' then account_expunge B a folder uid else move_to B a folder uid ''Trash'')"

definition account_move :: "backend \<Rightarrow> nat \<Rightarrow> string \<Rightarrow> u32 \<Rightarrow> string \<Rightarrow> unit sio" where
  "account_move B a folder uid dest_folder = move_to B a folder uid dest_folder"

end
