(* ===== verification/WebApiInv.thy ===== *)
theory WebApiInv
  imports WebApi UserInv "HOL-Library.Multiset"
begin

text \<open>
  Properties of the webmail's account: its pages partition the list of messages, INBOX comes first among the
  folders, attachments are what they were announced as, and a page number that is large enough overflows.
\<close>

section \<open>Pages\<close>

lemma go_int_eq: "go_int x = (x + 2 ^ 63) mod 2 ^ 64 - 2 ^ 63"
  unfolding go_int_def sint_sbintrunc' by (simp add: signed_take_bit_eq_take_bit_shift take_bit_eq_mod)

lemma go_int_fits: "- (2 ^ 63) \<le> x \<Longrightarrow> x < 2 ^ 63 \<Longrightarrow> go_int x = x"
  unfolding go_int_eq by (simp add: mod_pos_pos_trivial)

text \<open>A page within the range of the 64-bit arithmetic.\<close>

lemma page_slice:
  assumes "1 \<le> p" and "1 \<le> s" and "p * s < 2 ^ 62" and "int (length l) < 2 ^ 62"
  shows "page_messages l p s = Some (take (nat s) (drop (nat ((p - 1) * s)) (rev l)))"
proof -
  let ?n = "int (length l)"
  have ps: "0 \<le> (p - 1) * s" "(p - 1) * s = p * s - s" using assms(1,2) by (simp_all add: algebra_simps)
  have s: "s \<le> p * s" using assms(1,2) by (simp add: mult_le_cancel_right1)
  have p: "p \<le> p * s" using assms(1,2) by (simp add: mult_le_cancel_left1)
  have "p < 2 ^ 62" using p assms(3) by (rule order.strict_trans1)
  then have 1: "go_int (p - 1) = p - 1" using assms(1) by (intro go_int_fits) auto
  have two: "(2 :: int) ^ 63 = 2 * 2 ^ 62" by simp
  have 2: "go_int ((p - 1) * s) = (p - 1) * s"
    by (rule go_int_fits) (use assms(2-4) ps s two in linarith)+
  have 3: "go_int (?n - (p - 1) * s) = ?n - (p - 1) * s" by (rule go_int_fits) (use assms(2-4) ps s two in linarith)+
  let ?stop = "?n - (p - 1) * s"
  have 4: "go_int (?stop - s) = ?stop - s" by (rule go_int_fits) (use assms(2-4) ps s two in linarith)+
  show ?thesis
  proof (cases "?stop \<le> 0")
    case True
    then have "length l \<le> nat ((p - 1) * s)" using ps by linarith
    with True assms(1,2) 1 2 3 show ?thesis by (simp add: page_messages_def Let_def)
  next
    case False
    let ?start = "if ?stop - s < 0 then 0 else ?stop - s"
    have "rev (drop (nat ?start) (take (nat ?stop) l)) = take (nat s) (drop (nat ((p - 1) * s)) (rev l))"
      (is "?L = ?R")
    proof -
      have stop: "nat ?stop = length l - nat ((p - 1) * s)" using ps False by linarith
      have "drop (nat ((p - 1) * s)) (rev l) = rev (take (nat ?stop) l)" unfolding stop by (simp add: drop_rev)
      moreover have "take (nat s) (rev (take (nat ?stop) l)) = rev (drop (length (take (nat ?stop) l) - nat s) (take (nat ?stop) l))"
        by (simp add: take_rev)
      moreover have "length (take (nat ?stop) l) - nat s = nat ?start" using stop ps False assms(2) by (auto simp: min_def)
      ultimately show ?thesis by simp
    qed
    moreover have "page_messages l p s = Some (rev (drop (nat ?start) (take (nat ?stop) l)))"
      unfolding page_messages_def Let_def using False assms(1,2) ps(1) [unfolded linorder_not_less [symmetric]]
      by (simp add: 1 2 3 4)
    ultimately show ?thesis by simp
  qed
qed

lemma concat_chunks:
  "0 < k \<Longrightarrow> length xs \<le> n * k \<Longrightarrow> concat (map (\<lambda>i. take k (drop (i * k) xs)) [0..<n]) = xs"
proof (induction n arbitrary: xs)
  case (Suc n)
  have "concat (map (\<lambda>i. take k (drop (i * k) xs)) [0..<Suc n]) =
      take k xs @ concat (map (\<lambda>i. take k (drop (i * k) (drop k xs))) [0..<n])"
    by (simp add: upt_conv_Cons map_Suc_upt [symmetric] comp_def del: upt_Suc map_Suc_upt) (simp add: add.commute)
  also have "concat (map (\<lambda>i. take k (drop (i * k) (drop k xs))) [0..<n]) = drop k xs"
    by (rule Suc.IH) (use Suc.prems in simp_all)
  finally show ?case by (simp only: append_take_drop_id)
qed simp

text \<open>
  C37: the pages of a folder are its messages, newest first, each exactly once: with a page size of at
  least one and within the range of the server's integers, no page fails, page \<open>p\<close> is the \<open>p\<close>-th run
  of that many messages, the pages up to the last follow each other to the whole folder, and every
  later page is empty.
\<close>

theorem pages_partition:
  assumes "1 \<le> s" and "int n * s < 2 ^ 62" and "int (length l) \<le> int n * s"
  shows "concat (map (\<lambda>i. the (page_messages l (int i + 1) s)) [0..<n]) = rev l \<and>
    (\<forall>i < n. page_messages l (int i + 1) s \<noteq> None) \<and>
    (\<forall>p. int n < p \<longrightarrow> p * s < 2 ^ 62 \<longrightarrow> page_messages l p s = Some [])"
proof -
  have len: "int (length l) < 2 ^ 62" using assms by linarith
  have page: "page_messages l (int i + 1) s = Some (take (nat s) (drop (i * nat s) (rev l)))" if "i < n" for i
  proof -
    have "(int i + 1) * s \<le> int n * s" using that assms(1) by (intro mult_right_mono) auto
    then have "(int i + 1) * s < 2 ^ 62" using assms(2) by (rule order.strict_trans1)
    from page_slice [OF _ assms(1) this len]
    have "page_messages l (int i + 1) s = Some (take (nat s) (drop (nat ((int i + 1 - 1) * s)) (rev l)))" by simp
    moreover have "nat (int i * s) = i * nat s" using assms(1) by (simp add: nat_mult_distrib)
    ultimately show ?thesis by simp
  qed
  have "concat (map (\<lambda>i. the (page_messages l (int i + 1) s)) [0..<n]) = concat (map (\<lambda>i. take (nat s) (drop (i * nat s) (rev l))) [0..<n])"
    using page by (intro arg_cong [where f = concat] map_cong) auto
  also have "\<dots> = rev l"
  proof (rule concat_chunks)
    have "int n * s = int (n * nat s)" using assms(1) by simp
    with assms(3) have "int (length (rev l)) \<le> int (n * nat s)" by simp
    then show "length (rev l) \<le> n * nat s" by (simp only: of_nat_le_iff)
  qed (use assms(1) in simp)
  finally have all: "concat (map (\<lambda>i. the (page_messages l (int i + 1) s)) [0..<n]) = rev l" .
  have later: "page_messages l p s = Some []" if "int n < p" "p * s < 2 ^ 62" for p
  proof -
    have "int n * s \<le> (p - 1) * s" using that(1) assms(1) by (intro mult_right_mono) auto
    with assms(3) have "int (length l) \<le> (p - 1) * s" by linarith
    then have "length (rev l) \<le> nat ((p - 1) * s)" by simp
    then have "drop (nat ((p - 1) * s)) (rev l) = []" by simp
    with page_slice [of p s l] that assms(1) len show ?thesis by simp
  qed
  from all page later show ?thesis by simp
qed

lemma pages_partition_witness:
  "concat (map (\<lambda>i. the (page_messages [1, 2, 3, 4, 5 :: nat] (int i + 1) 2)) [0..<3]) = [5, 4, 3, 2, 1]"
proof -
  have "(1 :: int) \<le> 2" "int 3 * 2 < 2 ^ 62" "int (length [1, 2, 3, 4, 5 :: nat]) \<le> int 3 * 2" by simp_all
  from pages_partition [OF this] show ?thesis by simp
qed

text \<open>
  C40: a page number from the address bar can crash the request. For every folder with fewer than
  seventeen messages there is a positive page number, below the largest the parser accepts, for which
  the offset wraps around and the message list is indexed far beyond its end.
\<close>

theorem page_overflow_panics:
  assumes "length l < 17"
  shows "page_messages l 368934881474191034 25 = None \<and> (368934881474191034 :: int) < 2 ^ 63"
proof -
  have 1: "go_int (368934881474191034 - 1) = 368934881474191033" by (simp add: go_int_eq)
  have 2: "go_int (368934881474191033 * 25) = 17 - 2 ^ 63" by (simp add: go_int_eq)
  have 3: "go_int (int (length l) - (17 - 2 ^ 63)) = int (length l) + 2 ^ 63 - 17"
    using assms by (subst go_int_fits) auto
  show ?thesis unfolding page_messages_def Let_def using 1 2 3 by simp
qed

lemma page_overflow_panics_witness: "page_messages [''a''] 368934881474191034 25 = None"
proof -
  have "length [''a''] < 17" by simp
  from page_overflow_panics [OF this] show ?thesis by simp
qed

section \<open>Folders and attachments\<close>

definition inbox_first :: "folder_info list \<Rightarrow> bool" where
  "inbox_first fs \<longleftrightarrow> sorted_wrt (\<lambda>x y. (fi_name x = ''INBOX'' \<or> fi_name y \<noteq> ''INBOX'') \<and>
     (fi_name x \<noteq> ''INBOX'' \<and> fi_name y \<noteq> ''INBOX'' \<longrightarrow> fi_name x \<le> fi_name y)) fs"

lemma mset_insort_less: "mset (insort_less lt x xs) = add_mset x (mset xs)"
  by (induction xs) auto

lemma insort_inbox_first: "inbox_first xs \<Longrightarrow> inbox_first (insort_less inbox_less x xs)"
proof (induction xs)
  case (Cons y ys)
  have ins: "set (insort_less inbox_less x ys) = insert x (set ys)"
    by (metis mset_insort_less set_mset_add_mset_insert set_mset_mset)
  show ?case
  proof (cases "inbox_less y x")
    case True
    from Cons.prems have "inbox_first ys" by (simp add: inbox_first_def)
    note IH = Cons.IH [OF this]
    have "(fi_name y = ''INBOX'' \<or> fi_name z \<noteq> ''INBOX'') \<and> (fi_name y \<noteq> ''INBOX'' \<and> fi_name z \<noteq> ''INBOX'' \<longrightarrow> fi_name y \<le> fi_name z)"
      if "z \<in> insert x (set ys)" for z
      using that True Cons.prems by (auto simp: inbox_first_def inbox_less_def split: if_splits)
    with IH True show ?thesis unfolding inbox_first_def by (simp add: ins)
  next
    case False
    with Cons.prems show ?thesis
      by (auto simp: inbox_first_def inbox_less_def not_less split: if_splits intro: order.trans)
  qed
qed (simp add: inbox_first_def)

lemma find_by_uid_uid: "find_by_uid u l = Some m \<Longrightarrow> m \<in> set l \<and> m_uid m = u"
  by (auto simp: find_by_uid_def find_Some_iff)

text \<open>The walk for the reading pane and the walk for the download number the attachments alike.\<close>

definition agrees :: "mime_part list \<Rightarrow> goerr option \<Rightarrow> nat \<Rightarrow> attachment_info \<Rightarrow> bool" where
  "agrees ps err i a \<longleftrightarrow> (\<exists>p \<in> set ps. mp_attachment p \<and> at_filename a = mp_filename p \<and> at_ctype a = mp_ctype p \<and>
     at_size a = int (length (mp_body p)) \<and> nth_attachment ps err i (at_part_num a) =
       (if mp_broken p then Inl (ErrMsg ''unexpected EOF'') else Inr (mp_body p, mp_filename p, mp_ctype p)))"

lemma agrees_skip: "\<not> mp_attachment p \<Longrightarrow> agrees ps err i a \<Longrightarrow> agrees (p # ps) err i a"
  by (auto simp: agrees_def)

lemma agrees_next: "mp_attachment p \<Longrightarrow> i + 1 < at_part_num a \<Longrightarrow> agrees ps err (i + 1) a \<Longrightarrow> agrees (p # ps) err i a"
  by (auto simp: agrees_def)

lemma body_parts_attachments:
  "\<exists>atts'. snd (snd (body_parts ps (tx, html, atts))) = atts @ atts' \<and>
     (\<forall>a \<in> set atts'. length atts < at_part_num a \<and> agrees ps err (length atts) a)"
proof (induction ps arbitrary: tx html atts)
  case Nil
  then show ?case by simp
next
  case (Cons p ps)
  show ?case
  proof (cases "mp_attachment p")
    case True
    let ?a = "\<lparr>at_part_num = length atts + 1, at_filename = mp_filename p, at_ctype = mp_ctype p, at_size = int (length (mp_body p))\<rparr>"
    from Cons.IH [of tx html "atts @ [?a]"] obtain atts' where
      1: "snd (snd (body_parts ps (tx, html, atts @ [?a]))) = (atts @ [?a]) @ atts'"
      and 2: "\<forall>a \<in> set atts'. length atts + 1 < at_part_num a \<and> agrees ps err (length atts + 1) a" by auto
    have "agrees (p # ps) err (length atts) ?a" using True by (auto simp: agrees_def)
    with 1 2 True show ?thesis
      by (intro exI [of _ "?a # atts'"]) (auto intro: agrees_next)
  next
    case False
    have "\<exists>tx' html'. body_parts (p # ps) (tx, html, atts) = body_parts ps (tx', html', atts)"
      using False by (cases "has_prefix (mp_ctype p) ''text/html'' \<and> html = []"; cases "has_prefix (mp_ctype p) ''text/plain'' \<and> tx = []") auto
    then obtain tx' html' where step: "body_parts (p # ps) (tx, html, atts) = body_parts ps (tx', html', atts)" by blast
    from Cons.IH [of tx' html' atts] show ?thesis unfolding step using agrees_skip [OF False] by blast
  qed
qed

text \<open>
  C38: an attachment downloads as the reading pane announced it. For every attachment in the list of a
  message, downloading its number gives the file name and the content type shown and as many bytes as
  shown, unless its body cannot be read to the end; then the download fails, and no other part of the
  message is ever given in its place.
\<close>

theorem attachments_agree:
  assumes "a \<in> set (snd (snd (snd (extract_body L raw))))"
  shows "(\<exists>data. extract_attachment L raw (at_part_num a) = Inr (data, at_filename a, at_ctype a) \<and> at_size a = int (length data)) \<or>
    extract_attachment L raw (at_part_num a) = Inl (ErrMsg ''unexpected EOF'')"
proof (cases "ml_reader L raw")
  case (Inl e)
  with assms show ?thesis by (simp add: extract_body_def)
next
  case (Inr r)
  have a: "a \<in> set (snd (snd (body_parts (mr_parts r) ('''', '''', []))))"
    using assms Inr by (auto simp: extract_body_def split: prod.splits)
  with body_parts_attachments [of "mr_parts r" "''''" "''''" "[]" "mr_err r"]
  have "agrees (mr_parts r) (mr_err r) 0 a" by auto
  with Inr show ?thesis by (auto simp: extract_attachment_def agrees_def)
qed

definition two_parts :: mail_lib where
  "two_parts = \<lparr>ml_envelope = (\<lambda>_. None), ml_reader = (\<lambda>raw. Inr \<lparr>mr_references = [], mr_parts =
     [\<lparr>mp_attachment = False, mp_ctype = ''text/plain'', mp_filename = '''', mp_body = ''hi'', mp_broken = False\<rparr>,
      \<lparr>mp_attachment = True, mp_ctype = ''image/png'', mp_filename = ''a.png'', mp_body = raw, mp_broken = False\<rparr>], mr_err = None\<rparr>),
     ml_search = \<lparr>se_parse = (\<lambda>_. None), se_zone = (\<lambda>_. 0)\<rparr>\<rparr>"

lemma attachments_agree_witness:
  "extract_attachment two_parts ''xyz'' 1 = Inr (''xyz'', ''a.png'', ''image/png'')"
proof -
  let ?a = "\<lparr>at_part_num = 1, at_filename = ''a.png'', at_ctype = ''image/png'', at_size = 3\<rparr>"
  have "?a \<in> set (snd (snd (snd (extract_body two_parts ''xyz''))))" by (simp add: extract_body_def two_parts_def has_prefix_def)
  from attachments_agree [OF this] show ?thesis by (auto simp: extract_attachment_def two_parts_def)
qed

end
