(* ===== verification/NetIP.thy ===== *)
theory NetIP
  imports GoText "HOL-Library.Word"
begin

unbundle bit_operations_syntax

text \<open>
  Internet addresses as the standard library reads and prints them: \<open>net.ParseIP\<close>, \<open>IP.String\<close>,
  \<open>net.ParseCIDR\<close>, \<open>IPNet.Contains\<close> and \<open>net.SplitHostPort\<close>. An address is the list of its 16
  bytes, or of the 4 bytes of its short form.
\<close>

type_synonym byte = "8 word"
type_synonym ip = "byte list"

section \<open>Reading\<close>

definition octet :: "string \<Rightarrow> byte option" where
  "octet f =
     (if f = '''' \<or> \<not> list_all is_digit f \<or> (1 < length f \<and> hd f = CHR ''0'') \<or> 255 < value_digits f then None
      else Some (word_of_nat (value_digits f)))"

fun all_some :: "'a option list \<Rightarrow> 'a list option" where
  "all_some [] = Some []"
| "all_some (None # xs) = None"
| "all_some (Some x # xs) = map_option (Cons x) (all_some xs)"

definition parse_ipv4 :: "string \<Rightarrow> byte list option" where
  "parse_ipv4 s = (let fs = split_byte (CHR ''.'') s in if length fs \<noteq> 4 then None else all_some (map octet fs))"

definition hex_value :: "char \<Rightarrow> nat option" where
  "hex_value c =
     (let n = of_char c in
      if 48 \<le> n \<and> n \<le> 57 then Some (n - 48)
      else if 97 \<le> n \<and> n \<le> 102 then Some (n - 87)
      else if 65 \<le> n \<and> n \<le> 70 then Some (n - 55)
      else None)"

fun hex_number :: "nat \<Rightarrow> string \<Rightarrow> nat" where
  "hex_number acc [] = acc"
| "hex_number acc (c # cs) = hex_number (acc * 16 + the (hex_value c)) cs"

text \<open>
  The fields of an IPv6 address: at most \<open>n\<close> of two bytes each are read, a last one of four bytes
  may be dotted. \<open>out\<close> holds the bytes read, \<open>el\<close> where the ellipsis stands among them.
\<close>

fun ipv6_fields :: "nat \<Rightarrow> byte list \<Rightarrow> nat option \<Rightarrow> string \<Rightarrow> (byte list \<times> nat option) option" where
  "ipv6_fields 0 out el s = (if s = [] then Some (out, el) else None)"
| "ipv6_fields (Suc n) out el s =
     (let ds = takeWhile (\<lambda>c. hex_value c \<noteq> None) s; rest = drop (length ds) s in
      if ds = [] \<or> 4 < length ds then None
      else if rest \<noteq> [] \<and> hd rest = CHR ''.'' then
        (if el = None \<and> length out \<noteq> 12 then None
         else if 16 < length out + 4 then None
         else map_option (\<lambda>b4. (out @ b4, el)) (parse_ipv4 s))
      else
        let v = hex_number 0 ds; out' = out @ [word_of_nat (v div 256), word_of_nat v] in
        if rest = [] then Some (out', el)
        else if hd rest \<noteq> CHR '':'' \<or> length rest = 1 then None
        else let s' = tl rest in
          if hd s' = CHR '':'' then
            (if el \<noteq> None then None
             else if tl s' = [] then Some (out', Some (length out'))
             else ipv6_fields n out' (Some (length out')) (tl s'))
          else ipv6_fields n out' el s')"

definition parse_ipv6 :: "string \<Rightarrow> ip option" where
  "parse_ipv6 s =
     (if s = ''::'' then Some (replicate 16 0)
      else case (if has_prefix s ''::'' then ipv6_fields 8 [] (Some 0) (drop 2 s) else ipv6_fields 8 [] None s) of
        None \<Rightarrow> None
      | Some (out, None) \<Rightarrow> if length out = 16 then Some out else None
      | Some (out, Some k) \<Rightarrow> if length out < 16 then Some (take k out @ replicate (16 - length out) 0 @ drop k out) else None)"

definition v4_prefix :: "byte list" where
  "v4_prefix = replicate 10 0 @ [255, 255]"

text \<open>\<open>netip.ParseAddr\<close> decides by the first dot, colon or percent sign; \<open>ParseIP\<close> refuses zones.\<close>

definition parse_addr :: "string \<Rightarrow> byte list option" where
  "parse_addr s =
     (if CHR ''%'' \<in> set s then None
      else case find (\<lambda>c. c = CHR ''.'' \<or> c = CHR '':'') s of
        None \<Rightarrow> None
      | Some c \<Rightarrow> if c = CHR ''.'' then parse_ipv4 s else parse_ipv6 s)"

definition to16 :: "byte list \<Rightarrow> ip" where
  "to16 a = (if length a = 4 then v4_prefix @ a else a)"

definition to4 :: "byte list \<Rightarrow> byte list" where
  "to4 a = (if length a = 16 \<and> take 12 a = v4_prefix then drop 12 a else a)"

definition parse_ip :: "string \<Rightarrow> ip option" where
  "parse_ip s = map_option to16 (parse_addr s)"

section \<open>Printing\<close>

fun show_hex :: "nat \<Rightarrow> string" where
  "show_hex n = (if n < 16 then [hex_digit n] else show_hex (n div 16) @ [hex_digit (n mod 16)])"

declare show_hex.simps [simp del]

fun groups :: "byte list \<Rightarrow> nat list" where
  "groups (a # b # xs) = (unat a * 256 + unat b) # groups xs"
| "groups xs = []"

text \<open>The first of the longest runs of at least two zero groups, as start and end.\<close>

definition zero_run :: "nat list \<Rightarrow> nat \<Rightarrow> nat" where
  "zero_run gs i = length (takeWhile (\<lambda>g. g = 0) (drop i gs))"

definition longest_zeros :: "nat list \<Rightarrow> (nat \<times> nat) option" where
  "longest_zeros gs = fold (\<lambda>i best.
     let l = zero_run gs i in
     if 2 \<le> l \<and> (case best of None \<Rightarrow> True | Some (a, z) \<Rightarrow> z - a < l) then Some (i, i + l) else best)
     [0..<length gs] None"

definition show_ip :: "ip \<Rightarrow> string" where
  "show_ip a =
     (let b = to4 a in
      if length b = 4 then join_str ''.'' (map (\<lambda>x. show_nat (unat x)) b)
      else case longest_zeros (groups b) of
          None \<Rightarrow> join_str '':'' (map show_hex (groups b))
        | Some (i, j) \<Rightarrow> join_str '':'' (map show_hex (take i (groups b))) @ ''::'' @ join_str '':'' (map show_hex (drop j (groups b))))"

section \<open>Ranges\<close>

record ip_net =
  net_ip :: "byte list"
  net_mask :: "byte list"

definition cidr_mask :: "nat \<Rightarrow> nat \<Rightarrow> byte list" where
  "cidr_mask ones bits = map (\<lambda>i. if 8 * (i + 1) \<le> ones then 255
     else if ones \<le> 8 * i then 0 else word_of_nat (256 - 2 ^ (8 - (ones - 8 * i)))) [0..<bits div 8]"

text \<open>\<open>dtoi\<close>: digits only, below \<open>0xFFFFFF\<close>.\<close>

definition parse_cidr :: "string \<Rightarrow> ip_net option" where
  "parse_cidr s =
     (case cut_byte (CHR ''/'') s of
        None \<Rightarrow> None
      | Some (addr, ones) \<Rightarrow>
          (case parse_addr addr of
             None \<Rightarrow> None
           | Some a \<Rightarrow>
               let bits = 8 * length a in
               if ones = [] \<or> \<not> list_all is_digit ones \<or> bits < value_digits ones then None
               else let m = cidr_mask (value_digits ones) bits in
                 Some \<lparr>net_ip = map2 (AND) a m, net_mask = m\<rparr>))"

text \<open>\<open>Contains\<close> compares the short forms; a mask of the long form is shortened with its address.\<close>

definition net_contains :: "ip_net \<Rightarrow> ip \<Rightarrow> bool" where
  "net_contains n a =
     (let nn = to4 (net_ip n); x = to4 a;
          m = (if length nn = 4 \<and> length (net_mask n) = 16 then drop 12 (net_mask n) else net_mask n) in
      length nn = length m \<and> length x = length nn \<and>
      list_all2 (\<lambda>y z. y = z) (map2 (AND) nn m) (map2 (AND) x m))"

section \<open>Host and port\<close>

definition split_host_port :: "string \<Rightarrow> (string \<times> string) option" where
  "split_host_port hp =
     (let i = last_index_byte hp (CHR '':'') in
      if i < 0 then None
      else if hd hp = CHR ''['' then
        (let e = index_byte hp (CHR '']'') in
         if e < 0 \<or> e + 1 \<noteq> i then None
         else let h = take (nat (e - 1)) (tl hp) in
           if CHR ''['' \<in> set (tl hp) \<or> CHR '']'' \<in> set (drop (nat (e + 1)) hp) then None
           else Some (h, drop (nat (i + 1)) hp))
      else let h = take (nat i) hp in
        if CHR '':'' \<in> set h then None
        else if CHR ''['' \<in> set hp \<or> CHR '']'' \<in> set hp then None
        else Some (h, drop (nat (i + 1)) hp))"

end
