(* ===== verification/InboundAuth.thy ===== *)
theory InboundAuth
  imports NetIP Address
begin

text \<open>
  \<open>internal/inboundauth/verify.go\<close>: SPF, DKIM and DMARC of an inbound message. The checks that ask the
  DNS, the list of public suffixes, the header format and the parser of \<open>From\<close> belong to libraries:
  they are the fields of \<open>auth_lib\<close>.

  What is shown: which record of the sending domain is applied, and that mail is put aside exactly
  when that record asks for it and the message is not authenticated for the domain in \<open>From\<close>.
\<close>

section \<open>What the libraries answer\<close>

datatype auth_result =
    SPFResult (ar_value: string) (ar_from: string) (ar_helo: string)
  | DKIMResult (ar_value: string) (ar_reason: string) (ar_domain: string) (ar_identifier: string)
  | DMARCResult (ar_value: string) (ar_reason: string) (ar_from: string)

datatype dkim_err = TempFail string | PermFail string | OtherFail string

record verification =
  dv_domain :: string
  dv_identifier :: string
  dv_err :: "dkim_err option"

record dmarc_record =
  dr_policy :: string
  dr_subdomain_policy :: string
  dr_spf_alignment :: string
  dr_dkim_alignment :: string

text \<open>\<open>ErrNoPolicy\<close>; or another error with its text, which may be temporary.\<close>

datatype dmarc_err = NoPolicy | LookupErr bool string

record auth_lib =
  al_spf :: "ip \<Rightarrow> string \<Rightarrow> string \<Rightarrow> string"
  al_dkim :: "string \<Rightarrow> goerr + verification list"
  al_dmarc :: "string \<Rightarrow> dmarc_err + dmarc_record"
  al_org_domain :: "string \<Rightarrow> string option"
  al_format :: "string \<Rightarrow> auth_result list \<Rightarrow> string"
  al_from_header :: "string \<Rightarrow> string list option"

record auth_verdict =
  av_results :: string
  av_quarantine :: bool

section \<open>The checks\<close>

definition check_spf :: "auth_lib \<Rightarrow> ip option \<Rightarrow> string \<Rightarrow> string \<Rightarrow> string \<times> string" where
  "check_spf L client helo mail_from =
     (case client of
        None \<Rightarrow> (''none'', '''')
      | Some a \<Rightarrow>
          let domain = (case addr_split mail_from of (l, d, ok) \<Rightarrow> if ok then d else helo) in
          if domain = '''' then (''none'', '''') else (al_spf L a helo mail_from, domain))"

definition dkim_result :: "verification \<Rightarrow> auth_result" where
  "dkim_result v =
     (case dv_err v of
        None \<Rightarrow> DKIMResult ''pass'' '''' (dv_domain v) (dv_identifier v)
      | Some (TempFail t) \<Rightarrow> DKIMResult ''temperror'' t (dv_domain v) (dv_identifier v)
      | Some (PermFail t) \<Rightarrow> DKIMResult ''permerror'' t (dv_domain v) (dv_identifier v)
      | Some (OtherFail t) \<Rightarrow> DKIMResult ''fail'' t (dv_domain v) (dv_identifier v))"

definition check_dkim :: "auth_lib \<Rightarrow> string \<Rightarrow> auth_result list" where
  "check_dkim L raw =
     (case al_dkim L raw of
        Inl e \<Rightarrow> [DKIMResult ''none'' '''' '''' '''']
      | Inr vs \<Rightarrow> if vs = [] then [DKIMResult ''none'' '''' '''' ''''] else map dkim_result vs)"

definition aligned :: "auth_lib \<Rightarrow> string \<Rightarrow> string \<Rightarrow> string \<Rightarrow> bool" where
  "aligned L from_domain other_domain mode =
     (if other_domain = '''' then False
      else if equal_fold from_domain other_domain then True
      else if mode = ''s'' then False
      else case (al_org_domain L (to_lower from_domain), al_org_domain L (to_lower other_domain)) of
        (Some f, Some o') \<Rightarrow> equal_fold f o'
      | _ \<Rightarrow> False)"

lemma cut_byte_shorter: "cut_byte c s = Some (a, b) \<Longrightarrow> length b < length s"
  by (induction s arbitrary: a) (auto split: if_splits)

text \<open>The walk from the domain in \<open>From\<close> upwards: every step removes a label.\<close>

function dmarc_walk :: "auth_lib \<Rightarrow> string \<Rightarrow> string \<Rightarrow> string \<Rightarrow> dmarc_err + dmarc_record \<times> string" where
  "dmarc_walk L from_domain org_domain domain =
     (case al_dmarc L domain of
        Inr r \<Rightarrow> Inr (r, if domain \<noteq> from_domain \<and> dr_subdomain_policy r \<noteq> '''' then dr_subdomain_policy r else dr_policy r)
      | Inl NoPolicy \<Rightarrow>
          if domain = org_domain then Inl NoPolicy
          else (case cut_byte (CHR ''.'') domain of
              None \<Rightarrow> Inl NoPolicy
            | Some (l, rest) \<Rightarrow> dmarc_walk L from_domain org_domain rest)
      | Inl e \<Rightarrow> Inl e)"
  by pat_completeness auto
termination
  by (relation "measure (\<lambda>(L, f, g, d). length d)") (auto dest: cut_byte_shorter)

declare dmarc_walk.simps [simp del]

definition lookup_dmarc_record :: "auth_lib \<Rightarrow> string \<Rightarrow> dmarc_err + dmarc_record \<times> string" where
  "lookup_dmarc_record L from_domain0 =
     (let from_domain = to_lower from_domain0;
          org_domain = (case al_org_domain L from_domain of None \<Rightarrow> from_domain | Some d \<Rightarrow> d)
      in dmarc_walk L from_domain org_domain from_domain)"

text \<open>The loop over the DKIM results stops at the first pass that is aligned.\<close>

definition dkim_aligned :: "auth_lib \<Rightarrow> string \<Rightarrow> string \<Rightarrow> auth_result list \<Rightarrow> bool" where
  "dkim_aligned L from_domain mode rs =
     list_ex (\<lambda>r. case r of DKIMResult v t d i \<Rightarrow> v = ''pass'' \<and> aligned L from_domain d mode | _ \<Rightarrow> False) rs"

definition check_dmarc ::
    "auth_lib \<Rightarrow> string \<Rightarrow> string \<Rightarrow> string \<Rightarrow> auth_result list \<Rightarrow> auth_result option \<times> bool" where
  "check_dmarc L from_domain spf_result spf_domain dkim_results =
     (if from_domain = '''' then (None, False)
      else case lookup_dmarc_record L from_domain of
        Inl NoPolicy \<Rightarrow> (Some (DMARCResult ''none'' '''' from_domain), False)
      | Inl (LookupErr temp t) \<Rightarrow>
          (Some (DMARCResult (if temp then ''temperror'' else ''permerror'') t from_domain), False)
      | Inr (r, policy) \<Rightarrow>
          let spf_ok = (spf_result = ''pass'' \<and> aligned L from_domain spf_domain (dr_spf_alignment r)) in
          if spf_ok \<or> dkim_aligned L from_domain (dr_dkim_alignment r) dkim_results
          then (Some (DMARCResult ''pass'' '''' from_domain), False)
          else (Some (DMARCResult ''fail'' '''' from_domain), policy = ''quarantine'' \<or> policy = ''reject''))"

definition extract_from_domain :: "auth_lib \<Rightarrow> string \<Rightarrow> string" where
  "extract_from_domain L raw =
     (case al_from_header L raw of
        None \<Rightarrow> ''''
      | Some [] \<Rightarrow> ''''
      | Some (a # as) \<Rightarrow> (case addr_split a of (l, d, ok) \<Rightarrow> if ok then d else ''''))"

definition verify_message :: "auth_lib \<Rightarrow> string \<Rightarrow> ip option \<Rightarrow> string \<Rightarrow> string \<Rightarrow> string \<Rightarrow> auth_verdict" where
  "verify_message L serv_id client helo mail_from raw =
     (case check_spf L client helo mail_from of (spf_result, spf_domain) \<Rightarrow>
      let dkim_results = check_dkim L raw in
      case check_dmarc L (extract_from_domain L raw) spf_result spf_domain dkim_results of (dmarc_result, q) \<Rightarrow>
      \<lparr>av_results = al_format L serv_id ([SPFResult spf_result spf_domain helo] @ dkim_results @
          (case dmarc_result of None \<Rightarrow> [] | Some r \<Rightarrow> [r])),
       av_quarantine = q\<rparr>)"

section \<open>Which record applies\<close>

text \<open>A domain and its parents, by dropping leading labels.\<close>

function parents :: "string \<Rightarrow> string list" where
  "parents d = d # (case cut_byte (CHR ''.'') d of None \<Rightarrow> [] | Some (l, rest) \<Rightarrow> parents rest)"
  by pat_completeness auto
termination
  by (relation "measure length") (auto dest: cut_byte_shorter)

declare parents.simps [simp del]

text \<open>The domains that may speak for \<open>d\<close>: the parents up to the organizational domain.\<close>

fun up_to :: "string \<Rightarrow> string list \<Rightarrow> string list" where
  "up_to g [] = []"
| "up_to g (x # xs) = (if x = g then [x] else x # up_to g xs)"

definition speakers :: "auth_lib \<Rightarrow> string \<Rightarrow> string list" where
  "speakers L d = up_to (case al_org_domain L d of None \<Rightarrow> d | Some g \<Rightarrow> g) (parents d)"

definition applied_policy :: "string \<Rightarrow> string \<Rightarrow> dmarc_record \<Rightarrow> string" where
  "applied_policy d e r = (if e \<noteq> d \<and> dr_subdomain_policy r \<noteq> '''' then dr_subdomain_policy r else dr_policy r)"

lemma dmarc_walk_finds:
  "dmarc_walk L f g d = (case find (\<lambda>e. al_dmarc L e \<noteq> Inl NoPolicy) (up_to g (parents d)) of
     None \<Rightarrow> Inl NoPolicy
   | Some e \<Rightarrow> (case al_dmarc L e of Inl err \<Rightarrow> Inl err | Inr r \<Rightarrow> Inr (r, applied_policy f e r)))"
proof (induction L f g d rule: dmarc_walk.induct)
  case (1 L f g d)
  show ?case
  proof (cases "al_dmarc L d = Inl NoPolicy")
    case True
    show ?thesis
    proof (cases "d = g")
      case False
      show ?thesis
      proof (cases "cut_byte (CHR ''.'') d")
        case None
        with True False show ?thesis by (simp add: dmarc_walk.simps [of L f g d] parents.simps [of d])
      next
        case (Some lr)
        obtain l rest where lr: "lr = (l, rest)" by (cases lr)
        from True False Some lr have "dmarc_walk L f g d = dmarc_walk L f g rest"
          by (simp add: dmarc_walk.simps [of L f g d])
        also have "\<dots> = (case find (\<lambda>e. al_dmarc L e \<noteq> Inl NoPolicy) (up_to g (parents rest)) of
             None \<Rightarrow> Inl NoPolicy
           | Some e \<Rightarrow> (case al_dmarc L e of Inl err \<Rightarrow> Inl err | Inr r \<Rightarrow> Inr (r, applied_policy f e r)))"
          by (rule "1.IH" [OF True refl False Some [unfolded lr] refl])
        finally show ?thesis using True False Some lr by (simp add: parents.simps [of d])
      qed
    qed (use True in \<open>simp add: dmarc_walk.simps [of L f g g] parents.simps [of g]\<close>)
  next
    case False
    then show ?thesis
      by (simp add: dmarc_walk.simps [of L f g d] parents.simps [of d] applied_policy_def split: sum.splits dmarc_err.splits)
  qed
qed

text \<open>A message is authenticated for a domain: by the address it came from, or by a signature.\<close>

definition authenticated_for :: "auth_lib \<Rightarrow> string \<Rightarrow> dmarc_record \<Rightarrow> ip option \<Rightarrow> string \<Rightarrow> string \<Rightarrow> string \<Rightarrow> bool" where
  "authenticated_for L d r client helo mail_from raw \<longleftrightarrow>
     (\<exists>sd. check_spf L client helo mail_from = (''pass'', sd) \<and> aligned L d sd (dr_spf_alignment r)) \<or>
     (\<exists>vs v. al_dkim L raw = Inr vs \<and> v \<in> set vs \<and> dv_err v = None \<and> aligned L d (dv_domain v) (dr_dkim_alignment r))"

lemma dkim_aligned_iff:
  "dkim_aligned L d mode (check_dkim L raw) \<longleftrightarrow>
     (\<exists>vs v. al_dkim L raw = Inr vs \<and> v \<in> set vs \<and> dv_err v = None \<and> aligned L d (dv_domain v) mode)"
proof -
  have one: "(case dkim_result v of DKIMResult x t d' i \<Rightarrow> x = ''pass'' \<and> aligned L d d' mode | _ \<Rightarrow> False) \<longleftrightarrow>
      dv_err v = None \<and> aligned L d (dv_domain v) mode" for v
    by (auto simp: dkim_result_def split: option.splits dkim_err.splits)
  show ?thesis
    by (auto simp: dkim_aligned_def check_dkim_def list_ex_iff one split: sum.splits)
qed

text \<open>
  C15: mail is put into Junk exactly when the owner of the sending domain asks for it. That is: the
  message names a domain in \<open>From\<close>; the first of that domain and its parents, up to the organizational
  domain and no further, whose lookup does not say there is no policy publishes a record; the policy of
  the record for this domain, its subdomain policy when it belongs to a parent, asks for quarantine or
  rejection; and neither SPF nor any signature authenticates the message for that domain. A failing
  lookup, a missing record and a policy \<open>none\<close> never do.
\<close>

theorem quarantine_exact:
  "av_quarantine (verify_message L serv_id client helo mail_from raw) \<longleftrightarrow>
     (\<exists>e r. extract_from_domain L raw \<noteq> '''' \<and>
        find (\<lambda>e. al_dmarc L e \<noteq> Inl NoPolicy) (speakers L (to_lower (extract_from_domain L raw))) = Some e \<and>
        al_dmarc L e = Inr r \<and>
        applied_policy (to_lower (extract_from_domain L raw)) e r \<in> {''quarantine'', ''reject''} \<and>
        \<not> authenticated_for L (extract_from_domain L raw) r client helo mail_from raw)"
proof -
  let ?d = "extract_from_domain L raw"
  obtain sr sd where spf: "check_spf L client helo mail_from = (sr, sd)" by (metis surj_pair)
  have q: "av_quarantine (verify_message L serv_id client helo mail_from raw) = snd (check_dmarc L ?d sr sd (check_dkim L raw))"
    by (simp add: verify_message_def spf Let_def split: prod.splits)
  have au: "authenticated_for L ?d r client helo mail_from raw \<longleftrightarrow>
      (sr = ''pass'' \<and> aligned L ?d sd (dr_spf_alignment r)) \<or> dkim_aligned L ?d (dr_dkim_alignment r) (check_dkim L raw)" for r
    by (auto simp: authenticated_for_def spf dkim_aligned_iff)
  have lk: "lookup_dmarc_record L ?d = (case find (\<lambda>e. al_dmarc L e \<noteq> Inl NoPolicy) (speakers L (to_lower ?d)) of
       None \<Rightarrow> Inl NoPolicy
     | Some e \<Rightarrow> (case al_dmarc L e of Inl err \<Rightarrow> Inl err | Inr r \<Rightarrow> Inr (r, applied_policy (to_lower ?d) e r)))"
    unfolding lookup_dmarc_record_def Let_def speakers_def by (rule dmarc_walk_finds)
  have sn: "snd (check_dmarc L ?d sr sd (check_dkim L raw)) \<longleftrightarrow> ?d \<noteq> '''' \<and>
      (\<exists>r p. lookup_dmarc_record L ?d = Inr (r, p) \<and> p \<in> {''quarantine'', ''reject''} \<and>
         \<not> authenticated_for L ?d r client helo mail_from raw)"
    unfolding check_dmarc_def au by (auto simp: Let_def split: sum.splits dmarc_err.splits prod.splits)
  show ?thesis
    unfolding q sn lk by (auto split: option.splits sum.splits)
qed

end
