(* ===== verification/MailFlow.thy ===== *)
theory MailFlow
  imports Bounce InboundAuth Mailbox RateLimit
begin

text \<open>
  How mail enters the system: \<open>internal/mailsend\<close>, which sends a message of a local user, and the two
  SMTP servers of \<open>internal/smtpserver\<close>, \<open>inbound.go\<close> for mail from other servers and \<open>submission.go\<close>
  for the users' own programs. The SMTP protocol is the go-smtp library: it calls the operations of a
  session. Logging and metrics are left out.
\<close>

section \<open>Sending (\<open>mailsend.go\<close>)\<close>

record sender =
  sn_config :: config
  sn_sign :: "(string \<Rightarrow> bytes \<Rightarrow> goerr + bytes) option"

definition maildir_of :: "config \<Rightarrow> string \<Rightarrow> string \<Rightarrow> string \<Rightarrow> path" where
  "maildir_of cfg domain local_part folder =
     folder_path (user_root (config_path (st_maildir_path (cf_storage cfg))) domain local_part) folder"

definition send_one :: "sender \<Rightarrow> string \<Rightarrow> bytes \<Rightarrow> string \<Rightarrow> unit wio" where
  "send_one S from full rcpt =
     (case addr_split rcpt of (local_part, domain, ok) \<Rightarrow>
      if \<not> ok then io_fail (ErrMsg (''invalid recipient address '' @ rcpt))
      else if is_local_domain (sn_config S) domain
      then io_bind (io_wrap (''delivering to '' @ rcpt)
             (maildir_deliver (maildir_of (sn_config S) domain local_part ''INBOX'') full)) (\<lambda>_. io_ret ())
      else io_bind (io_wrap (''queuing for '' @ rcpt) (enqueue from rcpt full)) (\<lambda>_. io_ret ()))"

definition sign_for :: "sender \<Rightarrow> string \<Rightarrow> bytes \<Rightarrow> goerr + bytes" where
  "sign_for S from data =
     (case sn_sign S of
        None \<Rightarrow> Inr data
      | Some sign \<Rightarrow> (case addr_split from of (l, sender_domain, ok) \<Rightarrow>
          if \<not> ok then Inl (ErrMsg (''invalid sender address '' @ from))
          else map_sum (Wrapped ''DKIM signing'') id (sign sender_domain data)))"

definition send_mail :: "sender \<Rightarrow> string \<Rightarrow> string list \<Rightarrow> bytes \<Rightarrow> bytes wio" where
  "send_mail S from rcpts data =
     (case sign_for S from data of
        Inl e \<Rightarrow> io_fail e
      | Inr full \<Rightarrow> io_bind (io_for rcpts (send_one S from full)) (\<lambda>_. io_ret full))"

section \<open>Inbound mail (\<open>inbound.go\<close>)\<close>

text \<open>A connection: what the client called itself, and its peer's address where there is one.\<close>

record conn =
  cn_hostname :: string
  cn_remote_addr :: "string option"

record inbound_backend =
  ib_config :: config
  ib_queue :: bool
  ib_auth :: auth_lib
  ib_fmt_date :: "int \<Rightarrow> string"

record inbound_session =
  is_from :: string
  is_rcpts :: "string list"
  is_rcpt_users :: "user_row list"

type_synonym 'a inio = "(world \<times> inbound_session, 'a) io"

definition new_inbound :: inbound_session where
  "new_inbound = \<lparr>is_from = '''', is_rcpts = [], is_rcpt_users = []\<rparr>"

definition the_session :: "(world \<times> 's, 's) io" where
  "the_session = io_gets snd"

definition set_session :: "('s \<Rightarrow> 's) \<Rightarrow> (world \<times> 's, unit) io" where
  "set_session f = io_modify (\<lambda>(w, s). (w, f s))"

definition inbound_mail :: "string \<Rightarrow> unit inio" where
  "inbound_mail from = set_session (\<lambda>s. s\<lparr>is_from := from, is_rcpts := [], is_rcpt_users := []\<rparr>)"

definition inbound_rcpt :: "inbound_backend \<Rightarrow> string \<Rightarrow> unit inio" where
  "inbound_rcpt B to =
     (let addr = to_lower (trim_space to) in
      case addr_split addr of (local_part, domain, ok) \<Rightarrow>
      if \<not> ok then io_fail (SMTPError 501)
      else if \<not> is_local_domain (ib_config B) domain then io_fail (SMTPError 550)
      else io_either (on_world (get_user_by_email addr)) (\<lambda>_. io_fail (SMTPError 550)) (\<lambda>u.
        set_session (\<lambda>s. s\<lparr>is_rcpts := is_rcpts s @ [addr], is_rcpt_users := is_rcpt_users s @ [u]\<rparr>)))"

definition helo_of :: "conn option \<Rightarrow> string" where
  "helo_of c = (case c of None \<Rightarrow> '''' | Some x \<Rightarrow> cn_hostname x)"

definition peer_ip :: "conn option \<Rightarrow> ip option" where
  "peer_ip c =
     (case c of
        None \<Rightarrow> None
      | Some x \<Rightarrow> (case cn_remote_addr x of
          None \<Rightarrow> None
        | Some a \<Rightarrow> (case split_host_port a of None \<Rightarrow> None | Some (h, p) \<Rightarrow> parse_ip h)))"

definition inbound_received :: "inbound_backend \<Rightarrow> conn option \<Rightarrow> string \<Rightarrow> int \<Rightarrow> string" where
  "inbound_received B c rcpt now =
     ''Received: from '' @ helo_of c @ '' (['' @ (case peer_ip c of None \<Rightarrow> ''unknown'' | Some a \<Rightarrow> show_ip a) @ ''])'' @ crlf @
     [CHR 0x09] @ ''by '' @ cf_hostname (ib_config B) @ '' (mailserver) with ESMTP'' @ crlf @
     [CHR 0x09] @ ''for <'' @ rcpt @ ''>; '' @ ib_fmt_date B now @ crlf"

text \<open>Forwarding never makes the delivery fail: an error only goes to the log.\<close>

definition inbound_forward :: "inbound_backend \<Rightarrow> string \<Rightarrow> int \<Rightarrow> bytes \<Rightarrow> unit wio" where
  "inbound_forward B rcpt uid full =
     io_either (get_forwarding uid) (\<lambda>_. io_ret ()) (\<lambda>fw.
     if \<not> fwd_enabled fw \<or> fwd_forward_to fw = '''' then io_ret ()
     else case addr_split (fwd_forward_to fw) of (local_part, domain, ok) \<Rightarrow>
       if \<not> ok then io_ret ()
       else if is_local_domain (ib_config B) domain
       then io_either (get_user_by_email (fwd_forward_to fw)) (\<lambda>_. io_ret ()) (\<lambda>_.
            io_ignore (maildir_deliver (maildir_of (ib_config B) domain local_part ''INBOX'') full))
       else if \<not> ib_queue B then io_ret ()
       else io_ignore (enqueue rcpt (fwd_forward_to fw) full))"

definition inbound_full :: "inbound_backend \<Rightarrow> conn option \<Rightarrow> string \<Rightarrow> int \<Rightarrow> string \<Rightarrow> bytes \<Rightarrow> bytes" where
  "inbound_full B c rcpt now results body =
     inbound_received B c rcpt now @ ''Authentication-Results: '' @ results @ crlf @ body"

text \<open>The loop over the recipients; an index into \<open>rcptUsers\<close> beyond its end panics.\<close>

fun inbound_loop :: "inbound_backend \<Rightarrow> conn option \<Rightarrow> auth_verdict \<Rightarrow> bytes \<Rightarrow> user_row list \<Rightarrow> nat \<Rightarrow> string list \<Rightarrow> unit wio" where
  "inbound_loop B c v body users i [] = io_ret ()"
| "inbound_loop B c v body users i (rcpt # rcpts) =
     (case addr_split rcpt of (local_part, domain, ok) \<Rightarrow>
      io_bind time_now (\<lambda>now.
      let full = inbound_full B c rcpt now (av_results v) body;
          folder = (if av_quarantine v then ''Junk'' else ''INBOX'') in
      io_either (maildir_deliver (maildir_of (ib_config B) domain local_part folder) full)
        (\<lambda>_. io_fail (SMTPError 451))
        (\<lambda>_. if length users \<le> i then io_fail (ErrMsg ''panic: index out of range'')
             else io_bind (inbound_forward B rcpt (usr_id (users ! i)) full) (\<lambda>_.
                  inbound_loop B c v body users (i + 1) rcpts))))"

definition inbound_data :: "inbound_backend \<Rightarrow> conn option \<Rightarrow> goerr + bytes \<Rightarrow> unit inio" where
  "inbound_data B c r =
     io_bind the_session (\<lambda>s.
     if is_rcpts s = [] then io_fail (SMTPError 554)
     else case r of
         Inl e \<Rightarrow> io_fail (Wrapped ''reading message body'' e)
       | Inr body \<Rightarrow>
           let v = verify_message (ib_auth B) (cf_hostname (ib_config B)) (peer_ip c) (helo_of c) (is_from s) body in
           on_world (inbound_loop B c v body (is_rcpt_users s) 0 (is_rcpts s)))"

definition inbound_reset :: "unit inio" where
  "inbound_reset = set_session (\<lambda>s. s\<lparr>is_from := '''', is_rcpts := []\<rparr>)"

section \<open>Submission (\<open>submission.go\<close>)\<close>

record submission_backend =
  su_sender :: sender
  su_bcrypt :: bcrypt
  su_fmt_date :: "int \<Rightarrow> string"

text \<open>A session with the limiter of the server; the user is set by the authentication.\<close>

record submission =
  ss_limiter :: "limiter option"
  ss_username :: string
  ss_mail_from :: string
  ss_rcpts :: "string list"

type_synonym 'a subio = "(world \<times> submission, 'a) io"

definition new_submission :: "limiter option \<Rightarrow> submission" where
  "new_submission l = \<lparr>ss_limiter = l, ss_username = '''', ss_mail_from = '''', ss_rcpts = []\<rparr>"

definition peer_host_of :: "conn option \<Rightarrow> string" where
  "peer_host_of c =
     (case c of
        None \<Rightarrow> ''''
      | Some x \<Rightarrow> (case cn_remote_addr x of
          None \<Rightarrow> ''''
        | Some a \<Rightarrow> (case split_host_port a of None \<Rightarrow> '''' | Some (h, p) \<Rightarrow> h)))"

definition auth_failed_smtp :: goerr where
  "auth_failed_smtp = SMTPError 535"

definition auth_mechanisms :: "string list" where
  "auth_mechanisms = [''PLAIN'']"

text \<open>\<open>Auth\<close> with the callback of the PLAIN mechanism.\<close>

definition submission_blocked :: "string \<Rightarrow> bool subio" where
  "submission_blocked ip =
     io_bind the_session (\<lambda>s.
     case ss_limiter s of
       None \<Rightarrow> io_ret False
     | Some l \<Rightarrow> if ip = '''' then io_ret False
         else io_bind (on_world time_now) (\<lambda>now. io_ret (\<not> allowed l now ip)))"

definition submission_failed :: "string \<Rightarrow> unit subio" where
  "submission_failed ip =
     io_bind the_session (\<lambda>s.
     case ss_limiter s of
       None \<Rightarrow> io_ret ()
     | Some l \<Rightarrow> if ip = '''' then io_ret ()
         else io_bind (on_world time_now) (\<lambda>now. set_session (\<lambda>s. s\<lparr>ss_limiter := Some (record_failure now ip l)\<rparr>)))"

definition submission_auth :: "submission_backend \<Rightarrow> conn option \<Rightarrow> string \<Rightarrow> string \<Rightarrow> string \<Rightarrow> unit subio" where
  "submission_auth B c mech username password =
     (if mech \<noteq> ''PLAIN'' then io_fail (ErrMsg (''unsupported SASL mechanism '' @ mech))
      else let ip = peer_host_of c in
        io_bind (submission_blocked ip) (\<lambda>blocked.
        if blocked then io_fail auth_failed_smtp
        else let email = to_lower (trim_space username) in
          io_either (on_world (get_user_by_email email))
            (\<lambda>_. io_bind (submission_failed ip) (\<lambda>_. io_fail auth_failed_smtp))
            (\<lambda>u. if \<not> verify_password (su_bcrypt B) u password
                 then io_bind (submission_failed ip) (\<lambda>_. io_fail auth_failed_smtp)
                 else set_session (\<lambda>s. s\<lparr>ss_limiter := (if ip = '''' then ss_limiter s else map_option (record_success ip) (ss_limiter s)),
                        ss_username := usr_email u\<rparr>))))"

definition require_auth :: "unit subio" where
  "require_auth = io_bind the_session (\<lambda>s. if ss_username s = '''' then io_fail (SMTPError 530) else io_ret ())"

definition submission_mail :: "string \<Rightarrow> unit subio" where
  "submission_mail from =
     io_bind require_auth (\<lambda>_. set_session (\<lambda>s. s\<lparr>ss_mail_from := from, ss_rcpts := []\<rparr>))"

definition submission_rcpt :: "submission_backend \<Rightarrow> string \<Rightarrow> unit subio" where
  "submission_rcpt B to =
     io_bind require_auth (\<lambda>_.
     let addr = to_lower (trim_space to) in
     case addr_split addr of (local_part, domain, ok) \<Rightarrow>
     if \<not> ok then io_fail (SMTPError 501)
     else io_bind (if is_local_domain (sn_config (su_sender B)) domain
         then io_either (on_world (get_user_by_email addr)) (\<lambda>_. io_fail (SMTPError 550)) (\<lambda>_. io_ret ())
         else io_ret ()) (\<lambda>_.
       set_session (\<lambda>s. s\<lparr>ss_rcpts := ss_rcpts s @ [addr]\<rparr>)))"

definition submission_received :: "submission_backend \<Rightarrow> conn option \<Rightarrow> submission \<Rightarrow> int \<Rightarrow> string" where
  "submission_received B c s now =
     ''Received: from '' @ helo_of c @ '' (['' @ (if peer_host_of c = '''' then ''unknown'' else peer_host_of c) @ ''])'' @ crlf @
     [CHR 0x09] @ ''by '' @ cf_hostname (sn_config (su_sender B)) @ '' (mailserver submission) with ESMTPSA'' @ crlf @
     [CHR 0x09] @ ''for <'' @ join_str '', '' (ss_rcpts s) @ ''> (authenticated as '' @ ss_username s @ ''); '' @
     su_fmt_date B now @ crlf"

definition submission_data :: "submission_backend \<Rightarrow> conn option \<Rightarrow> goerr + bytes \<Rightarrow> unit subio" where
  "submission_data B c r =
     io_bind require_auth (\<lambda>_.
     io_bind the_session (\<lambda>s.
     if ss_rcpts s = [] then io_fail (SMTPError 554)
     else case r of
         Inl e \<Rightarrow> io_fail (Wrapped ''reading message body'' e)
       | Inr body \<Rightarrow>
           io_bind (on_world time_now) (\<lambda>now.
           io_either (on_world (send_mail (su_sender B) (ss_username s) (ss_rcpts s) (submission_received B c s now @ body)))
             (\<lambda>_. io_fail (SMTPError 451)) (\<lambda>_. io_ret ()))))"

definition submission_reset :: "unit subio" where
  "submission_reset = set_session (\<lambda>s. s\<lparr>ss_mail_from := '''', ss_rcpts := []\<rparr>)"

section \<open>Sessions\<close>

text \<open>The commands of a client as they reach the session.\<close>

datatype inbound_cmd = InMail string | InRcpt string | InData "goerr + bytes" | InReset

fun run_inbound :: "inbound_backend \<Rightarrow> conn option \<Rightarrow> inbound_cmd \<Rightarrow> unit inio" where
  "run_inbound B c (InMail from) = inbound_mail from"
| "run_inbound B c (InRcpt to) = inbound_rcpt B to"
| "run_inbound B c (InData r) = inbound_data B c r"
| "run_inbound B c InReset = inbound_reset"

datatype submission_cmd = SubAuth string string string | SubMail string | SubRcpt string | SubData "goerr + bytes" | SubReset

fun run_submission :: "submission_backend \<Rightarrow> conn option \<Rightarrow> submission_cmd \<Rightarrow> unit subio" where
  "run_submission B c (SubAuth mech username password) = submission_auth B c mech username password"
| "run_submission B c (SubMail from) = submission_mail from"
| "run_submission B c (SubRcpt to) = submission_rcpt B to"
| "run_submission B c (SubData r) = submission_data B c r"
| "run_submission B c SubReset = submission_reset"

end
