(* ===== verification/MailFlowInv.thy ===== *)
theory MailFlowInv
  imports MailFlow
begin

text \<open>
  Properties of the ways mail enters the system. What an operation put where is a list of deposits; a
  run that made the deposits \<open>ds\<close> \<open>extended\<close> the state by them and changed nothing else in the mailboxes
  or in the queue.
\<close>

section \<open>Deposits\<close>

datatype deposit =
    InBox path string bytes            \<comment> \<open>maildir, key and message\<close>
  | Outbound string string string bytes   \<comment> \<open>identifier, sender, recipient and message of a queue entry\<close>
  | Broken string                      \<comment> \<open>a queue entry that could not be written completely\<close>

fun place :: "deposit \<Rightarrow> path \<times> string + string" where
  "place (InBox r k d) = Inl (r, k)"
| "place (Outbound i f t d) = Inr i"
| "place (Broken i) = Inr i"

fun present :: "world \<Rightarrow> deposit \<Rightarrow> bool" where
  "present w (InBox r k d) = has_message w r k d"
| "present w (Outbound i f t d) = (\<exists>it. it_id it = i \<and> it_from it = f \<and> it_to it = t \<and> it_attempts it = 0 \<and> queued w it d)"
| "present w (Broken i) = True"

definition loadable :: "world \<Rightarrow> string \<Rightarrow> item \<Rightarrow> bool" where
  "loadable w j it \<longleftrightarrow> map_of (qjson w) j = Some (Some it)"

text \<open>
  Each deposit is there at the end unless a later one was written to its very place, which the unique
  names exclude; every other place of every maildir and of the queue is as it was; and an entry that
  can be loaded from the queue was there before or is one of the deposits.
\<close>

definition extended :: "world \<Rightarrow> deposit list \<Rightarrow> world \<Rightarrow> bool" where
  "extended w ds w' \<longleftrightarrow>
     (\<forall>r k c. Inl (r, k) \<notin> place ` set ds \<longrightarrow> has_message w' r k c = has_message w r k c) \<and>
     (\<forall>j. Inr j \<notin> place ` set ds \<longrightarrow> same_spool j w w') \<and>
     (\<forall>ds1 d ds2. ds = ds1 @ d # ds2 \<and> place d \<notin> place ` set ds2 \<longrightarrow> present w' d) \<and>
     (\<forall>j it. loadable w' j it \<longrightarrow> loadable w j it \<or> (\<exists>data. Outbound j (it_from it) (it_to it) data \<in> set ds)) \<and>
     db w' = db w"

lemma present_kept:
  assumes "present v d" and "extended v es x" and "place d \<notin> place ` set es"
  shows "present x d"
proof (cases d)
  case (InBox r k c)
  with assms show ?thesis by (simp add: extended_def)
next
  case (Outbound i f t c)
  with assms(2,3) have "same_spool i v x" by (auto simp: extended_def)
  with assms(1) Outbound show ?thesis by (auto simp: queued_def same_spool_def)
qed simp

lemma extended_refl: "extended w [] w"
  by (simp add: extended_def same_spool_def loadable_def)

lemma append_split:
  "ds @ es = ds1 @ d # ds2 \<Longrightarrow> (\<exists>ds2'. ds = ds1 @ d # ds2' \<and> ds2 = ds2' @ es) \<or> (\<exists>es1. es = es1 @ d # ds2 \<and> ds1 = ds @ es1)"
  by (auto simp: append_eq_append_conv2 append_eq_Cons_conv)

lemma extendedD:
  assumes "extended w ds w'"
  shows "Inl (r, k) \<notin> place ` set ds \<Longrightarrow> has_message w' r k c = has_message w r k c"
    and "Inr j \<notin> place ` set ds \<Longrightarrow> same_spool j w w'"
    and "ds = ds1 @ d # ds2 \<Longrightarrow> place d \<notin> place ` set ds2 \<Longrightarrow> present w' d"
    and "loadable w' j it \<Longrightarrow> loadable w j it \<or> (\<exists>data. Outbound j (it_from it) (it_to it) data \<in> set ds)"
    and "db w' = db w"
  using assms unfolding extended_def by blast+

lemma extended_trans:
  assumes wv: "extended w ds v" and vx: "extended v es x"
  shows "extended w (ds @ es) x"
  unfolding extended_def
proof (intro conjI allI impI)
  fix r k c assume "Inl (r, k) \<notin> place ` set (ds @ es)"
  then show "has_message x r k c = has_message w r k c"
    using extendedD(1) [OF wv, of r k c] extendedD(1) [OF vx, of r k c] by (simp add: image_Un)
next
  fix j assume "Inr j \<notin> place ` set (ds @ es)"
  then show "same_spool j w x"
    using extendedD(2) [OF wv, of j] extendedD(2) [OF vx, of j] by (simp add: image_Un same_spool_def)
next
  fix ds1 d ds2 assume *: "ds @ es = ds1 @ d # ds2 \<and> place d \<notin> place ` set ds2"
  then have "(\<exists>ds2'. ds = ds1 @ d # ds2' \<and> ds2 = ds2' @ es) \<or> (\<exists>es1. es = es1 @ d # ds2 \<and> ds1 = ds @ es1)"
    by (blast dest: append_split)
  then show "present x d"
  proof (elim disjE exE conjE)
    fix ds2' assume d: "ds = ds1 @ d # ds2'" "ds2 = ds2' @ es"
    with * have "present v d" by (intro extendedD(3) [OF wv d(1)]) auto
    with vx d * show ?thesis by (auto intro: present_kept)
  qed (use * extendedD(3) [OF vx] in blast)
next
  fix j it assume "loadable x j it"
  then show "loadable w j it \<or> (\<exists>data. Outbound j (it_from it) (it_to it) data \<in> set (ds @ es))"
    using extendedD(4) [OF wv, of j it] extendedD(4) [OF vx, of j it] by auto
next
  show "db x = db w" using extendedD(5) [OF wv] extendedD(5) [OF vx] by simp
qed

text \<open>Steps that touch neither mailboxes nor the queue nor the database.\<close>

definition idle :: "world \<Rightarrow> world \<Rightarrow> bool" where
  "idle w w' \<longleftrightarrow> tree w' = tree w \<and> qeml w' = qeml w \<and> qjson w' = qjson w \<and> db w' = db w"

interpretation idleop: effect idle
  by unfold_locales (auto simp: idle_def)

lemma idle_time_now: "keeps idle time_now"
  by (auto simp: keeps_def idle_def time_now_def split: list.splits)

lemma idle_db_get: "keeps idle (db_get f)"
  by (auto simp: keeps_def idle_def db_get_def may_fail_def split: list.splits option.splits)

lemmas idle_effects = idleop.keeps_rules idle_time_now idle_db_get

lemma idle_reads: "keeps idle (get_user_by_email e)" "keeps idle (get_forwarding uid)"
  unfolding get_user_by_email_def get_forwarding_def not_found_def if_no_rows_def
  by (intro idle_effects)+

lemma idle_extended: "keeps idle m \<Longrightarrow> m w = (x, w') \<Longrightarrow> extended w [] w'"
  using keepsD [of idle m w] by (auto simp: idle_def extended_def same_spool_def loadable_def)

lemma deliver_same_db: "keeps same_db (maildir_deliver root data)"
  unfolding maildir_deliver_def maildir_init_def unique_name_def write_new_def abandon_def Let_def
  by (intro fs_effects)

lemma deliver_extends:
  assumes "maildir_deliver r d w = (x, w')"
  shows "extended w (case x of Inl e \<Rightarrow> [] | Inr k \<Rightarrow> [InBox r k d]) w'"
proof -
  have s: "db w' = db w" "qeml w' = qeml w" "qjson w' = qjson w"
    using keepsD [OF deliver_same_db, of w r d] assms by (simp_all add: same_db_def)
  show ?thesis
  proof (cases x)
    case (Inl e)
    with assms s show ?thesis by (simp add: extended_def same_spool_def loadable_def md.deliver_err)
  next
    case (Inr k)
    with assms have d: "maildir_deliver r d w = (Inr k, w')" by simp
    have "present w' d'" if "[InBox r k d] = ds1 @ d' # ds2" for ds1 d' ds2
      using that md.deliver_has [OF d] by (cases ds1) auto
    with s Inr md.deliver_frame [OF d] show ?thesis
      by (auto simp: extended_def same_spool_def loadable_def)
  qed
qed

lemma write_eml_err_spool:
  "write_eml i d w = (Inl e, w') \<Longrightarrow> qjson w' = qjson w \<and> (\<forall>j. j \<noteq> i \<longrightarrow> map_of (qeml w') j = map_of (qeml w) j)"
  by (auto simp: write_eml_def io_bind_err dest!: syscall_modify_ok syscall_modify_err)

lemma save_err_spool:
  "save it w = (Inl e, w') \<Longrightarrow> qeml w' = qeml w \<and> (\<forall>j. j \<noteq> it_id it \<longrightarrow> map_of (qjson w') j = map_of (qjson w) j)"
  by (auto simp: save_def io_bind_err dest!: syscall_modify_ok syscall_modify_err)

lemma enqueue_err_spool:
  assumes "enqueue from to d w = (Inl e, w')"
  shows "\<exists>i. \<forall>j. j \<noteq> i \<longrightarrow> same_spool j w w'"
proof -
  let ?F = "\<lambda>i v. \<forall>j. j \<noteq> i \<longrightarrow> same_spool j w v"
  have keep: "triple (?F i) m (\<lambda>_. ?F i) (\<lambda>_ v. \<exists>i. ?F i v)" if "keeps same_db m" for m :: "'a wio" and i
    by (rule tripleI; drule same_queue_run [OF that]; auto simp: same_queue_def same_spool_def)
  have gen: "triple (\<lambda>v. v = w) generate_id (\<lambda>i. ?F i) (\<lambda>_ v. \<exists>i. ?F i v)"
    by (rule tripleI; drule same_queue_run [OF generate_id_same_db]; auto simp: same_queue_def same_spool_def)
  have eml: "triple (?F i) (io_wrap msg (write_eml i d)) (\<lambda>_. ?F i) (\<lambda>_ v. \<exists>i. ?F i v)" for msg i
    by (rule triple_wrap, rule tripleI)
      (auto simp: same_spool_def dest!: write_eml_ok write_eml_err_spool intro!: exI [of _ i])
  have sv: "triple (?F (it_id it)) (save it) (\<lambda>_ _. True) (\<lambda>_ v. \<exists>i. ?F i v)" for it
    by (rule tripleI) (auto simp: same_spool_def dest!: save_err_spool intro!: exI [of _ "it_id it"])
  have "triple (\<lambda>v. v = w) (enqueue from to d) (\<lambda>_ _. True) (\<lambda>_ v. \<exists>i. ?F i v)"
    unfolding enqueue_def
    by (rule triple_bind [OF gen], rule triple_bind [OF eml], rule triple_bind [OF keep [OF keeps_time_now]],
        rule triple_bind [OF keep [OF keeps_time_now]])
      (rule triple_bind, rule triple_weaken [OF sv], auto intro: triple_ret)
  from tripleD_err [OF this refl assms] show ?thesis .
qed

definition same_store :: "world \<Rightarrow> world \<Rightarrow> bool" where
  "same_store w w' \<longleftrightarrow> tree w' = tree w \<and> db w' = db w"

interpretation storeop: effect same_store
  by unfold_locales (auto simp: same_store_def)

lemma same_store_syscall:
  "(\<And>w. tree (f w) = tree w \<and> db (f w) = db w) \<Longrightarrow> keeps same_store (syscall (io_modify f))"
  by (auto simp: keeps_def same_store_def may_fail_def io_modify_def split: list.splits)

lemma same_store_ops: "keeps same_store time_now" "keeps same_store (rand_read n)"
  by (auto simp: keeps_def same_store_def time_now_def rand_read_def may_fail_def split: list.splits)

lemma enqueue_same_store: "keeps same_store (enqueue f t d)"
  unfolding enqueue_def generate_id_def write_eml_def save_def
  by (intro storeop.keeps_rules same_store_ops same_store_syscall) simp_all

lemma enqueue_extends:
  assumes "enqueue f t d w = (x, w')"
  shows "\<exists>i. extended w [case x of Inl e \<Rightarrow> Broken i | Inr i \<Rightarrow> Outbound i f t d] w'"
proof -
  have s: "tree w' = tree w" "db w' = db w"
    using keepsD [OF enqueue_same_store, of w f t d] assms by (simp_all add: same_store_def)
  show ?thesis
  proof (cases x)
    case (Inl e)
    with assms have e: "enqueue f t d w = (Inl e, w')" by simp
    from enqueue_err_spool [OF this] obtain i where i: "\<forall>j. j \<noteq> i \<longrightarrow> same_spool j w w'" by blast
    have "present w' d'" if "[Broken i] = ds1 @ d' # ds2" for ds1 d' ds2
      using that by (cases ds1) auto
    with s i Inl enqueue_err [OF e] show ?thesis
      by (intro exI [of _ i]) (auto simp: extended_def loadable_def)
  next
    case (Inr i)
    with assms have e: "enqueue f t d w = (Inr i, w')" by simp
    from enqueue_ok [OF this] obtain it where it: "it_id it = i" "it_from it = f" "it_to it = t" "it_attempts it = 0"
      "queued w' it d" "\<forall>j. j \<noteq> i \<longrightarrow> same_spool j w w'" by blast
    have "present w' d'" if "[Outbound i f t d] = ds1 @ d' # ds2" for ds1 d' ds2
      using that it by (cases ds1) auto
    moreover have "loadable w j it' \<or> Outbound j (it_from it') (it_to it') d = Outbound i f t d" if "loadable w' j it'" for j it'
      using that it by (cases "j = i") (auto simp: loadable_def queued_def same_spool_def)
    ultimately show ?thesis using s it(6) Inr by (fastforce simp: extended_def)
  qed
qed


section \<open>Sending\<close>

text \<open>What one recipient of a sent message gets.\<close>

definition sent_to :: "config \<Rightarrow> string \<Rightarrow> bytes \<Rightarrow> string \<Rightarrow> deposit \<Rightarrow> bool" where
  "sent_to cfg from data rcpt d \<longleftrightarrow>
     (\<exists>l dom. addr_split rcpt = (l, dom, True) \<and>
        (if is_local_domain cfg dom then \<exists>k. d = InBox (maildir_of cfg dom l ''INBOX'') k data
         else \<exists>i. d = Outbound i from rcpt data))"

definition remnant :: "deposit list \<Rightarrow> bool" where
  "remnant bad \<longleftrightarrow> bad = [] \<or> (\<exists>i. bad = [Broken i])"

lemma send_one_extends:
  assumes "send_one S from full rcpt w = (x, w')"
  shows "\<exists>ds. extended w ds w' \<and> (case x of Inl e \<Rightarrow> remnant ds | Inr u \<Rightarrow> \<exists>d. ds = [d] \<and> sent_to (sn_config S) from full rcpt d)"
proof -
  obtain l dom ok where s: "addr_split rcpt = (l, dom, ok)" by (metis surj_pair)
  show ?thesis
  proof (cases "ok \<and> is_local_domain (sn_config S) dom")
    case True
    let ?r = "maildir_of (sn_config S) dom l ''INBOX''"
    obtain y w1 where d: "maildir_deliver ?r full w = (y, w1)" by (metis surj_pair)
    with assms s True have x: "w' = w1" "x = (case y of Inl e \<Rightarrow> Inl (Wrapped (''delivering to '' @ rcpt) e) | Inr k \<Rightarrow> Inr ())"
      by (auto simp: send_one_def io_bind_apply io_wrap_apply io_ret_def split: sum.splits)
    from deliver_extends [OF d] x(1) have "extended w (case y of Inl e \<Rightarrow> [] | Inr k \<Rightarrow> [InBox ?r k full]) w'" by simp
    with x(2) True s show ?thesis by (cases y) (auto simp: remnant_def sent_to_def)
  next
    case False
    show ?thesis
    proof (cases ok)
      case True
      obtain y w1 where d: "enqueue from rcpt full w = (y, w1)" by (metis surj_pair)
      with assms s True False have x: "w' = w1" "x = (case y of Inl e \<Rightarrow> Inl (Wrapped (''queuing for '' @ rcpt) e) | Inr k \<Rightarrow> Inr ())"
        by (auto simp: send_one_def io_bind_apply io_wrap_apply io_ret_def split: sum.splits)
      from enqueue_extends [OF d] x(1)
      obtain i where "extended w [case y of Inl e \<Rightarrow> Broken i | Inr i \<Rightarrow> Outbound i from rcpt full] w'" by blast
      with x(2) True False s show ?thesis by (cases y) (auto simp: remnant_def sent_to_def)
    next
      case False
      with assms s have "x = Inl (ErrMsg (''invalid recipient address '' @ rcpt))" "w' = w" by (auto simp: send_one_def io_fail_def)
      then show ?thesis by (auto simp: remnant_def intro!: exI [of _ "[]"] extended_refl)
    qed
  qed
qed

lemma send_loop:
  assumes "io_for rcpts (send_one S from full) w = (x, w')"
  shows "\<exists>done rest ds bad. rcpts = done @ rest \<and> list_all2 (sent_to (sn_config S) from full) done ds \<and>
    extended w (ds @ bad) w' \<and> remnant bad \<and> (x = Inr () \<longrightarrow> rest = [] \<and> bad = [])"
  using assms
proof (induction rcpts arbitrary: w)
  case Nil
  then show ?case by (auto simp: io_ret_def remnant_def intro!: exI [of _ "[]"] extended_refl)
next
  case (Cons r rs)
  obtain y v where one: "send_one S from full r w = (y, v)" by (metis surj_pair)
  from send_one_extends [OF this] obtain es where
    es: "extended w es v" "case y of Inl e \<Rightarrow> remnant es | Inr u \<Rightarrow> \<exists>d. es = [d] \<and> sent_to (sn_config S) from full r d" by blast
  show ?case
  proof (cases y)
    case (Inl e)
    with Cons.prems one es show ?thesis
      by (intro exI [of _ "[]"] exI [of _ "r # rs"] exI [of _ es]) (auto simp: io_bind_apply)
  next
    case (Inr u)
    with es obtain d where d: "es = [d]" "sent_to (sn_config S) from full r d" by auto
    from Cons.prems one Inr have "io_for rs (send_one S from full) v = (x, w')" by (simp add: io_bind_apply)
    from Cons.IH [OF this] obtain dn rest ds bad where
      *: "rs = dn @ rest" "list_all2 (sent_to (sn_config S) from full) dn ds" "extended v (ds @ bad) w'" "remnant bad"
        "x = Inr () \<longrightarrow> rest = [] \<and> bad = []" by blast
    from extended_trans [OF es(1) *(3)] d * show ?thesis
      by (intro exI [of _ "r # dn"] exI [of _ rest] exI [of _ "d # ds"] exI [of _ bad]) auto
  qed
qed

text \<open>
  C13: a message that was sent reached every recipient, and nothing else happened. When \<open>Send\<close> succeeds,
  the bytes it returns, signed if the server signs, are in the INBOX of every recipient of a local
  domain, and for every other recipient in the queue under the envelope of this sender and recipient;
  there is one such deposit for each recipient, in their order, and every other message and queue
  entry is as it was. When it fails, the same holds of the recipients before the one that failed, and
  no entry that the queue could load was added for the others.
\<close>

theorem send_reaches_all:
  "case send_mail S from rcpts data w of
     (Inr full, w') \<Rightarrow> sign_for S from data = Inr full \<and>
       (\<exists>ds. extended w ds w' \<and> list_all2 (sent_to (sn_config S) from full) rcpts ds)
   | (Inl e, w') \<Rightarrow> \<exists>full done rest ds bad. rcpts = done @ rest \<and> list_all2 (sent_to (sn_config S) from full) done ds \<and>
       extended w (ds @ bad) w' \<and> remnant bad"
proof (cases "sign_for S from data")
  case (Inl e)
  have "\<exists>full done rest ds bad. rcpts = done @ rest \<and> list_all2 (sent_to (sn_config S) from full) done ds \<and>
      extended w (ds @ bad) w \<and> remnant bad"
    by (rule exI [of _ data], rule exI [of _ "[]"], rule exI [of _ rcpts], rule exI [of _ "[]"], rule exI [of _ "[]"])
      (simp add: remnant_def extended_refl)
  then show ?thesis using Inl by (simp add: send_mail_def io_fail_def)
next
  case (Inr full)
  obtain x w' where run: "io_for rcpts (send_one S from full) w = (x, w')" by (metis surj_pair)
  from send_loop [OF this] show ?thesis
    using Inr run by (cases x) (auto simp: send_mail_def io_bind_apply io_ret_def)
qed


section \<open>Inbound mail\<close>

text \<open>A recipient a session accepted: a user of a local domain. \<open>D\<close> is the database.\<close>

definition accepted_rcpt :: "inbound_backend \<Rightarrow> database \<Rightarrow> string \<Rightarrow> user_row \<Rightarrow> bool" where
  "accepted_rcpt B D a u \<longleftrightarrow> u \<in> set (users_t D) \<and> usr_email u = a \<and>
     (\<exists>l dom. addr_split a = (l, dom, True) \<and> is_local_domain (ib_config B) dom)"

text \<open>What forwarding may deposit: at most one copy, to the target the user has set and enabled.\<close>

definition forwarded :: "inbound_backend \<Rightarrow> database \<Rightarrow> string \<Rightarrow> int \<Rightarrow> bytes \<Rightarrow> deposit list \<Rightarrow> bool" where
  "forwarded B D rcpt uid full ds \<longleftrightarrow> remnant ds \<or>
     (\<exists>fw l dom. fw \<in> set (forwarding_t D) \<and> fwd_user_id fw = uid \<and> fwd_enabled fw \<and>
        addr_split (fwd_forward_to fw) = (l, dom, True) \<and>
        (if is_local_domain (ib_config B) dom then \<exists>k. ds = [InBox (maildir_of (ib_config B) dom l ''INBOX'') k full]
         else \<exists>i. ds = [Outbound i rcpt (fwd_forward_to fw) full]))"

definition taken :: "inbound_backend \<Rightarrow> conn option \<Rightarrow> auth_verdict \<Rightarrow> bytes \<Rightarrow> database \<Rightarrow> string \<times> user_row \<Rightarrow> deposit list \<Rightarrow> bool" where
  "taken B c v body D = (\<lambda>(rcpt, u) ds. \<exists>l dom ok now k fs. addr_split rcpt = (l, dom, ok) \<and>
     ds = InBox (maildir_of (ib_config B) dom l (if av_quarantine v then ''Junk'' else ''INBOX'')) k
       (inbound_full B c rcpt now (av_results v) body) # fs \<and>
     forwarded B D rcpt (usr_id u) (inbound_full B c rcpt now (av_results v) body) fs)"

lemma get_user_by_email_ok: "get_user_by_email e w = (Inr u, w') \<Longrightarrow> u \<in> set (users_t (db w)) \<and> usr_email u = to_lower e"
  unfolding get_user_by_email_def by (drule not_found_ok) (auto simp: find_Some_iff)

lemma get_forwarding_ok:
  "get_forwarding uid w = (Inr fw, w') \<Longrightarrow> fwd_enabled fw \<Longrightarrow> fw \<in> set (forwarding_t (db w)) \<and> fwd_user_id fw = uid"
  unfolding get_forwarding_def if_no_rows_def db_get_def may_fail_def
  by (auto simp: io_simps find_Some_iff split: list.splits if_splits option.splits sum.splits prod.splits)

lemma forward_extends:
  assumes "inbound_forward B rcpt uid full w = (x, w')"
  shows "x = Inr () \<and> (\<exists>ds. extended w ds w' \<and> forwarded B (db w) rcpt uid full ds)"
proof -
  have none: "extended w ds w' \<Longrightarrow> remnant ds \<Longrightarrow> \<exists>ds. extended w ds w' \<and> forwarded B (db w) rcpt uid full ds" for ds
    by (auto simp: forwarded_def)
  obtain r v where g: "get_forwarding uid w = (r, v)" by (metis surj_pair)
  note gv = idle_extended [OF idle_reads(2) g]
  obtain l dom ok where s: "addr_split (fwd_forward_to (projr r)) = (l, dom, ok)" by (metis surj_pair)
  consider e where "r = Inl e" | fw where "r = Inr fw" "\<not> fwd_enabled fw \<or> fwd_forward_to fw = ''''"
    | fw where "r = Inr fw" "fwd_enabled fw" "fwd_forward_to fw \<noteq> ''''" "\<not> ok"
    | fw where "r = Inr fw" "fwd_enabled fw" "fwd_forward_to fw \<noteq> ''''" "ok" "is_local_domain (ib_config B) dom"
    | fw where "r = Inr fw" "fwd_enabled fw" "fwd_forward_to fw \<noteq> ''''" "ok" "\<not> is_local_domain (ib_config B) dom" "\<not> ib_queue B"
    | fw where "r = Inr fw" "fwd_enabled fw" "fwd_forward_to fw \<noteq> ''''" "ok" "\<not> is_local_domain (ib_config B) dom" "ib_queue B"
    by (cases r) auto
  then show ?thesis
  proof cases
    case 4
    note fw = get_forwarding_ok [OF g [unfolded 4(1)] 4(2)]
    obtain y v1 where u: "get_user_by_email (fwd_forward_to fw) v = (y, v1)" by (metis surj_pair)
    note v1 = extended_trans [OF gv idle_extended [OF idle_reads(1) u]]
    show ?thesis
    proof (cases y)
      case (Inl e)
      with assms g 4 s u have "x = Inr ()" "w' = v1" by (auto simp: inbound_forward_def io_simps)
      with v1 none show ?thesis by (auto simp: remnant_def)
    next
      case (Inr uu)
      let ?m = "maildir_deliver (maildir_of (ib_config B) dom l ''INBOX'') full"
      obtain z v2 where d: "?m v1 = (z, v2)" by (metis surj_pair)
      from assms g 4 s u Inr d have x: "x = Inr ()" "w' = v2" by (auto simp: inbound_forward_def io_simps)
      from extended_trans [OF v1 deliver_extends [OF d]] x have
        "extended w (case z of Inl e \<Rightarrow> [] | Inr k \<Rightarrow> [InBox (maildir_of (ib_config B) dom l ''INBOX'') k full]) w'" by simp
      with x fw 4 s none show ?thesis by (cases z) (fastforce simp: remnant_def forwarded_def)+
    qed
  next
    case 6
    note fw = get_forwarding_ok [OF g [unfolded 6(1)] 6(2)]
    obtain z v2 where d: "enqueue rcpt (fwd_forward_to fw) full v = (z, v2)" by (metis surj_pair)
    from assms g 6 s d have x: "x = Inr ()" "w' = v2" by (auto simp: inbound_forward_def io_simps)
    from enqueue_extends [OF d] extended_trans [OF gv] x obtain i where
      "extended w [case z of Inl e \<Rightarrow> Broken i | Inr i \<Rightarrow> Outbound i rcpt (fwd_forward_to fw) full] w'" by fastforce
    with x fw 6 s none show ?thesis by (cases z) (fastforce simp: remnant_def forwarded_def)+
  qed (use assms g s gv none in \<open>auto simp: inbound_forward_def io_simps remnant_def\<close>)
qed

lemma inbound_loop_extends:
  assumes "inbound_loop B c v body users i rcpts w = (x, w')" and "i + length rcpts \<le> length users"
  shows "\<exists>done rest dss. rcpts = done @ rest \<and> extended w (concat dss) w' \<and>
    list_all2 (taken B c v body (db w)) (zip done (drop i users)) dss \<and> (x = Inr () \<longrightarrow> rest = []) \<and>
    (x \<noteq> Inr () \<longrightarrow> x = Inl (SMTPError 451))"
  using assms
proof (induction rcpts arbitrary: i w)
  case Nil
  then show ?case by (auto simp: io_ret_def intro!: exI [of _ "[]"] extended_refl)
next
  case (Cons r rs)
  obtain l dom ok where s: "addr_split r = (l, dom, ok)" by (metis surj_pair)
  let ?r = "maildir_of (ib_config B) dom l (if av_quarantine v then ''Junk'' else ''INBOX'')"
  obtain now w1 where t: "time_now w = (Inr now, w1)" by (cases "ticks w") (auto simp: time_now_def)
  let ?f = "inbound_full B c r now (av_results v) body"
  obtain y w2 where d: "maildir_deliver ?r ?f w1 = (y, w2)" by (metis surj_pair)
  note 2 = extended_trans [OF idle_extended [OF idle_time_now t] deliver_extends [OF d]]
  have i: "i < length users" "drop i users = users ! i # drop (i + 1) users"
    using Cons.prems(2) Cons_nth_drop_Suc [of i users] by auto
  show ?case
  proof (cases y)
    case (Inl e)
    with Cons.prems(1) s t d have "x = Inl (SMTPError 451)" "w' = w2" by (auto simp: io_simps Let_def)
    with 2 Inl show ?thesis by (intro exI [of _ "[]"] exI [of _ "r # rs"]) auto
  next
    case (Inr k)
    obtain z w3 where f: "inbound_forward B r (usr_id (users ! i)) ?f w2 = (z, w3)" by (metis surj_pair)
    from forward_extends [OF f] obtain fs where z: "z = Inr ()" and
      fs: "extended w2 fs w3" "forwarded B (db w2) r (usr_id (users ! i)) ?f fs" by blast
    have ext: "extended w (InBox ?r k ?f # fs) w3" using extended_trans [OF 2 fs(1)] Inr by simp
    have db: "db w2 = db w" "db w3 = db w" using extendedD(5) [OF 2] extendedD(5) [OF ext] by simp_all
    from Cons.prems(1) s t d Inr i(1) f z have rest: "inbound_loop B c v body users (i + 1) rs w3 = (x, w')"
      by (auto simp: io_simps Let_def)
    from Cons.IH [OF rest] Cons.prems(2) obtain dn rest dss where
      *: "rs = dn @ rest" "extended w3 (concat dss) w'" "list_all2 (taken B c v body (db w3)) (zip dn (drop (i + 1) users)) dss"
        "x = Inr () \<longrightarrow> rest = []" "x \<noteq> Inr () \<longrightarrow> x = Inl (SMTPError 451)" by auto
    have "taken B c v body (db w) (r, users ! i) (InBox ?r k ?f # fs)" using s fs(2) db by (auto simp: taken_def)
    with * extended_trans [OF ext *(2)] i(2) db show ?thesis
      by (intro exI [of _ "r # dn"] exI [of _ rest] exI [of _ "(InBox ?r k ?f # fs) # dss"]) auto
  qed
qed


text \<open>
  The order in which the protocol lets commands through: RCPT after MAIL, and a new MAIL after the
  data or a reset. \<open>run_all\<close> are the states of a session after its commands, errors included.
\<close>

fun in_order :: "bool \<Rightarrow> inbound_cmd list \<Rightarrow> bool" where
  "in_order b [] = True"
| "in_order b (InMail f # cs) = in_order True cs"
| "in_order b (InRcpt t # cs) = (b \<and> in_order b cs)"
| "in_order b (InData r # cs) = in_order b cs"
| "in_order b (InReset # cs) = in_order False cs"

definition run_all :: "('c \<Rightarrow> (world \<times> 's, unit) io) \<Rightarrow> 'c list \<Rightarrow> world \<times> 's \<Rightarrow> world \<times> 's" where
  "run_all f cs = fold (\<lambda>c st. snd (f c st)) cs"

lemma run_all_simps [simp]: "run_all f [] st = st" "run_all f (c # cs) st = run_all f cs (snd (f c st))"
  by (simp_all add: run_all_def)

text \<open>Between MAIL and the reset, every accepted address stands beside its user.\<close>

definition paired :: "inbound_backend \<Rightarrow> database \<Rightarrow> bool \<Rightarrow> inbound_session \<Rightarrow> bool" where
  "paired B D b s \<longleftrightarrow> (is_rcpts s = [] \<and> \<not> b) \<or> list_all2 (accepted_rcpt B D) (is_rcpts s) (is_rcpt_users s)"

definition relayed :: "inbound_backend \<Rightarrow> database \<Rightarrow> item \<Rightarrow> bool" where
  "relayed B D it \<longleftrightarrow> (\<exists>u fw. accepted_rcpt B D (it_from it) u \<and> fw \<in> set (forwarding_t D) \<and>
     fwd_user_id fw = usr_id u \<and> fwd_enabled fw \<and> it_to it = fwd_forward_to fw)"

lemma taken_relayed:
  assumes "taken B c v body D (a, u) ds" and "accepted_rcpt B D a u" and "Outbound j (it_from it) (it_to it) data \<in> set ds"
  shows "relayed B D it"
proof -
  from assms(1,3) have "a = it_from it \<and> (\<exists>fw. fw \<in> set (forwarding_t D) \<and> fwd_user_id fw = usr_id u \<and>
      fwd_enabled fw \<and> it_to it = fwd_forward_to fw)"
    by (auto simp: taken_def forwarded_def remnant_def split: if_splits)
  with assms(2) show ?thesis unfolding relayed_def by blast
qed

lemma inbound_data_run:
  assumes "inbound_data B c (Inr body) (w, s) = (x, (w', s'))"
  shows "s' = s \<and> (if is_rcpts s = [] then x = Inl (SMTPError 554) \<and> w' = w
    else inbound_loop B c (verify_message (ib_auth B) (cf_hostname (ib_config B)) (peer_ip c) (helo_of c) (is_from s) body)
      body (is_rcpt_users s) 0 (is_rcpts s) w = (x, w'))"
  using assms by (auto simp: inbound_data_def the_session_def on_world_def io_simps split: if_splits prod.splits)

lemma inbound_rcpt_run:
  assumes "inbound_rcpt B to (w, s) = (x, (w', s'))"
  shows "extended w [] w' \<and> (s' = s \<or> (\<exists>a u. accepted_rcpt B (db w) a u \<and>
    s' = s\<lparr>is_rcpts := is_rcpts s @ [a], is_rcpt_users := is_rcpt_users s @ [u]\<rparr>))"
proof -
  let ?a = "to_lower (trim_space to)"
  obtain l dom ok where s: "addr_split ?a = (l, dom, ok)" by (metis surj_pair)
  obtain y v where u: "get_user_by_email ?a w = (y, v)" by (metis surj_pair)
  note e = idle_extended [OF idle_reads(1) u]
  show ?thesis
  proof (cases "ok \<and> is_local_domain (ib_config B) dom \<and> (\<exists>r. y = Inr r)")
    case True
    then obtain r where r: "y = Inr r" by blast
    from get_user_by_email_ok [OF u [unfolded r]] have "r \<in> set (users_t (db w))" "usr_email r = ?a"
      by (simp_all add: to_lower_idem)
    with True s have "accepted_rcpt B (db w) ?a r" by (auto simp: accepted_rcpt_def)
    with assms s u r True e show ?thesis
      by (auto simp: inbound_rcpt_def set_session_def on_world_def io_simps Let_def)
  qed (use assms s u e in \<open>auto simp: inbound_rcpt_def on_world_def io_simps Let_def extended_refl split: if_splits sum.splits\<close>)
qed

definition next_order :: "bool \<Rightarrow> inbound_cmd \<Rightarrow> bool" where
  "next_order b c = (case c of InMail f \<Rightarrow> True | InReset \<Rightarrow> False | _ \<Rightarrow> b)"

lemma in_order_Cons: "in_order b (c # cs) \<longleftrightarrow> ((\<exists>t. c = InRcpt t) \<longrightarrow> b) \<and> in_order (next_order b c) cs"
  by (cases c) (auto simp: next_order_def)

lemma inbound_step:
  assumes "paired B (db w) b s" and "(\<exists>t. c = InRcpt t) \<longrightarrow> b" and "run_inbound B cn c (w, s) = (x, (w', s'))"
  shows "paired B (db w) (next_order b c) s' \<and> db w' = db w \<and> (\<forall>j it. loadable w' j it \<longrightarrow> loadable w j it \<or> relayed B (db w) it)"
proof (cases c)
  case (InMail f)
  with assms show ?thesis by (auto simp: inbound_mail_def set_session_def io_modify_def paired_def next_order_def)
next
  case InReset
  with assms show ?thesis by (auto simp: inbound_reset_def set_session_def io_modify_def paired_def next_order_def)
next
  case (InRcpt t)
  with assms(3) inbound_rcpt_run have r: "extended w [] w'" "s' = s \<or> (\<exists>a u. accepted_rcpt B (db w) a u \<and>
    s' = s\<lparr>is_rcpts := is_rcpts s @ [a], is_rcpt_users := is_rcpt_users s @ [u]\<rparr>)" by auto
  from extendedD(4) [OF r(1)] have "\<forall>j it. loadable w' j it \<longrightarrow> loadable w j it" by simp
  with r(2) InRcpt assms(1,2) extendedD(5) [OF r(1)] show ?thesis
    by (auto simp: paired_def next_order_def intro!: list_all2_appendI)
next
  case (InData r)
  show ?thesis
  proof (cases "is_rcpts s = [] \<or> isl r")
    case True
    with assms InData show ?thesis
      by (cases "is_rcpts s = []"; cases r) (auto simp: inbound_data_def the_session_def io_simps next_order_def)
  next
    case False
    then obtain body where b: "r = Inr body" by (cases r) auto
    let ?v = "verify_message (ib_auth B) (cf_hostname (ib_config B)) (peer_ip cn) (helo_of cn) (is_from s) body"
    from False assms(1) have pr: "list_all2 (accepted_rcpt B (db w)) (is_rcpts s) (is_rcpt_users s)" by (auto simp: paired_def)
    from inbound_data_run [of B cn body w s x w' s'] assms(3) InData b False
    have s': "s' = s" and loop: "inbound_loop B cn ?v body (is_rcpt_users s) 0 (is_rcpts s) w = (x, w')" by auto
    from inbound_loop_extends [OF loop] list_all2_lengthD [OF pr] obtain dn rest dss where
      l: "is_rcpts s = dn @ rest" "extended w (concat dss) w'" "list_all2 (taken B cn ?v body (db w)) (zip dn (is_rcpt_users s)) dss"
      by auto
    have rl: "relayed B (db w) it" if "Outbound j (it_from it) (it_to it) data \<in> set (concat dss)" for j it data
    proof -
      from that obtain ds where "ds \<in> set dss" "Outbound j (it_from it) (it_to it) data \<in> set ds" by auto
      then obtain i where i: "i < length dss" "Outbound j (it_from it) (it_to it) data \<in> set (dss ! i)"
        by (metis in_set_conv_nth)
      from list_all2_nthD2 [OF l(3) i(1)] list_all2_lengthD [OF l(3)] i(1)
      have t: "taken B cn ?v body (db w) (dn ! i, is_rcpt_users s ! i) (dss ! i)" and n: "i < length dn" by simp_all
      from list_all2_nthD [OF pr, of i] n l(1) have "accepted_rcpt B (db w) (dn ! i) (is_rcpt_users s ! i)"
        by (simp add: nth_append)
      from taken_relayed [OF t this i(2)] show ?thesis .
    qed
    have "\<forall>j it. loadable w' j it \<longrightarrow> loadable w j it \<or> relayed B (db w) it"
      using extendedD(4) [OF l(2)] rl by blast
    with extendedD(5) [OF l(2)] s' assms(1) InData show ?thesis by (simp add: next_order_def)
  qed
qed

lemma inbound_steps:
  assumes "paired B (db w) b s" and "in_order b cs" and "run_all (run_inbound B cn) cs (w, s) = (w', s')"
  shows "db w' = db w \<and> (is_rcpts s' \<noteq> [] \<longrightarrow> list_all2 (accepted_rcpt B (db w)) (is_rcpts s') (is_rcpt_users s')) \<and>
    (\<forall>j it. loadable w' j it \<longrightarrow> loadable w j it \<or> relayed B (db w) it)"
  using assms
proof (induction cs arbitrary: b w s)
  case Nil
  then show ?case by (auto simp: paired_def)
next
  case (Cons c cs)
  obtain x w1 s1 where step: "run_inbound B cn c (w, s) = (x, (w1, s1))" by (metis surj_pair)
  from Cons.prems(2) have o: "(\<exists>t. c = InRcpt t) \<longrightarrow> b" "in_order (next_order b c) cs" by (simp_all add: in_order_Cons)
  from inbound_step [OF Cons.prems(1) o(1) step] have s1: "paired B (db w) (next_order b c) s1" "db w1 = db w"
    "\<forall>j it. loadable w1 j it \<longrightarrow> loadable w j it \<or> relayed B (db w) it" by auto
  from Cons.prems(3) step have "run_all (run_inbound B cn) cs (w1, s1) = (w', s')" by simp
  from Cons.IH [OF _ o(2) this] s1 show ?case by auto
qed

text \<open>
  C10: the server is no open relay. Whatever commands a client sends, in the order the protocol lets
  through, everything the connection puts into the outbound queue is a copy of mail to one of our
  users, sent in that user's name to the address the user has set and enabled for forwarding; and the
  database is not changed.
\<close>

theorem inbound_never_relays:
  assumes "in_order False cmds" and "run_all (run_inbound B c) cmds (w, new_inbound) = (w', s')"
    and "loadable w' j it" and "\<not> loadable w j it"
  shows "db w' = db w \<and> (\<exists>u fw l dom. u \<in> set (users_t (db w)) \<and> it_from it = usr_email u \<and>
    addr_split (usr_email u) = (l, dom, True) \<and> is_local_domain (ib_config B) dom \<and>
    fw \<in> set (forwarding_t (db w)) \<and> fwd_user_id fw = usr_id u \<and> fwd_enabled fw \<and> it_to it = fwd_forward_to fw)"
proof -
  have "paired B (db w) False new_inbound" by (simp add: paired_def new_inbound_def)
  from inbound_steps [OF this assms(1,2)] assms(3,4) have "db w' = db w" "relayed B (db w) it" by blast+
  then show ?thesis unfolding relayed_def accepted_rcpt_def by metis
qed

text \<open>
  C11: mail that was accepted was delivered. When DATA is answered with success at any point of a
  session, every recipient the session had accepted is a user of a local domain and has the message in
  the folder the verification chose, under a fresh Received header and its results, the bytes of the
  client unchanged below them; each copy is followed by at most the one forwarded copy its owner
  configured; and every other message and queue entry is as it was. It fails only with a temporary
  error or when there is nothing to deliver to.
\<close>

theorem inbound_delivers:
  assumes "in_order False cmds" and "run_all (run_inbound B c) cmds (w0, new_inbound) = (w, s)"
    and "inbound_data B c (Inr body) (w, s) = (x, (w', s'))"
  shows "case x of
      Inl e \<Rightarrow> e = SMTPError 451 \<or> (e = SMTPError 554 \<and> is_rcpts s = [])
    | Inr u \<Rightarrow> \<exists>dss. extended w (concat dss) w' \<and> is_rcpts s \<noteq> [] \<and>
        list_all2 (accepted_rcpt B (db w)) (is_rcpts s) (is_rcpt_users s) \<and>
        list_all2 (taken B c (verify_message (ib_auth B) (cf_hostname (ib_config B)) (peer_ip c) (helo_of c) (is_from s) body) body (db w))
          (zip (is_rcpts s) (is_rcpt_users s)) dss"
proof (cases "is_rcpts s = []")
  case True
  with inbound_data_run [OF assms(3)] show ?thesis by simp
next
  case False
  let ?v = "verify_message (ib_auth B) (cf_hostname (ib_config B)) (peer_ip c) (helo_of c) (is_from s) body"
  have "paired B (db w0) False new_inbound" by (simp add: paired_def new_inbound_def)
  from inbound_steps [OF this assms(1,2)] False
  have pr: "list_all2 (accepted_rcpt B (db w)) (is_rcpts s) (is_rcpt_users s)" by simp
  from inbound_data_run [OF assms(3)] False
  have "inbound_loop B c ?v body (is_rcpt_users s) 0 (is_rcpts s) w = (x, w')" by simp
  from inbound_loop_extends [OF this] list_all2_lengthD [OF pr] pr False show ?thesis by (cases x) fastforce+
qed


definition forwarding_world :: world where
  "forwarding_world = blank_world\<lparr>db := empty_db\<lparr>
     domains_t := [\<lparr>dom_id = 1, dom_name = ''x.org''\<rparr>],
     users_t := [\<lparr>usr_id = 1, usr_domain_id = 1, usr_local_part = ''bob'', usr_email = ''bob@x.org'', usr_password_hash = ''$pw'', usr_is_admin = False\<rparr>],
     forwarding_t := [\<lparr>fwd_user_id = 1, fwd_enabled = True, fwd_forward_to = ''al@y.net''\<rparr>]\<rparr>\<rparr>"

definition small_inbound :: inbound_backend where
  "small_inbound = \<lparr>ib_config = small_config, ib_queue = True,
     ib_auth = \<lparr>al_spf = \<lambda>_ _ _. ''none'', al_dkim = \<lambda>_. Inr [], al_dmarc = \<lambda>_. Inl NoPolicy, al_org_domain = \<lambda>_. None,
       al_format = \<lambda>h _. h, al_from_header = \<lambda>_. None\<rparr>,
     ib_fmt_date = \<lambda>_. ''now''\<rparr>"

lemma small_inbound_run:
  "map (\<lambda>(j, r). map_option (\<lambda>it. (it_from it, it_to it)) r) (qjson (fst (run_all (run_inbound small_inbound None)
     [InMail ''c@z.net'', InRcpt ''Bob@x.org'', InData (Inr ''hi'')] (forwarding_world, new_inbound)))) = [Some (''bob@x.org'', ''al@y.net'')]"
  by code_simp

lemma inbound_never_relays_witness:
  "\<exists>w' s' (it :: item) u. run_all (run_inbound small_inbound None) [InMail ''c@z.net'', InRcpt ''Bob@x.org'', InData (Inr ''hi'')]
     (forwarding_world, new_inbound) = (w', s') \<and> it_to it = ''al@y.net'' \<and> u \<in> set (users_t (db forwarding_world)) \<and> it_from it = usr_email u"
proof -
  let ?cs = "[InMail ''c@z.net'', InRcpt ''Bob@x.org'', InData (Inr ''hi'')]"
  obtain w' s' where run: "run_all (run_inbound small_inbound None) ?cs (forwarding_world, new_inbound) = (w', s')"
    by (metis surj_pair)
  from small_inbound_run [unfolded run] obtain j it where it: "qjson w' = [(j, Some it)]" "it_to it = ''al@y.net''"
    by (auto simp: map_eq_Cons_conv)
  then have "loadable w' j it" "\<not> loadable forwarding_world j it"
    by (simp_all add: loadable_def forwarding_world_def blank_world_def)
  from inbound_never_relays [OF _ run this] obtain u where "u \<in> set (users_t (db forwarding_world))" "it_from it = usr_email u"
    by auto
  with run it(2) show ?thesis by blast
qed

lemma inbound_delivers_witness:
  "\<exists>w s w' dss. run_all (run_inbound small_inbound None) [InMail ''c@z.net'', InRcpt ''Bob@x.org''] (forwarding_world, new_inbound) = (w, s) \<and>
     inbound_data small_inbound None (Inr ''hi'') (w, s) = (Inr (), (w', s)) \<and> extended w (concat dss) w'"
proof -
  let ?cs = "[InMail ''c@z.net'', InRcpt ''Bob@x.org'']"
  obtain w s where run: "run_all (run_inbound small_inbound None) ?cs (forwarding_world, new_inbound) = (w, s)"
    by (metis surj_pair)
  obtain x w' s' where dat: "inbound_data small_inbound None (Inr ''hi'') (w, s) = (x, (w', s'))" by (metis surj_pair)
  have "isl (fst (inbound_data small_inbound None (Inr ''hi'') (run_all (run_inbound small_inbound None) ?cs (forwarding_world, new_inbound)))) = False"
    by code_simp
  with run dat have x: "x = Inr ()" by (cases x) auto
  from inbound_delivers [OF _ run dat] x inbound_data_run [OF dat] dat run show ?thesis by auto
qed

section \<open>Submission\<close>

text \<open>\<open>e\<close> is the address of a user for whom the right password was given in one of the commands.\<close>

definition knows :: "submission_backend \<Rightarrow> database \<Rightarrow> submission_cmd list \<Rightarrow> string \<Rightarrow> bool" where
  "knows B D cmds e \<longleftrightarrow> (\<exists>username password u. SubAuth ''PLAIN'' username password \<in> set cmds \<and> u \<in> set (users_t D) \<and>
     usr_email u = to_lower (trim_space username) \<and> verify_password (su_bcrypt B) u password \<and> e = usr_email u)"

definition sent_as :: "string \<Rightarrow> deposit list \<Rightarrow> bool" where
  "sent_as e ds \<longleftrightarrow> (\<forall>i f t data. Outbound i f t data \<in> set ds \<longrightarrow> f = e)"

lemma send_mail_extends:
  assumes "send_mail S from rcpts data w = (x, w')"
  shows "\<exists>ds. extended w ds w' \<and> sent_as from ds"
proof (cases "sign_for S from data")
  case (Inl e)
  with assms show ?thesis by (auto simp: send_mail_def io_fail_def sent_as_def intro!: exI [of _ "[]"] extended_refl)
next
  case (Inr full)
  obtain y w1 where run: "io_for rcpts (send_one S from full) w = (y, w1)" by (metis surj_pair)
  from send_loop [OF this] obtain dn ds bad where
    *: "list_all2 (sent_to (sn_config S) from full) dn ds" "extended w (ds @ bad) w1" "remnant bad" by blast
  have "sent_as from (ds @ bad)"
    unfolding sent_as_def
  proof (intro allI impI)
    fix i f t d assume "Outbound i f t d \<in> set (ds @ bad)"
    with *(3) have "Outbound i f t d \<in> set ds" by (auto simp: remnant_def)
    with *(1) obtain r where "sent_to (sn_config S) from full r (Outbound i f t d)"
      by (metis in_set_conv_nth list_all2_conv_all_nth)
    then show "f = from" by (auto simp: sent_to_def split: if_splits)
  qed
  moreover have "w' = w1" using assms Inr run by (auto simp: send_mail_def io_simps split: sum.splits)
  ultimately show ?thesis using *(2) by blast
qed

lemma submission_limited: "submission_failed ip (w, s) = (x, (w', s')) \<Longrightarrow> extended w [] w' \<and> ss_username s' = ss_username s"
  "submission_blocked ip (w, s) = (y, (w', s')) \<Longrightarrow> extended w [] w' \<and> s' = s"
  by (auto simp: submission_failed_def submission_blocked_def the_session_def set_session_def on_world_def io_simps extended_refl
      split: option.splits if_splits prod.splits sum.splits dest!: idle_extended [OF idle_time_now])

lemma auth_run:
  assumes "submission_auth B c mech username password (w, s) = (x, (w', s'))"
  shows "extended w [] w' \<and> (ss_username s' = ss_username s \<or> knows B (db w) [SubAuth mech username password] (ss_username s'))"
proof (cases "mech = ''PLAIN''")
  case True
  obtain b w1 s1 where bl: "submission_blocked (peer_host_of c) (w, s) = (b, (w1, s1))" by (metis surj_pair)
  from submission_limited(2) [OF bl] have w1: "extended w [] w1" "s1 = s" by simp_all
  show ?thesis
  proof (cases "b = Inr False")
    case False
    with assms True bl w1 show ?thesis by (cases b) (auto simp: submission_auth_def io_simps Let_def split: if_splits)
  next
    case b: True
    obtain y w2 where u: "get_user_by_email (to_lower (trim_space username)) w1 = (y, w2)" by (metis surj_pair)
    note w2 = extended_trans [OF w1(1) idle_extended [OF idle_reads(1) u]]
    obtain z w3 s3 where fl: "submission_failed (peer_host_of c) (w2, s) = (z, (w3, s3))" by (metis surj_pair)
    note w3 = extended_trans [OF w2, of "[]" w3] submission_limited(1) [OF fl]
    consider e where "y = Inl e" | r where "y = Inr r" "\<not> verify_password (su_bcrypt B) r password"
      | r where "y = Inr r" "verify_password (su_bcrypt B) r password" by (cases y) auto
    then show ?thesis
    proof cases
      case 3
      from get_user_by_email_ok [OF u [unfolded 3(1)]] extendedD(5) [OF w1(1)]
      have r: "r \<in> set (users_t (db w))" "usr_email r = to_lower (trim_space username)" by simp_all
      from assms True bl b w1 u 3 have "w' = w2" "ss_username s' = usr_email r"
        by (auto simp: submission_auth_def set_session_def on_world_def io_simps Let_def)
      with w2 r 3 True show ?thesis by (auto simp: knows_def)
    qed (use assms True bl b w1 u fl w3 in \<open>auto simp: submission_auth_def on_world_def io_simps Let_def split: sum.splits\<close>)
  qed
qed (use assms in \<open>auto simp: submission_auth_def io_simps extended_refl\<close>)

lemma require_auth_run: "require_auth (w, s) = ((if ss_username s = '''' then Inl (SMTPError 530) else Inr ()), (w, s))"
  by (simp add: require_auth_def the_session_def io_simps)

lemma submission_data_run:
  assumes "submission_data B c r (w, s) = (x, (w', s'))"
  shows "s' = s \<and> (\<exists>ds. extended w ds w' \<and> (ds \<noteq> [] \<longrightarrow> ss_username s \<noteq> '''') \<and> sent_as (ss_username s) ds)"
proof (cases "ss_username s = '''' \<or> ss_rcpts s = [] \<or> isl r")
  case True
  with assms have "s' = s" "w' = w"
    by (cases r; auto simp: submission_data_def the_session_def io_simps require_auth_run split: if_splits)+
  then show ?thesis by (auto simp: sent_as_def intro!: exI [of _ "[]"] extended_refl)
next
  case False
  then obtain body where r: "r = Inr body" by (cases r) auto
  obtain now w1 where t: "time_now w = (Inr now, w1)" by (cases "ticks w") (auto simp: time_now_def)
  obtain y w2 where m: "send_mail (su_sender B) (ss_username s) (ss_rcpts s) (submission_received B c s now @ body) w1 = (y, w2)"
    by (metis surj_pair)
  from assms False r t m have "s' = s" "w' = w2"
    by (auto simp: submission_data_def the_session_def on_world_def io_simps require_auth_run split: sum.splits)
  with send_mail_extends [OF m] extended_trans [OF idle_extended [OF idle_time_now t]] False show ?thesis by fastforce
qed

lemma submission_rcpt_run:
  assumes "submission_rcpt B to (w, s) = (x, (w', s'))"
  shows "extended w [] w' \<and> ss_username s' = ss_username s"
proof -
  obtain l dom ok where s: "addr_split (to_lower (trim_space to)) = (l, dom, ok)" by (metis surj_pair)
  obtain y v where u: "get_user_by_email (to_lower (trim_space to)) w = (y, v)" by (metis surj_pair)
  note e = idle_extended [OF idle_reads(1) u]
  show ?thesis
    using assms s u e by (auto simp: submission_rcpt_def require_auth_run set_session_def on_world_def io_simps Let_def extended_refl
        split: if_splits sum.splits)
qed

lemma submission_step:
  assumes "run_submission B c cmd (w, s) = (x, (w', s'))"
  shows "\<exists>ds. extended w ds w' \<and> (ds \<noteq> [] \<longrightarrow> ss_username s \<noteq> '''') \<and> sent_as (ss_username s) ds \<and>
    (ss_username s' = ss_username s \<or> knows B (db w) [cmd] (ss_username s'))"
proof -
  have nil: "\<exists>ds. extended w ds w' \<and> (ds \<noteq> [] \<longrightarrow> ss_username s \<noteq> '''') \<and> sent_as (ss_username s) ds \<and> P" if "extended w [] w'" P for P
    using that by (intro exI [of _ "[]"]) (simp add: sent_as_def)
  show ?thesis
  proof (cases cmd)
    case (SubAuth mech username password)
    with assms auth_run [of B c mech username password w s x w' s'] nil show ?thesis by simp
  next
    case (SubMail f)
    with assms show ?thesis
      by (intro nil) (auto simp: submission_mail_def require_auth_run set_session_def io_simps extended_refl split: if_splits)
  next
    case (SubRcpt t)
    with assms submission_rcpt_run [of B t w s x w' s'] nil show ?thesis by simp
  next
    case (SubData r)
    with assms submission_data_run [of B c r w s x w' s'] show ?thesis by auto
  next
    case SubReset
    with assms show ?thesis
      by (intro nil) (auto simp: submission_reset_def set_session_def io_simps extended_refl)
  qed
qed

lemma knows_mono: "knows B D cs e \<Longrightarrow> set cs \<subseteq> set cs' \<Longrightarrow> knows B D cs' e"
  unfolding knows_def by blast

text \<open>
  C12: nobody submits mail without a password or in the name of another. Whatever commands a client
  sends, if in none of them the right password of a user was given, nothing at all is delivered or
  queued; otherwise every queue entry the connection makes has as envelope sender the address of a user
  whose password was given on this connection, whatever MAIL said.
\<close>

theorem submission_authenticated:
  "case run_all (run_submission B c) cmds (w, new_submission l) of (w', s') \<Rightarrow>
     (\<exists>ds. extended w ds w' \<and> ((\<nexists>e. knows B (db w) cmds e) \<longrightarrow> ds = []) \<and>
        (\<forall>i f t data. Outbound i f t data \<in> set ds \<longrightarrow> knows B (db w) cmds f))"
proof -
  have steps: "\<exists>ds. extended w ds w' \<and> ((\<nexists>e. knows B (db w) (pre @ cmds) e) \<longrightarrow> ds = []) \<and>
      (\<forall>i f t data. Outbound i f t data \<in> set ds \<longrightarrow> knows B (db w) (pre @ cmds) f)"
    if "run_all (run_submission B c) cmds (w, s) = (w', s')" "ss_username s = '''' \<or> knows B (db w) pre (ss_username s)"
    for pre w s w' s'
    using that
  proof (induction cmds arbitrary: pre w s)
    case Nil
    then show ?case by (auto intro!: exI [of _ "[]"] extended_refl)
  next
    case (Cons cmd cs)
    obtain x w1 s1 where step: "run_submission B c cmd (w, s) = (x, (w1, s1))" by (metis surj_pair)
    from submission_step [OF step] obtain ds where ds: "extended w ds w1" "ds \<noteq> [] \<longrightarrow> ss_username s \<noteq> ''''"
      "sent_as (ss_username s) ds" "ss_username s1 = ss_username s \<or> knows B (db w) [cmd] (ss_username s1)" by blast
    have db: "db w1 = db w" by (rule extendedD(5) [OF ds(1)])
    have known: "ss_username s1 = '''' \<or> knows B (db w1) (pre @ [cmd]) (ss_username s1)"
      using Cons.prems(2) ds(4) extendedD(5) [OF ds(1)]
      by (auto intro: knows_mono [of B "db w" pre] knows_mono [of B "db w" "[cmd]"])
    have run: "run_all (run_submission B c) cs (w1, s1) = (w', s')" using Cons.prems(1) step by simp
    from Cons.IH [OF this known, unfolded db append_assoc append_Cons append_Nil] obtain es where
      es: "extended w1 es w'" "(\<nexists>e. knows B (db w) (pre @ cmd # cs) e) \<longrightarrow> es = []"
        "\<forall>i f t data. Outbound i f t data \<in> set es \<longrightarrow> knows B (db w) (pre @ cmd # cs) f"
      by (elim exE conjE) (rule that)
    have kn: "knows B (db w) (pre @ cmd # cs) (ss_username s)" if "ds \<noteq> []"
      using that ds(2) Cons.prems(2) by (auto intro: knows_mono [of B "db w" pre])
    have out: "knows B (db w) (pre @ cmd # cs) f" if "Outbound i f t data \<in> set (ds @ es)" for i f t data
    proof (cases "Outbound i f t data \<in> set ds")
      case True
      with ds(3) have "f = ss_username s" unfolding sent_as_def by blast
      moreover have "ds \<noteq> []" using True by (cases ds) auto
      ultimately show ?thesis using kn by simp
    qed (use that es(3) in auto)
    have none: "ds @ es = []" if "\<nexists>e. knows B (db w) (pre @ cmd # cs) e"
      using that es(2) kn by blast
    show ?case
      using extended_trans [OF ds(1) es(1)] out none by blast
  qed
  obtain w' s' where "run_all (run_submission B c) cmds (w, new_submission l) = (w', s')" by (metis surj_pair)
  with steps [OF this, of "[]"] show ?thesis by (simp add: new_submission_def)
qed


definition small_submission :: submission_backend where
  "small_submission = \<lparr>su_sender = \<lparr>sn_config = small_config, sn_sign = None\<rparr>,
     su_bcrypt = plain_bcrypt, su_fmt_date = \<lambda>_. ''now''\<rparr>"

lemma small_submission_run:
  "map (\<lambda>(j, r). map_option (\<lambda>it. (it_from it, it_to it)) r) (qjson (fst (run_all (run_submission small_submission None)
     [SubAuth ''PLAIN'' ''bob@x.org'' ''pw'', SubMail ''eve@x.org'', SubRcpt ''al@y.net'', SubData (Inr ''hi'')]
     (forwarding_world, new_submission None)))) = [Some (''bob@x.org'', ''al@y.net'')]"
  by code_simp

lemma submission_authenticated_witness:
  "\<exists>w' s' (it :: item). run_all (run_submission small_submission None)
     [SubAuth ''PLAIN'' ''bob@x.org'' ''pw'', SubMail ''eve@x.org'', SubRcpt ''al@y.net'', SubData (Inr ''hi'')]
     (forwarding_world, new_submission None) = (w', s') \<and> it_to it = ''al@y.net'' \<and>
     knows small_submission (db forwarding_world)
       [SubAuth ''PLAIN'' ''bob@x.org'' ''pw'', SubMail ''eve@x.org'', SubRcpt ''al@y.net'', SubData (Inr ''hi'')] (it_from it)"
proof -
  let ?cs = "[SubAuth ''PLAIN'' ''bob@x.org'' ''pw'', SubMail ''eve@x.org'', SubRcpt ''al@y.net'', SubData (Inr ''hi'')]"
  obtain w' s' where run: "run_all (run_submission small_submission None) ?cs (forwarding_world, new_submission None) = (w', s')"
    by (metis surj_pair)
  from small_submission_run [unfolded run] obtain j it where it: "qjson w' = [(j, Some it)]" "it_to it = ''al@y.net''"
    by (auto simp: map_eq_Cons_conv)
  then have ld: "loadable w' j it" "\<not> loadable forwarding_world j it"
    by (simp_all add: loadable_def forwarding_world_def blank_world_def)
  from submission_authenticated [where B = small_submission and c = None and cmds = ?cs and w = forwarding_world and l = None, unfolded run]
  obtain ds where "extended forwarding_world ds w'"
    and k: "\<forall>i f t data. Outbound i f t data \<in> set ds \<longrightarrow> knows small_submission (db forwarding_world) ?cs f" by auto
  from extendedD(4) [OF this(1) ld(1)] ld(2) k have "knows small_submission (db forwarding_world) ?cs (it_from it)" by blast
  with run it(2) show ?thesis by blast
qed

end
