(* ===== verification/Webmail.thy ===== *)
theory Webmail
  imports WebApi MailFlow RealIP
begin

text \<open>
  \<open>internal/webmail\<close>: the sessions (\<open>session.go\<close>), the guards and routes (\<open>server.go\<close>) and the handlers
  of signing in (\<open>auth_handlers.go\<close>), reading mail (\<open>mail_handlers.go\<close>), the account
  (\<open>account_handlers.go\<close>) and the administration (\<open>admin_handlers.go\<close>). A request is what \<open>net/http\<close>
  made of it, a reply what the handler hands to the templates: parsing the one and rendering the
  other are left out, as are logging and metrics.
\<close>

section \<open>Numbers in requests\<close>

definition parse_uint32 :: "string \<Rightarrow> u32 option" where
  "parse_uint32 s =
     (if s = '''' \<or> \<not> list_all is_digit s \<or> 2 ^ 32 \<le> value_digits s then None else Some (of_nat (value_digits s)))"

text \<open>\<open>strconv.Atoi\<close> and \<open>strconv.ParseInt\<close> to 64 bits.\<close>

definition parse_int64 :: "string \<Rightarrow> int option" where
  "parse_int64 s =
     (let neg = (s \<noteq> '''' \<and> hd s = CHR ''-'');
          ds = (if s \<noteq> '''' \<and> (hd s = CHR ''-'' \<or> hd s = CHR ''+'') then tl s else s);
          v = (if neg then - int (value_digits ds) else int (value_digits ds)) in
      if ds = '''' \<or> \<not> list_all is_digit ds \<or> v < - (2 ^ 63) \<or> 2 ^ 63 \<le> v then None else Some v)"

text \<open>\<open>base64.RawURLEncoding\<close>.\<close>

definition base64url_char :: "nat \<Rightarrow> char" where
  "base64url_char n = ''ABCDEFGHIJKLMNOPQRSTUVWXYZabcdefghijklmnopqrstuvwxyz0123456789-_'' ! n"

fun base64url :: "bytes \<Rightarrow> string" where
  "base64url (a # b # c # xs) =
     (let x = of_char a; y = of_char b; z = of_char c in
      [base64url_char (x div 4), base64url_char (x mod 4 * 16 + y div 16),
       base64url_char (y mod 16 * 4 + z div 64), base64url_char (z mod 64)] @ base64url xs)"
| "base64url [a, b] =
     (let x = of_char a; y = of_char b in
      [base64url_char (x div 4), base64url_char (x mod 4 * 16 + y div 16), base64url_char (y mod 16 * 4)])"
| "base64url [a] = (let x = of_char a in [base64url_char (x div 4), base64url_char (x mod 4 * 16)])"
| "base64url [] = []"

section \<open>State\<close>

record web_session =
  ws_account :: nat
  ws_expires :: int

record web =
  wb_srv :: srv
  wb_limiter :: "limiter option"
  wb_sessions :: "(string \<times> web_session) list"

type_synonym 'a webio = "(world \<times> web, 'a) io"

definition the_web :: "web webio" where
  "the_web = io_gets snd"

definition upd_web :: "(web \<Rightarrow> web) \<Rightarrow> unit webio" where
  "upd_web f = io_modify (\<lambda>(w, b). (w, f b))"

definition on_srv :: "'a sio \<Rightarrow> 'a webio" where
  "on_srv m = (\<lambda>(w, b). case m (w, wb_srv b) of (r, (w', s)) \<Rightarrow> (r, (w', b\<lparr>wb_srv := s\<rparr>)))"

text \<open>
  The server: \<open>wm_quote\<close> is \<open>%q\<close>, \<open>wm_err_text\<close> the text of an error, \<open>wm_valid_address\<close> and \<open>wm_address_list\<close>
  the parsers of \<open>net/mail\<close>, \<open>wm_fmt_date\<close> the local date, \<open>wm_detect\<close> the guess of a content type, and
  \<open>wm_write\<close> the writer of the go-message library.
\<close>

record outgoing_header =
  oh_from :: string
  oh_to :: "mail_addr list"
  oh_cc :: "mail_addr list"
  oh_subject :: string
  oh_date :: int
  oh_message_id :: string
  oh_in_reply_to :: "string list"
  oh_references :: "string list"

record compose_attachment =
  ca_filename :: string
  ca_ctype :: string
  ca_data :: bytes

record webmail =
  wm_backend :: backend
  wm_lib :: mail_lib
  wm_sender :: sender
  wm_hostname :: string
  wm_trusted :: trusted_proxies
  wm_quote :: "string \<Rightarrow> string"
  wm_err_text :: "goerr \<Rightarrow> string"
  wm_address :: "string \<Rightarrow> goerr + mail_addr"
  wm_address_list :: "string \<Rightarrow> goerr + mail_addr list"
  wm_fmt_date :: "int \<Rightarrow> string"
  wm_detect :: "bytes \<Rightarrow> string"
  wm_write :: "outgoing_header \<Rightarrow> string \<Rightarrow> compose_attachment list \<Rightarrow> goerr + bytes"

text \<open>
  A request with what was parsed of it: whether the form could be read, its values, those of the
  query, the session cookie, and the uploaded files with what reading each gave.
\<close>

record web_request = request +
  rq_form_ok :: bool
  rq_form :: "(string \<times> string) list"
  rq_query :: "(string \<times> string) list"
  rq_cookie :: "string option"
  rq_files :: "(string \<times> string \<times> (goerr + bytes)) list"

definition form_value :: "web_request \<Rightarrow> string \<Rightarrow> string" where
  "form_value r k = (case map_of (rq_form r) k of None \<Rightarrow> '''' | Some v \<Rightarrow> v)"

definition query_value :: "web_request \<Rightarrow> string \<Rightarrow> string" where
  "query_value r k = (case map_of (rq_query r) k of None \<Rightarrow> '''' | Some v \<Rightarrow> v)"

section \<open>Replies\<close>

record page_data =
  pd_email :: string
  pd_is_admin :: bool
  pd_folders :: "folder_info list"
  pd_current_folder :: string
  pd_messages :: "summary list"
  pd_page :: int
  pd_total_pages :: int
  pd_total :: int
  pd_query :: string
  pd_selected :: "full_message option"
  pd_selected_uid :: u32

record account_data =
  ac_email :: string
  ac_is_admin :: bool
  ac_error :: string
  ac_success :: string
  ac_hostname :: string
  ac_imap_port :: string
  ac_smtp_port :: string
  ac_forwarding_enabled :: bool
  ac_forward_to :: string

record admin_user_row =
  au_id :: int
  au_email :: string
  au_is_admin :: bool

text \<open>The view of the relay has no password.\<close>

record relay_view =
  rv_enabled :: bool
  rv_host :: string
  rv_port :: int
  rv_username :: string

record admin_data =
  ad_email :: string
  ad_users :: "admin_user_row list"
  ad_relay :: relay_view
  ad_error :: string
  ad_success :: string

record compose_data =
  cd_to :: string
  cd_cc :: string
  cd_subject :: string
  cd_body :: string
  cd_in_reply_to :: string
  cd_references :: string
  cd_error :: string

datatype page =
    LoginPage string string
  | MailPage page_data | MessageList page_data | MessageView page_data
  | AccountPage account_data | AdminPage admin_data | ComposePage compose_data
  | Attachment string string bytes

datatype cookie_change = KeepCookie | SetCookie string | ClearCookie

datatype reply =
    Redirect cookie_change string
  | Render nat page
  | HttpError nat

abbreviation not_found_reply :: reply where "not_found_reply \<equiv> HttpError 404"
abbreviation internal_error :: reply where "internal_error \<equiv> HttpError 500"
abbreviation bad_form :: reply where "bad_form \<equiv> HttpError 400"

section \<open>Sessions (\<open>session.go\<close>)\<close>

definition session_ttl :: int where
  "session_ttl = 24 * 3600 * 10 ^ 9"

definition random_token :: "string wio" where
  "random_token = io_bind (rand_read 32) (\<lambda>buf. io_ret (base64url buf))"

definition new_session_store :: "(string \<times> web_session) list" where
  "new_session_store = []"

definition session_create :: "nat \<Rightarrow> string webio" where
  "session_create a =
     io_bind (on_world random_token) (\<lambda>token.
     io_bind (on_world time_now) (\<lambda>now.
     io_bind (upd_web (\<lambda>b. b\<lparr>wb_sessions := AList.update token \<lparr>ws_account = a, ws_expires = now + session_ttl\<rparr> (wb_sessions b)\<rparr>)) (\<lambda>_.
     io_ret token)))"

definition session_delete :: "string \<Rightarrow> unit webio" where
  "session_delete token = upd_web (\<lambda>b. b\<lparr>wb_sessions := AList.delete token (wb_sessions b)\<rparr>)"

definition session_get :: "string \<Rightarrow> nat option webio" where
  "session_get token =
     io_bind the_web (\<lambda>b.
     case map_of (wb_sessions b) token of
       None \<Rightarrow> io_ret None
     | Some s \<Rightarrow>
         io_bind (on_world time_now) (\<lambda>now.
         if ws_expires s < now then io_bind (session_delete token) (\<lambda>_. io_ret None)
         else io_ret (Some (ws_account s))))"

section \<open>Guards (\<open>server.go\<close>, \<open>admin_handlers.go\<close>)\<close>

definition require_session :: "(web_request \<Rightarrow> nat \<Rightarrow> reply webio) \<Rightarrow> web_request \<Rightarrow> reply webio" where
  "require_session h r =
     (case rq_cookie r of
        None \<Rightarrow> io_ret (Redirect KeepCookie ''/login'')
      | Some token \<Rightarrow> io_bind (session_get token) (\<lambda>acc.
          case acc of
            None \<Rightarrow> io_ret (Redirect ClearCookie ''/login'')
          | Some a \<Rightarrow> h r a))"

definition require_admin :: "(web_request \<Rightarrow> nat \<Rightarrow> reply webio) \<Rightarrow> web_request \<Rightarrow> reply webio" where
  "require_admin h = require_session (\<lambda>r a.
     io_bind the_web (\<lambda>b. if \<not> account_is_admin (wb_srv b) a then io_ret (HttpError 403) else h r a))"

definition handle_root :: "reply webio" where
  "handle_root = io_ret (Redirect KeepCookie ''/mail/INBOX'')"

section \<open>Signing in and out (\<open>auth_handlers.go\<close>)\<close>

definition handle_login_form :: "web_request \<Rightarrow> reply webio" where
  "handle_login_form r =
     io_bind (case rq_cookie r of None \<Rightarrow> io_ret None | Some token \<Rightarrow> session_get token) (\<lambda>acc.
     if acc \<noteq> None then io_ret (Redirect KeepCookie ''/mail/INBOX'')
     else io_ret (Render 200 (LoginPage ''''
       (if query_value r ''password_changed'' = ''1'' then ''Password changed. Please sign in again.'' else ''''))))"

definition web_blocked :: "string \<Rightarrow> bool webio" where
  "web_blocked ip =
     io_bind the_web (\<lambda>b.
     case wb_limiter b of
       None \<Rightarrow> io_ret False
     | Some l \<Rightarrow> io_bind (on_world time_now) (\<lambda>now. io_ret (\<not> allowed l now ip)))"

definition web_failure :: "string \<Rightarrow> unit webio" where
  "web_failure ip =
     io_bind the_web (\<lambda>b.
     case wb_limiter b of
       None \<Rightarrow> io_ret ()
     | Some l \<Rightarrow> io_bind (on_world time_now) (\<lambda>now. upd_web (\<lambda>b. b\<lparr>wb_limiter := Some (record_failure now ip l)\<rparr>)))"

definition handle_login_submit :: "webmail \<Rightarrow> web_request \<Rightarrow> reply webio" where
  "handle_login_submit M r =
     (if \<not> rq_form_ok r then io_ret bad_form
      else let ip = from_http r (wm_trusted M) in
        io_bind (web_blocked ip) (\<lambda>blocked.
        if blocked then io_ret (Render 429 (LoginPage ''Too many failed attempts. Try again later.'' ''''))
        else io_either (on_srv (authenticate (wm_backend M) (form_value r ''email'') (form_value r ''password'')))
          (\<lambda>_. io_bind (web_failure ip) (\<lambda>_. io_ret (Render 401 (LoginPage ''Invalid email or password'' ''''))))
          (\<lambda>a. io_bind (upd_web (\<lambda>b. b\<lparr>wb_limiter := map_option (record_success ip) (wb_limiter b)\<rparr>)) (\<lambda>_.
             io_either (session_create a) (\<lambda>_. io_ret internal_error)
               (\<lambda>token. io_ret (Redirect (SetCookie token) ''/mail/INBOX''))))))"

definition handle_logout :: "web_request \<Rightarrow> reply webio" where
  "handle_logout r =
     io_bind (case rq_cookie r of None \<Rightarrow> io_ret () | Some token \<Rightarrow> session_delete token) (\<lambda>_.
     io_ret (Redirect ClearCookie ''/login''))"

section \<open>Reading mail (\<open>mail_handlers.go\<close>)\<close>

definition is_htmx_request :: "web_request \<Rightarrow> bool" where
  "is_htmx_request r \<longleftrightarrow> header_get r ''Hx-Request'' = ''true''"

definition default_page_size :: int where "default_page_size = 25"

definition build_page_data :: "webmail \<Rightarrow> nat \<Rightarrow> string \<Rightarrow> u32 \<Rightarrow> int \<Rightarrow> string \<Rightarrow> page_data sio" where
  "build_page_data M a folder selected_uid page query =
     io_bind (io_wrap ''listing folders'' (folders (wm_backend M) a)) (\<lambda>fs.
     io_bind (if query \<noteq> ''''
         then io_bind (io_wrap ''searching'' (search_text (wm_backend M) (wm_lib M) a folder query)) (\<lambda>ms.
              io_ret (ms, int (length ms)))
         else io_wrap ''listing messages'' (list_messages_page (wm_backend M) (wm_lib M) a folder page default_page_size)) (\<lambda>(ms, total).
     io_bind (if selected_uid \<noteq> 0
         then io_either (get_message (wm_backend M) (wm_lib M) a folder selected_uid) (\<lambda>_. io_ret None) (\<lambda>m. io_ret (Some m))
         else io_ret None) (\<lambda>sel.
     io_bind the_srv (\<lambda>s.
     let pages = (total + default_page_size - 1) div default_page_size in
     io_ret \<lparr>pd_email = account_email s a, pd_is_admin = account_is_admin s a, pd_folders = fs, pd_current_folder = folder,
       pd_messages = ms, pd_page = page, pd_total_pages = (if pages < 1 then 1 else pages), pd_total = total, pd_query = query,
       pd_selected = sel, pd_selected_uid = selected_uid\<rparr>))))"

definition parse_page :: "web_request \<Rightarrow> int" where
  "parse_page r =
     (let p = query_value r ''page'' in
      if p = '''' then 1
      else case parse_int64 p of None \<Rightarrow> 1 | Some n \<Rightarrow> if 0 < n then n else 1)"

definition handle_folder :: "webmail \<Rightarrow> string \<Rightarrow> web_request \<Rightarrow> nat \<Rightarrow> reply webio" where
  "handle_folder M folder r a =
     io_either (on_srv (build_page_data M a folder 0 (parse_page r) '''')) (\<lambda>_. io_ret internal_error)
       (\<lambda>d. io_ret (Render 200 (if is_htmx_request r then MessageList d else MailPage d)))"

definition handle_message :: "webmail \<Rightarrow> string \<Rightarrow> string \<Rightarrow> web_request \<Rightarrow> nat \<Rightarrow> reply webio" where
  "handle_message M folder uid_text r a =
     (case parse_uint32 uid_text of
        None \<Rightarrow> io_ret not_found_reply
      | Some uid \<Rightarrow> io_either (on_srv (build_page_data M a folder uid (parse_page r) '''')) (\<lambda>_. io_ret internal_error)
          (\<lambda>d. io_ret (Render 200 (if is_htmx_request r then MessageView d else MailPage d))))"

definition handle_search :: "webmail \<Rightarrow> string \<Rightarrow> web_request \<Rightarrow> nat \<Rightarrow> reply webio" where
  "handle_search M folder r a =
     io_either (on_srv (build_page_data M a folder 0 1 (trim_space (query_value r ''q'')))) (\<lambda>_. io_ret internal_error)
       (\<lambda>d. io_ret (Render 200 (MessageList d)))"

definition toggle_flag :: "string list \<Rightarrow> string \<Rightarrow> string list" where
  "toggle_flag flags flag =
     filter (\<lambda>f. \<not> equal_fold f flag) flags @ (if list_ex (\<lambda>f. equal_fold f flag) flags then [] else [flag])"

definition handle_flag :: "webmail \<Rightarrow> string \<Rightarrow> string \<Rightarrow> web_request \<Rightarrow> nat \<Rightarrow> reply webio" where
  "handle_flag M folder uid_text r a =
     (case parse_uint32 uid_text of
        None \<Rightarrow> io_ret not_found_reply
      | Some uid \<Rightarrow>
          if \<not> rq_form_ok r then io_ret bad_form
          else io_either (on_srv (get_summary (wm_backend M) (wm_lib M) a folder uid)) (\<lambda>_. io_ret not_found_reply)
            (\<lambda>s. io_either (on_srv (account_set_flags (wm_backend M) a folder uid (toggle_flag (su_flags s) (form_value r ''flag''))))
               (\<lambda>_. io_ret internal_error)
               (\<lambda>_. io_ret (Redirect KeepCookie (''/mail/'' @ folder @ ''/'' @ show_nat (unat uid))))))"

definition handle_delete :: "webmail \<Rightarrow> string \<Rightarrow> string \<Rightarrow> web_request \<Rightarrow> nat \<Rightarrow> reply webio" where
  "handle_delete M folder uid_text r a =
     (case parse_uint32 uid_text of
        None \<Rightarrow> io_ret not_found_reply
      | Some uid \<Rightarrow> io_either (on_srv (account_delete (wm_backend M) a folder uid)) (\<lambda>_. io_ret internal_error)
          (\<lambda>_. io_ret (Redirect KeepCookie (''/mail/'' @ folder))))"

definition handle_attachment :: "webmail \<Rightarrow> string \<Rightarrow> string \<Rightarrow> string \<Rightarrow> web_request \<Rightarrow> nat \<Rightarrow> reply webio" where
  "handle_attachment M folder uid_text part r a =
     (case parse_uint32 uid_text of
        None \<Rightarrow> io_ret not_found_reply
      | Some uid \<Rightarrow> (case parse_int64 part of
          None \<Rightarrow> io_ret not_found_reply
        | Some n \<Rightarrow> if n < 1 then io_ret not_found_reply
            else io_either (on_srv (get_attachment (wm_backend M) (wm_lib M) a folder uid (nat n))) (\<lambda>_. io_ret not_found_reply)
              (\<lambda>(data, filename, ctype). io_ret (Render 200 (Attachment
                 (if ctype = '''' then ''application/octet-stream'' else ctype) filename data)))))"


section \<open>The account (\<open>account_handlers.go\<close>)\<close>

definition port_from_addr :: "string \<Rightarrow> string" where
  "port_from_addr addr = (case split_host_port addr of None \<Rightarrow> addr | Some (h, p) \<Rightarrow> p)"

definition new_account_data :: "webmail \<Rightarrow> nat \<Rightarrow> account_data sio" where
  "new_account_data M a =
     io_bind the_srv (\<lambda>s.
     let l = cf_listen (bk_config (wm_backend M));
         d = \<lparr>ac_email = account_email s a, ac_is_admin = account_is_admin s a, ac_error = '''', ac_success = '''',
           ac_hostname = wm_hostname M, ac_imap_port = port_from_addr (ls_imap l), ac_smtp_port = port_from_addr (ls_submission l),
           ac_forwarding_enabled = False, ac_forward_to = ''''\<rparr> in
     io_either (on_world (get_forwarding (account_id s a))) (\<lambda>_. io_ret d)
       (\<lambda>f. io_ret (d\<lparr>ac_forwarding_enabled := fwd_enabled f, ac_forward_to := fwd_forward_to f\<rparr>)))"

definition handle_account_page :: "webmail \<Rightarrow> web_request \<Rightarrow> nat \<Rightarrow> reply webio" where
  "handle_account_page M r a = io_bind (on_srv (new_account_data M a)) (\<lambda>d. io_ret (Render 200 (AccountPage d)))"

definition handle_password_change :: "webmail \<Rightarrow> web_request \<Rightarrow> nat \<Rightarrow> reply webio" where
  "handle_password_change M r a =
     (if \<not> rq_form_ok r then io_ret bad_form
      else let current = form_value r ''current_password''; new = form_value r ''new_password''; confirm = form_value r ''confirm_password'' in
        io_bind (on_srv (new_account_data M a)) (\<lambda>d.
        let refuse = (\<lambda>t. io_ret (Render 200 (AccountPage (d\<lparr>ac_error := t\<rparr>)))) in
        if current = '''' \<or> new = '''' then refuse ''Current and new password are required''
        else if length new < 8 then refuse ''New password must be at least 8 characters''
        else if new \<noteq> confirm then refuse ''New password and confirmation don't match''
        else io_either (on_srv (change_password (wm_backend M) a current new))
          (\<lambda>e. refuse (''Failed to change password: '' @ wm_err_text M e))
          (\<lambda>_. io_bind (case rq_cookie r of None \<Rightarrow> io_ret () | Some token \<Rightarrow> session_delete token) (\<lambda>_.
             io_ret (Redirect ClearCookie ''/login?password_changed=1'')))))"

definition valid_email_address :: "webmail \<Rightarrow> string \<Rightarrow> bool" where
  "valid_email_address M addr = (case wm_address M addr of Inl e \<Rightarrow> False | Inr x \<Rightarrow> True)"

definition handle_forwarding :: "webmail \<Rightarrow> web_request \<Rightarrow> nat \<Rightarrow> reply webio" where
  "handle_forwarding M r a =
     (if \<not> rq_form_ok r then io_ret bad_form
      else let enabled = (form_value r ''forwarding_enabled'' = ''on''); target = to_lower (trim_space (form_value r ''forward_to'')) in
        io_bind (on_srv (new_account_data M a)) (\<lambda>d0.
        io_bind the_web (\<lambda>b.
        let d = d0\<lparr>ac_forwarding_enabled := enabled, ac_forward_to := target\<rparr>;
            refuse = (\<lambda>t. io_ret (Render 200 (AccountPage (d\<lparr>ac_error := t\<rparr>)))) in
        if enabled \<and> target = '''' then refuse ''Enter an address to forward mail to''
        else if enabled \<and> \<not> valid_email_address M target then refuse ''That doesn't look like a valid email address''
        else if enabled \<and> target = to_lower (account_email (wb_srv b) a) then refuse ''Can't forward a mailbox to itself''
        else io_either (on_world (set_forwarding (bk_store (wm_backend M)) (account_id (wb_srv b) a) enabled target))
          (\<lambda>e. refuse (''Failed to save forwarding settings: '' @ wm_err_text M e))
          (\<lambda>_. io_ret (Render 200 (AccountPage (d\<lparr>ac_success := ''Forwarding settings saved''\<rparr>)))))))"

section \<open>The administration (\<open>admin_handlers.go\<close>)\<close>

definition build_admin_data :: "webmail \<Rightarrow> nat \<Rightarrow> admin_data sio" where
  "build_admin_data M a =
     io_bind (io_wrap ''listing users'' (on_world list_users)) (\<lambda>us.
     io_bind (io_wrap ''loading relay settings'' (on_world get_relay_settings)) (\<lambda>rs.
     io_bind the_srv (\<lambda>s.
     io_ret \<lparr>ad_email = account_email s a,
       ad_users = map (\<lambda>u. \<lparr>au_id = usr_id u, au_email = usr_email u, au_is_admin = usr_is_admin u\<rparr>) us,
       ad_relay = \<lparr>rv_enabled = rel_enabled rs, rv_host = rel_host rs, rv_port = rel_port rs, rv_username = rel_username rs\<rparr>,
       ad_error = '''', ad_success = ''''\<rparr>)))"

definition with_admin_data :: "webmail \<Rightarrow> nat \<Rightarrow> (admin_data \<Rightarrow> reply webio) \<Rightarrow> reply webio" where
  "with_admin_data M a k = io_either (on_srv (build_admin_data M a)) (\<lambda>_. io_ret internal_error) k"

definition admin_error :: "admin_data \<Rightarrow> string \<Rightarrow> reply webio" where
  "admin_error d t = io_ret (Render 200 (AdminPage (d\<lparr>ad_error := t\<rparr>)))"

definition handle_admin_page :: "webmail \<Rightarrow> web_request \<Rightarrow> nat \<Rightarrow> reply webio" where
  "handle_admin_page M r a = with_admin_data M a (\<lambda>d. io_ret (Render 200 (AdminPage d)))"

text \<open>The page after a change shows the new state, or the old one when that cannot be read.\<close>

definition refreshed :: "webmail \<Rightarrow> nat \<Rightarrow> admin_data \<Rightarrow> string \<Rightarrow> reply webio" where
  "refreshed M a d success =
     io_bind (io_either (on_srv (build_admin_data M a)) (\<lambda>_. io_ret d) io_ret) (\<lambda>d'.
     io_ret (Render 200 (AdminPage (d'\<lparr>ad_success := success\<rparr>))))"

definition handle_admin_create_user :: "webmail \<Rightarrow> web_request \<Rightarrow> nat \<Rightarrow> reply webio" where
  "handle_admin_create_user M r a =
     (if \<not> rq_form_ok r then io_ret bad_form
      else let email = to_lower (trim_space (form_value r ''email'')); password = form_value r ''password'';
             make_admin = (form_value r ''is_admin'' = ''on''); B = wm_backend M in
        with_admin_data M a (\<lambda>d.
        case addr_split email of (local_part, domain, ok) \<Rightarrow>
        if email = '''' \<or> password = '''' then admin_error d ''Email and password are required''
        else if \<not> ok then admin_error d (''Invalid email address '' @ wm_quote M email)
        else if \<not> is_local_domain (bk_config B) domain
        then admin_error d (''Domain '' @ wm_quote M domain @ '' isn't configured on this server'')
        else io_either (on_world (get_user_by_email email))
          (\<lambda>_. io_either (on_world (create_user (bk_bcrypt B) (bk_store B) domain local_part password make_admin))
             (\<lambda>e. admin_error d (''Failed to create mailbox: '' @ wm_err_text M e))
             (\<lambda>u. io_either (on_world (provision_mailboxes (bk_config B) (bk_store B) u))
                (\<lambda>e. admin_error d (''Mailbox created, but folder setup failed: '' @ wm_err_text M e))
                (\<lambda>_. refreshed M a d (''Created mailbox '' @ email))))
          (\<lambda>_. admin_error d (email @ '' already exists''))))"

definition handle_admin_delete_user :: "webmail \<Rightarrow> string \<Rightarrow> web_request \<Rightarrow> nat \<Rightarrow> reply webio" where
  "handle_admin_delete_user M id_text r a =
     (case parse_int64 id_text of
        None \<Rightarrow> io_ret not_found_reply
      | Some uid \<Rightarrow>
          with_admin_data M a (\<lambda>d.
          io_either (on_world (get_user_by_id uid)) (\<lambda>_. admin_error d ''Mailbox not found'') (\<lambda>target.
          io_bind the_web (\<lambda>b.
          if equal_fold (usr_email target) (account_email (wb_srv b) a)
          then admin_error d ''You can't delete the mailbox you're currently signed in as''
          else io_either (on_world (delete_user (bk_store (wm_backend M)) uid))
            (\<lambda>e. admin_error d (''Failed to delete mailbox: '' @ wm_err_text M e))
            (\<lambda>_. case addr_split (usr_email target) of (local_part, domain, ok) \<Rightarrow>
               io_bind (on_world (io_ignore (os_remove_all (user_root (maildir_base (bk_config (wm_backend M))) domain local_part)))) (\<lambda>_.
               io_ret (Redirect KeepCookie ''/admin'')))))))"

definition handle_admin_relay :: "webmail \<Rightarrow> web_request \<Rightarrow> nat \<Rightarrow> reply webio" where
  "handle_admin_relay M r a =
     (if \<not> rq_form_ok r then io_ret bad_form
      else with_admin_data M a (\<lambda>d.
        let enabled = (form_value r ''relay_enabled'' = ''on''); host = trim_space (form_value r ''relay_host'');
            username = trim_space (form_value r ''relay_username''); password = form_value r ''relay_password'';
            p = trim_space (form_value r ''relay_port'');
            port = (if p = '''' then Some 587
              else case parse_int64 p of None \<Rightarrow> None | Some n \<Rightarrow> if 0 < n \<and> n < 65536 then Some n else None);
            view = (\<lambda>n. d\<lparr>ad_relay := \<lparr>rv_enabled = enabled, rv_host = host, rv_port = n, rv_username = username\<rparr>\<rparr>) in
        case port of
          None \<Rightarrow> admin_error (view 587) ''Port must be a number between 1 and 65535''
        | Some n \<Rightarrow>
            if enabled \<and> (host = '''' \<or> username = '''') then admin_error (view n) ''Host and username are required to enable the relay''
            else io_either (on_world (set_relay_settings (bk_store (wm_backend M)) \<lparr>rel_enabled = enabled, rel_host = host,
                rel_port = n, rel_username = username, rel_password = password\<rparr>))
              (\<lambda>e. admin_error d (''Failed to save relay settings: '' @ wm_err_text M e))
              (\<lambda>_. refreshed M a d (if enabled
                 then ''Outbound relay saved and enabled. New mail will route through it starting with the next delivery attempt.''
                 else ''Outbound relay saved and disabled. Mail will deliver directly to each recipient's mail server again.''))))"

end
