(* ===== verification/Compose.thy ===== *)
theory Compose
  imports Webmail
begin

text \<open>
  Writing mail in the browser, \<open>internal/webmail/compose_handlers.go\<close>, and the table of routes of
  \<open>server.go\<close>. The writer of the go-message library gets the header fields, the text and the attachments
  of a message; its result is a parameter.
\<close>

section \<open>Replies and forwards\<close>

definition extract_addr :: "webmail \<Rightarrow> string \<Rightarrow> string" where
  "extract_addr M s = (case wm_address M s of Inl e \<Rightarrow> s | Inr x \<Rightarrow> ma_addr x)"

definition split_address_list :: "webmail \<Rightarrow> string list \<Rightarrow> string list" where
  "split_address_list M ls =
     (case wm_address_list M (join_str '', '' ls) of
        Inl e \<Rightarrow> []
      | Inr as \<Rightarrow> map (\<lambda>a. if ma_name a \<noteq> '''' then ma_name a @ '' <'' @ ma_addr a @ ''>'' else ma_addr a) as)"

definition reply_all_cc :: "webmail \<Rightarrow> string \<Rightarrow> full_message \<Rightarrow> string" where
  "reply_all_cc M self_email orig =
     (let exclude = {to_lower (extract_addr M self_email), to_lower (extract_addr M (su_from (fm_summary orig)))} in
      join_str '', '' (filter (\<lambda>a. to_lower (extract_addr M a) \<notin> exclude)
        (split_address_list M [su_to (fm_summary orig), fm_cc orig])))"

definition ensure_prefix :: "string \<Rightarrow> string \<Rightarrow> string" where
  "ensure_prefix subject prefix =
     (if has_prefix (to_lower (trim_space subject)) (to_lower (trim_space prefix)) then subject else prefix @ subject)"

definition append_reference :: "string \<Rightarrow> string \<Rightarrow> string" where
  "append_reference references message_id =
     (if message_id = '''' then references
      else if references = '''' then message_id
      else references @ '' '' @ message_id)"

definition lf :: string where "lf = [CHR 0x0A]"

definition quote_body :: "webmail \<Rightarrow> full_message \<Rightarrow> string" where
  "quote_body M orig =
     (let t0 = fm_text orig;
          body = (if t0 = '''' \<and> fm_html orig \<noteq> '''' then ''(original message was HTML-only)'' else t0) in
      ''On '' @ wm_fmt_date M (su_date (fm_summary orig)) @ '', '' @ su_from (fm_summary orig) @ '' wrote:'' @ lf @
      concat (map (\<lambda>line. ''> '' @ trim_right_byte line (CHR 0x0D) @ lf) (split_byte (CHR 0x0A) body)))"

definition forward_body :: "webmail \<Rightarrow> full_message \<Rightarrow> string" where
  "forward_body M orig =
     ''---------- Forwarded message ----------'' @ lf @
     ''From: '' @ su_from (fm_summary orig) @ lf @
     ''Date: '' @ wm_fmt_date M (su_date (fm_summary orig)) @ lf @
     ''Subject: '' @ su_subject (fm_summary orig) @ lf @
     ''To: '' @ su_to (fm_summary orig) @ lf @ lf @
     (if fm_text orig \<noteq> '''' then fm_text orig
      else if fm_html orig \<noteq> '''' then ''(original message was HTML-only; open it directly to view)''
      else '''')"

definition empty_compose :: compose_data where
  "empty_compose = \<lparr>cd_to = '''', cd_cc = '''', cd_subject = '''', cd_body = '''', cd_in_reply_to = '''', cd_references = '''', cd_error = ''''\<rparr>"

definition fill_compose_defaults :: "webmail \<Rightarrow> string \<Rightarrow> string \<Rightarrow> full_message \<Rightarrow> compose_data \<Rightarrow> compose_data" where
  "fill_compose_defaults M self_email mode orig d =
     (if mode = ''reply'' \<or> mode = ''replyall''
      then d\<lparr>cd_to := su_from (fm_summary orig),
             cd_cc := (if mode = ''replyall'' then reply_all_cc M self_email orig else cd_cc d),
             cd_subject := ensure_prefix (su_subject (fm_summary orig)) ''Re: '',
             cd_body := quote_body M orig,
             cd_in_reply_to := fm_message_id orig,
             cd_references := append_reference (fm_references orig) (fm_message_id orig)\<rparr>
      else if mode = ''forward''
      then d\<lparr>cd_subject := ensure_prefix (su_subject (fm_summary orig)) ''Fwd: '', cd_body := forward_body M orig\<rparr>
      else d)"

definition handle_compose_form :: "webmail \<Rightarrow> web_request \<Rightarrow> nat \<Rightarrow> reply webio" where
  "handle_compose_form M r a =
     (let mode = query_value r ''mode''; folder = query_value r ''folder''; uid_text = query_value r ''uid'';
          show_form = (\<lambda>d. io_ret (Render 200 (ComposePage d))) in
      if mode = '''' \<or> folder = '''' \<or> uid_text = '''' then show_form empty_compose
      else case parse_uint32 uid_text of
          None \<Rightarrow> show_form empty_compose
        | Some uid \<Rightarrow> io_either (on_srv (get_message (wm_backend M) (wm_lib M) a folder uid)) (\<lambda>_. show_form empty_compose)
            (\<lambda>m. io_bind the_web (\<lambda>b.
               show_form (fill_compose_defaults M (account_email (wb_srv b) a) mode m empty_compose))))"

section \<open>Sending\<close>

definition sanitize_header_value :: "string \<Rightarrow> string" where
  "sanitize_header_value s = map (\<lambda>c. if c = CHR 0x0D \<or> c = CHR 0x0A then CHR '' '' else c) s"

fun cr_lf_to_lf :: "string \<Rightarrow> string" where
  "cr_lf_to_lf (c # d # s) = (if c = CHR 0x0D \<and> d = CHR 0x0A then CHR 0x0A # cr_lf_to_lf s else c # cr_lf_to_lf (d # s))"
| "cr_lf_to_lf s = s"

definition to_crlf :: "string \<Rightarrow> string" where
  "to_crlf s = concat (map (\<lambda>c. if c = CHR 0x0A then crlf else [c]) (cr_lf_to_lf s))"

text \<open>A failing random source leaves zero bytes.\<close>

definition generate_local_message_id :: "string wio" where
  "generate_local_message_id =
     io_bind (io_either (rand_read 12) (\<lambda>_. io_ret (replicate 12 (CHR 0x00))) io_ret) (\<lambda>buf.
     io_bind time_now (\<lambda>now.
     io_ret (show_int now @ ''.'' @ hex_encode buf)))"

definition trim_angles :: "string \<Rightarrow> string" where
  "trim_angles s = (let p = (\<lambda>c. c = CHR ''<'' \<or> c = CHR ''>'') in rev (dropWhile p (rev (dropWhile p s))))"

definition build_outgoing_message ::
    "webmail \<Rightarrow> string \<Rightarrow> mail_addr list \<Rightarrow> mail_addr list \<Rightarrow> string \<Rightarrow> string \<Rightarrow> string \<Rightarrow> string \<Rightarrow>
     compose_attachment list \<Rightarrow> bytes wio" where
  "build_outgoing_message M from to cc subject body in_reply_to references atts =
     io_bind time_now (\<lambda>now.
     io_bind generate_local_message_id (\<lambda>i.
     let h = \<lparr>oh_from = from, oh_to = to, oh_cc = cc, oh_subject = subject, oh_date = now,
          oh_message_id = i @ ''@'' @ wm_hostname M,
          oh_in_reply_to = (if in_reply_to = '''' then [] else [trim_angles in_reply_to]),
          oh_references = str_fields references\<rparr> in
     case wm_write M h (to_crlf body)
         (map (\<lambda>t. t\<lparr>ca_ctype := (if ca_ctype t = '''' then ''application/octet-stream'' else ca_ctype t)\<rparr>) atts) of
       Inl e \<Rightarrow> io_fail e
     | Inr raw \<Rightarrow> io_ret raw))"

text \<open>The uploaded files: the first that cannot be read stops the loop, with its name.\<close>

fun read_attachments :: "webmail \<Rightarrow> (string \<times> string \<times> (goerr + bytes)) list \<Rightarrow> string + compose_attachment list" where
  "read_attachments M [] = Inr []"
| "read_attachments M ((filename, ctype, content) # fs) =
     (case content of
        Inl e \<Rightarrow> Inl filename
      | Inr data \<Rightarrow> map_sum id (Cons \<lparr>ca_filename = filename,
          ca_ctype = (if ctype = '''' then wm_detect M data else ctype), ca_data = data\<rparr>) (read_attachments M fs))"

definition compose_error :: "compose_data \<Rightarrow> string \<Rightarrow> reply webio" where
  "compose_error d t = io_ret (Render 200 (ComposePage (d\<lparr>cd_error := t\<rparr>)))"

definition handle_compose_submit :: "webmail \<Rightarrow> web_request \<Rightarrow> nat \<Rightarrow> reply webio" where
  "handle_compose_submit M r a =
     (if \<not> rq_form_ok r then compose_error empty_compose ''Message too large (max 25 MB including attachments)''
      else let to = sanitize_header_value (trim_space (form_value r ''to''));
               cc = sanitize_header_value (trim_space (form_value r ''cc''));
               subject = sanitize_header_value (form_value r ''subject'');
               in_reply_to = sanitize_header_value (form_value r ''in_reply_to'');
               references = sanitize_header_value (form_value r ''references'');
               body = form_value r ''body'';
               d = \<lparr>cd_to = to, cd_cc = cc, cd_subject = subject, cd_body = body, cd_in_reply_to = in_reply_to,
                 cd_references = references, cd_error = ''''\<rparr> in
        if to = '''' then compose_error d ''At least one recipient is required''
        else case wm_address_list M to of
            Inl e \<Rightarrow> compose_error d (''Invalid To address: '' @ wm_err_text M e)
          | Inr to_addrs \<Rightarrow>
              (case (if cc = '''' then Inr [] else wm_address_list M cc) of
                 Inl e \<Rightarrow> compose_error d (''Invalid Cc address: '' @ wm_err_text M e)
               | Inr cc_addrs \<Rightarrow>
                   (case read_attachments M (rq_files r) of
                      Inl filename \<Rightarrow> compose_error d (''Failed to read attachment '' @ filename)
                    | Inr atts \<Rightarrow>
                        io_bind the_web (\<lambda>b.
                        let self_email = account_email (wb_srv b) a; rcpts = map ma_addr to_addrs @ map ma_addr cc_addrs in
                        io_either (on_world (build_outgoing_message M self_email to_addrs cc_addrs subject body in_reply_to references atts))
                          (\<lambda>e. compose_error d (''Failed to build message: '' @ wm_err_text M e))
                          (\<lambda>raw. io_either (on_world (send_mail (wm_sender M) self_email rcpts raw))
                             (\<lambda>e. compose_error d (''Failed to send: '' @ wm_err_text M e))
                             (\<lambda>sent. io_bind (io_ignore (on_srv (account_append (wm_backend M) a ''Sent'' sent [flag_seen]))) (\<lambda>_.
                                io_ret (Redirect KeepCookie ''/mail/Sent''))))))))"

section \<open>The routes (\<open>server.go\<close>)\<close>

text \<open>The patterns of the multiplexer with the path values it extracts; \<open>net/http\<close> does the matching.\<close>

datatype route =
    LoginForm | LoginSubmit | Logout | Root
  | Folder string | SearchIn string | Message string string | Flag string string | Delete string string
  | AttachmentOf string string string
  | ComposeForm | ComposeSubmit
  | AdminHome | AdminCreate | AdminDelete string | AdminRelay
  | AccountHome | PasswordChange | ForwardingChange

fun serve :: "webmail \<Rightarrow> route \<Rightarrow> web_request \<Rightarrow> reply webio" where
  "serve M LoginForm r = handle_login_form r"
| "serve M LoginSubmit r = handle_login_submit M r"
| "serve M Logout r = handle_logout r"
| "serve M Root r = handle_root"
| "serve M (Folder f) r = require_session (handle_folder M f) r"
| "serve M (SearchIn f) r = require_session (handle_search M f) r"
| "serve M (Message f u) r = require_session (handle_message M f u) r"
| "serve M (Flag f u) r = require_session (handle_flag M f u) r"
| "serve M (Delete f u) r = require_session (handle_delete M f u) r"
| "serve M (AttachmentOf f u p) r = require_session (handle_attachment M f u p) r"
| "serve M ComposeForm r = require_session (handle_compose_form M) r"
| "serve M ComposeSubmit r = require_session (handle_compose_submit M) r"
| "serve M AdminHome r = require_admin (handle_admin_page M) r"
| "serve M AdminCreate r = require_admin (handle_admin_create_user M) r"
| "serve M (AdminDelete i) r = require_admin (handle_admin_delete_user M i) r"
| "serve M AdminRelay r = require_admin (handle_admin_relay M) r"
| "serve M AccountHome r = require_session (handle_account_page M) r"
| "serve M PasswordChange r = require_session (handle_password_change M) r"
| "serve M ForwardingChange r = require_session (handle_forwarding M) r"

end
