(* ===== verification/WebmailInv.thy ===== *)
theory WebmailInv
  imports Compose MailFlowInv UserInv
begin

text \<open>
  The guards of the webmail: what a request signs in as, and what a browser can reach without signing in or
  without the role of an administrator.
\<close>

section \<open>Who may enter\<close>

definition public_route :: "route \<Rightarrow> bool" where
  "public_route rt \<longleftrightarrow> rt \<in> {LoginForm, LoginSubmit, Logout, Root}"

definition admin_route :: "route \<Rightarrow> bool" where
  "admin_route rt \<longleftrightarrow> (case rt of AdminHome \<Rightarrow> True | AdminCreate \<Rightarrow> True | AdminDelete i \<Rightarrow> True | AdminRelay \<Rightarrow> True | _ \<Rightarrow> False)"

text \<open>The account a request is signed in as, at the time the guard reads from the clock.\<close>

definition signed_in :: "world \<Rightarrow> web \<Rightarrow> web_request \<Rightarrow> nat option" where
  "signed_in w b r =
     (case rq_cookie r of
        None \<Rightarrow> None
      | Some t \<Rightarrow> (case map_of (wb_sessions b) t of
          None \<Rightarrow> None
        | Some s \<Rightarrow> if ws_expires s < projr (fst (time_now w)) then None else Some (ws_account s)))"

lemma clock_run: "\<exists>now w1. time_now w = (Inr now, w1) \<and> idle w w1"
proof -
  obtain now w1 where t: "time_now w = (Inr now, w1)" by (cases "ticks w") (auto simp: time_now_def)
  with keepsD [OF idle_time_now, of w] show ?thesis by auto
qed

lemma idle_refl [simp]: "idle w w"
  by (simp add: idle_def)

lemma set_delete_subset: "set (AList.delete k al) \<subseteq> set al"
  by (auto simp: AList.delete_eq)

lemma session_get_run:
  "\<exists>w' b'. session_get t (w, b) = (Inr (signed_in w b (r\<lparr>rq_cookie := Some t\<rparr>)), (w', b')) \<and> idle w w' \<and>
     wb_srv b' = wb_srv b \<and> wb_limiter b' = wb_limiter b \<and> set (wb_sessions b') \<subseteq> set (wb_sessions b)"
proof -
  obtain now w1 where t: "time_now w = (Inr now, w1)" "idle w w1" using clock_run by blast
  show ?thesis
  proof (cases "map_of (wb_sessions b) t")
    case None
    then show ?thesis by (simp add: session_get_def the_web_def io_simps signed_in_def)
  next
    case (Some s)
    with t show ?thesis
      by (auto simp: session_get_def the_web_def io_simps on_world_def signed_in_def session_delete_def upd_web_def
          dest: subsetD [OF set_delete_subset])
  qed
qed

definition same_web :: "world \<times> web \<Rightarrow> world \<times> web \<Rightarrow> bool" where
  "same_web s t \<longleftrightarrow> idle (fst s) (fst t) \<and> wb_srv (snd t) = wb_srv (snd s) \<and> wb_limiter (snd t) = wb_limiter (snd s) \<and>
     set (wb_sessions (snd t)) \<subseteq> set (wb_sessions (snd s))"

lemma require_session_run:
  "(signed_in w b r = None \<longrightarrow> (\<exists>c t. require_session h r (w, b) = (Inr (Redirect c ''/login''), t) \<and> same_web (w, b) t)) \<and>
   (\<forall>a. signed_in w b r = Some a \<longrightarrow> (\<exists>t. require_session h r (w, b) = h r a t \<and> same_web (w, b) t))"
proof (cases "rq_cookie r")
  case None
  then show ?thesis by (auto simp: require_session_def signed_in_def io_simps same_web_def)
next
  case (Some tok)
  have "signed_in w b (r\<lparr>rq_cookie := Some tok\<rparr>) = signed_in w b r"
    using Some by (simp add: signed_in_def)
  then obtain w' b' where "session_get tok (w, b) = (Inr (signed_in w b r), (w', b'))" "same_web (w, b) (w', b')"
    using session_get_run [of tok w b r] by (auto simp: same_web_def)
  with Some show ?thesis by (auto simp: require_session_def io_simps)
qed

lemma require_admin_run:
  "(signed_in w b r = None \<longrightarrow> (\<exists>c t. require_admin h r (w, b) = (Inr (Redirect c ''/login''), t) \<and> same_web (w, b) t)) \<and>
   (\<forall>a. signed_in w b r = Some a \<longrightarrow> (\<exists>t. same_web (w, b) t \<and> require_admin h r (w, b) =
      (if account_is_admin (wb_srv b) a then h r a t else (Inr (HttpError 403), t))))"
proof -
  let ?h = "\<lambda>r a. io_bind the_web (\<lambda>b. if \<not> account_is_admin (wb_srv b) a then io_ret (HttpError 403) else h r a)"
  note run = require_session_run [of w b r ?h, folded require_admin_def]
  have "\<exists>t. same_web (w, b) t \<and> require_admin h r (w, b) = (if account_is_admin (wb_srv b) a then h r a t else (Inr (HttpError 403), t))"
    if "signed_in w b r = Some a" for a
  proof -
    from run that obtain t where t: "require_admin h r (w, b) = ?h r a t" "same_web (w, b) t" by blast
    then have "wb_srv (snd t) = wb_srv b" by (simp add: same_web_def)
    with t show ?thesis by (intro exI [of _ t]) (simp add: io_simps the_web_def)
  qed
  with run show ?thesis by blast
qed

lemma guarded_serve:
  "\<not> public_route rt \<Longrightarrow> (\<exists>h. serve M rt r = require_session h r) \<or> (\<exists>h. serve M rt r = require_admin h r)"
  by (cases rt) (auto simp: public_route_def)

text \<open>
  C4: Nobody gets past the guards of the webmail. A request for any page but those of signing in and out,
  with no cookie, an unknown one or that of an expired session, is sent to the login page; an account
  that is not an administrator gets 403 from every administration route. In both cases the mailboxes,
  the queue, the database, the accounts and the limiter are as before, and no session was added.
\<close>

theorem web_guarded:
  assumes "serve M rt r (w, b) = (x, t)"
  shows "(\<not> public_route rt \<and> signed_in w b r = None \<longrightarrow> (\<exists>c. x = Inr (Redirect c ''/login'')) \<and> same_web (w, b) t) \<and>
    (admin_route rt \<and> signed_in w b r = Some a \<and> \<not> account_is_admin (wb_srv b) a \<longrightarrow> x = Inr (HttpError 403) \<and> same_web (w, b) t)"
proof (intro conjI impI; elim conjE)
  assume out: "\<not> public_route rt" "signed_in w b r = None"
  have "\<exists>c t. serve M rt r (w, b) = (Inr (Redirect c ''/login''), t) \<and> same_web (w, b) t"
    using guarded_serve [OF out(1), of M r] require_session_run [of w b r] require_admin_run [of w b r] out(2)
    by (elim disjE exE) (simp_all only: simp_thms)
  with assms show "\<exists>c. x = Inr (Redirect c ''/login'')" "same_web (w, b) t" by auto
next
  assume low: "admin_route rt" "signed_in w b r = Some a" "\<not> account_is_admin (wb_srv b) a"
  obtain h where "serve M rt r = require_admin h r"
    using low(1) by (cases rt) (auto simp: admin_route_def)
  with require_admin_run [of w b r h] low(2,3) assms
  show "x = Inr (HttpError 403)" "same_web (w, b) t" by auto
qed

end
