(* ===== verification/WebmailSafe.thy ===== *)
theory WebmailSafe
  imports WebmailInv
begin

text \<open>
  What the requests of the webmail keep: the rows of the accounts, the sessions, the pointers from
  sessions to accounts and from accounts to mailboxes, and the data of everyone but the signed-in account.
\<close>

section \<open>The accounts stay who they are\<close>

definition same_users :: "world \<times> srv \<Rightarrow> world \<times> srv \<Rightarrow> bool" where
  "same_users s t \<longleftrightarrow> map mu_row (sv_users (snd t)) = map mu_row (sv_users (snd s)) \<and> sv_index (snd t) = sv_index (snd s)"

interpretation su: effect same_users
  by unfold_locales (simp_all add: same_users_def)

lemma su_world: "keeps same_users (on_world m)"
  by (auto simp: keeps_def same_users_def on_world_def split: prod.splits)

lemma su_srv: "keeps same_users the_srv"
  unfolding the_srv_def by (rule su.keeps_rules)

lemma su_at_box: "keeps same_users (at_box i m)"
  by (auto simp: keeps_def same_users_def at_box_def split: prod.splits)

lemma su_box: "keeps same_users (box i)"
  unfolding box_def by (rule su_at_box)

lemma su_upd_user: "(\<And>u. mu_row (f u) = mu_row u) \<Longrightarrow> keeps same_users (upd_user ui f)"
  by (auto simp: keeps_def same_users_def upd_user_def upd_srv_def io_modify_def map_update)
    (metis length_map list_update_beyond list_update_id map_update not_le nth_map)

lemma su_load_box: "keeps same_users (load_box B ui n r)"
  unfolding load_box_def Let_def
  by (intro su.keeps_rules su_srv su_world su_upd_user) (auto simp: keeps_def same_users_def upd_srv_def io_modify_def)

lemma su_mailbox: "keeps same_users (mailbox B ui n)"
  unfolding mailbox_def mailbox_locked_def Let_def
  by (intro su.keeps_bind su_srv) (auto split: option.splits intro!: su.keeps_rules su_world su_load_box)

lemmas su_effects = su.keeps_rules su_world su_srv su_at_box su_box su_mailbox

lemma su_account:
  "keeps same_users (change_password B a cur new)" "keeps same_users (folders B a)"
  "keeps same_users (list_messages_page B L a f p z)" "keeps same_users (get_summary B L a f u)"
  "keeps same_users (search_text B L a f q)" "keeps same_users (get_message B L a f u)"
  "keeps same_users (get_attachment B L a f u n)" "keeps same_users (account_append B a f raw fl)"
  "keeps same_users (account_set_flags B a f u fl)" "keeps same_users (account_delete B a f u)"
  unfolding change_password_def folders_def list_messages_page_def get_summary_def search_text_def get_message_def
    get_attachment_def account_append_def account_set_flags_def account_delete_def account_expunge_def move_to_def Let_def
  by (auto intro!: su_effects split: option.splits prod.splits sum.splits)

lemma su_pages:
  "keeps same_users (build_page_data M a f u p q)" "keeps same_users (new_account_data M a)" "keeps same_users (build_admin_data M a)"
  unfolding build_page_data_def new_account_data_def build_admin_data_def Let_def
  by (auto intro!: su_effects su_account split: option.splits prod.splits sum.splits)

section \<open>No handler but the login adds a session\<close>

definition settled :: "world \<times> web \<Rightarrow> world \<times> web \<Rightarrow> bool" where
  "settled s t \<longleftrightarrow> same_users (fst s, wb_srv (snd s)) (fst t, wb_srv (snd t)) \<and>
     set (wb_sessions (snd t)) \<subseteq> set (wb_sessions (snd s))"

interpretation web: effect settled
  by unfold_locales (auto simp: settled_def same_users_def)

lemma settled_srv: "keeps same_users m \<Longrightarrow> keeps settled (on_srv m)"
  by (auto simp: keeps_def settled_def on_srv_def split: prod.splits) (metis snd_conv)

lemma settled_world: "keeps settled (on_world m)"
  by (auto simp: keeps_def settled_def same_users_def on_world_def split: prod.splits)

lemma settled_web: "keeps settled the_web"
  unfolding the_web_def by (rule web.keeps_rules)

lemma settled_session_delete: "keeps settled (session_delete tok)"
  by (auto simp: session_delete_def keeps_def settled_def same_users_def upd_web_def io_modify_def
      dest: subsetD [OF set_delete_subset])

lemma settled_session_get: "keeps settled (session_get tok)"
  unfolding session_get_def
  by (auto split: option.splits intro!: web.keeps_rules settled_web settled_world settled_session_delete)

lemmas settled_effects = web.keeps_rules settled_web settled_world settled_session_delete settled_session_get
  settled_srv [OF su_pages(1)] settled_srv [OF su_pages(2)] settled_srv [OF su_pages(3)] su_account [THEN settled_srv]

lemma settled_mail_handlers:
  "keeps settled (handle_folder M f r a)" "keeps settled (handle_search M f r a)" "keeps settled (handle_message M f u r a)"
  "keeps settled (handle_flag M f u r a)" "keeps settled (handle_delete M f u r a)" "keeps settled (handle_attachment M f u p r a)"
  "keeps settled (handle_account_page M r a)" "keeps settled (handle_password_change M r a)" "keeps settled (handle_forwarding M r a)"
  "keeps settled (handle_compose_form M r a)" "keeps settled (handle_compose_submit M r a)"
  unfolding handle_folder_def handle_search_def handle_message_def handle_flag_def handle_delete_def handle_attachment_def
    handle_account_page_def handle_password_change_def handle_forwarding_def handle_compose_form_def handle_compose_submit_def
    compose_error_def Let_def
  by (auto intro!: settled_effects split: option.splits prod.splits sum.splits)

lemma settled_admin_handlers:
  "keeps settled (handle_admin_page M r a)" "keeps settled (handle_admin_create_user M r a)"
  "keeps settled (handle_admin_delete_user M i r a)" "keeps settled (handle_admin_relay M r a)"
  unfolding handle_admin_page_def handle_admin_create_user_def handle_admin_delete_user_def handle_admin_relay_def
    with_admin_data_def admin_error_def refreshed_def Let_def
  by (auto intro!: settled_effects split: option.splits prod.splits sum.splits)

lemma settled_require: "(\<And>a. keeps settled (h r a)) \<Longrightarrow> keeps settled (require_session h r)"
  "(\<And>a. keeps settled (h r a)) \<Longrightarrow> keeps settled (require_admin h r)"
  unfolding require_admin_def require_session_def
  by (auto intro!: settled_effects split: option.splits)

lemma settled_serve: "rt \<noteq> LoginSubmit \<Longrightarrow> keeps settled (serve M rt r)"
  by (cases rt)
    (auto simp: handle_login_form_def handle_logout_def handle_root_def
      intro!: settled_require settled_mail_handlers settled_admin_handlers settled_effects split: option.splits)

section \<open>Where sessions come from\<close>

text \<open>The limiter refuses the client of a request; \<open>next_time\<close> is what its clock reads.\<close>

definition web_refused :: "webmail \<Rightarrow> world \<Rightarrow> web \<Rightarrow> web_request \<Rightarrow> bool" where
  "web_refused M w b r \<longleftrightarrow>
     (case wb_limiter b of None \<Rightarrow> False | Some l \<Rightarrow> \<not> allowed l (next_time w) (from_http r (wm_trusted M)))"

lemma web_blocked_run:
  "\<exists>w'. web_blocked (from_http r (wm_trusted M)) (w, b) = (Inr (web_refused M w b r), (w', b)) \<and> idle w w'"
proof -
  obtain w1 where "time_now w = (Inr (next_time w), w1)" "idle w w1"
    using time_now_run [of w] keepsD [OF idle_time_now, of w] by metis
  then show ?thesis
    by (auto simp: web_blocked_def web_refused_def the_web_def io_simps on_world_def split: option.splits)
qed

lemma settled_web_failure: "keeps settled (web_failure ip)"
  unfolding web_failure_def
  by (auto split: option.splits intro!: settled_effects) (auto simp: keeps_def settled_def same_users_def upd_web_def io_modify_def)

lemma authenticate_run:
  assumes "authenticate B email pw (w, s) = (Inr a, (w', s'))" and "indexed_users s"
  shows "\<exists>u. right_password (bk_bcrypt B) (db w) (to_lower (trim_space email)) pw u \<and> idle w w' \<and> indexed_users s' \<and>
     a < length (sv_users s') \<and> to_lower (account_email s' a) = to_lower (usr_email u)"
proof -
  obtain y w1 where u: "get_user_by_email (to_lower (trim_space email)) w = (y, w1)" by fastforce
  with assms(1) obtain u where y: "y = Inr u" and v: "verify_password (bk_bcrypt B) u pw" and run: "user_for u (w1, s) = (Inr a, (w', s'))"
    by (cases y) (auto simp: authenticate_def io_simps on_world_def split: if_splits)
  have f: "find (\<lambda>x. usr_email x = to_lower (to_lower (trim_space email))) (users_t (db w)) = Some u"
    using get_user_run(2) [OF u y] .
  have "idle w w1" using keepsD [OF idle_reads(1), of w] u by (metis snd_conv)
  with f v user_for_run [OF assms(2), of u w1] run show ?thesis
    by (auto simp: right_password_def verify_password_def account_email_def)
qed

lemma user_for_total: "\<exists>a s'. user_for u (w, s) = (Inr a, (w, s'))"
  by (auto simp: user_for_def the_srv_def upd_srv_def io_simps Let_def split: option.splits)

lemma authenticate_idle:
  assumes "authenticate B email pw (w, s) = (x, (w', s'))"
  shows "idle w w' \<and> (\<forall>e. x = Inl e \<longrightarrow> s' = s)"
proof -
  obtain y w1 where u: "get_user_by_email (to_lower (trim_space email)) w = (y, w1)" by fastforce
  moreover have "idle w w1" using keepsD [OF idle_reads(1), of w] u by (metis snd_conv)
  ultimately show ?thesis using assms
  proof (cases y)
    case (Inr u)
    then obtain a s1 where "user_for u (w1, s) = (Inr a, (w1, s1))" using user_for_total by blast
    with Inr \<open>get_user_by_email _ w = _\<close> \<open>idle w w1\<close> assms show ?thesis
      by (auto simp: authenticate_def io_simps on_world_def split: if_splits)
  qed (auto simp: authenticate_def io_simps on_world_def)
qed

lemma now_run: "\<exists>w1. time_now w = (Inr (next_time w), w1) \<and> idle w w1 \<and> clock w1 = next_time w"
  by (auto simp: time_now_def next_time_def idle_def split: list.splits)

lemma web_failure_run: "\<exists>w' l. web_failure ip (w, b) = (Inr (), (w', b\<lparr>wb_limiter := l\<rparr>)) \<and> idle w w'"
proof (cases "wb_limiter b")
  case None
  have "b\<lparr>wb_limiter := None\<rparr> = b" using None by simp
  with None show ?thesis
    by (intro exI [of _ w] exI [of _ None]) (simp add: web_failure_def the_web_def io_simps)
next
  case (Some l)
  with now_run [of w] show ?thesis by (auto simp: web_failure_def the_web_def upd_web_def io_simps on_world_def)
qed

lemma session_create_run:
  assumes "session_create a (w, b) = (y, (w', b'))"
  shows "idle w w' \<and> wb_srv b' = wb_srv b \<and> (case y of
      Inl e \<Rightarrow> wb_sessions b' = wb_sessions b
    | Inr tok \<Rightarrow> wb_sessions b' = AList.update tok \<lparr>ws_account = a, ws_expires = clock w' + session_ttl\<rparr> (wb_sessions b))"
proof -
  obtain z w1 where t: "random_token w = (z, w1)" by fastforce
  have "keeps idle random_token"
    unfolding random_token_def rand_read_def
    by (auto intro!: idleop.keeps_rules) (auto simp: keeps_def idle_def may_fail_def split: list.splits)
  from keepsD [OF this, of w] t have i: "idle w w1" by simp
  obtain w2 where n: "time_now w1 = (Inr (next_time w1), w2)" "idle w1 w2" "next_time w1 = clock w2"
    using now_run [of w1] by metis
  from assms t i n show ?thesis
    by (cases z) (auto simp: session_create_def io_simps on_world_def upd_web_def intro: idleop.R_trans)
qed

lemma login_run:
  assumes "handle_login_submit M r (w, b) = (x, (w', b'))"
  shows "idle w w' \<and> (wb_srv b' = wb_srv b \<and> wb_sessions b' = wb_sessions b \<or>
    rq_form_ok r \<and> \<not> web_refused M w b r \<and> (\<exists>w0 w1 a. idle w w0 \<and>
      authenticate (wm_backend M) (form_value r ''email'') (form_value r ''password'') (w0, wb_srv b) = (Inr a, (w1, wb_srv b')) \<and>
      (wb_sessions b' = wb_sessions b \<or> (\<exists>tok. x = Inr (Redirect (SetCookie tok) ''/mail/INBOX'') \<and>
         wb_sessions b' = AList.update tok \<lparr>ws_account = a, ws_expires = clock w' + session_ttl\<rparr> (wb_sessions b)))))"
proof (cases "rq_form_ok r")
  case False
  with assms show ?thesis by (simp add: handle_login_submit_def io_simps)
next
  case form: True
  let ?ip = "from_http r (wm_trusted M)"
  obtain w0 where blocked: "web_blocked ?ip (w, b) = (Inr (web_refused M w b r), (w0, b))" and i0: "idle w w0"
    using web_blocked_run by blast
  obtain y w1 s1 where auth: "authenticate (wm_backend M) (form_value r ''email'') (form_value r ''password'') (w0, wb_srv b) = (y, (w1, s1))"
    by (metis surj_pair)
  show ?thesis
  proof (cases y)
    case (Inl e)
    with authenticate_idle [OF auth] have s1: "s1 = wb_srv b" "idle w0 w1" by simp_all
    obtain w2 l where "web_failure ?ip (w1, b) = (Inr (), (w2, b\<lparr>wb_limiter := l\<rparr>))" "idle w1 w2" using web_failure_run by blast
    with form blocked auth Inl s1 assms i0 show ?thesis
      by (auto simp: handle_login_submit_def io_simps on_srv_def Let_def split: if_splits intro: idleop.R_trans)
  next
    case (Inr a)
    have i1: "idle w0 w1" using authenticate_idle [OF auth] by blast
    let ?b = "b\<lparr>wb_srv := s1, wb_limiter := map_option (record_success ?ip) (wb_limiter b)\<rparr>"
    obtain z w2 b2 where c: "session_create a (w1, ?b) = (z, (w2, b2))" by (metis surj_pair)
    from session_create_run [OF c] form blocked auth Inr assms i0 i1 c show ?thesis
      by (cases z) (auto simp: handle_login_submit_def io_simps on_srv_def upd_web_def Let_def split: if_splits intro: idleop.R_trans)
  qed
qed


section \<open>A request stays with its account\<close>

lemma safe_fs: "keeps same_db m \<Longrightarrow> safe uid d0 V Q M (on_world m)"
  by (rule triple_fs)

lemma same_db_summarize: "keeps same_db (summarize L root m)"
  unfolding summarize_def Let_def by (intro fs_effects maildir_same_db)

lemma same_db_search: "keeps same_db (msg_search E v root seq m c)"
proof (induction E v root seq m c rule: msg_search.induct)
  case (1 E v root seq m sq us si bf fl nfl lg sm hf ssi sbf tx bd nt orr)
  have all: "keeps same_db (io_all f xs)" if "\<And>x. x \<in> set xs \<Longrightarrow> keeps same_db (f x)" for f :: "'b \<Rightarrow> bool wio" and xs
    using that by (induction xs) (auto intro!: fs_effects)
  have reader: "keeps same_db (io_bind (msg_reader E root m) (\<lambda>e. io_ret (f e)))" for f :: "entity \<Rightarrow> bool"
    unfolding msg_reader_def by (intro fs_effects maildir_same_db)
  have snd: "search_index E v seq m (Criteria sq us si bf fl nfl lg sm hf ssi sbf tx bd nt orr) \<Longrightarrow> (x, y) \<in> set orr \<Longrightarrow>
      keeps same_db (msg_search E v root seq m y)" for x y
    using 1(3) [OF refl _ _ refl, of x y False] by simp
  show ?case using 1(1) [OF refl] 1(2) [OF refl _ _ refl] snd
    by (auto simp: Let_def io_and_def intro!: fs_effects all reader)
qed

lemma same_db_search_summaries: "keeps same_db (search_summaries L root c ms)"
  by (induction ms) (auto intro!: fs_effects same_db_search same_db_summarize)

lemma safe_mail_box:
  "(a, uid) \<in> V \<Longrightarrow> (\<And>i. safe uid d0 V (insert (i, uid) Q) M (k i)) \<Longrightarrow> safe uid d0 V Q M (io_bind (mailbox B a f) k)"
  by (rule safe_bind_ptr [OF triple_mailbox])

lemma safe_wrap: "safe uid d0 V Q M m \<Longrightarrow> safe uid d0 V Q M (io_wrap t m)"
  by (rule triple_wrap)

lemma safe_at_ptr:
  "(\<And>mid. keeps (box_eff mid) m) \<Longrightarrow> (i, uid) \<in> Q \<Longrightarrow> (\<And>x. safe uid d0 V Q M (k x)) \<Longrightarrow> safe uid d0 V Q M (io_bind (at_box i m) k)"
  by (rule safe_bind [OF triple_at_box])

lemma safe_cases:
  "safe uid d0 V Q M m \<Longrightarrow> (\<And>x. safe uid d0 V Q M (f x)) \<Longrightarrow> safe uid d0 V Q M (case v of None \<Rightarrow> m | Some x \<Rightarrow> f x)"
  "(\<And>x y. safe uid d0 V Q M (g x y)) \<Longrightarrow> safe uid d0 V Q M (case p of (x, y) \<Rightarrow> g x y)"
  "(\<And>x. safe uid d0 V Q M (h1 x)) \<Longrightarrow> (\<And>x. safe uid d0 V Q M (h2 x)) \<Longrightarrow> safe uid d0 V Q M (case r of Inl x \<Rightarrow> h1 x | Inr x \<Rightarrow> h2 x)"
  "safe uid d0 V Q M m \<Longrightarrow> safe uid d0 V Q M n \<Longrightarrow> safe uid d0 V Q M (if c then m else n)"
  by (auto split: option.splits prod.splits sum.splits)

text \<open>The rules in the order in which they are tried.\<close>

lemmas safe_rules = insertI1 insertI2 safe_mail_box safe_at_ptr safe_box_bind safe_cases safe_bind safe_map safe_wrap safe_ret safe_fail
  triple_at_box safe_delete_message triple_fs maildir_same_db same_db_summarize same_db_search_summaries
  reload_eff append_eff put_eff persist_eff expunge_locked_eff

lemma safe_account:
  assumes "(a, uid) \<in> V"
  shows "safe uid d0 V Q M (list_messages_page B L a f p z)" "safe uid d0 V Q M (get_summary B L a f u)"
    "safe uid d0 V Q M (search_text B L a f q)" "safe uid d0 V Q M (get_message B L a f u)"
    "safe uid d0 V Q M (get_attachment B L a f u n)" "safe uid d0 V Q M (account_append B a f raw fl)"
    "safe uid d0 V Q M (account_set_flags B a f u fl)" "safe uid d0 V Q M (account_expunge B a f u)"
    "safe uid d0 V Q M (move_to B a f u g)"
  unfolding list_messages_page_def get_summary_def search_text_def get_message_def get_attachment_def account_append_def
    account_set_flags_def account_expunge_def move_to_def Let_def
  by (rule safe_rules assms)+

lemma safe_delete: "(a, uid) \<in> V \<Longrightarrow> safe uid d0 V Q M (account_delete B a f u)"
  unfolding account_delete_def by (rule safe_cases safe_account | assumption)+

lemma mailbox_of_row: "around uid d0 V (insert (i, uid) Q) M t \<Longrightarrow> around uid d0 V Q M t"
  by (erule around_mono) auto

lemma safe_folders:
  assumes "(a, uid) \<in> V"
  shows "safe uid d0 V Q M (folders B a)"
  unfolding folders_def account_id_def
  by (rule triple_user_row [OF assms], rule safe_bind, rule triple_world, rule user_ops, (rule safe_rules assms)+)

lemma find_user_id: "find (\<lambda>r. usr_id r = i) us = Some u \<Longrightarrow> usr_id u = i"
  by (auto simp: find_Some_iff)

lemma set_password_user: "keeps (db_rel (user_change uid)) (set_password B uid pw)"
proof -
  have "user_change uid d (d\<lparr>users_t := map (\<lambda>r. if usr_id r = uid then r\<lparr>usr_password_hash := h\<rparr> else r) (users_t d)\<rparr>)" for d h
  proof -
    have "filter (\<lambda>r. usr_id r = v) (map (\<lambda>r. if usr_id r = uid then r\<lparr>usr_password_hash := h\<rparr> else r) us) = filter (\<lambda>r. usr_id r = v) us"
      if "v \<noteq> uid" for us v
      using that by (intro filter_map_same) (auto split: if_splits)
    then show ?thesis by (auto simp: user_change_def boxes_keyed_def grow_def rows_of_def Let_def)
  qed
  moreover have "keeps same_db (hash_password B pw)"
    unfolding hash_password_def by (intro fs_effects keeps_case_option)
  ultimately show ?thesis unfolding set_password_def
    by (intro userop.keeps_bind db_rel_exec) (auto intro: db_rel_same)
qed

lemma set_forwarding_user: "keeps (db_rel (user_change uid)) (set_forwarding s uid en to)"
proof -
  have "user_change uid d d'" if "upsert_forwarding fk \<lparr>fwd_user_id = uid, fwd_enabled = en, fwd_forward_to = to\<rparr> d = Inr (x, d')" for fk d x d'
  proof -
    have "filter (\<lambda>r. fwd_user_id r = v) (map (\<lambda>r. if fwd_user_id r = uid then \<lparr>fwd_user_id = uid, fwd_enabled = en, fwd_forward_to = to\<rparr> else r) fs) =
        filter (\<lambda>r. fwd_user_id r = v) fs" if "v \<noteq> uid" for fs v
      using that by (intro filter_map_same) (auto split: if_splits)
    with that show ?thesis
      by (auto simp: upsert_forwarding_def user_change_def boxes_keyed_def grow_def rows_of_def Let_def split: if_splits)
  qed
  then show ?thesis unfolding set_forwarding_def Let_def
    by (auto split: driver.splits intro!: db_rel_exec)
qed

lemma get_user_by_id_db: "keeps same_db (get_user_by_id i)"
  unfolding get_user_by_id_def not_found_def if_no_rows_def db_get_def
  by (intro fs_effects keeps_may_fail) (auto simp: keeps_def same_db_def split: option.splits)

lemma get_user_by_id_row: "get_user_by_id i w = (Inr u, w') \<Longrightarrow> usr_id u = i"
  unfolding get_user_by_id_def by (auto dest!: not_found_ok find_user_id)

lemma triple_result:
  assumes "triple P m Q E" and "\<And>s x s'. m s = (Inr x, s') \<Longrightarrow> N x"
  shows "triple P m (\<lambda>x t. Q x t \<and> N x) E"
  using assms by (fastforce simp: triple_def split: prod.splits sum.splits)

lemma safe_change_password:
  assumes "(a, uid) \<in> V"
  shows "safe uid d0 V Q M (change_password B a cur new)"
  unfolding change_password_def account_id_def
proof (rule triple_user_row [OF assms])
  fix s
  assume u: "usr_id (mu_row (sv_users s ! a)) = uid"
  show "safe uid d0 V Q M (io_bind (on_world (io_wrap ''looking up account'' (get_user_by_id (usr_id (mu_row (sv_users s ! a))))))
      (\<lambda>fresh. if \<not> verify_password (bk_bcrypt B) fresh cur then io_fail (ErrMsg ''current password is incorrect'')
         else on_world (set_password (bk_bcrypt B) (usr_id fresh) new)))"
    unfolding u
  proof (rule triple_bind)
    show "triple (around uid d0 V Q M) (on_world (io_wrap ''looking up account'' (get_user_by_id uid)))
      (\<lambda>x t. around uid d0 V Q M t \<and> usr_id x = uid) (\<lambda>_. around uid d0 V Q M)"
      by (rule triple_result, rule triple_fs, rule fs_effects, rule get_user_by_id_db)
        (auto simp: on_world_def io_wrap_ok split: prod.splits dest: get_user_by_id_row)
    show "triple (\<lambda>t. around uid d0 V Q M t \<and> usr_id fresh = uid)
        (if \<not> verify_password (bk_bcrypt B) fresh cur then io_fail (ErrMsg ''current password is incorrect'')
         else on_world (set_password (bk_bcrypt B) (usr_id fresh) new)) (\<lambda>_. around uid d0 V Q M) (\<lambda>_. around uid d0 V Q M)" for fresh
      by (rule triple_pure, simp only:, rule safe_cases, rule safe_fail, rule triple_world, rule set_password_user)
  qed
qed

lemma safe_pages:
  assumes "(a, uid) \<in> V"
  shows "safe uid d0 V Q M (build_page_data ML a f u p q)" "safe uid d0 V Q M (new_account_data ML a)"
proof -
  have either: "safe uid d0 V Q M (io_either m h k)" if "safe uid d0 V Q M m" "\<And>e. safe uid d0 V Q M (h e)" "\<And>x. safe uid d0 V Q M (k x)"
    for m :: "'b sio" and h and k :: "'b \<Rightarrow> 'c sio"
    by (rule triple_either [OF that])
  have get: "keeps same_db (get_forwarding i)" for i
    unfolding get_forwarding_def if_no_rows_def db_get_def
    by (intro fs_effects keeps_may_fail) (auto simp: keeps_def same_db_def split: option.splits)
  show "safe uid d0 V Q M (build_page_data ML a f u p q)"
    unfolding build_page_data_def Let_def
    by (rule triple_user_row [OF assms] either safe_folders [OF assms] safe_account [OF assms] safe_cases safe_bind safe_wrap safe_ret)+
  show "safe uid d0 V Q M (new_account_data ML a)"
    unfolding new_account_data_def Let_def
    by (rule triple_user_row [OF assms] either safe_ret triple_fs get)+
qed

text \<open>The same for requests.\<close>

definition at_home :: "int \<Rightarrow> database \<Rightarrow> (nat \<times> int) set \<Rightarrow> (nat \<times> int) set \<Rightarrow> world \<times> web \<Rightarrow> bool" where
  "at_home uid d0 V Q = (\<lambda>(w, b). around uid d0 V Q {} (w, wb_srv b))"

abbreviation wsafe :: "int \<Rightarrow> database \<Rightarrow> (nat \<times> int) set \<Rightarrow> (nat \<times> int) set \<Rightarrow> 'a webio \<Rightarrow> bool" where
  "wsafe uid d0 V Q m \<equiv> triple (at_home uid d0 V Q) m (\<lambda>_. at_home uid d0 V Q) (\<lambda>_. at_home uid d0 V Q)"

lemma wsafe_srv: "safe uid d0 V Q {} m \<Longrightarrow> wsafe uid d0 V Q (on_srv m)"
  by (fastforce simp: triple_def at_home_def on_srv_def split: prod.splits sum.splits)

lemma wsafe_world:
  assumes "keeps (db_rel (user_change uid)) m"
  shows "wsafe uid d0 V Q (on_world m)"
proof -
  have "wsafe uid d0 V Q (on_srv (on_world m))" by (rule wsafe_srv [OF triple_world [OF assms]])
  moreover have "on_srv (on_world m) = (on_world m :: _ webio)"
    by (auto simp: on_srv_def on_world_def fun_eq_iff split: prod.splits)
  ultimately show ?thesis by simp
qed

lemma wsafe_fs: "keeps same_db m \<Longrightarrow> wsafe uid d0 V Q (on_world m)"
  by (intro wsafe_world db_rel_same) simp_all

lemma wsafe_upd_web: "(\<And>b. wb_srv (f b) = wb_srv b) \<Longrightarrow> wsafe uid d0 V Q (upd_web f)"
  by (auto simp: triple_def at_home_def upd_web_def io_modify_def)

lemma wsafe_the_web:
  assumes "(a, uid) \<in> V" and "\<And>b. account_id (wb_srv b) a = uid \<Longrightarrow> wsafe uid d0 V Q (k b)"
  shows "wsafe uid d0 V Q (io_bind the_web k)"
  unfolding triple_def
proof (intro allI impI)
  fix t
  assume home: "at_home uid d0 V Q t"
  obtain w b where t: "t = (w, b)" by fastforce
  with home assms(1) have "account_id (wb_srv b) a = uid" by (auto simp: at_home_def around_def usr_ok_def account_id_def)
  from assms(2) [OF this] home
  show "case io_bind the_web k t of (Inl e, s') \<Rightarrow> at_home uid d0 V Q s' | (Inr x, s') \<Rightarrow> at_home uid d0 V Q s'"
    by (simp add: t the_web_def io_bind_apply io_gets_def triple_def)
qed

lemma wsafe_rules:
  "wsafe uid d0 V Q m \<Longrightarrow> (\<And>x. wsafe uid d0 V Q (k x)) \<Longrightarrow> wsafe uid d0 V Q (io_bind m k)"
  "wsafe uid d0 V Q m \<Longrightarrow> (\<And>e. wsafe uid d0 V Q (h e)) \<Longrightarrow> (\<And>x. wsafe uid d0 V Q (k' x)) \<Longrightarrow> wsafe uid d0 V Q (io_either m h k')"
  "wsafe uid d0 V Q n \<Longrightarrow> wsafe uid d0 V Q (io_ignore n)"
  "wsafe uid d0 V Q (io_ret x)" "wsafe uid d0 V Q (io_fail e)"
  by (auto intro: triple_bind triple_either triple_ignore triple_ret triple_fail)

lemma wsafe_session_delete: "wsafe uid d0 V Q (session_delete tok)"
  unfolding session_delete_def by (rule wsafe_upd_web) simp

lemma same_db_outgoing: "keeps same_db (build_outgoing_message ML from to cc su bo irt refs atts)"
  unfolding build_outgoing_message_def generate_local_message_id_def Let_def
  by (auto intro!: fs_effects split: sum.splits)

lemma send_mail_user: "keeps (db_rel (user_change uid)) (send_mail S from rcpts data)"
proof (unfold keeps_def db_rel_def, rule allI)
  fix w
  obtain x w' where "send_mail S from rcpts data w = (x, w')" by fastforce
  with send_mail_extends [OF this] show "user_change uid (db w) (db (snd (send_mail S from rcpts data w)))"
    by (auto dest!: extendedD(5))
qed

lemma wsafe_cases:
  "wsafe uid d0 V Q m \<Longrightarrow> (\<And>x. wsafe uid d0 V Q (f x)) \<Longrightarrow> wsafe uid d0 V Q (case v of None \<Rightarrow> m | Some x \<Rightarrow> f x)"
  "(\<And>x y. wsafe uid d0 V Q (g x y)) \<Longrightarrow> wsafe uid d0 V Q (case p of (x, y) \<Rightarrow> g x y)"
  "(\<And>x. wsafe uid d0 V Q (h1 x)) \<Longrightarrow> (\<And>x. wsafe uid d0 V Q (h2 x)) \<Longrightarrow> wsafe uid d0 V Q (case r of Inl x \<Rightarrow> h1 x | Inr x \<Rightarrow> h2 x)"
  "wsafe uid d0 V Q m \<Longrightarrow> wsafe uid d0 V Q n \<Longrightarrow> wsafe uid d0 V Q (if c then m else n)"
  by (auto split: option.splits prod.splits sum.splits)

lemma wsafe_account:
  assumes "(a, uid) \<in> V"
  shows "wsafe uid d0 V Q (on_srv (build_page_data ML a f u p q))" "wsafe uid d0 V Q (on_srv (new_account_data ML a))"
    "wsafe uid d0 V Q (on_srv (get_summary B L a f u))" "wsafe uid d0 V Q (on_srv (get_message B L a f u))"
    "wsafe uid d0 V Q (on_srv (get_attachment B L a f u n))" "wsafe uid d0 V Q (on_srv (account_append B a f raw fl))"
    "wsafe uid d0 V Q (on_srv (account_set_flags B a f u fl))" "wsafe uid d0 V Q (on_srv (account_delete B a f u))"
    "wsafe uid d0 V Q (on_srv (change_password B a cur new))"
  by (rule wsafe_srv, rule safe_pages safe_account safe_delete safe_change_password, rule assms)+

lemma wsafe_handlers:
  assumes "(a, uid) \<in> V"
  shows "wsafe uid d0 V Q (handle_folder ML f r a)" "wsafe uid d0 V Q (handle_search ML f r a)"
    "wsafe uid d0 V Q (handle_message ML f u r a)" "wsafe uid d0 V Q (handle_flag ML f u r a)"
    "wsafe uid d0 V Q (handle_delete ML f u r a)" "wsafe uid d0 V Q (handle_attachment ML f u p r a)"
    "wsafe uid d0 V Q (handle_account_page ML r a)" "wsafe uid d0 V Q (handle_password_change ML r a)"
    "wsafe uid d0 V Q (handle_compose_form ML r a)" "wsafe uid d0 V Q (handle_compose_submit ML r a)"
  unfolding handle_folder_def handle_search_def handle_message_def handle_flag_def handle_delete_def handle_attachment_def
    handle_account_page_def handle_password_change_def handle_compose_form_def handle_compose_submit_def compose_error_def Let_def
  by (rule wsafe_the_web [OF assms] wsafe_cases wsafe_rules wsafe_account [OF assms] wsafe_session_delete
      wsafe_world [OF send_mail_user] wsafe_fs same_db_outgoing)+

lemma wsafe_forwarding:
  assumes "(a, uid) \<in> V"
  shows "wsafe uid d0 V Q (handle_forwarding ML r a)"
  unfolding handle_forwarding_def Let_def
  by (rule wsafe_the_web [OF assms] wsafe_cases wsafe_rules wsafe_account [OF assms] |
      rule wsafe_world, simp only: set_forwarding_user)+

section \<open>What an administrator's request may do\<close>

text \<open>Mailbox identifiers are never given to someone else.\<close>

definition ids_kept :: "database \<Rightarrow> database \<Rightarrow> bool" where
  "ids_kept d d' \<longleftrightarrow> (boxes_keyed d \<longrightarrow> boxes_keyed d' \<and> grow d d')"

interpretation idsop: effect "db_rel ids_kept"
  by unfold_locales (auto simp: db_rel_def ids_kept_def intro: grow_trans)

lemma ids_kept_boxes: "mailboxes_t d' = mailboxes_t d \<Longrightarrow> mailboxes_seq d' = mailboxes_seq d \<Longrightarrow> ids_kept d d'"
  by (auto simp: ids_kept_def boxes_keyed_def grow_def)

lemma ids_kept_refl [simp]: "ids_kept d d"
  by (simp add: ids_kept_boxes)

lemma ids_delete: "ids_kept d (delete_user_row fk uid d)"
proof -
  have "boxes_keyed d \<Longrightarrow> keyed (mailboxes_seq d) (map mbx_id (filter P (mailboxes_t d)))" for P
    unfolding boxes_keyed_def by (rule keyed_filter)
  then show ?thesis
    by (auto simp: ids_kept_def delete_user_row_def delete_mailboxes_def Let_def boxes_keyed_def grow_def)
qed

lemma ids_ops:
  "keeps (db_rel ids_kept) list_users" "keeps (db_rel ids_kept) get_relay_settings" "keeps (db_rel ids_kept) (get_user_by_email e)"
  "keeps (db_rel ids_kept) (get_user_by_id i)" "keeps (db_rel ids_kept) (delete_user s i)" "keeps (db_rel ids_kept) (set_relay_settings s rs)"
  "keeps (db_rel ids_kept) (create_user Bc s dn lp pw ad)" "keeps (db_rel ids_kept) (provision_mailboxes cfg s u)"
proof -
  show gets: "keeps (db_rel ids_kept) list_users" "keeps (db_rel ids_kept) get_relay_settings" "keeps (db_rel ids_kept) (get_user_by_email e)"
    "keeps (db_rel ids_kept) (get_user_by_id i)" for e i
    unfolding list_users_def get_relay_settings_def get_user_by_email_def get_user_by_id_def not_found_def if_no_rows_def
    by (intro idsop.keeps_rules db_rel_select db_rel_get ids_kept_refl)+
  show "keeps (db_rel ids_kept) (delete_user s i)"
    unfolding delete_user_def by (rule db_rel_exec) (auto intro: ids_delete)
  show "keeps (db_rel ids_kept) (set_relay_settings s rs)"
    unfolding set_relay_settings_def Let_def
    by (auto split: driver.splits intro!: idsop.keeps_rules gets db_rel_exec ids_kept_boxes)
  have dom: "keeps (db_rel ids_kept) (ensure_domain s n)" for n
    unfolding ensure_domain_def Let_def if_no_rows_def
    by (auto split: driver.splits intro!: idsop.keeps_rules db_rel_get db_rel_exec ids_kept_boxes)
      (auto simp: insert_domain_def Let_def split: if_splits)
  have hash: "keeps same_db (hash_password Bc pw)"
    unfolding hash_password_def by (intro fs_effects keeps_case_option)
  have ins: "insert_user fk k l em h ad d = Inr (x, d') \<Longrightarrow> ids_kept d d'" for fk k l em h d x d'
    by (intro ids_kept_boxes) (auto simp: insert_user_def Let_def split: if_splits)
  show "keeps (db_rel ids_kept) (create_user Bc s dn lp pw ad)"
    unfolding create_user_def Let_def
    by (cases "so_driver s") (auto intro!: idsop.keeps_rules dom db_rel_same [OF hash] gets db_rel_exec elim: ins)
  have "keeps (db_rel ids_kept) (ensure_mailbox s i n)" for i n
    using user_ops(3) by (fastforce simp: keeps_def db_rel_def ids_kept_def user_change_def)
  then show "keeps (db_rel ids_kept) (provision_mailboxes cfg s u)"
    unfolding provision_mailboxes_def Let_def
    by (auto split: prod.splits intro!: idsop.keeps_rules db_rel_same [OF maildir_same_db(7)])
qed

definition admin_eff :: "world \<times> 'b \<Rightarrow> world \<times> 'b \<Rightarrow> bool" where
  "admin_eff s t \<longleftrightarrow> snd t = snd s \<and> db_rel ids_kept (fst s) (fst t)"

interpretation adm: effect admin_eff
  by unfold_locales (auto simp: admin_eff_def intro: idsop.R_refl idsop.R_trans)

lemma adm_world: "keeps (db_rel ids_kept) m \<Longrightarrow> keeps admin_eff (on_world m)"
  by (auto simp: keeps_def admin_eff_def on_world_def split: prod.splits) (metis snd_conv)

lemma adm_gets: "keeps admin_eff the_srv" "keeps admin_eff the_web"
  unfolding the_srv_def the_web_def by (rule adm.keeps_rules)+

lemma adm_srv: "keeps admin_eff m \<Longrightarrow> keeps admin_eff (on_srv m)"
  unfolding keeps_def
proof
  fix s :: "world \<times> web"
  assume m: "\<forall>s. admin_eff s (snd (m s))"
  obtain w b where s: "s = (w, b)" by fastforce
  obtain x w' t where "m (w, wb_srv b) = (x, (w', t))" by (metis surj_pair)
  with m [rule_format, of "(w, wb_srv b)"] show "admin_eff s (snd (on_srv m s))"
    by (simp add: s on_srv_def admin_eff_def)
qed

lemma adm_data: "keeps admin_eff (on_srv (build_admin_data ML a))"
  unfolding build_admin_data_def
  by (intro adm_srv adm.keeps_rules adm_world ids_ops adm_gets)

lemma adm_handlers:
  "keeps admin_eff (handle_admin_page ML r a)" "keeps admin_eff (handle_admin_create_user ML r a)"
  "keeps admin_eff (handle_admin_delete_user ML i r a)" "keeps admin_eff (handle_admin_relay ML r a)"
  unfolding handle_admin_page_def handle_admin_create_user_def handle_admin_delete_user_def handle_admin_relay_def
    with_admin_data_def admin_error_def refreshed_def Let_def
  by (auto intro!: adm.keeps_rules adm_world ids_ops adm_gets adm_data db_rel_same fsop.keeps_ignore keeps_syscalls split: option.splits prod.splits)

section \<open>Well-formed states\<close>

text \<open>
  Every session has an account, the index of accounts by address is right, and the cached mailboxes of each
  account are mailboxes of its user. \<open>acting\<close> is the user a request acts for.
\<close>

definition web_ok :: "world \<times> web \<Rightarrow> bool" where
  "web_ok = (\<lambda>(w, b). srv_ok (db w) (wb_srv b) \<and> indexed_users (wb_srv b) \<and>
     (\<forall>(t, s) \<in> set (wb_sessions b). ws_account s < length (sv_users (wb_srv b))))"

text \<open>What others hold on to: users of the running server and mailboxes of users.\<close>

definition held :: "(nat \<times> int) set \<Rightarrow> (nat \<times> int) set \<Rightarrow> database \<Rightarrow> srv \<Rightarrow> bool" where
  "held V Q d s \<longleftrightarrow> (\<forall>x \<in> V. usr_ok s x) \<and> (\<forall>x \<in> Q. ptr_ok d s x)"

text \<open>A request to an administration page that gets past the guard.\<close>

definition administers :: "world \<times> web \<Rightarrow> route \<Rightarrow> web_request \<Rightarrow> bool" where
  "administers = (\<lambda>(w, b) rt r. admin_route rt \<and>
     (case signed_in w b r of None \<Rightarrow> False | Some a \<Rightarrow> account_is_admin (wb_srv b) a))"

definition acting :: "world \<times> web \<Rightarrow> web_request \<Rightarrow> int option" where
  "acting = (\<lambda>(w, b) r. map_option (account_id (wb_srv b)) (signed_in w b r))"

lemma settled_web_ok:
  assumes "web_ok (w, b)" and "settled (w, b) (w', b')" and "srv_ok (db w') (wb_srv b')"
  shows "web_ok (w', b')"
proof -
  have rows: "map mu_row (sv_users (wb_srv b')) = map mu_row (sv_users (wb_srv b))" and idx: "sv_index (wb_srv b') = sv_index (wb_srv b)"
    using assms(2) by (simp_all add: settled_def same_users_def)
  then have len: "length (sv_users (wb_srv b')) = length (sv_users (wb_srv b))" by (metis length_map)
  have row: "mu_row (sv_users (wb_srv b') ! i) = mu_row (sv_users (wb_srv b) ! i)" if "i < length (sv_users (wb_srv b))" for i
    using rows that len by (metis nth_map)
  have "indexed_users (wb_srv b')"
    using assms(1) idx len row by (auto simp: web_ok_def indexed_users_def)
  with assms len show ?thesis by (auto simp: web_ok_def settled_def)
qed

lemma srv_ok_ids:
  assumes "srv_ok (db w) s" and "db_rel ids_kept w w'"
  shows "srv_ok (db w') s"
  using assms owned_grow by (fastforce simp: srv_ok_def db_rel_def ids_kept_def)

lemma held_ids:
  assumes "held V Q (db w) s" and "boxes_keyed (db w)" and "db_rel ids_kept w w'"
  shows "held V Q (db w') s"
  using assms owned_grow by (fastforce simp: held_def ptr_ok_def db_rel_def ids_kept_def)

lemma signed_in_account:
  assumes "web_ok (w, b)" and "signed_in w b r = Some a"
  shows "a < length (sv_users (wb_srv b))"
  using assms by (auto simp: web_ok_def signed_in_def split: option.splits if_splits dest!: map_of_SomeD)

lemma same_settled: "same_web s t \<Longrightarrow> settled s t"
  by (simp add: same_web_def settled_def same_users_def)

lemma same_web_ok:
  assumes "web_ok (w, b)" and "same_web (w, b) (w', b')"
  shows "web_ok (w', b') \<and> db w' = db w"
proof -
  have "settled (w, b) (w', b')" using same_settled [OF assms(2)] .
  moreover have "srv_ok (db w') (wb_srv b')" using assms by (simp add: same_web_def web_ok_def idle_def)
  ultimately show ?thesis using settled_web_ok [OF assms(1)] assms(2) by (simp add: same_web_def idle_def)
qed

lemma public_same:
  assumes "serve M rt r (w, b) = (x, t)" and "public_route rt" and "rt \<noteq> LoginSubmit"
  shows "same_web (w, b) t"
proof -
  have get: "same_web (w, b) (snd (session_get tok (w, b)))" for tok
  proof -
    obtain w' b' where "session_get tok (w, b) = (Inr (signed_in w b (r\<lparr>rq_cookie := Some tok\<rparr>)), (w', b'))" "same_web (w, b) (w', b')"
      using session_get_run [of tok w b r] by (auto simp: same_web_def)
    then show ?thesis by simp
  qed
  show ?thesis
  proof (cases "rq_cookie r")
    case None
    with assms show ?thesis
      by (cases rt) (auto simp: public_route_def handle_login_form_def handle_logout_def handle_root_def io_simps same_web_def)
  next
    case (Some tok)
    have "same_web (w, b) (w, b\<lparr>wb_sessions := AList.delete tok (wb_sessions b)\<rparr>)"
      using set_delete_subset by (auto simp: same_web_def dest: subsetD [OF set_delete_subset])
    moreover obtain y v where "session_get tok (w, b) = (Inr y, v)" using session_get_run [of tok w b r] by blast
    ultimately show ?thesis using assms Some get [of tok]
      by (cases rt) (auto simp: public_route_def handle_login_form_def handle_logout_def handle_root_def session_delete_def
          upd_web_def io_simps same_web_def split: if_splits)
  qed
qed

lemma user_for_srv:
  assumes "user_for u (w, s) = (x, (w', s'))" and "srv_ok d s"
  shows "srv_ok d s' \<and> length (sv_users s) \<le> length (sv_users s') \<and> (\<forall>V Q. held V Q d s \<longrightarrow> held V Q d s')"
proof -
  from assms(1) have "s' = s \<or> (\<exists>i. s' = s\<lparr>sv_users := sv_users s @ [\<lparr>mu_row = u, mu_boxes = []\<rparr>], sv_index := i\<rparr>)"
    by (auto simp: user_for_def the_srv_def upd_srv_def io_simps Let_def split: option.splits)
  with assms(2) show ?thesis by (fastforce simp: srv_ok_def held_def usr_ok_def ptr_ok_def nth_append split: if_splits)
qed

lemma authenticate_srv:
  assumes "authenticate B email pw (w, s) = (x, (w', s'))" and "srv_ok d s"
  shows "srv_ok d s' \<and> length (sv_users s) \<le> length (sv_users s') \<and> (\<forall>V Q. held V Q d s \<longrightarrow> held V Q d s')"
proof -
  obtain y w1 where u: "get_user_by_email (to_lower (trim_space email)) w = (y, w1)" by fastforce
  show ?thesis
  proof (cases "\<exists>u. y = Inr u \<and> verify_password (bk_bcrypt B) u pw")
    case True
    then obtain r where "y = Inr r" "verify_password (bk_bcrypt B) r pw" by blast
    with assms u have "user_for r (w1, s) = (x, (w', s'))" by (auto simp: authenticate_def io_simps on_world_def)
    from user_for_srv [OF this assms(2)] show ?thesis .
  next
    case False
    with assms u show ?thesis by (cases y) (auto simp: authenticate_def io_simps on_world_def)
  qed
qed

lemma login_ok:
  assumes ok: "web_ok (w, b)" and run: "handle_login_submit M r (w, b) = (x, (w', b'))"
  shows "web_ok (w', b') \<and> db w' = db w \<and> (\<forall>V Q. held V Q (db w) (wb_srv b) \<longrightarrow> held V Q (db w) (wb_srv b'))"
proof -
  have db: "db w' = db w" using login_run [OF run] by (simp add: idle_def)
  from login_run [OF run] consider "wb_srv b' = wb_srv b \<and> wb_sessions b' = wb_sessions b"
    | w0 w1 a where "authenticate (wm_backend M) (form_value r ''email'') (form_value r ''password'') (w0, wb_srv b) = (Inr a, (w1, wb_srv b'))"
      "wb_sessions b' = wb_sessions b \<or> (\<exists>tok. wb_sessions b' = AList.update tok \<lparr>ws_account = a, ws_expires = clock w' + session_ttl\<rparr> (wb_sessions b))"
    by blast
  then show ?thesis
  proof cases
    case 1
    with ok db show ?thesis by (simp add: web_ok_def)
  next
    case 2
    from ok have i: "indexed_users (wb_srv b)" and s: "srv_ok (db w) (wb_srv b)" by (simp_all add: web_ok_def)
    have sess: "ws_account (snd e) = a \<or> e \<in> set (wb_sessions b)" if "e \<in> set (wb_sessions b')" for e
      using 2(2)
    proof (elim disjE exE)
      fix tok
      assume "wb_sessions b' = AList.update tok \<lparr>ws_account = a, ws_expires = clock w' + session_ttl\<rparr> (wb_sessions b)"
      from alist_update_set [OF that [unfolded this]] show ?thesis by auto
    qed (use that in simp)
    from authenticate_run [OF 2(1) i] authenticate_srv [OF 2(1) s] ok db sess show ?thesis
      by (fastforce simp: web_ok_def)
  qed
qed

lemma at_home_start:
  assumes "web_ok (w, b)" and "a < length (sv_users (wb_srv b))" and "same_web (w, b) t" and "held V Q (db w) (wb_srv b)"
  shows "at_home (account_id (wb_srv b) a) (db w) (insert (a, account_id (wb_srv b) a) V) Q t"
  using assms by (cases t) (simp add: at_home_def around_def web_ok_def same_web_def idle_def usr_ok_def account_id_def held_def)

lemma session_serve:
  "\<not> public_route rt \<Longrightarrow> \<not> admin_route rt \<Longrightarrow>
     \<exists>h. serve M rt r = require_session h r \<and> (\<forall>a. keeps settled (h r a) \<and> (\<forall>uid d0 V Q. (a, uid) \<in> V \<longrightarrow> wsafe uid d0 V Q (h r a)))"
  by (cases rt;
      ((simp only: serve.simps, rule exI, rule conjI, rule refl, intro allI conjI impI, rule settled_mail_handlers,
        rule wsafe_handlers wsafe_forwarding, assumption)
       | (simp add: public_route_def admin_route_def; fail)))

lemma admin_serve:
  "admin_route rt \<Longrightarrow> \<exists>h. serve M rt r = require_admin h r \<and> (\<forall>a. keeps settled (h r a) \<and> keeps admin_eff (h r a))"
  by (cases rt;
      ((simp only: serve.simps, rule exI, rule conjI, rule refl, intro allI conjI, rule settled_admin_handlers, rule adm_handlers)
       | (simp add: admin_route_def; fail)))

lemma wsafe_run: "wsafe uid d0 V Q m \<Longrightarrow> at_home uid d0 V Q t \<Longrightarrow> at_home uid d0 V Q (snd (m t))"
  by (cases "m t"; cases "fst (m t)") (auto dest: tripleD_ok tripleD_err)

lemma serve_ok:
  assumes ok: "web_ok (w, b)" and run: "serve M rt r (w, b) = (x, (w', b'))"
  shows "web_ok (w', b') \<and> (\<forall>V Q. held V Q (db w) (wb_srv b) \<longrightarrow> held V Q (db w') (wb_srv b')) \<and>
    (\<not> administers (w, b) rt r \<longrightarrow> (\<forall>v. acting (w, b) r \<noteq> Some v \<longrightarrow> rows_of v (db w') = rows_of v (db w)))"
proof -
  have quiet: ?thesis if "same_web (w, b) (w', b')" using same_web_ok [OF ok that] that by (simp add: same_web_def)
  consider "public_route rt" "rt = LoginSubmit" | "public_route rt" "rt \<noteq> LoginSubmit" | "\<not> public_route rt" "signed_in w b r = None"
    | a where "\<not> public_route rt" "\<not> admin_route rt" "signed_in w b r = Some a"
    | a where "admin_route rt" "signed_in w b r = Some a" by (cases "signed_in w b r") blast+
  then show ?thesis
  proof cases
    case 1
    with run login_ok [OF ok, of M r x w' b'] show ?thesis by simp
  next
    case 2
    show ?thesis by (rule quiet [OF public_same [OF run 2]])
  next
    case 3
    with guarded_serve [OF 3(1), of M r] require_session_run [of w b r] require_admin_run [of w b r] run
    have "same_web (w, b) (w', b')" by (elim disjE exE) (metis (no_types, lifting) prod.inject)+
    then show ?thesis by (rule quiet)
  next
    case 4
    let ?uid = "account_id (wb_srv b) a"
    obtain h where h: "serve M rt r = require_session h r" "keeps settled (h r a)"
      and all: "\<forall>uid d0 V Q. (a, uid) \<in> V \<longrightarrow> wsafe uid d0 V Q (h r a)"
      using session_serve [OF 4(1,2), of M r] by (elim exE conjE) blast
    have safe: "wsafe ?uid (db w) (insert (a, ?uid) V) Q (h r a)" for V Q
      by (rule all [rule_format]) simp
    from require_session_run [of w b r h] 4(3) obtain t where t: "require_session h r (w, b) = h r a t" "same_web (w, b) t" by blast
    have home: "at_home ?uid (db w) (insert (a, ?uid) V) Q (w', b')" if "held V Q (db w) (wb_srv b)" for V Q
      using wsafe_run [OF safe at_home_start [OF ok signed_in_account [OF ok 4(3)] t(2) that]] t(1) h(1) run by simp
    have "settled (w, b) (w', b')"
      using web.R_trans [OF same_settled [OF t(2)] keepsD [OF h(2), of t]] t(1) h(1) run by simp
    moreover have "held V Q (db w') (wb_srv b')" if "held V Q (db w) (wb_srv b)" for V Q
      using home [OF that] by (simp add: at_home_def around_def held_def)
    moreover have "srv_ok (db w') (wb_srv b')" "\<forall>v. v \<noteq> ?uid \<longrightarrow> rows_of v (db w') = rows_of v (db w)"
      using home [of "{}" "{}"] by (simp_all add: at_home_def around_def held_def)
    ultimately show ?thesis using settled_web_ok [OF ok] 4(3) by (simp add: acting_def)
  next
    case 5
    obtain h where h: "serve M rt r = require_admin h r" "keeps settled (h r a)" "keeps admin_eff (h r a)"
      using admin_serve [OF 5(1), of M r] by blast
    from require_admin_run [of w b r h] 5(2) obtain t where t: "same_web (w, b) t"
      "require_admin h r (w, b) = (if account_is_admin (wb_srv b) a then h r a t else (Inr (HttpError 403), t))" by blast
    show ?thesis
    proof (cases "account_is_admin (wb_srv b) a")
      case False
      with t h(1) run quiet show ?thesis by simp
    next
      case True
      with t(2) h(1) run have e: "h r a t = (x, (w', b'))" by simp
      obtain w1 b1 where t1: "t = (w1, b1)" by fastforce
      have s: "settled (w, b) (w', b')"
        using web.R_trans [OF same_settled [OF t(1)] keepsD [OF h(2), of t]] e by simp
      have "admin_eff t (w', b')" using keepsD [OF h(3), of t] e by simp
      with t(1) have same: "wb_srv b' = wb_srv b" "db w1 = db w" "db_rel ids_kept w1 w'"
        by (simp_all add: t1 admin_eff_def same_web_def idle_def)
      from ok have "boxes_keyed (db w1)" "srv_ok (db w1) (wb_srv b)" by (simp_all add: web_ok_def srv_ok_def same(2))
      with srv_ok_ids [of w1 "wb_srv b" w'] held_ids [of _ _ w1 "wb_srv b" w'] same
      have "srv_ok (db w') (wb_srv b')" "\<forall>V Q. held V Q (db w) (wb_srv b) \<longrightarrow> held V Q (db w') (wb_srv b')" by simp_all
      with settled_web_ok [OF ok s] 5 True show ?thesis by (simp add: administers_def)
    qed
  qed
qed

section \<open>Properties of any sequence of requests\<close>

fun web_run :: "webmail \<Rightarrow> (route \<times> web_request) list \<Rightarrow> world \<times> web \<Rightarrow> world \<times> web" where
  "web_run M [] t = t"
| "web_run M ((rt, r) # rs) t = web_run M rs (snd (serve M rt r t))"

fun actors :: "webmail \<Rightarrow> (route \<times> web_request) list \<Rightarrow> world \<times> web \<Rightarrow> int option list" where
  "actors M [] t = []"
| "actors M ((rt, r) # rs) t = acting t r # actors M rs (snd (serve M rt r t))"

lemma serve_ok_step:
  assumes "web_ok t"
  shows "web_ok (snd (serve M rt r t))"
    and "\<not> administers t rt r \<Longrightarrow> acting t r \<noteq> Some v \<Longrightarrow> rows_of v (db (fst (snd (serve M rt r t)))) = rows_of v (db (fst t))"
  using serve_ok [of "fst t" "snd t" M rt r] assms by (metis prod.collapse)+

interpretation wm: machine "\<lambda>(rt, r) t. snd (serve M rt r t)" web_ok for M
  by unfold_locales (auto intro: serve_ok_step)

lemma web_run_fold: "web_run M rs t = fold (\<lambda>(rt, r) t. snd (serve M rt r t)) rs t"
  by (induction M rs t rule: web_run.induct) simp_all


text \<open>
  C3: The webmail of one account cannot reach the data of another. Take any sequence of requests outside
  the administration pages, with whatever folder names, message numbers and forms. A user whom none
  of the requests was signed in as has the same row, mailboxes, messages and forwarding in the
  database as before.
\<close>

theorem webmail_isolated:
  assumes "web_ok t" and "\<forall>(rt, r) \<in> set rs. \<not> admin_route rt" and "Some v \<notin> set (actors M rs t)"
  shows "rows_of v (db (fst (web_run M rs t))) = rows_of v (db (fst t))"
  using assms
proof (induction M rs t rule: web_run.induct)
  case (2 M rt r rs t)
  have "\<not> admin_route rt" using 2(3) by simp
  then have "\<not> administers t rt r" by (auto simp: administers_def split: prod.splits)
  with 2 serve_ok_step(1) [OF 2(2), of M rt r] serve_ok_step(2) [OF 2(2), of rt r v M] show ?case by auto
qed simp

text \<open>A small server for the witnesses: bob is signed in, ann is not.\<close>

definition small_webmail :: webmail where
  "small_webmail = \<lparr>wm_backend = small_backend\<lparr>bk_config := small_config\<rparr>,
     wm_lib = \<lparr>ml_envelope = \<lambda>_. None, ml_reader = \<lambda>_. Inl ErrIO,
       ml_search = \<lparr>se_parse = \<lambda>_. None, se_zone = \<lambda>_. 0\<rparr>\<rparr>,
     wm_sender = \<lparr>sn_config = small_config, sn_sign = None\<rparr>, wm_hostname = ''mx'', wm_trusted = [],
     wm_quote = id, wm_err_text = \<lambda>_. ''error'', wm_address = \<lambda>s. Inr \<lparr>ma_name = '''', ma_addr = s\<rparr>,
     wm_address_list = \<lambda>s. Inr [\<lparr>ma_name = '''', ma_addr = s\<rparr>], wm_fmt_date = \<lambda>_. ''today'',
     wm_detect = \<lambda>_. ''text/plain'', wm_write = \<lambda>h s as. Inr (oh_subject h)\<rparr>"

definition small_web :: web where
  "small_web = \<lparr>wb_srv = bob_and_ann, wb_limiter = Some (new_limiter 3 100 50),
     wb_sessions = [(''token'', \<lparr>ws_account = 0, ws_expires = 100\<rparr>)]\<rparr>"

definition small_request :: "string option \<Rightarrow> (string \<times> string) list \<Rightarrow> web_request" where
  "small_request c f = \<lparr>rq_remote_addr = ''1.2.3.4:5'', rq_header = [], rq_form_ok = True, rq_form = f, rq_query = [],
     rq_cookie = c, rq_files = []\<rparr>"

lemma small_web_ok: "web_ok (small_state, small_web)"
proof -
  have "indexed_users bob_and_ann" unfolding indexed_users_def bob_and_ann_def by simp code_simp
  moreover have "srv_ok (db small_state) bob_and_ann" using bob_and_ann_ok by (simp add: sessions_ok_def)
  ultimately show ?thesis by (simp add: web_ok_def small_web_def bob_and_ann_def)
qed

lemma webmail_isolated_witness:
  "rows_of 2 (db (fst (web_run small_webmail [(Delete ''../ann'' ''5'', small_request (Some ''token'') [])] (small_state, small_web)))) =
     rows_of 2 (db small_state)"
proof -
  let ?rs = "[(Delete ''../ann'' ''5'', small_request (Some ''token'') [])]"
  have "map_option (account_id bob_and_ann) (signed_in small_state small_web (small_request (Some ''token'') [])) = Some 1" by code_simp
  then have "Some 2 \<notin> set (actors small_webmail ?rs (small_state, small_web))"
    by (auto simp: acting_def) (simp add: small_web_def)
  from webmail_isolated [OF small_web_ok _ this] show ?thesis by (simp add: admin_route_def)
qed


lemma login_demo:
  "case serve small_webmail LoginSubmit (small_request None [(''email'', '' Bob@X.org''), (''password'', ''pw'')])
      (forwarding_world, small_web\<lparr>wb_sessions := []\<rparr>) of
     (x, (w', b')) \<Rightarrow> x = Inr (Redirect (SetCookie (replicate 43 (CHR ''A''))) ''/mail/INBOX'') \<and>
       wb_sessions b' = [(replicate 43 (CHR ''A''), \<lparr>ws_account = 0, ws_expires = 86400000000007\<rparr>)]"
  by code_simp


lemma web_guarded_witness:
  "fst (serve small_webmail (AdminDelete ''2'') (small_request (Some ''token'') []) (small_state, small_web)) = Inr (HttpError 403)"
proof -
  let ?r = "small_request (Some ''token'') []"
  obtain x t where run: "serve small_webmail (AdminDelete ''2'') ?r (small_state, small_web) = (x, t)" by (metis surj_pair)
  have "signed_in small_state small_web ?r = Some 0 \<and> \<not> account_is_admin (wb_srv small_web) 0" by code_simp
  with web_guarded [OF run, of 0] run show ?thesis by (simp add: admin_route_def)
qed

end
