(* ===== verification/ComposeInv.thy ===== *)
theory ComposeInv
  imports WebmailSafe
begin

text \<open>
  What a message composed in the browser can contain.
\<close>

section \<open>Header fields and lines of a composed message\<close>

definition one_line :: "string \<Rightarrow> bool" where
  "one_line s \<longleftrightarrow> CHR 0x0D \<notin> set s \<and> CHR 0x0A \<notin> set s"

text \<open>Every LF follows a CR.\<close>

fun no_bare_lf :: "string \<Rightarrow> bool" where
  "no_bare_lf (c # d # s) = (if c = CHR 0x0D \<and> d = CHR 0x0A then no_bare_lf s else c \<noteq> CHR 0x0A \<and> no_bare_lf (d # s))"
| "no_bare_lf [c] = (c \<noteq> CHR 0x0A)"
| "no_bare_lf [] = True"

definition well_formed_message :: "outgoing_header \<Rightarrow> string \<Rightarrow> bool" where
  "well_formed_message h body \<longleftrightarrow> one_line (oh_subject h) \<and> list_all one_line (oh_in_reply_to h) \<and>
     list_all one_line (oh_references h) \<and> no_bare_lf body"

lemma one_line_sanitize: "one_line (sanitize_header_value s)"
  by (auto simp: one_line_def sanitize_header_value_def)

lemma one_line_trim_angles: "one_line s \<Longrightarrow> one_line (trim_angles s)"
  by (auto simp: one_line_def trim_angles_def Let_def dest!: set_dropWhileD)

lemma no_bare_lf_Cons: "no_bare_lf r \<Longrightarrow> (\<forall>s. r \<noteq> CHR 0x0A # s) \<Longrightarrow> c \<noteq> CHR 0x0A \<Longrightarrow> no_bare_lf (c # r)"
  by (cases r) auto

lemma lines_crlf:
  "no_bare_lf (concat (map (\<lambda>c. if c = CHR 0x0A then crlf else [c]) t)) \<and>
   (\<forall>s. concat (map (\<lambda>c. if c = CHR 0x0A then crlf else [c]) t) \<noteq> CHR 0x0A # s)"
proof (induction t)
  case (Cons c t)
  then show ?case using no_bare_lf_Cons [of _ c] by (auto simp: crlf_def)
qed simp

lemma to_crlf_lines: "no_bare_lf (to_crlf s)"
  using lines_crlf by (simp add: to_crlf_def)

lemma one_line_fields: "one_line s \<Longrightarrow> list_all one_line (str_fields s)"
proof -
  have "\<lbrakk>one_line acc; one_line s\<rbrakk> \<Longrightarrow> list_all one_line (fields_acc acc s)" for acc
    by (induction acc s rule: fields_acc.induct) (auto simp: one_line_def)
  then show "one_line s \<Longrightarrow> list_all one_line (str_fields s)" by (simp add: str_fields_def one_line_def)
qed

section \<open>The writer gets nothing else\<close>

text \<open>The server with a writer that may do anything on a header or a body that is not well formed.\<close>

definition strict :: "(outgoing_header \<Rightarrow> string \<Rightarrow> compose_attachment list \<Rightarrow> goerr + bytes) \<Rightarrow> webmail \<Rightarrow> webmail" where
  "strict W M = M\<lparr>wm_write := (\<lambda>h t as. if well_formed_message h t then wm_write M h t as else W h t as)\<rparr>"

lemma strict_attachments: "read_attachments (strict W M) fs = read_attachments M fs"
  by (induction fs rule: read_attachments.induct) (auto simp: strict_def split: sum.splits)

lemma strict_build:
  "build_outgoing_message (strict W M) from to cc (sanitize_header_value su) bo (sanitize_header_value irt) (sanitize_header_value rf) as =
   build_outgoing_message M from to cc (sanitize_header_value su) bo (sanitize_header_value irt) (sanitize_header_value rf) as"
proof -
  have "one_line (trim_angles (sanitize_header_value irt))" "list_all one_line (str_fields (sanitize_header_value rf))"
    by (intro one_line_trim_angles one_line_sanitize one_line_fields)+
  then show ?thesis
    by (simp add: build_outgoing_message_def strict_def well_formed_message_def one_line_sanitize to_crlf_lines)
qed


end
