(* ===== verification/AdminInv.thy ===== *)
theory AdminInv
  imports WebmailSafe
begin

text \<open>
  The administration pages: what deleting a mailbox removes, and two gaps between what the comments of
  the code promise about administrators and what it does.
\<close>

section \<open>Deleting a mailbox\<close>

lemma admin_reads:
  assumes "build_admin_data M a (w, s) = (x, (w', s'))"
  shows "db w' = db w \<and> s' = s"
proof -
  have "keeps same_db list_users" "keeps same_db get_relay_settings"
    unfolding list_users_def get_relay_settings_def if_no_rows_def db_select_def db_get_def
    by (intro fs_effects keeps_may_fail; auto simp: keeps_def same_db_def split: option.splits)+
  then have "db (snd (list_users w)) = db w" "\<And>v. db (snd (get_relay_settings v)) = db v" for w
    by (auto simp: keeps_def same_db_def)
  with assms show ?thesis
    by (auto simp: build_admin_data_def io_simps on_world_def the_srv_def split: prod.splits sum.splits) (metis snd_conv)+
qed

lemma delete_handler_run:
  assumes run: "handle_admin_delete_user M i r a (w, b) = (x, (w', b'))"
    and ok: "db_ok True (db w)" and fk: "so_fk (bk_store (wm_backend M))"
  shows "wb_srv b' = wb_srv b \<and> (if x = Inr (Redirect KeepCookie ''/admin'') then
      \<exists>uid u. parse_int64 i = Some uid \<and> find (\<lambda>r. usr_id r = uid) (users_t (db w)) = Some u \<and>
        \<not> equal_fold (usr_email u) (account_email (wb_srv b) a) \<and>
        rows_of uid (db w') = ([], [], [], []) \<and> (\<forall>v. v \<noteq> uid \<longrightarrow> rows_of v (db w') = rows_of v (db w))
    else db w' = db w)"
proof (cases "parse_int64 i")
  case None
  with run show ?thesis by (auto simp: handle_admin_delete_user_def io_simps)
next
  case (Some uid)
  obtain y w1 s1 where data: "build_admin_data M a (w, wb_srv b) = (y, (w1, s1))" by (metis surj_pair)
  from admin_reads [OF data] have d1: "db w1 = db w" "s1 = wb_srv b" by simp_all
  show ?thesis
  proof (cases y)
    case (Inl e)
    with run Some data d1 show ?thesis
      by (auto simp: handle_admin_delete_user_def with_admin_data_def io_simps on_srv_def)
  next
    case (Inr d)
    obtain z w2 where look: "get_user_by_id uid w1 = (z, w2)" by fastforce
    have d2: "db w2 = db w" using keepsD [OF get_user_by_id_db, of w1 uid] look d1 by (simp add: same_db_def)
    show ?thesis
    proof (cases z)
      case (Inl e)
      with run Some data d1 Inr look d2 show ?thesis
        by (auto simp: handle_admin_delete_user_def with_admin_data_def admin_error_def io_simps on_srv_def on_world_def)
    next
      case (Inr u)
      have u: "find (\<lambda>r. usr_id r = uid) (users_t (db w)) = Some u"
        using not_found_ok [OF look [unfolded Inr get_user_by_id_def]] d1 by simp
      obtain q w3 where del: "delete_user (bk_store (wm_backend M)) uid w2 = (q, w3)" by fastforce
      note facts = delete_user_facts [of w2, OF _ fk, of uid, unfolded d2 del prod.case, OF ok]
      have rm: "db (snd (os_remove_all p v)) = db v" for p v
        using keepsD [OF keeps_syscalls(11), of v p] by (simp add: same_db_def)
      obtain l dom k where sp: "addr_split (usr_email u) = (l, dom, k)" by (metis surj_pair)
      from facts run Some data d1 \<open>y = Inr d\<close> look d2 u Inr del rm sp show ?thesis
        by (cases q) (auto simp: handle_admin_delete_user_def with_admin_data_def admin_error_def the_web_def
            io_simps on_srv_def on_world_def Let_def split: if_splits)
    qed
  qed
qed

text \<open>
  C8: An administrator deletes exactly the mailbox the form names, and never their own. When the request is
  answered by the redirect, the identifier was that of a user whose address is not that of the signed-in
  account, every row of that user is gone and every row of every other user is as before; with any
  other answer (a bad identifier, a missing user, the own mailbox, a failed statement, no administrator)
  the database is unchanged.
\<close>

theorem admin_delete_exact:
  assumes "serve M (AdminDelete i) r (w, b) = (x, (w', b'))"
    and "db_ok True (db w)" and "so_fk (bk_store (wm_backend M))"
  shows "if x = Inr (Redirect KeepCookie ''/admin'') then
      \<exists>a uid u. signed_in w b r = Some a \<and> account_is_admin (wb_srv b) a \<and>
        parse_int64 i = Some uid \<and> find (\<lambda>r. usr_id r = uid) (users_t (db w)) = Some u \<and>
        \<not> equal_fold (usr_email u) (account_email (wb_srv b) a) \<and>
        rows_of uid (db w') = ([], [], [], []) \<and> (\<forall>v. v \<noteq> uid \<longrightarrow> rows_of v (db w') = rows_of v (db w))
    else db w' = db w"
proof (cases "signed_in w b r")
  case None
  with assms(1) require_admin_run [of w b r "handle_admin_delete_user M i"] show ?thesis
    by (auto simp: same_web_def idle_def)
next
  case (Some a)
  with require_admin_run [of w b r "handle_admin_delete_user M i"] obtain w1 b1 where t: "same_web (w, b) (w1, b1)"
    and run: "(x, (w', b')) = (if account_is_admin (wb_srv b) a then handle_admin_delete_user M i r a (w1, b1) else (Inr (HttpError 403), (w1, b1)))"
    using assms(1) by auto
  have same: "db w1 = db w" "wb_srv b1 = wb_srv b" using t by (simp_all add: same_web_def idle_def)
  show ?thesis
  proof (cases "account_is_admin (wb_srv b) a")
    case True
    from delete_handler_run [of M i r a w1 b1 x w' b'] run True assms(2,3) same Some show ?thesis
      by (simp split: if_splits)
  qed (use run same in simp)
qed

section \<open>Two gaps\<close>

text \<open>Two administrators, both signed in.\<close>

definition admin_row :: "int \<Rightarrow> string \<Rightarrow> user_row" where
  "admin_row i l = \<lparr>usr_id = i, usr_domain_id = 1, usr_local_part = l, usr_email = l @ ''@x.org'', usr_password_hash = ''$pw'', usr_is_admin = True\<rparr>"

definition two_admins_world :: world where
  "two_admins_world = blank_world\<lparr>db := empty_db\<lparr>domains_t := [\<lparr>dom_id = 1, dom_name = ''x.org''\<rparr>], domains_seq := 1,
     users_t := [admin_row 1 ''ann'', admin_row 2 ''bob''], users_seq := 2\<rparr>\<rparr>"

definition two_admins :: web where
  "two_admins = \<lparr>wb_srv = \<lparr>sv_heap = [], sv_users = [\<lparr>mu_row = admin_row 1 ''ann'', mu_boxes = []\<rparr>, \<lparr>mu_row = admin_row 2 ''bob'', mu_boxes = []\<rparr>],
       sv_index = [(''ann@x.org'', 0), (''bob@x.org'', 1)], sv_limiter = None\<rparr>, wb_limiter = None,
     wb_sessions = [(''a'', \<lparr>ws_account = 0, ws_expires = 100\<rparr>), (''b'', \<lparr>ws_account = 1, ws_expires = 100\<rparr>)]\<rparr>"

lemma two_admins_run:
  "case serve small_webmail (AdminDelete ''2'') (small_request (Some ''a'') []) (two_admins_world, two_admins) of
     (x, (w', b')) \<Rightarrow> x = Inr (Redirect KeepCookie ''/admin'') \<and> users_t (db w') = [admin_row 1 ''ann'']"
  by code_simp

lemma admin_delete_exact_witness:
  "case serve small_webmail (AdminDelete ''2'') (small_request (Some ''a'') []) (two_admins_world, two_admins) of
     (x, (w', b')) \<Rightarrow> rows_of 2 (db w') = ([], [], [], []) \<and> rows_of 1 (db w') = rows_of 1 (db two_admins_world)"
proof -
  obtain x w' b' where run: "serve small_webmail (AdminDelete ''2'') (small_request (Some ''a'') []) (two_admins_world, two_admins) = (x, (w', b'))"
    by (metis surj_pair)
  have ok: "db_ok True (db two_admins_world)" "so_fk (bk_store (wm_backend small_webmail))"
    by (simp_all add: db_ok_defs two_admins_world_def admin_row_def empty_db_def keyed_def covered_def small_webmail_def small_backend_def)
  have "parse_int64 ''2'' = Some 2" by code_simp
  with admin_delete_exact [OF run ok] two_admins_run run show ?thesis by auto
qed

text \<open>
  Administrators can lock themselves out. The comment in \<open>handleAdminDeleteUser\<close> argues that refusing to
  delete the own mailbox keeps at least one administrator. But deleting a mailbox ends no session, and
  whether an account is an administrator is read from its cached row: of two administrators who are signed
  in, the first deletes the second, the second, though deleted, deletes the first, and no
  user is left in the database.
\<close>

theorem admins_delete_each_other:
  "users_t (db two_admins_world) = [admin_row 1 ''ann'', admin_row 2 ''bob''] \<and>
   users_t (db (fst (web_run small_webmail
     [(AdminDelete ''2'', small_request (Some ''a'') []), (AdminDelete ''1'', small_request (Some ''b'') [])]
     (two_admins_world, two_admins)))) = []"
  by code_simp

text \<open>
  A revoked administrator stays one: the backend keeps the row a user had at the first login for the life of
  the process. When the mailbox of bob was deleted and created again without the role of an administrator, signing in
  to the new mailbox, whose identifier is 3, gives an account with the old identifier 2 and the old role.
\<close>

definition bob_again :: world where
  "bob_again = two_admins_world\<lparr>db := db two_admins_world\<lparr>
     users_t := [admin_row 1 ''ann'', (admin_row 3 ''bob'')\<lparr>usr_is_admin := False\<rparr>], users_seq := 3\<rparr>\<rparr>"

lemma revoked_admin_stays:
  "case serve small_webmail LoginSubmit (small_request None [(''email'', ''bob@x.org''), (''password'', ''pw'')])
     (bob_again, two_admins\<lparr>wb_sessions := []\<rparr>) of
     (x, (w, b)) \<Rightarrow> map (\<lambda>(t, s). (account_id (wb_srv b) (ws_account s), account_is_admin (wb_srv b) (ws_account s))) (wb_sessions b) = [(2, True)]"
  by code_simp

end
