(* ===== verification/Certs.thy ===== *)
theory Certs
  imports Bounce Webmail
begin

text \<open>
  Keys and certificates: the DKIM key and signer (\<open>internal/dkimsign\<close>), the certificate of the listeners
  (\<open>internal/tlsutil\<close>) and the manager that obtains and renews one by ACME (\<open>internal/acmedns\<close>), with the
  choice between them, \<open>setupTLS\<close> of \<open>cmd/mailserver/main.go\<close>. Cryptography, the encodings of keys and
  certificates and the ACME client are parameters; what the network answers is read from lists
  of outcomes in the state.
\<close>

section \<open>Writing a whole file\<close>

definition os_open_trunc :: "path \<Rightarrow> unit wio" where
  "os_open_trunc p = syscall (\<lambda>w.
     if \<not> is_dir (nodes w) (butlast p) then (Inl ErrNotExist, w)
     else if is_dir (nodes w) p then (Inl ErrIO, w)
     else (Inr (), w\<lparr>nodes := AList.update p (FileN [] (clock w)) (nodes w)\<rparr>))"

text \<open>\<open>os.WriteFile\<close>: a failure after the file was opened leaves it empty or complete.\<close>

definition os_write_file :: "path \<Rightarrow> bytes \<Rightarrow> unit wio" where
  "os_write_file p data =
     io_bind (os_open_trunc p) (\<lambda>_.
     io_either (file_write p data)
       (\<lambda>e. io_bind (io_ignore file_close) (\<lambda>_. io_fail e))
       (\<lambda>_. file_close))"

section \<open>DKIM (\<open>dkimsign.go\<close>)\<close>

text \<open>\<open>base64.StdEncoding\<close>.\<close>

definition base64_char :: "nat \<Rightarrow> char" where
  "base64_char n = ''ABCDEFGHIJKLMNOPQRSTUVWXYZabcdefghijklmnopqrstuvwxyz0123456789+/'' ! n"

fun base64 :: "bytes \<Rightarrow> string" where
  "base64 (a # b # c # xs) =
     (let x = of_char a; y = of_char b; z = of_char c in
      [base64_char (x div 4), base64_char (x mod 4 * 16 + y div 16),
       base64_char (y mod 16 * 4 + z div 64), base64_char (z mod 64)] @ base64 xs)"
| "base64 [a, b] =
     (let x = of_char a; y = of_char b in
      [base64_char (x div 4), base64_char (x mod 4 * 16 + y div 16), base64_char (y mod 16 * 4), CHR ''=''])"
| "base64 [a] = (let x = of_char a in [base64_char (x div 4), base64_char (x mod 4 * 16), CHR ''='', CHR ''=''])"
| "base64 [] = []"

record sign_options =
  so_domain :: string
  so_selector :: string
  so_signer :: string
  so_hash :: string
  so_header_canon :: string
  so_body_canon :: string

text \<open>RSA keys as opaque values, with the PEM and DER codecs and the signature of the DKIM library.\<close>

record rsa_lib =
  rsa_generate :: "bytes \<Rightarrow> goerr + string"
  rsa_marshal :: "string \<Rightarrow> bytes"
  rsa_parse :: "bytes \<Rightarrow> goerr + string"
  rsa_public :: "string \<Rightarrow> goerr + bytes"
  pem_encode :: "string \<Rightarrow> bytes \<Rightarrow> bytes"
  pem_decode :: "bytes \<Rightarrow> bytes option"
  dkim_sign :: "sign_options \<Rightarrow> bytes \<Rightarrow> goerr + bytes"

definition from_sum :: "goerr + 'a \<Rightarrow> ('s, 'a) io" where
  "from_sum r = (case r of Inl e \<Rightarrow> io_fail e | Inr x \<Rightarrow> io_ret x)"

definition load_or_generate_key :: "rsa_lib \<Rightarrow> string \<Rightarrow> (string \<times> bool) wio" where
  "load_or_generate_key R file =
     (let p = config_path file in
      io_either (os_read_file p)
        (\<lambda>e. if e \<noteq> ErrNotExist then io_fail e
          else io_bind (io_wrap ''generating DKIM key'' (io_bind (rand_read 256) (\<lambda>seed. from_sum (rsa_generate R seed)))) (\<lambda>key.
            io_bind (os_mkdir_all (butlast p)) (\<lambda>_.
            io_bind (io_wrap ''writing DKIM private key'' (os_write_file p (pem_encode R ''RSA PRIVATE KEY'' (rsa_marshal R key)))) (\<lambda>_.
            io_ret (key, True)))))
        (\<lambda>buf. case pem_decode R buf of
            None \<Rightarrow> io_fail (ErrMsg (''no PEM data found in '' @ file))
          | Some der \<Rightarrow> io_bind (io_wrap ''parsing DKIM private key'' (from_sum (rsa_parse R der))) (\<lambda>key. io_ret (key, False))))"

definition dns_record :: "rsa_lib \<Rightarrow> string \<Rightarrow> goerr + string" where
  "dns_record R key = map_sum id (\<lambda>der. ''v=DKIM1; k=rsa; p='' @ base64 der) (rsa_public R key)"

definition signer :: "rsa_lib \<Rightarrow> string \<Rightarrow> string \<Rightarrow> string \<Rightarrow> bytes \<Rightarrow> goerr + bytes" where
  "signer R selector key domain data =
     map_sum (Wrapped ''signing message'') id
       (dkim_sign R \<lparr>so_domain = domain, so_selector = selector, so_signer = key, so_hash = ''SHA256'',
          so_header_canon = ''relaxed'', so_body_canon = ''relaxed''\<rparr> data)"

section \<open>Certificates of the listeners (\<open>tlsutil.go\<close>)\<close>

record cert_template =
  ct_serial :: bytes
  ct_common_name :: string
  ct_not_before :: int
  ct_not_after :: int
  ct_ips :: "ip list"
  ct_dns_names :: "string list"

text \<open>A chain with its private key. \<open>x_pair\<close> is what \<open>tls.X509KeyPair\<close> objects to, \<open>x_not_after\<close> the end of the
  leaf of a chain, when it parses.\<close>

record tls_cert =
  tc_chain :: bytes
  tc_key :: bytes

record x509_lib =
  x_pair :: "bytes \<Rightarrow> bytes \<Rightarrow> goerr option"
  x_not_after :: "bytes \<Rightarrow> int option"
  x_generate :: "bytes \<Rightarrow> goerr + string"
  x_create :: "cert_template \<Rightarrow> string \<Rightarrow> goerr + bytes"

definition key_pair :: "x509_lib \<Rightarrow> bytes \<Rightarrow> bytes \<Rightarrow> goerr + tls_cert" where
  "key_pair X chain key = (case x_pair X chain key of None \<Rightarrow> Inr \<lparr>tc_chain = chain, tc_key = key\<rparr> | Some e \<Rightarrow> Inl e)"

definition load_key_pair :: "x509_lib \<Rightarrow> path \<Rightarrow> path \<Rightarrow> tls_cert wio" where
  "load_key_pair X cert_path key_path =
     io_bind (os_read_file cert_path) (\<lambda>chain.
     io_bind (os_read_file key_path) (\<lambda>key.
     from_sum (key_pair X chain key)))"

definition hour :: int where "hour = 60 * minute"

definition self_signed :: "x509_lib \<Rightarrow> string \<Rightarrow> tls_cert wio" where
  "self_signed X host =
     io_bind (rand_read 32) (\<lambda>seed.
     io_bind (from_sum (x_generate X seed)) (\<lambda>key.
     io_bind (rand_read 16) (\<lambda>serial.
     io_bind time_now (\<lambda>now1.
     io_bind time_now (\<lambda>now2.
     let t = \<lparr>ct_serial = serial, ct_common_name = host, ct_not_before = now1 - hour, ct_not_after = now2 + 365 * 24 * hour,
          ct_ips = (case parse_ip host of None \<Rightarrow> [] | Some i \<Rightarrow> [i]),
          ct_dns_names = (if parse_ip host = None then [host] else [])\<rparr> in
     io_bind (from_sum (x_create X t key)) (\<lambda>der.
     io_ret \<lparr>tc_chain = der, tc_key = key\<rparr>))))))"

definition tls_load :: "x509_lib \<Rightarrow> string \<Rightarrow> string \<Rightarrow> string \<Rightarrow> tls_cert wio" where
  "tls_load X cert_file key_file host =
     (if cert_file \<noteq> '''' \<and> key_file \<noteq> ''''
      then io_wrap ''loading TLS key pair'' (load_key_pair X (config_path cert_file) (config_path key_file))
      else io_wrap ''generating self-signed certificate'' (self_signed X host))"

section \<open>The ACME manager (\<open>acmedns.go\<close>)\<close>

definition renew_before :: int where "renew_before = 30 * 24 * hour"

record acme_user =
  acu_email :: string
  acu_reg :: "string option"
  acu_key :: string

record account_file =
  acf_email :: string
  acf_private_key :: bytes
  acf_registration :: "string option"

text \<open>
  The codecs of the account file and its key, the check of the Cloudflare provider, which reads the process
  environment, and of the challenge.
\<close>

record acme_lib =
  ac_x509 :: x509_lib
  ac_account_json :: "account_file \<Rightarrow> goerr + bytes"
  ac_parse_account :: "bytes \<Rightarrow> goerr + account_file"
  ac_pem_decode :: "bytes \<Rightarrow> bytes option"
  ac_pem_encode :: "string \<Rightarrow> bytes \<Rightarrow> bytes"
  ac_marshal_key :: "string \<Rightarrow> goerr + bytes"
  ac_parse_key :: "bytes \<Rightarrow> goerr + string"
  ac_generate :: "bytes \<Rightarrow> goerr + string"
  ac_cloudflare :: "(string \<times> string) list \<Rightarrow> goerr + unit"
  ac_set_dns01 :: "goerr + unit"

text \<open>
  The state of the manager: its certificate, the environment of the process, and the outcomes of the calls
  to the certificate authority: fetching its directory, registering an account, issuing a certificate
  (chain and key). An exhausted list is an authority that cannot be reached. The authorities a client was
  created for are logged.
\<close>

datatype acme_ca = LEStaging | LEProduction

record acme_state =
  am_cert :: "tls_cert option"
  am_env :: "(string \<times> string) list"
  am_contacted :: "acme_ca list"
  am_directory :: "(goerr + unit) list"
  am_register :: "(goerr + string) list"
  am_obtain :: "(goerr + bytes \<times> bytes) list"

type_synonym 'a aio = "(world \<times> acme_state, 'a) io"

record manager =
  mgr_cfg :: acme_config
  mgr_domains :: "string list"

definition the_acme :: "acme_state aio" where "the_acme = io_gets snd"

definition upd_acme :: "(acme_state \<Rightarrow> acme_state) \<Rightarrow> unit aio" where
  "upd_acme f = io_modify (\<lambda>(w, a). (w, f a))"

definition next_outcome :: "(acme_state \<Rightarrow> (goerr + 'a) list) \<Rightarrow> (((goerr + 'a) list \<Rightarrow> (goerr + 'a) list) \<Rightarrow> acme_state \<Rightarrow> acme_state) \<Rightarrow> 'a aio" where
  "next_outcome get upd =
     io_bind the_acme (\<lambda>a. io_bind (upd_acme (upd tl)) (\<lambda>_.
     from_sum (case get a of [] \<Rightarrow> Inl ErrIO | r # rs \<Rightarrow> r)))"

text \<open>\<open>os.Setenv\<close> refuses an empty name, one with \<open>=\<close> or a zero byte, and a value with a zero byte.\<close>

definition os_setenv :: "string \<Rightarrow> string \<Rightarrow> unit aio" where
  "os_setenv k v =
     (if k = '''' \<or> CHR ''='' \<in> set k \<or> CHR 0x00 \<in> set k \<or> CHR 0x00 \<in> set v then io_fail ErrIO
      else upd_acme (\<lambda>a. a\<lparr>am_env := AList.update k v (am_env a)\<rparr>))"

text \<open>\<open>acmedns.New\<close>; the options are set in the order of the list.\<close>

definition acme_new :: "acme_config \<Rightarrow> string list \<Rightarrow> manager aio" where
  "acme_new cfg domains =
     (if acme_email cfg = '''' then io_fail (ErrMsg ''tls.acme.email is required'')
      else if domains = [] then io_fail (ErrMsg ''no domains configured for ACME'')
      else io_bind (io_wrap ''creating ACME cache directory'' (on_world (os_mkdir_all (config_path (acme_cache_dir cfg))))) (\<lambda>_.
        io_bind (io_for (acme_options cfg) (\<lambda>(k, v). io_wrap (''setting '' @ k) (os_setenv k v))) (\<lambda>_.
        io_ret \<lparr>mgr_cfg = cfg, mgr_domains = domains\<rparr>)))"

definition cert_path :: "manager \<Rightarrow> path" where "cert_path m = pjoin (config_path (acme_cache_dir (mgr_cfg m))) ''fullchain.pem''"
definition key_path :: "manager \<Rightarrow> path" where "key_path m = pjoin (config_path (acme_cache_dir (mgr_cfg m))) ''privkey.pem''"
definition account_path :: "manager \<Rightarrow> path" where "account_path m = pjoin (config_path (acme_cache_dir (mgr_cfg m))) ''account.json''"

text \<open>\<open>GetCertificate\<close> of \<open>TLSConfig\<close>.\<close>

definition get_certificate :: "tls_cert aio" where
  "get_certificate = io_bind the_acme (\<lambda>a.
     case am_cert a of None \<Rightarrow> io_fail (ErrMsg ''acmedns: no certificate obtained yet'') | Some c \<Rightarrow> io_ret c)"

definition needs_renewal :: "acme_lib \<Rightarrow> bool aio" where
  "needs_renewal L =
     io_bind the_acme (\<lambda>a.
     case am_cert a of
       None \<Rightarrow> io_ret True
     | Some c \<Rightarrow> (case x_not_after (ac_x509 L) (tc_chain c) of
         None \<Rightarrow> io_ret True
       | Some t \<Rightarrow> io_bind (on_world time_now) (\<lambda>now. io_ret (t - now < renew_before))))"

definition dns_provider :: "acme_lib \<Rightarrow> manager \<Rightarrow> unit aio" where
  "dns_provider L m =
     (if acme_provider (mgr_cfg m) \<in> {'''', ''cloudflare''}
      then io_bind the_acme (\<lambda>a. from_sum (ac_cloudflare L (am_env a)))
      else io_fail (ErrMsg (''unsupported ACME DNS provider '' @ acme_provider (mgr_cfg m))))"

definition load_or_register_account :: "acme_lib \<Rightarrow> manager \<Rightarrow> acme_user aio" where
  "load_or_register_account L m =
     io_either (on_world (os_read_file (account_path m)))
       (\<lambda>_. io_bind (io_wrap ''generating account key'' (io_bind (on_world (rand_read 32)) (\<lambda>seed. from_sum (ac_generate L seed)))) (\<lambda>key.
          io_ret \<lparr>acu_email = acme_email (mgr_cfg m), acu_reg = None, acu_key = key\<rparr>))
       (\<lambda>buf. io_bind (io_wrap ''parsing account file'' (from_sum (ac_parse_account L buf))) (\<lambda>af.
          case ac_pem_decode L (acf_private_key af) of
            None \<Rightarrow> io_fail (ErrMsg ''no PEM data in stored account key'')
          | Some der \<Rightarrow> io_bind (io_wrap ''parsing stored account key'' (from_sum (ac_parse_key L der))) (\<lambda>key.
              io_ret \<lparr>acu_email = acf_email af, acu_reg = acf_registration af, acu_key = key\<rparr>)))"

definition save_account :: "acme_lib \<Rightarrow> manager \<Rightarrow> acme_user \<Rightarrow> unit aio" where
  "save_account L m u =
     io_bind (from_sum (ac_marshal_key L (acu_key u))) (\<lambda>der.
     io_bind (from_sum (ac_account_json L \<lparr>acf_email = acu_email u, acf_private_key = ac_pem_encode L ''EC PRIVATE KEY'' der,
        acf_registration = acu_reg u\<rparr>)) (\<lambda>buf.
     on_world (os_write_file (account_path m) buf)))"

definition obtain_cert :: "acme_lib \<Rightarrow> manager \<Rightarrow> unit aio" where
  "obtain_cert L m =
     io_bind (io_wrap ''ACME account setup'' (load_or_register_account L m)) (\<lambda>user.
     let ca = (if acme_staging (mgr_cfg m) then LEStaging else LEProduction) in
     io_bind (upd_acme (\<lambda>a. a\<lparr>am_contacted := am_contacted a @ [ca]\<rparr>)) (\<lambda>_.
     io_bind (io_wrap ''creating ACME client'' (next_outcome am_directory am_directory_update)) (\<lambda>_.
     io_bind (dns_provider L m) (\<lambda>_.
     io_bind (io_wrap ''configuring DNS-01 challenge'' (from_sum (ac_set_dns01 L))) (\<lambda>_.
     io_bind (if acu_reg user = None
         then io_bind (io_wrap ''registering ACME account'' (next_outcome am_register am_register_update)) (\<lambda>reg.
              io_wrap ''saving ACME account'' (save_account L m (user\<lparr>acu_reg := Some reg\<rparr>)))
         else io_ret ()) (\<lambda>_.
     io_bind (io_wrap ''obtaining certificate'' (next_outcome am_obtain am_obtain_update)) (\<lambda>(chain, key).
     io_bind (io_wrap ''writing certificate'' (on_world (os_write_file (cert_path m) chain))) (\<lambda>_.
     io_bind (io_wrap ''writing certificate key'' (on_world (os_write_file (key_path m) key))) (\<lambda>_.
     io_bind (io_wrap ''parsing obtained certificate'' (from_sum (key_pair (ac_x509 L) chain key))) (\<lambda>c.
     upd_acme (\<lambda>a. a\<lparr>am_cert := Some c\<rparr>)))))))))))"

definition ensure_certificate :: "acme_lib \<Rightarrow> manager \<Rightarrow> unit aio" where
  "ensure_certificate L m =
     io_either (on_world (load_key_pair (ac_x509 L) (cert_path m) (key_path m)))
       (\<lambda>_. obtain_cert L m)
       (\<lambda>c. io_bind (upd_acme (\<lambda>a. a\<lparr>am_cert := Some c\<rparr>)) (\<lambda>_.
          io_bind (needs_renewal L) (\<lambda>renew. if \<not> renew then io_ret () else obtain_cert L m)))"

definition acme_init :: "acme_lib \<Rightarrow> manager \<Rightarrow> unit aio" where
  "acme_init L m = ensure_certificate L m"

text \<open>\<open>Run\<close> for a number of ticks; a failed renewal is only logged.\<close>

definition acme_tick :: "acme_lib \<Rightarrow> manager \<Rightarrow> unit aio" where
  "acme_tick L m = io_bind (needs_renewal L) (\<lambda>renew. if renew then io_ignore (obtain_cert L m) else io_ret ())"

definition acme_run :: "acme_lib \<Rightarrow> manager \<Rightarrow> nat \<Rightarrow> unit aio" where
  "acme_run L m n = io_for [0..<n] (\<lambda>_. acme_tick L m)"

section \<open>The choice (\<open>setupTLS\<close>)\<close>

datatype tls_source = StaticCert tls_cert | ManagedCert manager

definition setup_tls :: "acme_lib \<Rightarrow> config \<Rightarrow> tls_source aio" where
  "setup_tls L cfg =
     (let t = cf_tls cfg; load = (\<lambda>c k. io_bind (on_world (tls_load (ac_x509 L) c k (cf_hostname cfg))) (\<lambda>cert. io_ret (StaticCert cert))) in
      if tls_cert_file t \<noteq> '''' \<and> tls_key_file t \<noteq> '''' then load (tls_cert_file t) (tls_key_file t)
      else if acme_enabled (tls_acme t)
      then io_bind (io_wrap ''configuring ACME'' (acme_new (tls_acme t) (cf_domains cfg))) (\<lambda>m.
           io_bind (io_wrap ''obtaining initial ACME certificate'' (acme_init L m)) (\<lambda>_.
           io_ret (ManagedCert m)))
      else load '''' '''')"

end
