(* ===== verification/Serve.thy ===== *)
theory Serve
  imports Certs Compose
begin

text \<open>
  The program, \<open>cmd/mailserver/main.go\<close>: its command line, the commands that create and delete a mailbox and
  print the DKIM record, and what \<open>serve\<close> does up to the point where the servers listen, with the wiring of all
  components, and how it ends. With it \<open>internal/realip/proxyproto.go\<close> and the health check of
  \<open>internal/metrics/server.go\<close>. Messages on standard error and the log are left out.
\<close>

section \<open>The command line\<close>

text \<open>
  \<open>FlagSet.Parse\<close> with \<open>ExitOnError\<close>: the flags with whether they are boolean; the result is the value set last for
  each name, or the exit status.
\<close>

definition flag_name :: "string \<Rightarrow> string option" where
  "flag_name s =
     (if length s < 2 \<or> hd s \<noteq> CHR ''-'' \<or> s = ''--'' then None else Some (if s ! 1 = CHR ''-'' then drop 2 s else tl s))"

fun parse_flags :: "(string \<times> bool) list \<Rightarrow> string list \<Rightarrow> (string \<times> string) list \<Rightarrow> nat + (string \<times> string) list" where
  "parse_flags defs [] vals = Inr vals"
| "parse_flags defs (s # args) vals =
     (case flag_name s of
        None \<Rightarrow> Inr vals
      | Some n \<Rightarrow>
          if n = '''' \<or> hd n = CHR ''-'' \<or> hd n = CHR ''='' then Inl 2
          else (case (case cut_byte (CHR ''='') n of None \<Rightarrow> (n, None) | Some (a, v) \<Rightarrow> (a, Some v)) of (name, val) \<Rightarrow>
            (case map_of defs name of
               None \<Rightarrow> if name = ''help'' \<or> name = ''h'' then Inl 0 else Inl 2
             | Some True \<Rightarrow>
                 (case val of
                    None \<Rightarrow> parse_flags defs args ((name, ''true'') # vals)
                  | Some v \<Rightarrow> if parse_bool v = None then Inl 2 else parse_flags defs args ((name, v) # vals))
             | Some False \<Rightarrow>
                 (case val of
                    Some v \<Rightarrow> parse_flags defs args ((name, v) # vals)
                  | None \<Rightarrow> (case args of [] \<Rightarrow> Inl 2 | v # rest \<Rightarrow> parse_flags defs rest ((name, v) # vals))))))"

definition flag_value :: "(string \<times> string) list \<Rightarrow> string \<Rightarrow> string \<Rightarrow> string" where
  "flag_value vals name dflt = (case map_of vals name of None \<Rightarrow> dflt | Some v \<Rightarrow> v)"

definition default_config :: string where "default_config = ''/etc/mailserver/config.yaml''"

section \<open>Exit\<close>

text \<open>\<open>Inl c\<close> is \<open>os.Exit(c)\<close>, \<open>Inr\<close> what a command printed or built.\<close>

type_synonym ('s, 'a) prog = "('s, nat + 'a) io"

definition exit_with :: "nat \<Rightarrow> ('s, 'a) prog" where
  "exit_with c = io_ret (Inl c)"

definition or_exit :: "('s, 'b) io \<Rightarrow> ('b \<Rightarrow> ('s, 'a) prog) \<Rightarrow> ('s, 'a) prog" where
  "or_exit m k = io_either m (\<lambda>_. exit_with 1) k"

text \<open>
  What the program takes from its libraries and its environment: the YAML decoder, the environment variables, bcrypt,
  the drivers' reading of the DSN, the formats, the verification of mail, \<open>net.Listen\<close> and the PROXY
  protocol policy.
\<close>

record program =
  pg_unmarshal :: "string \<Rightarrow> goerr + config"
  pg_env :: "string \<Rightarrow> string option"
  pg_bcrypt :: bcrypt
  pg_pragma_fk :: "string \<Rightarrow> bool"
  pg_fmt_date :: "int \<Rightarrow> string"
  pg_auth :: auth_lib
  pg_rsa :: rsa_lib
  pg_acme :: acme_lib
  pg_match_list :: "string \<Rightarrow> string \<Rightarrow> string \<Rightarrow> bool"
  pg_webmail :: webmail
  pg_listen :: "string \<Rightarrow> goerr + unit"
  pg_policy :: "string list \<Rightarrow> goerr + unit"
  pg_quote :: "string \<Rightarrow> string"

definition read_config :: "program \<Rightarrow> string \<Rightarrow> config wio" where
  "read_config P file = (\<lambda>w. case os_read_file (config_path file) w of
     (r, w') \<Rightarrow> (load_config (pg_unmarshal P) (pg_env P) r, w'))"

text \<open>\<open>loadConfig\<close>: the flag \<open>config\<close> alone.\<close>

definition load_config_cmd :: "program \<Rightarrow> string list \<Rightarrow> (config \<Rightarrow> (world, 'a) prog) \<Rightarrow> (world, 'a) prog" where
  "load_config_cmd P args k =
     (case parse_flags [(''config'', False)] args [] of
        Inl c \<Rightarrow> exit_with c
      | Inr vals \<Rightarrow> or_exit (read_config P (flag_value vals ''config'' default_config)) k)"

section \<open>Mailboxes from the command line\<close>

definition show_bool :: "bool \<Rightarrow> string" where
  "show_bool b = (if b then ''true'' else ''false'')"

definition cmd_user_create :: "program \<Rightarrow> string list \<Rightarrow> (world, string list) prog" where
  "cmd_user_create P args =
     (case parse_flags [(''config'', False), (''email'', False), (''password'', False), (''admin'', True)] args [] of
        Inl c \<Rightarrow> exit_with c
      | Inr vals \<Rightarrow>
          let email = flag_value vals ''email'' ''''; password = flag_value vals ''password'' '''';
              admin = (parse_bool (flag_value vals ''admin'' ''false'') = Some True) in
          if email = '''' \<or> password = '''' then exit_with 2
          else or_exit (read_config P (flag_value vals ''config'' default_config)) (\<lambda>cfg.
            case addr_split email of (local_part, domain, ok) \<Rightarrow>
            if \<not> ok then exit_with 1
            else if \<not> is_local_domain cfg domain then exit_with 1
            else or_exit (store_open (pg_pragma_fk P) (db_driver (cf_database cfg)) (db_dsn (cf_database cfg))) (\<lambda>s.
              or_exit (create_user (pg_bcrypt P) s domain local_part password admin) (\<lambda>u.
              or_exit (provision_mailboxes cfg s u) (\<lambda>_.
              io_ret (Inr [''created mailbox '' @ usr_email u @ '' (id='' @ show_int (usr_id u) @ '', admin='' @ show_bool (usr_is_admin u) @ '')'']))))))"

definition cmd_user_delete :: "program \<Rightarrow> string list \<Rightarrow> (world, string list) prog" where
  "cmd_user_delete P args =
     (case parse_flags [(''config'', False), (''email'', False)] args [] of
        Inl c \<Rightarrow> exit_with c
      | Inr vals \<Rightarrow>
          let email = flag_value vals ''email'' '''' in
          if email = '''' then exit_with 2
          else or_exit (read_config P (flag_value vals ''config'' default_config)) (\<lambda>cfg.
            or_exit (store_open (pg_pragma_fk P) (db_driver (cf_database cfg)) (db_dsn (cf_database cfg))) (\<lambda>s.
            or_exit (get_user_by_email email) (\<lambda>u.
            or_exit (delete_user s (usr_id u)) (\<lambda>_.
            case addr_split (usr_email u) of (local_part, domain, ok) \<Rightarrow>
            or_exit (os_remove_all (user_root (maildir_base cfg) domain local_part)) (\<lambda>_.
            io_ret (Inr [''deleted mailbox '' @ usr_email u])))))))"

definition cmd_user :: "program \<Rightarrow> string list \<Rightarrow> (world, string list) prog" where
  "cmd_user P args =
     (case args of
        [] \<Rightarrow> exit_with 2
      | a # rest \<Rightarrow>
          if a = ''create'' then cmd_user_create P rest
          else if a = ''delete'' then cmd_user_delete P rest
          else exit_with 2)"

definition cmd_dkim :: "program \<Rightarrow> string list \<Rightarrow> (world, string list) prog" where
  "cmd_dkim P args =
     (if args = [] \<or> hd args \<noteq> ''show'' then exit_with 2
      else load_config_cmd P (tl args) (\<lambda>cfg.
        or_exit (load_or_generate_key (pg_rsa P) (dk_private_key_path (cf_dkim cfg))) (\<lambda>(key, generated).
        or_exit (from_sum (dns_record (pg_rsa P) key)) (\<lambda>rec.
        io_ret (Inr (map (\<lambda>d. dk_selector (cf_dkim cfg) @ ''._domainkey.'' @ d @ ''.  IN TXT  '' @ pg_quote P rec) (cf_domains cfg)))))))"

section \<open>Listeners\<close>

text \<open>\<open>WrapProxyProto\<close>: without trusted ranges the listener is returned as it is.\<close>

datatype listener = Listener string | ProxyListener string "string list"

definition wrap_proxy_proto :: "(string list \<Rightarrow> goerr + unit) \<Rightarrow> string \<Rightarrow> string list \<Rightarrow> goerr + listener" where
  "wrap_proxy_proto policy addr trusted =
     (if trusted = [] then Inr (Listener addr)
      else map_sum (Wrapped ''invalid trusted_proxies for PROXY protocol'') (\<lambda>_. ProxyListener addr trusted) (policy trusted))"

text \<open>\<open>/healthz\<close>.\<close>

definition healthz :: "unit wio \<Rightarrow> nat wio" where
  "healthz check = io_either check (\<lambda>_. io_ret 503) (\<lambda>_. io_ret 200)"

definition db_ping :: "unit wio" where
  "db_ping = db_select (\<lambda>_. ())"

text \<open>The settings of an SMTP server; times in nanoseconds.\<close>

record smtp_server =
  sx_addr :: string
  sx_domain :: string
  sx_allow_insecure_auth :: bool
  sx_tls :: "tls_source option"
  sx_read_timeout :: int
  sx_write_timeout :: int
  sx_max_message_bytes :: int
  sx_max_recipients :: int

section \<open>Serving\<close>

definition ensure_domains :: "store \<Rightarrow> string list \<Rightarrow> unit wio" where
  "ensure_domains s ds w = io_for ds (\<lambda>d. io_bind (ensure_domain s d) (\<lambda>_. io_ret ())) w"

text \<open>The administrator of the configuration; an error here ends the program.\<close>

definition bootstrap_admin :: "program \<Rightarrow> config \<Rightarrow> store \<Rightarrow> unit wio" where
  "bootstrap_admin P cfg s w =
     (let email = admin_config.ad_email (cf_admin cfg); password = ad_password (cf_admin cfg) in
      if email = '''' \<or> password = '''' then io_ret () w
      else io_either (get_user_by_email email)
        (\<lambda>e. if e \<noteq> ErrNotFound then io_ret ()
          else case addr_split email of (local_part, domain, ok) \<Rightarrow>
            if \<not> ok then io_fail (ErrMsg ''invalid admin.email in config'')
            else io_bind (create_user (pg_bcrypt P) s domain local_part password True) (\<lambda>admin.
              provision_mailboxes cfg s admin))
        (\<lambda>_. io_ret ()) w)"

definition new_auth_limiter :: "config \<Rightarrow> limiter" where
  "new_auth_limiter cfg = (let c = sec_auth_rate_limit (cf_security cfg) in
     new_limiter (rl_max_attempts c) (rl_window_minutes c * minute) (rl_ban_minutes c * minute))"

record system =
  sy_config :: config
  sy_store :: store
  sy_tls :: tls_source
  sy_queue :: queue
  sy_inbound :: inbound_backend
  sy_inbound_server :: smtp_server
  sy_submission :: submission_backend
  sy_submission_server :: smtp_server
  sy_submission_limiter :: limiter
  sy_submission_listener :: listener
  sy_imap :: srv
  sy_imap_listener :: listener
  sy_webmail :: webmail
  sy_web_limiter :: limiter
  sy_sessions :: "(string \<times> web_session) list"

text \<open>\<open>inbound_server\<close> has no TLS and never authenticates.\<close>

definition smtp_settings :: "string \<Rightarrow> string \<Rightarrow> bool \<Rightarrow> tls_source option \<Rightarrow> smtp_server" where
  "smtp_settings addr domain insecure tls =
     \<lparr>sx_addr = addr, sx_domain = domain, sx_allow_insecure_auth = insecure, sx_tls = tls,
      sx_read_timeout = 5 * 60 * 10 ^ 9, sx_write_timeout = 5 * 60 * 10 ^ 9,
      sx_max_message_bytes = 32 * 1024 * 1024, sx_max_recipients = 100\<rparr>"

text \<open>The store and its contents, before any server is built.\<close>

definition open_directory :: "program \<Rightarrow> config \<Rightarrow> store wio" where
  "open_directory P cfg w =
     io_bind (os_mkdir_all (config_path (st_maildir_path (cf_storage cfg)))) (\<lambda>_.
     io_bind (store_open (pg_pragma_fk P) (db_driver (cf_database cfg)) (db_dsn (cf_database cfg))) (\<lambda>s.
     io_bind (ensure_domains s (cf_domains cfg)) (\<lambda>_.
     io_bind (bootstrap_admin P cfg s) (\<lambda>_.
     io_ret s)))) w"

text \<open>The listener of a TCP address, wrapped for the PROXY protocol.\<close>

definition open_listener :: "program \<Rightarrow> config \<Rightarrow> string \<Rightarrow> goerr + listener" where
  "open_listener P cfg addr =
     (case pg_listen P addr of
        Inl e \<Rightarrow> Inl e
      | Inr u \<Rightarrow> wrap_proxy_proto (pg_policy P) addr (sec_trusted_proxies (cf_security cfg)))"

definition build_system :: "program \<Rightarrow> config \<Rightarrow> store \<Rightarrow> tls_source \<Rightarrow> queue \<Rightarrow> string \<Rightarrow> trusted_proxies \<Rightarrow> listener \<Rightarrow> listener \<Rightarrow> system" where
  "build_system P cfg s tls q key trusted sub imap =
     (let sender = \<lparr>sn_config = cfg, sn_sign = Some (signer (pg_rsa P) (dk_selector (cf_dkim cfg)) key)\<rparr>;
          backend = \<lparr>bk_config = cfg, bk_store = s, bk_bcrypt = pg_bcrypt P, bk_match_list = pg_match_list P\<rparr> in
      \<lparr>sy_config = cfg, sy_store = s, sy_tls = tls, sy_queue = q,
       sy_inbound = \<lparr>ib_config = cfg, ib_queue = True, ib_auth = pg_auth P, ib_fmt_date = pg_fmt_date P\<rparr>,
       sy_inbound_server = smtp_settings (ls_smtp (cf_listen cfg)) (cf_hostname cfg) True None,
       sy_submission = \<lparr>su_sender = sender, su_bcrypt = pg_bcrypt P, su_fmt_date = pg_fmt_date P\<rparr>,
       sy_submission_server = smtp_settings '''' (cf_hostname cfg) False (Some tls),
       sy_submission_limiter = new_auth_limiter cfg, sy_submission_listener = sub,
       sy_imap = new_backend (Some (new_auth_limiter cfg)), sy_imap_listener = imap,
       sy_webmail = (pg_webmail P)\<lparr>wm_backend := backend, wm_sender := sender, wm_hostname := cf_hostname cfg, wm_trusted := trusted\<rparr>,
       sy_web_limiter = new_auth_limiter cfg, sy_sessions = new_session_store\<rparr>)"

text \<open>\<open>cmdServe\<close> until the servers listen; every error ends the program with status 1.\<close>

definition cmd_serve :: "program \<Rightarrow> string list \<Rightarrow> (world \<times> acme_state, system) prog" where
  "cmd_serve P args =
     (case parse_flags [(''config'', False)] args [] of
        Inl c \<Rightarrow> exit_with c
      | Inr vals \<Rightarrow>
          or_exit (on_world (read_config P (flag_value vals ''config'' default_config))) (\<lambda>cfg.
          or_exit (on_world (open_directory P cfg)) (\<lambda>s.
          or_exit (setup_tls (pg_acme P) cfg) (\<lambda>tls.
          or_exit (on_world (open_mail_queue (pg_fmt_date P) cfg)) (\<lambda>q.
          or_exit (on_world (load_or_generate_key (pg_rsa P) (dk_private_key_path (cf_dkim cfg)))) (\<lambda>(key, generated).
          or_exit (from_sum (parse_trusted (sec_trusted_proxies (cf_security cfg)))) (\<lambda>trusted.
          or_exit (from_sum (open_listener P cfg (ls_submission (cf_listen cfg)))) (\<lambda>sub.
          or_exit (from_sum (open_listener P cfg (ls_imap (cf_listen cfg)))) (\<lambda>imap.
          io_ret (Inr (build_system P cfg s tls q key trusted sub imap)))))))))))"

text \<open>What \<open>webmail.New\<close> starts from.\<close>

definition served_web :: "system \<Rightarrow> web" where
  "served_web S = \<lparr>wb_srv = sy_imap S, wb_limiter = Some (sy_web_limiter S), wb_sessions = sy_sessions S\<rparr>"

text \<open>
  The end of \<open>serve\<close>: the first server that returns, with its error, or the signal. The errors of a closed
  server are named by their texts; \<open>errors.Is\<close> sees through wrapping.
\<close>

datatype stop_reason = ServerReturned "goerr option" | SignalReceived

fun errors_is :: "goerr \<Rightarrow> goerr \<Rightarrow> bool" where
  "errors_is (Wrapped m e) target \<longleftrightarrow> Wrapped m e = target \<or> errors_is e target"
| "errors_is e target \<longleftrightarrow> e = target"

definition server_closed_errors :: "goerr list" where
  "server_closed_errors = [ErrMsg ''smtp: Server closed'', ErrMsg ''use of closed network connection'', ErrMsg ''http: Server closed'']"

text \<open>The servers started, with what each listens on, in the order in which they are shut down.\<close>

definition running_servers :: "system \<Rightarrow> (string \<times> listener) list" where
  "running_servers S = (let ls = cf_listen (sy_config S) in
     [(''inbound'', Listener (ls_smtp ls)), (''submission'', sy_submission_listener S), (''imap'', sy_imap_listener S),
      (''webmail'', Listener (ls_webmail ls)), (''metrics'', Listener (ls_metrics ls))])"

text \<open>The exit status, and the servers shut down on the way.\<close>

definition serve_end :: "system \<Rightarrow> stop_reason \<Rightarrow> nat \<times> string list" where
  "serve_end S r =
     (case r of
        ServerReturned (Some e) \<Rightarrow> (if \<not> list_ex (errors_is e) server_closed_errors then 1 else 0, [])
      | ServerReturned None \<Rightarrow> (0, [])
      | SignalReceived \<Rightarrow> (0, map fst (running_servers S)))"

datatype outcome = Serving system | Printed "string list" | Exited nat

definition main_cmd :: "program \<Rightarrow> string list \<Rightarrow> (world \<times> acme_state, outcome) io" where
  "main_cmd P args =
     (let shown = (\<lambda>m. io_bind (on_world m) (\<lambda>r. io_ret (case r of Inl c \<Rightarrow> Exited c | Inr ls \<Rightarrow> Printed ls))) in
      case args of
        [] \<Rightarrow> io_ret (Exited 2)
      | a # rest \<Rightarrow>
          if a = ''serve'' then io_bind (cmd_serve P rest) (\<lambda>r. io_ret (case r of Inl c \<Rightarrow> Exited c | Inr s \<Rightarrow> Serving s))
          else if a = ''user'' then shown (cmd_user P rest)
          else if a = ''dkim'' then shown (cmd_dkim P rest)
          else if a \<in> {''-h'', ''--help'', ''help''} then io_ret (Printed [])
          else io_ret (Exited 2))"

end
