(* ===== verification/CertsInv.thy ===== *)
theory CertsInv
  imports Certs WebmailSafe
begin

text \<open>
  Properties of keys and certificates: the DKIM key survives restarts, and the ACME manager never
  stops serving and does not ask for a certificate it has.
\<close>

section \<open>Files written whole\<close>

lemma triple_open_trunc:
  "triple (\<lambda>w. tree w = T) (os_open_trunc p)
     (\<lambda>_ w. p \<noteq> [] \<and> tree w = T(p \<mapsto> Some [])) (\<lambda>_ w. tree w = T)"
  unfolding os_open_trunc_def
  by (rule triple_may_fail) (auto simp: triple_def is_dir_def)

lemma triple_write_file:
  "triple (\<lambda>w. tree w = T) (os_write_file p d)
     (\<lambda>_ w. p \<noteq> [] \<and> tree w = T(p \<mapsto> Some d)) (\<lambda>_ w. \<forall>q. q \<noteq> p \<longrightarrow> tree w q = T q)"
  unfolding os_write_file_def
proof (rule triple_bind)
  show "triple (\<lambda>w. tree w = T) (os_open_trunc p) (\<lambda>_ w. p \<noteq> [] \<and> tree w = T(p \<mapsto> Some [])) (\<lambda>_ w. \<forall>q. q \<noteq> p \<longrightarrow> tree w q = T q)"
    by (rule triple_weaken [OF triple_open_trunc]) auto
  let ?E = "\<lambda>(_ :: goerr) w. \<forall>q. q \<noteq> p \<longrightarrow> tree w q = T q"
  show "triple (\<lambda>w. p \<noteq> [] \<and> tree w = T(p \<mapsto> Some [])) (io_either (file_write p d)
       (\<lambda>e. io_bind (io_ignore file_close) (\<lambda>_. io_fail e)) (\<lambda>_. file_close)) (\<lambda>_ w. p \<noteq> [] \<and> tree w = T(p \<mapsto> Some d)) ?E"
  proof (cases "p = []")
    case False
    show ?thesis
    proof (rule triple_either)
      show "triple (\<lambda>w. p \<noteq> [] \<and> tree w = T(p \<mapsto> Some [])) (file_write p d)
          (\<lambda>_ w. tree w = T(p \<mapsto> Some d)) (\<lambda>_ w. tree w = T(p \<mapsto> Some []))"
        by (rule triple_weaken [OF triple_file_write [of "T(p \<mapsto> Some [])" p "[]" d]]) auto
      show "triple (\<lambda>w. tree w = T(p \<mapsto> Some [])) (io_bind (io_ignore file_close) (\<lambda>_. io_fail e)) (\<lambda>_ w. p \<noteq> [] \<and> tree w = T(p \<mapsto> Some d)) ?E" for e
        by (rule triple_bind [OF triple_ignore [OF triple_file_close]]) (auto intro!: triple_fail)
      show "triple (\<lambda>w. tree w = T(p \<mapsto> Some d)) file_close (\<lambda>_ w. p \<noteq> [] \<and> tree w = T(p \<mapsto> Some d)) ?E"
        by (rule triple_weaken [OF triple_file_close]) (use False in auto)
    qed
  qed (simp add: triple_def)
qed

lemma write_file_run:
  assumes "os_write_file p d w = (Inr u, w')"
  shows "p \<noteq> [] \<and> tree w' = (tree w)(p \<mapsto> Some d)"
  using tripleD_ok [OF triple_write_file refl assms] by simp

lemma read_file_calm:
  assumes "tree w p = Some (Some d)" and "faults w = []"
  shows "os_read_file p w = (Inr d, w)"
  using assms by (auto simp: os_read_file_def may_fail_def tree_file_iff)

lemma read_file_run: "os_read_file p w = (Inr d, w') \<Longrightarrow> tree w' = tree w \<and> tree w p = Some (Some d)"
  using tripleD_ok [OF triple_read_file refl] by metis

section \<open>The DKIM key\<close>

text \<open>
  C32: The DKIM key survives restarts. Whenever \<open>LoadOrGenerateKey\<close> succeeds, loading or generating, every
  later call that meets no failure returns the same key, reports that it generated nothing and changes no
  file; so the published DNS record stays right. The hypotheses state that the PEM and PKCS1 codecs decode
  what they encoded.
\<close>

theorem dkim_key_stable:
  assumes "\<And>d. pem_decode R (pem_encode R ''RSA PRIVATE KEY'' d) = Some d" and "\<And>k. rsa_parse R (rsa_marshal R k) = Inr k"
    and "load_or_generate_key R file w = (Inr (k, g), w')" and "faults w' = []"
  shows "load_or_generate_key R file w' = (Inr (k, False), w')"
proof -
  let ?p = "config_path file"
  have "\<exists>buf der. tree w' ?p = Some (Some buf) \<and> pem_decode R buf = Some der \<and> rsa_parse R der = Inr k"
  proof (cases "os_read_file ?p w")
    case (Pair r w1)
    show ?thesis
    proof (cases r)
      case (Inr buf)
      with assms(3) Pair obtain der where "pem_decode R buf = Some der" "rsa_parse R der = Inr k" "w' = w1"
        by (auto simp: load_or_generate_key_def io_simps from_sum_def Let_def split: option.splits sum.splits prod.splits)
      with read_file_run [of ?p w buf w1] Pair Inr show ?thesis by auto
    next
      case (Inl e)
      with assms(3) Pair obtain v v' u where "os_write_file ?p (pem_encode R ''RSA PRIVATE KEY'' (rsa_marshal R k)) v = (Inr u, v')" "w' = v'"
        by (auto simp: load_or_generate_key_def io_simps from_sum_def Let_def split: option.splits sum.splits prod.splits if_splits)
      with write_file_run assms(1,2) show ?thesis by auto
    qed
  qed
  with assms(4) show ?thesis
    by (auto simp: load_or_generate_key_def io_simps from_sum_def read_file_calm Let_def)
qed

text \<open>A codec for the witnesses, and a first start.\<close>

definition plain_rsa :: rsa_lib where
  "plain_rsa = \<lparr>rsa_generate = Inr, rsa_marshal = id, rsa_parse = Inr, rsa_public = Inr, pem_encode = \<lambda>t d. CHR ''-'' # d,
     pem_decode = \<lambda>b. case b of [] \<Rightarrow> None | c # d \<Rightarrow> Some d, dkim_sign = \<lambda>_. Inr\<rparr>"

lemma first_start:
  "map_sum id (\<lambda>(k, g). (length k, g)) (fst (load_or_generate_key plain_rsa ''data/dkim.key'' blank_world)) = Inr (256, True) \<and>
   faults (snd (load_or_generate_key plain_rsa ''data/dkim.key'' blank_world)) = []"
  by code_simp

lemma dkim_key_stable_witness:
  "\<exists>k w'. load_or_generate_key plain_rsa ''data/dkim.key'' blank_world = (Inr (k, True), w') \<and>
     load_or_generate_key plain_rsa ''data/dkim.key'' w' = (Inr (k, False), w')"
proof -
  obtain x w' where run: "load_or_generate_key plain_rsa ''data/dkim.key'' blank_world = (x, w')" by fastforce
  with first_start obtain k where "x = Inr (k, True)" "faults w' = []" by (cases x) auto
  with dkim_key_stable [of plain_rsa "''data/dkim.key''" blank_world k True w'] run show ?thesis
    by (auto simp: plain_rsa_def)
qed

text \<open>A start that could not write the new key leaves an empty file, and no later start gets past it.\<close>

lemma interrupted_start:
  "let w = snd (load_or_generate_key plain_rsa ''dkim.key'' (blank_world\<lparr>faults := [False, False, False, False, True]\<rparr>)) in
   tree w [''dkim.key''] = Some (Some '''') \<and>
   fst (load_or_generate_key plain_rsa ''dkim.key'' w) = Inl (ErrMsg ''no PEM data found in dkim.key'')"
  by code_simp

section \<open>The ACME manager\<close>

text \<open>
  \<open>stays m s t\<close>: from the state \<open>s\<close> to \<open>t\<close> the certificate is the same or one the authority issued
  meanwhile, with a key that fits it, and only the configured authority was contacted.
\<close>

definition configured_ca :: "manager \<Rightarrow> acme_ca" where
  "configured_ca m = (if acme_staging (mgr_cfg m) then LEStaging else LEProduction)"

definition stays :: "acme_lib \<Rightarrow> manager \<Rightarrow> world \<times> acme_state \<Rightarrow> world \<times> acme_state \<Rightarrow> bool" where
  "stays L m s t \<longleftrightarrow> set (am_obtain (snd t)) \<subseteq> set (am_obtain (snd s)) \<and>
     set (am_contacted (snd t)) \<subseteq> insert (configured_ca m) (set (am_contacted (snd s))) \<and>
     (am_cert (snd t) = am_cert (snd s) \<or> (\<exists>chain key. Inr (chain, key) \<in> set (am_obtain (snd s)) \<and>
        x_pair (ac_x509 L) chain key = None \<and> am_cert (snd t) = Some \<lparr>tc_chain = chain, tc_key = key\<rparr>))"

interpretation acop: effect "stays L m" for L m
proof unfold_locales
  show "stays L m s s" for s by (auto simp: stays_def)
  show "stays L m s t \<Longrightarrow> stays L m t u \<Longrightarrow> stays L m s u" for s t u
    unfolding stays_def by (elim conjE disjE exE) (auto 4 4)
qed

lemma stays_world: "keeps (stays L m) (on_world f)"
  by (auto simp: keeps_def stays_def on_world_def split: prod.splits)

lemma stays_the: "keeps (stays L m) the_acme"
  unfolding the_acme_def by (rule acop.keeps_rules)

lemma stays_from_sum: "keeps (stays L m) (from_sum r)"
  by (cases r) (auto simp: from_sum_def intro: acop.keeps_rules)

lemma in_set_tl: "x \<in> set (tl xs) \<Longrightarrow> x \<in> set xs"
  by (cases xs) auto

lemma stays_next:
  "keeps (stays L m) (next_outcome am_directory am_directory_update)"
  "keeps (stays L m) (next_outcome am_register am_register_update)"
  "keeps (stays L m) (next_outcome am_obtain am_obtain_update)"
  unfolding next_outcome_def
  by (intro acop.keeps_rules stays_the stays_from_sum;
      auto simp: keeps_def stays_def upd_acme_def io_modify_def dest: in_set_tl)+

lemma stays_needs_renewal: "keeps (stays L m) (needs_renewal L)"
  unfolding needs_renewal_def
  by (auto intro!: acop.keeps_rules stays_the stays_world split: option.splits)

lemma stays_save: "keeps (stays L m) (save_account L m u)"
  unfolding save_account_def by (intro acop.keeps_rules stays_world stays_from_sum)

lemma stays_triple: "keeps (stays L m) f \<Longrightarrow> triple (stays L m s) f (\<lambda>_. stays L m s) (\<lambda>_. stays L m s)"
  by (rule tripleI) (metis acop.R_trans keepsD snd_conv)+

lemma triple_obtain_outcome:
  "triple (stays L m s) (next_outcome am_obtain am_obtain_update)
     (\<lambda>(chain, key) t. stays L m s t \<and> Inr (chain, key) \<in> set (am_obtain (snd s))) (\<lambda>_. stays L m s)"
proof (rule tripleI)
  fix t x t'
  assume st: "stays L m s t" and run: "next_outcome am_obtain am_obtain_update t = (Inr x, t')"
  have "stays L m s t'" by (rule tripleD_ok [OF stays_triple [OF stays_next(3)] st run])
  moreover from run obtain rs where "am_obtain (snd t) = Inr x # rs"
    by (cases t) (auto simp: next_outcome_def the_acme_def upd_acme_def io_simps from_sum_def split: list.splits sum.splits)
  then have "Inr x \<in> set (am_obtain (snd t))" by simp
  with st have "Inr x \<in> set (am_obtain (snd s))" by (auto simp: stays_def)
  ultimately show "(case x of (chain, key) \<Rightarrow> \<lambda>t. stays L m s t \<and> Inr (chain, key) \<in> set (am_obtain (snd s))) t'" by (cases x) simp
next
  show "stays L m s t'" if "stays L m s t" "next_outcome am_obtain am_obtain_update t = (Inl e, t')" for t e t'
    by (rule tripleD_err [OF stays_triple [OF stays_next(3)] that])
qed

lemma stays_set_cert:
  "stays L m s t \<Longrightarrow> Inr (chain, key) \<in> set (am_obtain (snd s)) \<Longrightarrow> key_pair (ac_x509 L) chain key = Inr c \<Longrightarrow>
     stays L m s (fst t, (snd t)\<lparr>am_cert := Some c\<rparr>)"
  by (auto simp: stays_def key_pair_def split: option.splits)

lemma stays_install:
  "triple (\<lambda>t. stays L m s t \<and> Inr (chain, key) \<in> set (am_obtain (snd s)))
     (io_bind (io_wrap e (from_sum (key_pair (ac_x509 L) chain key))) (\<lambda>c. upd_acme (\<lambda>a. a\<lparr>am_cert := Some c\<rparr>)))
     (\<lambda>_. stays L m s) (\<lambda>_. stays L m s)"
  by (rule tripleI) (auto simp: io_simps from_sum_def upd_acme_def split: sum.splits dest: stays_set_cert)

lemma stays_prefix:
  "keeps (stays L m) (io_wrap e1 (load_or_register_account L m))" "keeps (stays L m) (dns_provider L m)"
  "keeps (stays L m) (upd_acme (\<lambda>a. a\<lparr>am_contacted := am_contacted a @ [if acme_staging (mgr_cfg m) then LEStaging else LEProduction]\<rparr>))"
  unfolding load_or_register_account_def dns_provider_def
  by (auto intro!: acop.keeps_rules stays_world stays_the stays_from_sum split: option.splits)
    (auto simp: keeps_def stays_def upd_acme_def io_modify_def configured_ca_def)

lemma stays_obtain: "keeps (stays L m) (obtain_cert L m)"
proof -
  have run: "triple (stays L m s) (obtain_cert L m) (\<lambda>_. stays L m s) (\<lambda>_. stays L m s)" for s
    unfolding obtain_cert_def Let_def
  proof (rule triple_bind [OF stays_triple [OF stays_prefix(1)]], rule triple_bind [OF stays_triple [OF stays_prefix(3)]],
      rule triple_bind [OF stays_triple [OF acop.keeps_wrap [OF stays_next(1)]]],
      rule triple_bind [OF stays_triple [OF stays_prefix(2)]], rule triple_bind [OF stays_triple [OF acop.keeps_wrap [OF stays_from_sum]]],
      rule triple_bind, rule stays_triple)
    show "keeps (stays L m) (if acu_reg u = None
         then io_bind (io_wrap ''registering ACME account'' (next_outcome am_register am_register_update)) (\<lambda>reg.
              io_wrap ''saving ACME account'' (save_account L m (u\<lparr>acu_reg := Some reg\<rparr>)))
         else io_ret ())" for u
      by (intro acop.keeps_rules stays_next stays_save)
    have put: "triple (\<lambda>t. stays L m s t \<and> c) (io_wrap e (on_world f)) (\<lambda>_ t. stays L m s t \<and> c) (\<lambda>_. stays L m s)"
      for c e and f :: "unit wio"
      by (rule triple_pure, rule triple_weaken [OF stays_triple [OF acop.keeps_wrap [OF stays_world]]]) auto
    let ?k = "\<lambda>chain key. io_bind (io_wrap ''writing certificate'' (on_world (os_write_file (cert_path m) chain))) (\<lambda>_.
        io_bind (io_wrap ''writing certificate key'' (on_world (os_write_file (key_path m) key))) (\<lambda>_.
        io_bind (io_wrap ''parsing obtained certificate'' (from_sum (key_pair (ac_x509 L) chain key))) (\<lambda>c.
        upd_acme (\<lambda>a. a\<lparr>am_cert := Some c\<rparr>))))"
    have "triple (\<lambda>t. stays L m s t \<and> Inr (chain, key) \<in> set (am_obtain (snd s))) (?k chain key) (\<lambda>_. stays L m s) (\<lambda>_. stays L m s)" for chain key
      by (rule triple_bind [OF put], rule triple_bind [OF put], rule stays_install)
    then show "triple (stays L m s) (io_bind (io_wrap ''obtaining certificate'' (next_outcome am_obtain am_obtain_update)) (\<lambda>(chain, key). ?k chain key))
        (\<lambda>_. stays L m s) (\<lambda>_. stays L m s)"
      by (intro triple_bind [OF triple_wrap [OF triple_obtain_outcome]]) (auto split: prod.splits)
  qed
  have "stays L m s (snd (obtain_cert L m s))" for s
  proof -
    obtain x t where e: "obtain_cert L m s = (x, t)" by (metis surj_pair)
    have "stays L m s t"
    proof (cases x)
      case (Inl b)
      show ?thesis by (rule tripleD_err [OF run acop.R_refl e [unfolded Inl]])
    next
      case (Inr u)
      show ?thesis by (rule tripleD_ok [OF run acop.R_refl e [unfolded Inr]])
    qed
    then show ?thesis by (simp add: e)
  qed
  then show ?thesis by (simp add: keeps_def)
qed

lemma stays_run: "keeps (stays L m) (acme_run L m n)"
  unfolding acme_run_def acme_tick_def
  by (intro acop.keeps_rules stays_needs_renewal stays_obtain)

lemma acme_run_total: "fst (acme_run L m n t) = Inr ()"
proof -
  have renew: "\<exists>b t'. needs_renewal L t = (Inr b, t')" for t
  proof (cases t)
    case (Pair w a)
    obtain now w' where "time_now w = (Inr now, w')" using time_now_run by blast
    with Pair show ?thesis
      by (auto simp: needs_renewal_def the_acme_def io_simps on_world_def split: option.splits)
  qed
  have "\<exists>t'. acme_tick L m t = (Inr (), t')" for t
  proof -
    obtain b t' where "needs_renewal L t = (Inr b, t')" using renew by blast
    then show ?thesis by (cases b) (auto simp: acme_tick_def io_simps)
  qed
  then have "\<exists>t'. io_for xs (\<lambda>_. acme_tick L m) t = (Inr (), t')" for xs :: "nat list" and t
  proof (induction xs arbitrary: t)
    case (Cons x xs)
    obtain t1 where "acme_tick L m t = (Inr (), t1)" using Cons.prems by blast
    with Cons.IH [OF Cons.prems, of t1] show ?case by (simp add: io_simps)
  qed (simp add: io_ret_def)
  then show ?thesis unfolding acme_run_def by (metis fst_conv)
qed

text \<open>
  C31: A server with a certificate never loses it. While the manager runs, any number of ticks, every failure of the
  network, the disk and the authority notwithstanding, \<open>GetCertificate\<close> answers with the certificate it had or with one the
  authority issued meanwhile together with a fitting key; and only the authority that the configuration
  names, staging or production, is ever contacted.
\<close>

theorem acme_keeps_serving:
  assumes "am_cert a = Some c" and "acme_run L m n (w, a) = (x, (w', a'))"
  shows "x = Inr () \<and> set (am_contacted a') \<subseteq> insert (configured_ca m) (set (am_contacted a)) \<and>
    (\<exists>c'. get_certificate (w', a') = (Inr c', (w', a')) \<and>
      (c' = c \<or> (\<exists>chain key. Inr (chain, key) \<in> set (am_obtain a) \<and> x_pair (ac_x509 L) chain key = None \<and>
         c' = \<lparr>tc_chain = chain, tc_key = key\<rparr>)))"
proof -
  have "stays L m (w, a) (w', a')" using keepsD [OF stays_run, of L m "(w, a)" n] assms(2) by simp
  moreover have "x = Inr ()" using acme_run_total [of L m n "(w, a)"] assms(2) by simp
  ultimately show ?thesis using assms(1)
    by (auto simp: stays_def get_certificate_def the_acme_def io_simps)
qed

lemma on_world_ok: "on_world f t = (Inr x, t') \<longleftrightarrow> (\<exists>w'. f (fst t) = (Inr x, w') \<and> t' = (w', snd t))"
  by (cases t) (auto simp: on_world_def split: prod.splits)

lemma from_sum_ok: "from_sum r t = (Inr x, t') \<longleftrightarrow> r = Inr x \<and> t' = t"
  by (cases r) (auto simp: from_sum_def io_simps)

text \<open>
  Restarting does not ask for another certificate. After the manager obtained a certificate, a manager that
  starts on the same cache directory, without failures and while the certificate has at least 30 days
  left, serves the same certificate; it contacts no authority and writes no file.
\<close>

theorem acme_restart:
  assumes "obtain_cert L m (w, a) = (Inr (), (w', a'))" and "am_cert a' = Some c" and "faults w' = []"
    and "x_not_after (ac_x509 L) (tc_chain c) = Some t" and "renew_before \<le> t - next_time w'"
  shows "\<exists>w''. ensure_certificate L m (w', a'\<lparr>am_cert := None\<rparr>) = (Inr (), (w'', a')) \<and> tree w'' = tree w'"
proof -
  from assms(1) obtain chain key u1 u2 v1 v2 v3 where
    w1: "os_write_file (cert_path m) chain v1 = (Inr u1, v2)" and w2: "os_write_file (key_path m) key v2 = (Inr u2, v3)"
    and pair: "key_pair (ac_x509 L) chain key = Inr c" and w': "w' = v3"
    using assms(2) unfolding obtain_cert_def Let_def io_bind_ok io_wrap_ok
    by (elim exE conjE) (auto simp: io_oks on_world_ok from_sum_ok upd_acme_def io_modify_def split: prod.splits)
  have "cert_path m \<noteq> key_path m" by (simp add: cert_path_def key_path_def plain_name_def)
  with write_file_run [OF w1] write_file_run [OF w2]
  have files: "tree w' (cert_path m) = Some (Some chain)" "tree w' (key_path m) = Some (Some key)" by (simp_all add: w')
  obtain w2 where now: "time_now w' = (Inr (next_time w'), w2)" "idle w' w2" using now_run by blast
  have c: "c = \<lparr>tc_chain = chain, tc_key = key\<rparr>" using pair by (auto simp: key_pair_def split: option.splits)
  have "a'\<lparr>am_cert := Some c\<rparr> = a'" using assms(2) by simp
  with files now assms(2-5) pair show ?thesis
    by (auto simp: ensure_certificate_def load_key_pair_def needs_renewal_def the_acme_def upd_acme_def io_simps on_world_def
        read_file_calm from_sum_def idle_def)
qed

text \<open>A manager for the witnesses, with an authority that answers once.\<close>

definition small_acme :: acme_lib where
  "small_acme = \<lparr>ac_x509 = \<lparr>x_pair = \<lambda>c k. None, x_not_after = \<lambda>c. Some (10 ^ 18), x_generate = Inr, x_create = \<lambda>t k. Inr k\<rparr>,
     ac_account_json = \<lambda>f. Inr (acf_email f), ac_parse_account = \<lambda>b. Inl ErrIO, ac_pem_decode = Some, ac_pem_encode = \<lambda>t b. b,
     ac_marshal_key = Inr, ac_parse_key = Inr, ac_generate = Inr, ac_cloudflare = \<lambda>e. Inr (), ac_set_dns01 = Inr ()\<rparr>"

definition small_manager :: manager where
  "small_manager = \<lparr>mgr_cfg = acme_cache_dir_update (\<lambda>_. ''acme'') (tls_acme (cf_tls zero_config)), mgr_domains = [''x.org'']\<rparr>"

definition acme_world :: world where
  "acme_world = blank_world\<lparr>nodes := [([''acme''], DirN)]\<rparr>"

definition small_acme_state :: acme_state where
  "small_acme_state = \<lparr>am_cert = None, am_env = [], am_contacted = [], am_directory = [Inr ()], am_register = [Inr ''reg''],
     am_obtain = [Inr (''chain'', ''key'')]\<rparr>"

lemma small_obtain:
  "case obtain_cert small_acme small_manager (acme_world, small_acme_state) of
     (x, (w', a')) \<Rightarrow> x = Inr () \<and> am_cert a' = Some \<lparr>tc_chain = ''chain'', tc_key = ''key''\<rparr> \<and> faults w' = [] \<and> next_time w' = 7"
  by code_simp

lemma acme_restart_witness:
  "\<exists>w' a' w''. obtain_cert small_acme small_manager (acme_world, small_acme_state) = (Inr (), (w', a')) \<and>
     ensure_certificate small_acme small_manager (w', a'\<lparr>am_cert := None\<rparr>) = (Inr (), (w'', a'))"
proof -
  obtain x w' a' where run: "obtain_cert small_acme small_manager (acme_world, small_acme_state) = (x, (w', a'))" by (metis surj_pair)
  with small_obtain have x: "x = Inr ()" "am_cert a' = Some \<lparr>tc_chain = ''chain'', tc_key = ''key''\<rparr>" "faults w' = []" "next_time w' = 7"
    by simp_all
  have "renew_before \<le> 10 ^ 18 - next_time w'" unfolding x(4) by (simp add: renew_before_def hour_def minute_def)
  from acme_restart [OF run [unfolded x(1)] x(2,3) _ this] run x(1) show ?thesis by (auto simp: small_acme_def)
qed

lemma acme_keeps_serving_witness:
  "\<exists>x w' a' c'. acme_run small_acme small_manager 5 (acme_world, small_acme_state\<lparr>am_cert := Some \<lparr>tc_chain = ''old'', tc_key = ''k''\<rparr>\<rparr>) = (x, (w', a')) \<and>
     get_certificate (w', a') = (Inr c', (w', a'))"
proof -
  obtain x w' a' where run: "acme_run small_acme small_manager 5 (acme_world, small_acme_state\<lparr>am_cert := Some \<lparr>tc_chain = ''old'', tc_key = ''k''\<rparr>\<rparr>) = (x, (w', a'))"
    by (metis surj_pair)
  have "am_cert (small_acme_state\<lparr>am_cert := Some \<lparr>tc_chain = ''old'', tc_key = ''k''\<rparr>\<rparr>) = Some \<lparr>tc_chain = ''old'', tc_key = ''k''\<rparr>" by simp
  from acme_keeps_serving [OF this run] run show ?thesis by blast
qed

end
