(* ===== verification/ServeInv.thy ===== *)
theory ServeInv
  imports Serve CertsInv
begin

text \<open>
  What the commands of the program achieve: a mailbox created from the command line can be used, the
  administrator of the configuration can sign in after the first start, and a later start changes nothing in the database.
\<close>

section \<open>Loops that build up\<close>

context effect
begin

lemma for_builds:
  assumes "io_for xs f s = (Inr u, t)"
    and "\<And>x. keeps R (f x)" and "\<And>x s t. x \<in> set xs \<Longrightarrow> f x s = (Inr (), t) \<Longrightarrow> D x t" and "\<And>x s t. R s t \<Longrightarrow> D x s \<Longrightarrow> D x t"
  shows "\<forall>x \<in> set xs. D x t"
  using assms(1,3)
proof (induction xs arbitrary: s)
  case (Cons x xs)
  then obtain s1 where first: "f x s = (Inr (), s1)" and rest: "io_for xs f s1 = (Inr u, t)" by (auto simp: io_bind_ok)
  have "keeps R (io_for xs f)" using assms(2) by (intro keeps_for)
  from keepsD [OF this, of s1] rest have "R s1 t" by simp
  with Cons.prems(2) [OF _ first] assms(4) have "D x t" by (metis list.set_intros(1))
  with Cons.IH [OF rest] Cons.prems(2) show ?case by simp
qed simp

end

section \<open>What provisioning provides\<close>

definition provides :: "world \<Rightarrow> world \<Rightarrow> bool" where
  "provides w w' \<longleftrightarrow> users_t (db w') = users_t (db w) \<and> set (mailboxes_t (db w)) \<subseteq> set (mailboxes_t (db w')) \<and>
     (\<forall>p. tree w p = Some None \<longrightarrow> tree w' p = Some None)"

interpretation prov: effect provides
  by unfold_locales (auto simp: provides_def)

definition has_folder :: "int \<Rightarrow> path \<Rightarrow> string \<Rightarrow> world \<Rightarrow> bool" where
  "has_folder uid root n w \<longleftrightarrow> (\<exists>r \<in> set (mailboxes_t (db w)). mbx_user_id r = uid \<and> mbx_name r = n) \<and>
     (\<forall>sub \<in> {''tmp'', ''new'', ''cur''}. tree w (folder_path root n @ [sub]) = Some None)"

lemma has_folder_provides: "provides w w' \<Longrightarrow> has_folder uid root n w \<Longrightarrow> has_folder uid root n w'"
  by (auto simp: provides_def has_folder_def)

lemma provides_may_fail:
  assumes "keeps provides m"
  shows "keeps provides (may_fail e m)"
  unfolding keeps_def
proof
  fix w
  have "provides (w\<lparr>faults := bs\<rparr>) (snd (m (w\<lparr>faults := bs\<rparr>)))" for bs
    using assms by (simp add: keeps_def)
  then show "provides w (snd (may_fail e m w))"
    using assms by (auto simp: may_fail_def keeps_def provides_def split: list.splits)
qed

lemma provides_ops:
  "keeps provides time_now" "keeps provides (os_mkdir_all p)" "keeps provides (db_get f)"
  "keeps provides (db_exec (insert_mailbox fk uid n v))"
proof -
  show "keeps provides time_now" by (auto simp: keeps_def provides_def time_now_def split: list.splits)
  show "keeps provides (os_mkdir_all p)" unfolding os_mkdir_all_def
    by (rule provides_may_fail) (auto simp: keeps_def provides_def with_dirs_def)
  show "keeps provides (db_get f)" unfolding db_get_def
    by (rule provides_may_fail) (auto simp: keeps_def provides_def split: option.splits)
  show "keeps provides (db_exec (insert_mailbox fk uid n v))" unfolding db_exec_def
    by (rule provides_may_fail) (auto simp: keeps_def provides_def insert_mailbox_def Let_def split: sum.splits if_splits)
qed

lemma provides_folders: "keeps provides (ensure_mailbox s uid n)" "keeps provides (maildir_init root)"
proof -
  have "keeps provides (get_mailbox uid n)"
    unfolding get_mailbox_def not_found_def if_no_rows_def by (intro prov.keeps_rules provides_ops)
  then show "keeps provides (ensure_mailbox s uid n)"
    unfolding ensure_mailbox_def Let_def by (cases "so_driver s") (auto intro!: prov.keeps_rules provides_ops)
  show "keeps provides (maildir_init root)"
    unfolding maildir_init_def by (intro prov.keeps_rules provides_ops)
qed

lemma mkdir_all_run:
  assumes "os_mkdir_all p w = (Inr u, w')" and "p \<noteq> []"
  shows "tree w' p = Some None"
proof -
  have self: "p \<in> set (path_prefixes p)" using assms(2) by (auto simp: path_prefixes_def Suc_le_eq)
  from may_fail_ok [OF assms(1) [unfolded os_mkdir_all_def]] have "\<not> list_ex (is_file (nodes w)) (path_prefixes p)"
    and "nodes w' = fold add_dir (path_prefixes p) (nodes w)" by (auto split: if_splits)
  with self have "tree w' p = with_dirs (set (path_prefixes p)) (tree w) p" "\<forall>c. tree w p \<noteq> Some (Some c)"
    by (auto simp: list_ex_iff is_file_tree)
  with self show ?thesis by (cases "tree w p") (auto simp: with_dirs_def)
qed

lemma maildir_init_run:
  assumes "maildir_init root w = (Inr u, w')"
  shows "\<forall>sub \<in> {''tmp'', ''new'', ''cur''}. tree w' (root @ [sub]) = Some None"
proof -
  have "\<forall>sub \<in> set [''tmp'', ''new'', ''cur'']. tree w' (root @ [sub]) = Some None"
    using assms unfolding maildir_init_def
    by (rule prov.for_builds)
      (auto intro!: prov.keeps_rules provides_ops simp: io_wrap_ok plain_name_def provides_def dest: mkdir_all_run)
  then show ?thesis by simp
qed

lemma provision_run:
  assumes "provision_mailboxes cfg s u w = (Inr x, w')"
  shows "\<exists>l d. addr_split (usr_email u) = (l, d, True) \<and> provides w w' \<and>
    (\<forall>n \<in> set (''INBOX'' # default_folders). has_folder (usr_id u) (user_root (maildir_base cfg) d l) n w')"
proof -
  obtain l d where sp: "addr_split (usr_email u) = (l, d, True)"
    using assms by (cases "addr_split (usr_email u)") (auto simp: provision_mailboxes_def io_oks split: if_splits)
  let ?root = "user_root (maildir_base cfg) d l"
  let ?f = "\<lambda>name. io_bind (io_wrap (''ensuring mailbox '' @ name) (ensure_mailbox s (usr_id u) name)) (\<lambda>_.
      io_wrap (''initializing maildir '' @ name) (maildir_init (folder_path ?root name)))"
  have run: "io_for (''INBOX'' # default_folders) ?f w = (Inr x, w')"
    using assms by (simp only: provision_mailboxes_def sp prod.case Let_def if_False simp_thms)
  have k: "keeps provides (?f n)" for n by (intro prov.keeps_rules provides_folders)
  have D: "has_folder (usr_id u) ?root n w2" if f: "?f n w1 = (Inr (), w2)" for n w1 w2
  proof -
    from f obtain r w3 where e: "ensure_mailbox s (usr_id u) n w1 = (Inr r, w3)"
      and i: "maildir_init (folder_path ?root n) w3 = (Inr (), w2)" by (auto simp: io_oks)
    have "provides w3 w2" using keepsD [OF provides_folders(2), of w3 "folder_path ?root n"] i by simp
    with ensure_mailbox_row [OF e] maildir_init_run [OF i] show ?thesis
      by (auto simp: has_folder_def provides_def)
  qed
  have "\<forall>n \<in> set (''INBOX'' # default_folders). has_folder (usr_id u) ?root n w'"
    by (rule prov.for_builds [OF run k D has_folder_provides])
  moreover have "keeps provides (io_for (''INBOX'' # default_folders) ?f)" by (intro prov.keeps_for k)
  from keepsD [OF this, of w] run have "provides w w'" by simp
  ultimately show ?thesis using sp by blast
qed

section \<open>What a start leaves alone\<close>

text \<open>The database, and a world without failures.\<close>

definition calm_db :: "world \<Rightarrow> world \<Rightarrow> bool" where
  "calm_db w w' \<longleftrightarrow> stays_calm w w' \<and> db w' = db w"

interpretation cdb: effect calm_db
  by unfold_locales (auto simp: calm_db_def stays_calm_def)

lemma calm_db_both: "keeps stays_calm m \<Longrightarrow> keeps same_db m \<Longrightarrow> keeps calm_db m"
  by (simp add: keeps_def calm_db_def same_db_def)

lemma calm_db_syscalls:
  "keeps calm_db time_now" "keeps calm_db (rand_read n)" "keeps calm_db (os_mkdir_all p)" "keeps calm_db (os_read_file p)"
  "keeps calm_db (file_write p d)" "keeps calm_db file_close" "keeps calm_db (os_open_trunc p)" "keeps calm_db (db_select f)" "keeps calm_db (db_get g)"
proof -
  have c: "keeps calm_db m \<Longrightarrow> keeps calm_db (may_fail e m)" for e and m :: "'x wio"
    unfolding keeps_def calm_db_def by (auto simp: stays_calm_def may_fail_def split: list.splits)
  show "keeps calm_db time_now" by (rule calm_db_both [OF keeps_calm_ops(1) keeps_time_now])
  show "keeps calm_db (rand_read n)" by (rule calm_db_both [OF keeps_calm_ops(2) keeps_syscalls(12)])
  show "keeps calm_db (os_mkdir_all p)" "keeps calm_db (os_read_file p)" "keeps calm_db (file_write p d)" "keeps calm_db file_close"
    "keeps calm_db (os_open_trunc p)" "keeps calm_db (db_select f)" "keeps calm_db (db_get g)"
    unfolding os_mkdir_all_def os_read_file_def file_write_def file_close_def os_open_trunc_def db_select_def db_get_def
    by (rule c; auto simp: keeps_def calm_db_def stays_calm_def io_ret_def io_gets_def split: option.splits node.splits)+
qed

lemma calm_db_files: "keeps calm_db (os_write_file p d)" "keeps calm_db (load_or_generate_key R f)" "keeps calm_db (tls_load X c k h)"
  "keeps calm_db (load_key_pair X cp kp)" "keeps calm_db (open_mail_queue fmt cfg)"
proof -
  have fs: "keeps calm_db (from_sum r)" for r :: "goerr + 'x" by (cases r) (auto simp: from_sum_def intro: cdb.keeps_rules)
  show wf: "keeps calm_db (os_write_file p d)" for p d unfolding os_write_file_def by (intro cdb.keeps_rules calm_db_syscalls)
  show "keeps calm_db (load_or_generate_key R f)" unfolding load_or_generate_key_def Let_def
    by (intro cdb.keeps_rules calm_db_syscalls wf fs keeps_case_option)
  show kp: "keeps calm_db (load_key_pair X cp kp)" for cp kp unfolding load_key_pair_def by (intro cdb.keeps_rules calm_db_syscalls fs)
  show "keeps calm_db (tls_load X c k h)" unfolding tls_load_def self_signed_def Let_def
    by (intro cdb.keeps_rules calm_db_syscalls fs kp)
  show "keeps calm_db (open_mail_queue fmt cfg)" unfolding open_mail_queue_def queue_new_def
    by (intro cdb.keeps_rules calm_db_syscalls)
qed

definition calm_db2 :: "world \<times> 'b \<Rightarrow> world \<times> 'b \<Rightarrow> bool" where
  "calm_db2 s t \<longleftrightarrow> calm_db (fst s) (fst t)"

interpretation cdb2: effect calm_db2
  by unfold_locales (auto simp: calm_db2_def intro: cdb.R_refl cdb.R_trans)

lemma calm_db2_ops: "keeps calm_db m \<Longrightarrow> keeps calm_db2 (on_world m)" "keeps calm_db2 the_acme" "keeps calm_db2 (upd_acme f)"
  "keeps calm_db2 (from_sum r)"
  by (auto simp: keeps_def calm_db2_def on_world_def the_acme_def upd_acme_def io_gets_def io_modify_def from_sum_def io_ret_def io_fail_def
      cdb.R_refl split: prod.splits sum.splits) (metis snd_conv)

lemma calm_setup_tls: "keeps calm_db2 (setup_tls L cfg)"
proof -
  have oc: "keeps calm_db2 (obtain_cert L m)" for m
    unfolding obtain_cert_def load_or_register_account_def save_account_def dns_provider_def next_outcome_def Let_def
    by (intro cdb2.keeps_rules calm_db2_ops calm_db_syscalls calm_db_files keeps_case_option keeps_case_prod)
  have nr: "keeps calm_db2 (needs_renewal L)"
    unfolding needs_renewal_def by (intro cdb2.keeps_rules calm_db2_ops calm_db_syscalls keeps_case_option)
  have an: "keeps calm_db2 (acme_new c ds)" for c ds
    unfolding acme_new_def os_setenv_def by (intro cdb2.keeps_rules calm_db2_ops calm_db_syscalls keeps_case_prod)
  show ?thesis unfolding setup_tls_def acme_init_def ensure_certificate_def Let_def
    by (intro cdb2.keeps_rules calm_db2_ops calm_db_files oc nr an)
qed

lemma calm_open: "keeps calm_db (read_config P f)" "keeps calm_db (store_open k d n)" "keeps calm_db (get_user_by_email e)"
proof -
  show "keeps calm_db (store_open k d n)" unfolding store_open_def Let_def by (intro cdb.keeps_rules calm_db_syscalls)
  show "keeps calm_db (get_user_by_email e)"
    unfolding get_user_by_email_def not_found_def if_no_rows_def by (intro cdb.keeps_rules calm_db_syscalls)
  show "keeps calm_db (read_config P f)"
    using keepsD [OF calm_db_syscalls(4), of _ "config_path f"] by (auto simp: keeps_def read_config_def split: prod.splits) (metis snd_conv)
qed

section \<open>Creating a mailbox from the command line\<close>

lemma or_exit_ok: "or_exit m k s = (Inr (Inr y), t) \<longleftrightarrow> (\<exists>x u. m s = (Inr x, u) \<and> k x u = (Inr (Inr y), t))"
  by (auto simp: or_exit_def exit_with_def io_simps split: prod.splits sum.splits)

lemma exit_ok: "exit_with c s = (Inr (Inr y), t) \<longleftrightarrow> False"
  by (simp add: exit_with_def io_simps)

lemmas prog_oks = or_exit_ok exit_ok io_ret_ok

lemma calm_db_ok: "keeps calm_db m \<Longrightarrow> m w = (x, w') \<Longrightarrow> calm_db w w'"
  using keepsD [of calm_db m w] by simp

text \<open>A user with the folders that a new mailbox gets.\<close>

definition new_mailbox_for :: "config \<Rightarrow> bcrypt \<Rightarrow> string \<Rightarrow> string \<Rightarrow> bool \<Rightarrow> world \<Rightarrow> world \<Rightarrow> user_row \<Rightarrow> bool" where
  "new_mailbox_for cfg B email pw admin w w' u \<longleftrightarrow>
     (\<forall>q \<in> set (users_t (db w)). usr_email q \<noteq> to_lower email) \<and> users_t (db w') = users_t (db w) @ [u] \<and>
     right_password B (db w') (to_lower email) pw u \<and> usr_is_admin u = admin \<and>
     (\<exists>l d. addr_split email = (l, d, True) \<and>
       (\<forall>n \<in> set (''INBOX'' # default_folders). has_folder (usr_id u) (user_root (maildir_base cfg) (to_lower d) (to_lower l)) n w'))"

lemma create_provision:
  assumes "\<forall>salt pw h. bc_generate B salt pw = Some h \<longrightarrow> bc_compare B h pw" and "addr_split email = (l, d, True)"
    and "create_user B s d l pw admin w = (Inr u, w1)" and "provision_mailboxes cfg s u w1 = (Inr x, w')"
  shows "new_mailbox_for cfg B email pw admin w w' u"
proof -
  have "to_lower email = to_lower (l @ ''@'' @ d)" using addr_split_ok [OF assms(2)] by simp
  note u = created_user [OF assms(1,3) this]
  from provision_run [OF assms(4)] obtain l' d' where p: "addr_split (usr_email u) = (l', d', True)" "provides w1 w'"
    and f: "\<forall>n \<in> set (''INBOX'' # default_folders). has_folder (usr_id u) (user_root (maildir_base cfg) d' l') n w'" by blast
  from p(1) u addr_split_lower [OF assms(2)] have "l' = to_lower l" "d' = to_lower d" by simp_all
  have same: "users_t (db w') = users_t (db w1)" using p(2) by (simp add: provides_def)
  from \<open>l' = _\<close> \<open>d' = _\<close> u f assms(2) show ?thesis unfolding new_mailbox_for_def right_password_def same
    by (auto simp: verify_password_def)
qed

text \<open>
  C30: \<open>user create\<close> makes a mailbox that works. When the command reports success, the address is valid and in a
  domain of the configuration, no user had it, the new user is added behind the others, can sign in with the
  password of the command line, is an administrator exactly when the flag asked for it, and has INBOX and the default
  folders both as rows of the database and as maildirs on disk, under the lower-cased address. The hypothesis on bcrypt is
  what it documents: a generated hash compares equal with its password.
\<close>

theorem user_create_works:
  assumes bcrypt: "\<forall>salt pw h. bc_generate (pg_bcrypt P) salt pw = Some h \<longrightarrow> bc_compare (pg_bcrypt P) h pw"
    and run: "main_cmd P (''user'' # ''create'' # args) (w, a) = (Inr (Printed out), (w', a'))"
  shows "\<exists>vals cfg l d u.
    parse_flags [(''config'', False), (''email'', False), (''password'', False), (''admin'', True)] args [] = Inr vals \<and>
    fst (read_config P (flag_value vals ''config'' default_config) w) = Inr cfg \<and>
    addr_split (flag_value vals ''email'' '''') = (l, d, True) \<and> is_local_domain cfg d \<and>
    new_mailbox_for cfg (pg_bcrypt P) (flag_value vals ''email'' '''') (flag_value vals ''password'' '''')
      (parse_bool (flag_value vals ''admin'' ''false'') = Some True) w w' u"
proof -
  from run have "cmd_user_create P args w = (Inr (Inr out), w')"
    by (auto simp: main_cmd_def Let_def io_oks on_world_ok cmd_user_def split: sum.splits) (metis sum.exhaust)
  then obtain vals where run: "cmd_user_create P args w = (Inr (Inr out), w')" and parse: "parse_flags [(''config'', False), (''email'', False), (''password'', False), (''admin'', True)] args [] = Inr vals"
    by (cases "parse_flags [(''config'', False), (''email'', False), (''password'', False), (''admin'', True)] args []")
      (auto simp: cmd_user_create_def exit_ok)
  obtain l d k where split: "addr_split (flag_value vals ''email'' '''') = (l, d, k)" by (metis surj_pair)
  from run obtain cfg w1 s w2 u w3 x where cfg: "read_config P (flag_value vals ''config'' default_config) w = (Inr cfg, w1)"
    and sp: "addr_split (flag_value vals ''email'' '''') = (l, d, True)" and dom: "is_local_domain cfg d"
    and open_db: "store_open (pg_pragma_fk P) (db_driver (cf_database cfg)) (db_dsn (cf_database cfg)) w1 = (Inr s, w2)"
    and cu: "create_user (pg_bcrypt P) s d l (flag_value vals ''password'' '''') (parse_bool (flag_value vals ''admin'' ''false'') = Some True) w2 = (Inr u, w3)"
    and pr: "provision_mailboxes cfg s u w3 = (Inr x, w')"
    unfolding cmd_user_create_def parse split sum.case prod.case Let_def by (auto simp: split prog_oks split: if_splits)
  have "db w2 = db w" using calm_db_ok [OF calm_open(1) cfg] calm_db_ok [OF calm_open(2) open_db] by (simp add: calm_db_def)
  with create_provision [OF bcrypt sp cu pr] have "new_mailbox_for cfg (pg_bcrypt P) (flag_value vals ''email'' '''') (flag_value vals ''password'' '''')
      (parse_bool (flag_value vals ''admin'' ''false'') = Some True) w w' u"
    by (simp add: new_mailbox_for_def)
  with parse cfg sp dom show ?thesis by force
qed

section \<open>The administrator of the configuration\<close>

lemma calm_changes: "keeps stays_calm (create_user B s d l pw adm)" "keeps stays_calm (provision_mailboxes cfg s u)"
  "keeps stays_calm (ensure_domains s ds)"
proof -
  have c: "keeps stays_calm (get_user_by_email e)" "keeps stays_calm (os_mkdir_all p)" for e p
    using calm_open(3) [where e = e] calm_db_syscalls(3) [where p = p] by (auto simp: keeps_def calm_db_def)
  show "keeps stays_calm (create_user B s d l pw adm)"
    unfolding create_user_def Let_def by (cases "so_driver s") (auto intro!: calm_effects keeps_calm_store keeps_calm_db c)
  have em: "keeps stays_calm (ensure_mailbox s i n)" for i n
    unfolding ensure_mailbox_def Let_def by (cases "so_driver s") (auto intro!: calm_effects keeps_calm_store keeps_calm_db)
  show "keeps stays_calm (provision_mailboxes cfg s u)"
    unfolding provision_mailboxes_def maildir_init_def Let_def by (intro calm_effects keeps_case_prod em c)
  have "ensure_domains s ds = io_for ds (\<lambda>d. io_bind (ensure_domain s d) (\<lambda>_. io_ret ()))" by (rule ext) (simp add: ensure_domains_def)
  then show "keeps stays_calm (ensure_domains s ds)" by (simp only:) (intro calm_effects keeps_calm_store)
qed

lemma ensure_domains_users:
  assumes "ensure_domains s ds w = (x, w')"
  shows "users_t (db w') = users_t (db w)"
  using assms unfolding ensure_domains_def
proof (induction ds arbitrary: w)
  case (Cons d ds)
  obtain y w1 where e: "ensure_domain s d w = (y, w1)" by fastforce
  with ensure_domain_users [of s d w] have "users_t (db w1) = users_t (db w)" by simp
  with Cons.IH [of w1] Cons.prems e show ?case by (cases y) (auto simp: io_simps)
qed (simp add: io_simps)

lemma bootstrap_run:
  assumes bcrypt: "\<forall>salt pw h. bc_generate (pg_bcrypt P) salt pw = Some h \<longrightarrow> bc_compare (pg_bcrypt P) h pw"
    and run: "bootstrap_admin P cfg s w = (Inr x, w')" and calm: "faults w = []"
    and given: "admin_config.ad_email (cf_admin cfg) = email" "ad_password (cf_admin cfg) = pw" "email \<noteq> ''''" "pw \<noteq> ''''"
    and new: "\<forall>q \<in> set (users_t (db w)). usr_email q \<noteq> to_lower email"
  shows "faults w' = [] \<and> (\<exists>u. new_mailbox_for cfg (pg_bcrypt P) email pw True w w' u)"
proof -
  have "find (\<lambda>u. usr_email u = to_lower email) (users_t (db w)) = None" using new by (auto simp: find_None_iff)
  then have look: "get_user_by_email email w = (Inl ErrNotFound, w)"
    using calm by (simp add: get_user_by_email_def not_found_def if_no_rows_def db_get_def may_fail_def io_simps)
  obtain l d k where split: "addr_split email = (l, d, k)" by (metis surj_pair)
  from run given look split obtain u w1 where k: "k" and cu: "create_user (pg_bcrypt P) s d l pw True w = (Inr u, w1)"
    and pr: "provision_mailboxes cfg s u w1 = (Inr x, w')"
    by (auto simp: bootstrap_admin_def io_simps split: if_splits prod.splits sum.splits)
  have "faults w' = []" using keeps_calmD [OF calm_changes(2) keeps_calmD [OF calm_changes(1) calm cu] pr] .
  with create_provision [OF bcrypt _ cu pr] split k show ?thesis by auto
qed

lemma fresh_login:
  assumes "faults w = []" and "rq_form_ok r" and "\<not> web_refused M w b r" and "wb_srv b = new_backend L" and "wb_sessions b = []"
    and "right_password (bk_bcrypt (wm_backend M)) (db w) (to_lower (trim_space (form_value r ''email''))) (form_value r ''password'') u"
  shows "\<exists>tok w' b' s. serve M LoginSubmit r (w, b) = (Inr (Redirect (SetCookie tok) ''/mail/INBOX''), (w', b')) \<and>
    map_of (wb_sessions b') tok = Some s \<and> mu_row (sv_users (wb_srv b') ! ws_account s) = u"
proof -
  have blocked: "\<exists>w0. web_blocked (from_http r (wm_trusted M)) (w, b) = (Inr False, (w0, b)) \<and> calm_db w w0"
  proof (cases "wb_limiter b")
    case None
    then show ?thesis by (simp add: web_blocked_def the_web_def io_simps cdb.R_refl)
  next
    case (Some l)
    obtain w0 where n: "time_now w = (Inr (next_time w), w0)" using now_run by blast
    with Some assms(3) calm_db_ok [OF calm_db_syscalls(1) n] show ?thesis
      by (auto simp: web_blocked_def web_refused_def the_web_def io_simps on_world_def)
  qed
  then obtain w0 where w0: "web_blocked (from_http r (wm_trusted M)) (w, b) = (Inr False, (w0, b))" "faults w0 = []" "db w0 = db w"
    using assms(1) by (auto simp: calm_db_def stays_calm_def)
  have "get_user_by_email (to_lower (trim_space (form_value r ''email''))) w0 = (Inr u, w0)"
    using w0(2,3) assms(6) by (simp add: right_password_def get_user_by_email_def not_found_def if_no_rows_def db_get_def may_fail_def io_simps)
  then have auth: "\<exists>s'. authenticate (wm_backend M) (form_value r ''email'') (form_value r ''password'') (w0, new_backend L) = (Inr 0, (w0, s')) \<and>
      sv_users s' = [\<lparr>mu_row = u, mu_boxes = []\<rparr>]"
    using assms(6) by (simp add: authenticate_def io_simps on_world_def verify_password_def right_password_def
        user_for_def the_srv_def upd_srv_def new_backend_def Let_def)
  obtain tok w1 where tok: "random_token w0 = (Inr tok, w1)"
    using w0(2) by (auto simp: random_token_def rand_read_def may_fail_def io_simps)
  obtain w2 where now: "time_now w1 = (Inr (next_time w1), w2)" using now_run by blast
  from w0(1) auth tok now assms(2,4,5) show ?thesis
    by (auto simp: handle_login_submit_def session_create_def io_simps on_srv_def on_world_def upd_web_def Let_def)
qed

lemma serve_run:
  assumes run: "cmd_serve P args (w, a) = (Inr (Inr S), (w', a'))" and calm: "faults w = []"
  shows "\<exists>s w1 w2. users_t (db w1) = users_t (db w) \<and> faults w1 = [] \<and>
    bootstrap_admin P (sy_config S) s w1 = (Inr (), w2) \<and> calm_db w2 w' \<and>
    bk_bcrypt (wm_backend (sy_webmail S)) = pg_bcrypt P \<and> served_web S =
      \<lparr>wb_srv = new_backend (Some (new_auth_limiter (sy_config S))), wb_limiter = Some (new_auth_limiter (sy_config S)), wb_sessions = []\<rparr>"
proof -
  obtain vals where parse: "parse_flags [(''config'', False)] args [] = Inr vals"
    using run by (cases "parse_flags [(''config'', False)] args []") (auto simp: cmd_serve_def exit_ok)
  let ?k = "\<lambda>cfg s. or_exit (setup_tls (pg_acme P) cfg) (\<lambda>tls.
          or_exit (on_world (open_mail_queue (pg_fmt_date P) cfg)) (\<lambda>q.
          or_exit (on_world (load_or_generate_key (pg_rsa P) (dk_private_key_path (cf_dkim cfg)))) (\<lambda>(key, generated).
          or_exit (from_sum (parse_trusted (sec_trusted_proxies (cf_security cfg)))) (\<lambda>trusted.
          or_exit (from_sum (open_listener P cfg (ls_submission (cf_listen cfg)))) (\<lambda>sub.
          or_exit (from_sum (open_listener P cfg (ls_imap (cf_listen cfg)))) (\<lambda>imap.
          io_ret (Inr (build_system P cfg s tls q key trusted sub imap))))))))"
  from run obtain cfg v s v1 where cfg: "read_config P (flag_value vals ''config'' default_config) w = (Inr cfg, v)"
    and opened: "open_directory P cfg v = (Inr s, v1)" and rest: "?k cfg s (v1, a) = (Inr (Inr S), (w', a'))"
    unfolding cmd_serve_def parse sum.case by (auto simp: prog_oks on_world_ok)
  from rest obtain tls q key gen trusted sub imap t where S: "S = build_system P cfg s tls q key trusted sub imap"
    by (auto simp: prog_oks on_world_ok split: prod.splits)
  have "keeps calm_db2 (?k cfg s)"
    unfolding or_exit_def exit_with_def
    by (intro cdb2.keeps_rules calm_setup_tls calm_db2_ops calm_db_files keeps_case_prod)
  from keepsD [OF this, of "(v1, a)"] rest have k: "calm_db v1 w'" by (simp add: calm_db2_def)
  from opened obtain u1 v2 v3 u2 v4 u3 v5 where o: "os_mkdir_all (config_path (st_maildir_path (cf_storage cfg))) v = (Inr u1, v2)"
    "store_open (pg_pragma_fk P) (db_driver (cf_database cfg)) (db_dsn (cf_database cfg)) v2 = (Inr s, v3)"
    "ensure_domains s (cf_domains cfg) v3 = (Inr u2, v4)" "bootstrap_admin P cfg s v4 = (Inr (), v5)" "v1 = v5"
    by (auto simp: open_directory_def io_oks)
  have "calm_db w v3" using calm_db_ok [OF calm_open(1) cfg] calm_db_ok [OF calm_db_syscalls(3) o(1)] calm_db_ok [OF calm_open(2) o(2)]
    by (meson cdb.R_trans)
  then have "db v3 = db w" "faults v3 = []" using calm by (simp_all add: calm_db_def stays_calm_def)
  moreover have "faults v4 = []" using keeps_calmD [OF calm_changes(3) \<open>faults v3 = []\<close> o(3)] .
  ultimately show ?thesis using ensure_domains_users [OF o(3)] o(4,5) k
    by (auto simp: S build_system_def served_web_def new_session_store_def Let_def)
qed

text \<open>
  C29: The administrator of the configuration can sign in after the first start. When \<open>serve\<close> came up, without
  failures, on a database without a user of that address, exactly one user was added, an administrator with the
  configured address, and submitting the login form with the configured address (in any capitalisation, with spaces around it) and
  password, as the first request, answers with a cookie whose session belongs to that user. No limiter stands in the way: the ones built at
  the start are empty.
\<close>

theorem admin_signs_in:
  assumes bcrypt: "\<forall>salt pw h. bc_generate (pg_bcrypt P) salt pw = Some h \<longrightarrow> bc_compare (pg_bcrypt P) h pw"
    and run: "main_cmd P (''serve'' # args) (w, a) = (Inr (Serving S), (w', a'))" and calm: "faults w = []"
    and given: "admin_config.ad_email (cf_admin (sy_config S)) = email" "ad_password (cf_admin (sy_config S)) = pw" "email \<noteq> ''''" "pw \<noteq> ''''"
    and new: "\<forall>q \<in> set (users_t (db w)). usr_email q \<noteq> to_lower email"
    and form: "rq_form_ok r" "to_lower (trim_space (form_value r ''email'')) = to_lower email" "form_value r ''password'' = pw"
  shows "\<exists>u tok w'' b s. users_t (db w') = users_t (db w) @ [u] \<and> usr_email u = to_lower email \<and> usr_is_admin u \<and>
    serve (sy_webmail S) LoginSubmit r (w', served_web S) = (Inr (Redirect (SetCookie tok) ''/mail/INBOX''), (w'', b)) \<and>
    map_of (wb_sessions b) tok = Some s \<and> mu_row (sv_users (wb_srv b) ! ws_account s) = u"
proof -
  from run have "cmd_serve P args (w, a) = (Inr (Inr S), (w', a'))"
    by (auto simp: main_cmd_def Let_def io_oks split: sum.splits) (metis sum.exhaust)
  from serve_run [OF this calm] obtain s w1 w2 where u: "users_t (db w1) = users_t (db w)" and f: "faults w1 = []"
    and boot: "bootstrap_admin P (sy_config S) s w1 = (Inr (), w2)" and k: "calm_db w2 w'"
    and bc: "bk_bcrypt (wm_backend (sy_webmail S)) = pg_bcrypt P" and web: "served_web S =
      \<lparr>wb_srv = new_backend (Some (new_auth_limiter (sy_config S))), wb_limiter = Some (new_auth_limiter (sy_config S)), wb_sessions = []\<rparr>"
    by blast
  from bootstrap_run [OF bcrypt boot f given] new u obtain q where q: "new_mailbox_for (sy_config S) (pg_bcrypt P) email pw True w1 w2 q" and f2: "faults w2 = []"
    by auto
  have w': "db w' = db w2" "faults w' = []" using k f2 by (simp_all add: calm_db_def stays_calm_def)
  have row: "right_password (pg_bcrypt P) (db w') (to_lower email) pw q" "usr_is_admin q" "users_t (db w') = users_t (db w) @ [q]"
    using q u w' by (simp_all add: new_mailbox_for_def)
  have "\<not> web_refused (sy_webmail S) w' (served_web S) r"
    by (simp add: web_refused_def web new_auth_limiter_def new_limiter_def allowed_def Let_def)
  from fresh_login [OF w'(2) form(1) this, of "Some (new_auth_limiter (sy_config S))" q] row(1) bc form(2,3)
  obtain tok w'' b s where "serve (sy_webmail S) LoginSubmit r (w', served_web S) = (Inr (Redirect (SetCookie tok) ''/mail/INBOX''), (w'', b))"
      "map_of (wb_sessions b) tok = Some s" "mu_row (sv_users (wb_srv b) ! ws_account s) = q"
    by (auto simp: web)
  moreover have "usr_email q = to_lower email" using row(1) by (auto simp: right_password_def find_Some_iff)
  ultimately show ?thesis using row(2,3) by blast
qed

section \<open>Starting again\<close>

definition directory_grows :: "database \<Rightarrow> database \<Rightarrow> bool" where
  "directory_grows d d' \<longleftrightarrow> set (domains_t d) \<subseteq> set (domains_t d') \<and> set (users_t d) \<subseteq> set (users_t d')"

interpretation dirg: effect "db_rel directory_grows"
  by unfold_locales (auto simp: db_rel_def directory_grows_def)

lemma directory_grows_refl [simp]: "directory_grows d d"
  by (simp add: directory_grows_def)

lemma directory_ops: "keeps (db_rel directory_grows) (ensure_domain s n)" "keeps (db_rel directory_grows) (create_user B s d l pw adm)"
  "keeps (db_rel directory_grows) (provision_mailboxes cfg s u)"
proof -
  show dom: "keeps (db_rel directory_grows) (ensure_domain s n)" for n
    unfolding ensure_domain_def Let_def if_no_rows_def
    by (cases "so_driver s") (auto intro!: dirg.keeps_rules db_rel_get db_rel_exec simp: directory_grows_def insert_domain_def Let_def split: if_splits)
  have get: "keeps (db_rel directory_grows) (get_user_by_email e)" for e
    using calm_open(3) by (auto simp: keeps_def db_rel_def calm_db_def)
  have hash: "keeps (db_rel directory_grows) (hash_password B pw)"
    using hash_password_db by (auto simp: keeps_def db_rel_def)
  show "keeps (db_rel directory_grows) (create_user B s d l pw adm)"
    unfolding create_user_def Let_def
    by (cases "so_driver s") (auto intro!: dirg.keeps_rules dom get hash db_rel_exec simp: directory_grows_def insert_user_def Let_def split: if_splits)
  have box: "keeps (db_rel directory_grows) (get_mailbox uid n)" for uid n
    unfolding get_mailbox_def not_found_def if_no_rows_def by (intro dirg.keeps_rules db_rel_get directory_grows_refl)
  have em: "keeps (db_rel directory_grows) (ensure_mailbox s uid n)" for uid n
    unfolding ensure_mailbox_def Let_def
    by (cases "so_driver s") (auto intro!: dirg.keeps_rules box db_rel_same [OF keeps_time_now] db_rel_exec
        simp: directory_grows_def insert_mailbox_def Let_def split: if_splits)
  show "keeps (db_rel directory_grows) (provision_mailboxes cfg s u)"
    unfolding provision_mailboxes_def Let_def
    by (intro dirg.keeps_rules keeps_case_prod em db_rel_same [OF maildir_same_db(7)] directory_grows_refl)
qed

definition known_domain :: "string \<Rightarrow> database \<Rightarrow> bool" where
  "known_domain n d \<longleftrightarrow> (\<exists>r \<in> set (domains_t d). dom_name r = to_lower n)"

lemma ensure_domain_known:
  assumes "ensure_domain s n w = (Inr r, w')"
  shows "known_domain n (db w')"
proof -
  have ins: "known_domain n (db w3)" if "db_exec (insert_domain (to_lower n)) w2 = (Inr x, w3)" for w2 x w3
    using db_exec_ok [OF that] by (auto simp: insert_domain_def known_domain_def Let_def split: if_splits dest!: sym [where t = "db w3"])
  have get: "db w3 = db w2" if "db_get f w2 = (Inr x, w3)" for f :: "database \<Rightarrow> 'x option" and w2 x w3
    using db_get_ok [OF that] by simp
  from assms show ?thesis
    unfolding ensure_domain_def if_no_rows_def Let_def io_either_apply
    by (auto simp: io_ret_def io_fail_def io_bind_ok find_Some_iff split: prod.splits sum.splits if_splits driver.splits
        dest!: db_get_ok dest: ins) (auto simp: known_domain_def dest: nth_mem)
qed

lemma ensure_domain_again:
  assumes "faults w = []" and "known_domain n (db w)"
  shows "\<exists>r. ensure_domain s n w = (Inr r, w)"
proof -
  obtain r where "find (\<lambda>r. dom_name r = to_lower n) (domains_t (db w)) = Some r"
    using assms(2) by (cases "find (\<lambda>r. dom_name r = to_lower n) (domains_t (db w))") (auto simp: known_domain_def find_None_iff)
  with assms(1) show ?thesis
    by (simp add: ensure_domain_def if_no_rows_def Let_def db_get_def may_fail_def io_simps)
qed

lemma ensure_domains_known:
  assumes "ensure_domains s ds w = (Inr u, w')"
  shows "\<forall>n \<in> set ds. known_domain n (db w')"
  by (rule dirg.for_builds [OF assms [unfolded ensure_domains_def]])
    (auto intro!: dirg.keeps_rules directory_ops simp: io_oks known_domain_def directory_grows_def db_rel_def
      dest!: ensure_domain_known)

lemma ensure_domains_again:
  assumes "faults w = []" and "\<forall>n \<in> set ds. known_domain n (db w)"
  shows "ensure_domains s ds w = (Inr (), w)"
  using assms
proof (induction ds)
  case (Cons n ds)
  with ensure_domain_again [of w n s] show ?case by (auto simp: ensure_domains_def io_simps)
qed (simp add: ensure_domains_def io_simps)

definition admin_settled :: "config \<Rightarrow> database \<Rightarrow> bool" where
  "admin_settled cfg d \<longleftrightarrow> (let email = admin_config.ad_email (cf_admin cfg) in
     email = '''' \<or> ad_password (cf_admin cfg) = '''' \<or> (\<exists>u \<in> set (users_t d). usr_email u = to_lower email))"

lemma bootstrap_settles:
  assumes "bootstrap_admin P cfg s w = (Inr x, w')" and "faults w = []"
  shows "admin_settled cfg (db w') \<and> db_rel directory_grows w w'"
proof (cases "admin_config.ad_email (cf_admin cfg) = '''' \<or> ad_password (cf_admin cfg) = ''''")
  case True
  with assms show ?thesis by (auto simp: bootstrap_admin_def admin_settled_def db_rel_def io_simps)
next
  case False
  let ?email = "admin_config.ad_email (cf_admin cfg)"
  obtain y w1 where look: "get_user_by_email ?email w = (y, w1)" by fastforce
  show ?thesis
  proof (cases y)
    case (Inr u)
    with assms False look have "w' = w1" by (auto simp: bootstrap_admin_def io_simps)
    with get_user_run [OF look] Inr False show ?thesis
      by (auto simp: admin_settled_def db_rel_def find_Some_iff)
  next
    case (Inl e)
    have e: "e = ErrNotFound" using look Inl assms(2)
      by (auto simp: get_user_by_email_def not_found_def if_no_rows_def db_get_def may_fail_def io_simps split: option.splits)
    obtain l d k where split: "addr_split ?email = (l, d, k)" by (metis surj_pair)
    from assms(1) False look Inl e split obtain u w2 where k: "k" and cu: "create_user (pg_bcrypt P) s d l (ad_password (cf_admin cfg)) True w1 = (Inr u, w2)"
      and pr: "provision_mailboxes cfg s u w2 = (Inr x, w')"
      by (auto simp: bootstrap_admin_def io_simps split: if_splits prod.splits sum.splits)
    have "to_lower ?email = to_lower l @ to_lower ''@'' @ to_lower d" using addr_split_ok [of ?email l d] split k by (simp flip: to_lower_append)
    also have "to_lower ''@'' = ''@''" by code_simp
    finally have "usr_email u = to_lower ?email \<and> u \<in> set (users_t (db w2))"
      using create_user_row [OF cu] insert_user_row by fastforce
    moreover have "db_rel directory_grows w1 w2" "db_rel directory_grows w2 w'"
      using keepsD [OF directory_ops(2), of w1] cu keepsD [OF directory_ops(3), of w2] pr by (metis snd_conv)+
    moreover have "db w1 = db w" using calm_db_ok [OF calm_open(3) look] by (simp add: calm_db_def)
    ultimately show ?thesis by (auto simp: admin_settled_def db_rel_def directory_grows_def Let_def)
  qed
qed

lemma bootstrap_again:
  assumes "faults w = []" and "admin_settled cfg (db w)"
  shows "bootstrap_admin P cfg s w = (Inr (), w)"
proof -
  let ?email = "admin_config.ad_email (cf_admin cfg)"
  have "\<exists>u. get_user_by_email ?email w = (Inr u, w)" if "\<exists>u \<in> set (users_t (db w)). usr_email u = to_lower ?email"
    using that assms(1) by (cases "find (\<lambda>u. usr_email u = to_lower ?email) (users_t (db w))")
      (auto simp: get_user_by_email_def not_found_def if_no_rows_def db_get_def may_fail_def io_simps find_None_iff)
  then show ?thesis
  proof (cases "\<exists>u. get_user_by_email ?email w = (Inr u, w)")
    case True
    then show ?thesis by (auto simp: bootstrap_admin_def Let_def io_simps)
  next
    case False
    with \<open>_ \<Longrightarrow> \<exists>u. _\<close> assms(2) show ?thesis by (auto simp: bootstrap_admin_def admin_settled_def Let_def io_simps)
  qed
qed

lemma store_open_result: "store_open k d n w = (Inr s, w') \<Longrightarrow> store_open k d n v = (Inr t, v') \<Longrightarrow> t = s"
  by (auto simp: store_open_def Let_def io_oks split: if_splits)

text \<open>
  Starting again changes nothing. Once a start opened the directory (the database with the domains and the
  administrator of the configuration), a later start with the same configuration on the same database, without failures,
  leaves every table as it is, whatever else happened to the files meanwhile, and uses the same store.
\<close>

theorem restart_changes_nothing:
  assumes "open_directory P cfg w = (Inr s, w')" and "faults w = []"
    and "db v = db w'" and "faults v = []" and "open_directory P cfg v = (x, v')"
  shows "db v' = db v \<and> (\<forall>t. x = Inr t \<longrightarrow> t = s)"
proof -
  let ?mk = "os_mkdir_all (config_path (st_maildir_path (cf_storage cfg)))"
  let ?open = "store_open (pg_pragma_fk P) (db_driver (cf_database cfg)) (db_dsn (cf_database cfg))"
  from assms(1) obtain u1 w2 w3 u2 w4 where o: "?mk w = (Inr u1, w2)" "?open w2 = (Inr s, w3)"
    "ensure_domains s (cf_domains cfg) w3 = (Inr u2, w4)" "bootstrap_admin P cfg s w4 = (Inr (), w')"
    by (auto simp: open_directory_def io_oks)
  have "faults w3 = []" using calm_db_ok [OF calm_db_syscalls(3) o(1)] calm_db_ok [OF calm_open(2) o(2)] assms(2)
    by (auto simp: calm_db_def stays_calm_def)
  from bootstrap_settles [OF o(4) keeps_calmD [OF calm_changes(3) this o(3)]] ensure_domains_known [OF o(3)]
  have settled: "admin_settled cfg (db v)" "\<forall>n \<in> set (cf_domains cfg). known_domain n (db v)"
    unfolding assms(3) db_rel_def directory_grows_def known_domain_def by blast+
  obtain y v2 where mk: "?mk v = (y, v2)" by fastforce
  obtain z v3 where op: "?open v2 = (z, v3)" by fastforce
  have v3: "db v2 = db v" "faults v2 = []" "db v3 = db v" "faults v3 = []"
    using calm_db_ok [OF calm_db_syscalls(3) mk] calm_db_ok [OF calm_open(2) op] assms(4) by (simp_all add: calm_db_def stays_calm_def)
  have rest: "ensure_domains t (cf_domains cfg) v3 = (Inr (), v3)" "bootstrap_admin P cfg t v3 = (Inr (), v3)" for t
    using ensure_domains_again [OF v3(4)] bootstrap_again [OF v3(4)] settled v3(3) by simp_all
  show ?thesis
  proof (cases "isl y \<or> isl z")
    case True
    with assms(5) mk op v3 show ?thesis by (cases y; cases z) (auto simp: open_directory_def io_simps)
  next
    case False
    then obtain t where "y = Inr ()" "z = Inr t" by (cases y; cases z) auto
    with assms(5) mk op v3 rest store_open_result [OF o(2), of v2 t v3] show ?thesis
      by (auto simp: open_directory_def io_simps)
  qed
qed



section \<open>A small installation\<close>

text \<open>A small configuration with an administrator, and the libraries for it.\<close>

definition demo_program :: program where
  "demo_program = \<lparr>pg_unmarshal = \<lambda>_. Inr (zero_config\<lparr>cf_hostname := ''mx'', cf_domains := [''x.org''],
       cf_database := \<lparr>db_driver = '''', db_dsn = ''mail.db''\<rparr>,
       cf_admin := admin_config.make ''Root@X.org'' ''pw''\<rparr>),
     pg_env = \<lambda>_. None, pg_bcrypt = plain_bcrypt, pg_pragma_fk = \<lambda>_. True, pg_fmt_date = \<lambda>_. ''today'', pg_auth = ib_auth small_inbound,
     pg_rsa = plain_rsa\<lparr>rsa_generate := \<lambda>_. Inr ''key''\<rparr>, pg_acme = small_acme, pg_match_list = \<lambda>_ _ _. False, pg_webmail = small_webmail,
     pg_listen = \<lambda>_. Inr (), pg_policy = \<lambda>_. Inr (), pg_quote = id\<rparr>"

definition demo_world :: world where
  "demo_world = blank_world\<lparr>nodes := [([''etc''], DirN), ([''etc'', ''mailserver''], DirN), ([''etc'', ''mailserver'', ''config.yaml''], FileN '''' 0)]\<rparr>"

lemma create_demo:
  "case main_cmd demo_program [''user'', ''create'', ''--email'', ''Ann@X.org'', ''--password=pw''] (demo_world, small_acme_state) of
     (x, (w, a)) \<Rightarrow> (case x of Inr (Printed ls) \<Rightarrow> ls = [''created mailbox ann@x.org (id=1, admin=false)''] | _ \<Rightarrow> False)"
  by code_simp

lemma user_create_works_witness:
  "\<exists>w' cfg u. main_cmd demo_program [''user'', ''create'', ''--email'', ''Ann@X.org'', ''--password=pw''] (demo_world, small_acme_state) =
      (Inr (Printed [''created mailbox ann@x.org (id=1, admin=false)'']), (w', small_acme_state)) \<and>
    new_mailbox_for cfg plain_bcrypt ''Ann@X.org'' ''pw'' False demo_world w' u"
proof -
  let ?args = "[''--email'', ''Ann@X.org'', ''--password=pw'']"
  have parse: "parse_flags [(''config'', False), (''email'', False), (''password'', False), (''admin'', True)] ?args [] =
      Inr [(''password'', ''pw''), (''email'', ''Ann@X.org'')]" by code_simp
  have vals: "flag_value [(''password'', ''pw''), (''email'', ''Ann@X.org'')] ''email'' '''' = ''Ann@X.org''"
    "flag_value [(''password'', ''pw''), (''email'', ''Ann@X.org'')] ''password'' '''' = ''pw''"
    "(parse_bool (flag_value [(''password'', ''pw''), (''email'', ''Ann@X.org'')] ''admin'' ''false'') = Some True) = False" by code_simp+
  obtain x w' a' where run: "main_cmd demo_program (''user'' # ''create'' # ?args) (demo_world, small_acme_state) = (x, (w', a'))"
    by (metis surj_pair)
  with create_demo have x: "x = Inr (Printed [''created mailbox ann@x.org (id=1, admin=false)''])" by (auto split: sum.splits outcome.splits)
  from run x have a: "a' = small_acme_state" by (auto simp: main_cmd_def Let_def io_oks on_world_ok)
  have B: "\<forall>salt pw h. bc_generate (pg_bcrypt demo_program) salt pw = Some h \<longrightarrow> bc_compare (pg_bcrypt demo_program) h pw"
    by (simp add: demo_program_def plain_bcrypt_def)
  from user_create_works [OF B run [unfolded x]] obtain cfg u where
    "new_mailbox_for cfg (pg_bcrypt demo_program) ''Ann@X.org'' ''pw'' False demo_world w' u" unfolding parse vals sum.inject
    by (elim exE conjE, hypsubst) (unfold vals, blast)
  then show ?thesis using run x a by (auto simp: demo_program_def)
qed

lemma serve_demo:
  "case main_cmd demo_program [''serve''] (demo_world, small_acme_state) of
     (x, (w, a)) \<Rightarrow> (case x of Inr (Serving S) \<Rightarrow> admin_config.ad_email (cf_admin (sy_config S)) = ''Root@X.org'' \<and> ad_password (cf_admin (sy_config S)) = ''pw'' | _ \<Rightarrow> False)"
  by code_simp

lemma restart_demo:
  "case read_config demo_program default_config demo_world of (x, w) \<Rightarrow> (case x of Inl e \<Rightarrow> False | Inr c \<Rightarrow>
     (case open_directory demo_program c w of (y, w') \<Rightarrow> \<not> isl y \<and> faults w = [] \<and> faults w' = [] \<and> length (users_t (db w')) = 1))"
  by code_simp

lemma restart_changes_nothing_witness:
  "\<exists>c w w' x. open_directory demo_program c w = (Inr x, w') \<and> length (users_t (db w')) = 1 \<and> db (snd (open_directory demo_program c w')) = db w'"
proof -
  obtain x w where c: "read_config demo_program default_config demo_world = (x, w)" by fastforce
  with restart_demo obtain c where "x = Inr c" by (auto split: sum.splits)
  obtain y w' where o: "open_directory demo_program c w = (y, w')" by fastforce
  with restart_demo c \<open>x = _\<close> obtain s where s: "y = Inr s" "faults w = []" "faults w' = []" "length (users_t (db w')) = 1"
    by (cases y) auto
  obtain z v' where "open_directory demo_program c w' = (z, v')" by fastforce
  with restart_changes_nothing [OF o [unfolded s(1)] s(2) refl s(3) this] o s show ?thesis by force
qed

lemma admin_signs_in_witness:
  "case main_cmd demo_program [''serve''] (demo_world, small_acme_state) of (x, (w, a)) \<Rightarrow> \<exists>S u tok w' b s. x = Inr (Serving S) \<and>
     users_t (db w) = [u] \<and> usr_is_admin u \<and>
     serve (sy_webmail S) LoginSubmit (small_request None [(''email'', '' root@x.org''), (''password'', ''pw'')]) (w, served_web S) =
       (Inr (Redirect (SetCookie tok) ''/mail/INBOX''), (w', b)) \<and>
     map_of (wb_sessions b) tok = Some s \<and> mu_row (sv_users (wb_srv b) ! ws_account s) = u"
proof -
  let ?r = "small_request None [(''email'', '' root@x.org''), (''password'', ''pw'')]"
  obtain x w' a' where run: "main_cmd demo_program [''serve''] (demo_world, small_acme_state) = (x, (w', a'))" by (metis surj_pair)
  with serve_demo obtain S where x: "x = Inr (Serving S)" and cfg: "admin_config.ad_email (cf_admin (sy_config S)) = ''Root@X.org''"
    "ad_password (cf_admin (sy_config S)) = ''pw''" by (auto split: sum.splits outcome.splits)
  have B: "\<forall>salt pw h. bc_generate (pg_bcrypt demo_program) salt pw = Some h \<longrightarrow> bc_compare (pg_bcrypt demo_program) h pw"
    by (simp add: demo_program_def plain_bcrypt_def)
  have w: "faults demo_world = []" "users_t (db demo_world) = []" by (simp_all add: demo_world_def empty_db_def)
  have form: "rq_form_ok ?r" "to_lower (trim_space (form_value ?r ''email'')) = to_lower ''Root@X.org''" "form_value ?r ''password'' = ''pw''"
    by code_simp+
  from admin_signs_in [OF B run [unfolded x] w(1) cfg _ _ _ form] w(2) run x show ?thesis by auto
qed

text \<open>
  A creation that fails after the row of the user was inserted cannot be repeated: the user is there without a folder, and
  the command, like the start with the same address as its administrator, does not provision again.
\<close>

lemma interrupted_create:
  "let cmd = cmd_user_create demo_program [''-email=Ann@X.org'', ''-password=pw''];
     (x, w) = cmd (demo_world\<lparr>faults := replicate 10 False @ [True]\<rparr>) in
   x = Inr (Inl 1) \<and> faults w = [] \<and> length (users_t (db w)) = 1 \<and> mailboxes_t (db w) = [] \<and> fst (cmd w) = Inr (Inl 1)"
  by code_simp

end
