(* ===== verification/Fetch.thy ===== *)
theory Fetch
  imports MailboxInv
begin

text \<open>
  FETCH as a client sees it: \<open>MailboxView.Fetch\<close> (\<open>mailbox.go\<close>), \<open>message.fetch\<close>, \<open>data\<close> and
  \<open>envelopeFromBuf\<close> (\<open>message.go\<close>), and the sessions' \<open>Poll\<close> and \<open>Idle\<close>. The response writer of
  go-imap is the state \<open>resp_conn\<close>: the responses completed so far, the one being written, and a schedule
  of failures for the calls that report an error. What go-imap extracts from a message is the
  parameter \<open>fetch_env\<close>; the specification of a section is the text the client sent for it.

  \<open>fetch_messages\<close> of theory \<open>Mailbox\<close> is the effect of FETCH on the folder alone. Shown here: FETCH
  has exactly that effect, and writes for each chosen message, in order, exactly the items asked for,
  with the bytes the file holds; a delivered message can be fetched byte for byte after the next poll;
  and what goes wrong: the mark a FETCH leaves is not the flag the server looks for.
\<close>

section \<open>Requests and responses\<close>

record body_section =
  bs_text :: string
  bs_peek :: bool

record fetch_request =
  fr_flags :: bool
  fr_internal_date :: bool
  fr_size :: bool
  fr_envelope :: bool
  fr_body_structure :: bool
  fr_body_section :: "body_section list"
  fr_binary_section :: "string list"
  fr_binary_size :: "string list"

text \<open>An envelope and a body structure are opaque: their text. \<open>None\<close> is the nil envelope.\<close>

datatype fetch_item =
    ItemUID u32
  | ItemFlags "flag list"
  | ItemInternalDate int
  | ItemSize int
  | ItemEnvelope "string option"
  | ItemBodyStructure string
  | ItemBodySection body_section int bytes
  | ItemBinarySection string int bytes
  | ItemBinarySize string u32

record response =
  rs_seq :: u32
  rs_items :: "fetch_item list"

record resp_conn =
  cn_done :: "response list"
  cn_open :: "response option"
  cn_faults :: "bool list"

record fetch_env =
  fe_read_header :: "bytes \<Rightarrow> (string \<times> string) list option"
  fe_envelope :: "(string \<times> string) list \<Rightarrow> string"
  fe_structure :: "bytes \<Rightarrow> string"
  fe_section :: "bytes \<Rightarrow> body_section \<Rightarrow> bytes"
  fe_binary :: "bytes \<Rightarrow> string \<Rightarrow> bytes"
  fe_binary_size :: "bytes \<Rightarrow> string \<Rightarrow> u32"

section \<open>The response writer\<close>

type_synonym 'a fio = "((world \<times> mbox) \<times> resp_conn, 'a) io"

definition on_mbox :: "'a mio \<Rightarrow> 'a fio" where
  "on_mbox m = (\<lambda>(s, c). case m s of (r, s') \<Rightarrow> (r, (s', c)))"

definition conn_step :: "(resp_conn \<Rightarrow> resp_conn) \<Rightarrow> unit fio" where
  "conn_step f = io_modify (\<lambda>(s, c). (s, f c))"

text \<open>A call that reports an error reads the schedule; a failing one has no effect.\<close>

definition conn_call :: "(resp_conn \<Rightarrow> resp_conn) \<Rightarrow> unit fio" where
  "conn_call f = (\<lambda>(s, c).
     case cn_faults c of
       [] \<Rightarrow> (Inr (), (s, f c))
     | x # xs \<Rightarrow> if x then (Inl ErrIO, (s, c\<lparr>cn_faults := xs\<rparr>)) else (Inr (), (s, f (c\<lparr>cn_faults := xs\<rparr>))))"

definition add_item :: "fetch_item \<Rightarrow> resp_conn \<Rightarrow> resp_conn" where
  "add_item it c = c\<lparr>cn_open := map_option (\<lambda>r. r\<lparr>rs_items := rs_items r @ [it]\<rparr>) (cn_open c)\<rparr>"

definition write_item :: "fetch_item \<Rightarrow> unit fio" where
  "write_item it = conn_step (add_item it)"

definition create_message :: "u32 \<Rightarrow> unit fio" where
  "create_message seq = conn_step (\<lambda>c. c\<lparr>cn_open := Some \<lparr>rs_seq = seq, rs_items = []\<rparr>\<rparr>)"

definition close_message :: "unit fio" where
  "close_message = conn_call (\<lambda>c. c\<lparr>cn_done := cn_done c @ (case cn_open c of Some r \<Rightarrow> [r] | None \<Rightarrow> []), cn_open := None\<rparr>)"

text \<open>A literal: \<open>Write\<close>, then \<open>Close\<close> in any case; the error of \<open>Write\<close> goes first.\<close>

definition write_literal :: "fetch_item \<Rightarrow> unit fio" where
  "write_literal it =
     io_either (conn_call (add_item it))
       (\<lambda>e. io_bind (io_ignore (conn_call id)) (\<lambda>_. io_fail e))
       (\<lambda>_. conn_call id)"

section \<open>Answering one message\<close>

definition message_data :: "message \<Rightarrow> bytes mio" where
  "message_data m = io_bind the_mbox (\<lambda>b. on_world (maildir_open (mb_root b) (m_key m)))"

definition envelope_from_buf :: "fetch_env \<Rightarrow> bytes \<Rightarrow> string option" where
  "envelope_from_buf E buf = map_option (fe_envelope E) (fe_read_header E buf)"

definition need_buf :: "fetch_request \<Rightarrow> bool" where
  "need_buf rq \<longleftrightarrow> fr_envelope rq \<or> fr_body_structure rq \<or> fr_body_section rq \<noteq> [] \<or>
     fr_binary_section rq \<noteq> [] \<or> fr_binary_size rq \<noteq> []"

definition io_when :: "bool \<Rightarrow> ('s, unit) io \<Rightarrow> ('s, unit) io" where
  "io_when c m = (if c then m else io_ret ())"

definition msg_fetch :: "fetch_env \<Rightarrow> fetch_request \<Rightarrow> message \<Rightarrow> unit fio" where
  "msg_fetch E rq m =
     io_bind (write_item (ItemUID (m_uid m))) (\<lambda>_.
     io_bind (io_when (fr_flags rq) (write_item (ItemFlags (m_flags m)))) (\<lambda>_.
     io_bind (io_when (fr_internal_date rq) (write_item (ItemInternalDate (m_t m)))) (\<lambda>_.
     io_bind (io_when (fr_size rq) (write_item (ItemSize (m_size m)))) (\<lambda>_.
     io_bind (if need_buf rq then on_mbox (io_wrap (''reading message '' @ m_key m) (message_data m)) else io_ret []) (\<lambda>buf.
     io_bind (io_when (fr_envelope rq) (write_item (ItemEnvelope (envelope_from_buf E buf)))) (\<lambda>_.
     io_bind (io_when (fr_body_structure rq) (write_item (ItemBodyStructure (fe_structure E buf)))) (\<lambda>_.
     io_bind (io_for (fr_body_section rq) (\<lambda>bs. let section = fe_section E buf bs in
         write_literal (ItemBodySection bs (int (length section)) section))) (\<lambda>_.
     io_bind (io_for (fr_binary_section rq) (\<lambda>bs. let section = fe_binary E buf bs in
         write_literal (ItemBinarySection bs (int (length section)) section))) (\<lambda>_.
     io_bind (io_for (fr_binary_size rq) (\<lambda>bss. write_item (ItemBinarySize bss (fe_binary_size E buf bss)))) (\<lambda>_.
     close_message))))))))))"

section \<open>FETCH\<close>

definition marks_seen :: "fetch_request \<Rightarrow> bool" where
  "marks_seen rq \<longleftrightarrow> list_ex (\<lambda>bs. \<not> bs_peek bs) (fr_body_section rq)"

text \<open>Marking one message: the flag, the row and the file name, the event for every session.\<close>

definition touch_message :: "bool \<Rightarrow> u32 \<Rightarrow> message \<Rightarrow> message mio" where
  "touch_message seen seq m =
     (if seen \<and> \<not> has_flag m flag_seen then
        io_bind (put_message (mark_seen m)) (\<lambda>_.
        io_bind (persist_flags_locked (mark_seen m)) (\<lambda>_.
        io_bind (queue_event (FlagsEv seq (m_uid m) (m_flags (mark_seen m)) False)) (\<lambda>_.
        io_ret (mark_seen m))))
      else io_ret m)"

definition chosen_messages :: "view \<Rightarrow> num_set \<Rightarrow> mbox \<Rightarrow> (u32 \<times> message) list" where
  "chosen_messages v ns b =
     filter (\<lambda>(seq, m). selected v (static_num_set b (vw_search_res v) ns) seq m) (numbered (mb_list b))"

definition fetch_one :: "fetch_env \<Rightarrow> view \<Rightarrow> fetch_request \<Rightarrow> u32 \<Rightarrow> message \<Rightarrow> unit fio" where
  "fetch_one E v rq seq m =
     io_bind (on_mbox (touch_message (marks_seen rq) seq m)) (\<lambda>m.
     io_bind (create_message (vw_enc v seq)) (\<lambda>_.
     msg_fetch E rq m))"

definition view_fetch :: "fetch_env \<Rightarrow> view \<Rightarrow> num_set \<Rightarrow> fetch_request \<Rightarrow> unit fio" where
  "view_fetch E v ns rq =
     io_bind (on_mbox the_mbox) (\<lambda>b.
     io_for (chosen_messages v ns b) (\<lambda>(seq, m). fetch_one E v rq seq m))"

definition flags_request :: fetch_request where
  "flags_request = \<lparr>fr_flags = True, fr_internal_date = False, fr_size = False, fr_envelope = False,
     fr_body_structure = False, fr_body_section = [], fr_binary_section = [], fr_binary_size = []\<rparr>"

text \<open>STORE answers with the new flags unless it is silent.\<close>

definition view_store :: "fetch_env \<Rightarrow> view \<Rightarrow> num_set \<Rightarrow> flag_op \<Rightarrow> flag list \<Rightarrow> bool \<Rightarrow> unit fio" where
  "view_store E v ns op fs silent =
     io_bind (on_mbox (store_messages v ns op fs True)) (\<lambda>_.
     if silent then io_ret () else view_fetch E v ns flags_request)"

section \<open>What a request asks for\<close>

text \<open>The items of one answer, as the request lists them.\<close>

definition answer_items :: "fetch_env \<Rightarrow> fetch_request \<Rightarrow> message \<Rightarrow> bytes \<Rightarrow> fetch_item list" where
  "answer_items E rq m buf =
     ItemUID (m_uid m) #
     (if fr_flags rq then [ItemFlags (m_flags m)] else []) @
     (if fr_internal_date rq then [ItemInternalDate (m_t m)] else []) @
     (if fr_size rq then [ItemSize (m_size m)] else []) @
     (if fr_envelope rq then [ItemEnvelope (envelope_from_buf E buf)] else []) @
     (if fr_body_structure rq then [ItemBodyStructure (fe_structure E buf)] else []) @
     map (\<lambda>bs. ItemBodySection bs (int (length (fe_section E buf bs))) (fe_section E buf bs)) (fr_body_section rq) @
     map (\<lambda>bs. ItemBinarySection bs (int (length (fe_binary E buf bs))) (fe_binary E buf bs)) (fr_binary_section rq) @
     map (\<lambda>bss. ItemBinarySize bss (fe_binary_size E buf bss)) (fr_binary_size rq)"

text \<open>The effect of a request on the folder.\<close>

definition effect_of :: "fetch_request \<Rightarrow> fetch_options" where
  "effect_of rq = \<lparr>fo_mark_seen = marks_seen rq, fo_need_body = need_buf rq\<rparr>"

definition seen_message :: "fetch_request \<Rightarrow> message \<Rightarrow> message" where
  "seen_message rq m = (if marks_seen rq \<and> \<not> has_flag m flag_seen then mark_seen m else m)"


section \<open>Runs of a connection that does not fail\<close>

abbreviation opened :: "resp_conn \<Rightarrow> u32 \<Rightarrow> fetch_item list \<Rightarrow> resp_conn" where
  "opened c q its \<equiv> c\<lparr>cn_open := Some \<lparr>rs_seq = q, rs_items = its\<rparr>\<rparr>"

lemma write_item_run [io_simps]:
  "write_item it (s, opened c q its) = (Inr (), (s, opened c q (its @ [it])))"
  by (simp add: write_item_def conn_step_def io_modify_def add_item_def)

lemma write_literal_run [io_simps]:
  "cn_faults c = [] \<Longrightarrow> write_literal it (s, opened c q its) = (Inr (), (s, opened c q (its @ [it])))"
  by (simp add: write_literal_def conn_call_def io_either_def add_item_def)

lemma io_when_run [io_simps]: "io_when b m s = (if b then m s else (Inr (), s))"
  by (simp add: io_when_def io_ret_def)

lemma io_for_writes:
  assumes "\<And>x s its. f x (s, opened c q its) = (Inr (), (s, opened c q (its @ [g x])))"
  shows "io_for xs f (s, opened c q its) = (Inr (), (s, opened c q (its @ map g xs)))"
  by (induction xs arbitrary: its) (simp_all add: assms io_bind_apply io_ret_def)

lemma close_message_run [io_simps]:
  "cn_faults c = [] \<Longrightarrow> close_message (s, opened c q its) =
     (Inr (), (s, c\<lparr>cn_done := cn_done c @ [\<lparr>rs_seq = q, rs_items = its\<rparr>], cn_open := None\<rparr>))"
  by (simp add: close_message_def conn_call_def)

lemma on_mbox_run [io_simps]: "on_mbox m (s, c) = (case m s of (r, s') \<Rightarrow> (r, (s', c)))"
  by (simp add: on_mbox_def)

text \<open>The items written before the message is read.\<close>

definition index_items :: "fetch_request \<Rightarrow> message \<Rightarrow> fetch_item list" where
  "index_items rq m = ItemUID (m_uid m) #
     (if fr_flags rq then [ItemFlags (m_flags m)] else []) @
     (if fr_internal_date rq then [ItemInternalDate (m_t m)] else []) @
     (if fr_size rq then [ItemSize (m_size m)] else [])"

definition load_body :: "fetch_request \<Rightarrow> message \<Rightarrow> bytes mio" where
  "load_body rq m = (if need_buf rq then io_wrap (''reading message '' @ m_key m) (message_data m) else io_ret [])"

lemma io_if: "(if b then m s else n s) = (if b then m else n) s"
  by simp

lemma msg_fetch_run:
  assumes "cn_faults c = []"
  shows "msg_fetch E rq m (s, opened c q []) =
    (case load_body rq m s of
       (Inl e, s') \<Rightarrow> (Inl e, (s', opened c q (index_items rq m)))
     | (Inr buf, s') \<Rightarrow> (Inr (), (s', c\<lparr>cn_done := cn_done c @ [\<lparr>rs_seq = q, rs_items = answer_items E rq m buf\<rparr>],
         cn_open := None\<rparr>)))"
proof -
  have lit: "io_for xs (\<lambda>x. write_literal (g x)) (s, opened c q its) = (Inr (), (s, opened c q (its @ map g xs)))"
    for xs :: "'x list" and g s its
    by (rule io_for_writes) (simp add: write_literal_run assms)
  have item: "io_for xs (\<lambda>x. write_item (g x)) (s, opened c q its) = (Inr (), (s, opened c q (its @ map g xs)))"
    for xs :: "'x list" and g s its
    by (rule io_for_writes) (simp add: write_item_run)
  have load: "(if need_buf rq then on_mbox (io_wrap (''reading message '' @ m_key m) (message_data m)) else io_ret []) (s, c') =
      (case load_body rq m s of (r, s') \<Rightarrow> (r, (s', c')))" for c'
    by (simp add: load_body_def on_mbox_run io_ret_def)
  let ?k = "\<lambda>buf. io_bind (io_when (fr_envelope rq) (write_item (ItemEnvelope (envelope_from_buf E buf)))) (\<lambda>_.
     io_bind (io_when (fr_body_structure rq) (write_item (ItemBodyStructure (fe_structure E buf)))) (\<lambda>_.
     io_bind (io_for (fr_body_section rq) (\<lambda>bs. let section = fe_section E buf bs in
         write_literal (ItemBodySection bs (int (length section)) section))) (\<lambda>_.
     io_bind (io_for (fr_binary_section rq) (\<lambda>bs. let section = fe_binary E buf bs in
         write_literal (ItemBinarySection bs (int (length section)) section))) (\<lambda>_.
     io_bind (io_for (fr_binary_size rq) (\<lambda>bss. write_item (ItemBinarySize bss (fe_binary_size E buf bss)))) (\<lambda>_.
     close_message)))))"
  have k: "?k buf (s', opened c q (index_items rq m)) = (Inr (), (s', c\<lparr>cn_done := cn_done c @
      [\<lparr>rs_seq = q, rs_items = answer_items E rq m buf\<rparr>], cn_open := None\<rparr>))" for buf s'
    unfolding Let_def
    by (cases "fr_envelope rq"; cases "fr_body_structure rq")
      (simp_all add: io_bind_apply io_when_run write_item_run lit item close_message_run assms answer_items_def index_items_def)
  have pre: "msg_fetch E rq m (s, opened c q []) =
      io_bind (if need_buf rq then on_mbox (io_wrap (''reading message '' @ m_key m) (message_data m)) else io_ret []) ?k
        (s, opened c q (index_items rq m))"
    unfolding msg_fetch_def index_items_def
    by (cases "fr_flags rq"; cases "fr_internal_date rq"; cases "fr_size rq")
      (simp_all add: io_bind_apply io_when_run write_item_run)
  show ?thesis
    unfolding pre by (subst io_bind_apply) (simp only: load, simp add: k split: prod.splits sum.splits)
qed


section \<open>FETCH message by message\<close>

text \<open>The mailbox part of one round, and the folder's FETCH as a loop of it.\<close>

definition fetch_step :: "fetch_request \<Rightarrow> u32 \<times> message \<Rightarrow> unit mio" where
  "fetch_step rq = (\<lambda>(seq, m). io_bind (touch_message (marks_seen rq) seq m) (fetch_message (effect_of rq)))"

lemma fetch_messages_steps:
  "fetch_messages v ns (effect_of rq) (w, b) = io_for (chosen_messages v ns b) (fetch_step rq) (w, b)"
  by (simp add: fetch_messages_def for_each_locked_def io_bind_apply the_mbox_def io_gets_def chosen_messages_def
      fetch_step_def touch_message_def effect_of_def)

lemma view_fetch_run:
  "view_fetch E v ns rq ((w, b), c) =
     io_for (chosen_messages v ns b) (\<lambda>(seq, m). fetch_one E v rq seq m) ((w, b), c)"
  by (simp add: view_fetch_def io_bind_apply on_mbox_run the_mbox_def io_gets_def)

lemma fetch_message_load:
  "fetch_message (effect_of rq) m s = (case load_body rq m s of (Inl e, s') \<Rightarrow> (Inl e, s') | (Inr buf, s') \<Rightarrow> (Inr (), s'))"
  by (cases s) (auto simp: fetch_message_def load_body_def message_data_def effect_of_def on_world_def io_bind_apply
      io_wrap_apply the_mbox_def io_gets_def io_ret_def split: prod.splits sum.splits)

lemma touch_message_facts:
  assumes ok: "maildir_ok (tree w) (mb_root b)" and run: "touch_message seen seq m (w, b) = (Inr m', (w', b'))"
  shows "m' = (if seen \<and> \<not> has_flag m flag_seen then mark_seen m else m) \<and> mb_root b' = mb_root b \<and>
    maildir_ok (tree w') (mb_root b) \<and>
    (\<forall>r k c. maildir_has (tree w') r k c = maildir_has (tree w) r k c)"
proof (cases "seen \<and> \<not> has_flag m flag_seen")
  case True
  let ?b = "b\<lparr>mb_list := map (\<lambda>x. if m_uid x = m_uid m then mark_seen m else x) (mb_list b)\<rparr>"
  from run True have m': "m' = mark_seen m" and mb: "mb_root b' = mb_root b"
    and p: "\<exists>b2. persist_flags_locked (mark_seen m) (w, ?b) = (Inr (), (w', b2))"
    by (auto simp: touch_message_def io_oks put_message_def upd_mbox_def io_modify_def mark_seen_def queue_event_def
      persist_flags_locked_def the_mbox_def io_gets_def on_world_def split: prod.splits)
  from p obtain u w1 where up: "update_message_flags (mb_db_id b) (m_key m) (encode_flags (m_flags (mark_seen m))) w = (Inr u, w1)"
    and sf: "maildir_set_flags (mb_root b) (m_key m) (maildir_letters_from_flag_list (m_flags (mark_seen m))) w1 = (Inr (), w')"
    by (auto simp: persist_flags_locked_def io_oks the_mbox_def io_gets_def on_world_def mark_seen_def split: prod.splits)
  have t: "tree w1 = tree w" by (rule same_tree_run [OF store_same_tree(4) up])
  from set_flags_facts [OF _ sf] ok have "maildir_ok (tree w') (mb_root b) \<and>
      (\<forall>r k c. maildir_has (tree w') r k c = maildir_has (tree w1) r k c)" by (simp add: t)
  with True m' mb t show ?thesis by simp
next
  case False
  with run ok show ?thesis by (auto simp: touch_message_def io_ret_def)
qed

text \<open>A response answers a message: the items of the request for the message, marked where the
  request marks, with the bytes stored under its key.\<close>

definition answered :: "fetch_env \<Rightarrow> view \<Rightarrow> fetch_request \<Rightarrow> (string \<Rightarrow> bytes \<Rightarrow> bool) \<Rightarrow> u32 \<times> message \<Rightarrow> response \<Rightarrow> bool" where
  "answered E v rq has = (\<lambda>(seq, m) rs. \<exists>buf. (need_buf rq \<longrightarrow> has (m_key m) buf) \<and>
     rs = \<lparr>rs_seq = vw_enc v seq, rs_items = answer_items E rq (seen_message rq m) buf\<rparr>)"

text \<open>Each chosen message answered; or, with an error, the messages before the one it struck, whose
  response is left unfinished when its file could not be read.\<close>

definition fetch_output :: "fetch_env \<Rightarrow> view \<Rightarrow> fetch_request \<Rightarrow> (string \<Rightarrow> bytes \<Rightarrow> bool) \<Rightarrow>
    (u32 \<times> message) list \<Rightarrow> resp_conn \<Rightarrow> goerr + unit \<Rightarrow> resp_conn \<Rightarrow> bool" where
  "fetch_output E v rq has xs c r c' \<longleftrightarrow>
     (case r of
        Inr _ \<Rightarrow> (\<exists>rss. list_all2 (answered E v rq has) xs rss \<and> c' = c\<lparr>cn_done := cn_done c @ rss\<rparr>)
      | Inl e \<Rightarrow> (\<exists>n rss rest. n < length xs \<and> list_all2 (answered E v rq has) (take n xs) rss \<and>
          c' = c\<lparr>cn_done := cn_done c @ rss, cn_open := rest\<rparr> \<and>
          (rest = None \<or> need_buf rq \<and>
             rest = Some \<lparr>rs_seq = vw_enc v (fst (xs ! n)), rs_items = index_items rq (seen_message rq (snd (xs ! n)))\<rparr>)))"

lemma fetch_output_Nil: "fetch_output E v rq has [] c (Inr ()) c"
  by (simp add: fetch_output_def)

lemma fetch_output_first:
  assumes "cn_open c = None"
  shows "fetch_output E v rq has (x # xs) c (Inl e) c"
proof -
  have "c\<lparr>cn_done := cn_done c @ [], cn_open := None\<rparr> = c" using assms by (cases c) simp
  then show ?thesis unfolding fetch_output_def sum.case
    by (intro exI [of _ 0] exI [of _ "[]"] exI [of _ None]) simp
qed

lemma fetch_output_Cons:
  assumes "answered E v rq has x rs" and "fetch_output E v rq has xs (c\<lparr>cn_done := cn_done c @ [rs]\<rparr>) r c'"
  shows "fetch_output E v rq has (x # xs) c r c'"
proof (cases r)
  case (Inl e)
  with assms(2) obtain n rss rest where *: "n < length xs" "list_all2 (answered E v rq has) (take n xs) rss"
    "c' = c\<lparr>cn_done := cn_done c @ rs # rss, cn_open := rest\<rparr>"
    "rest = None \<or> need_buf rq \<and>
             rest = Some \<lparr>rs_seq = vw_enc v (fst (xs ! n)), rs_items = index_items rq (seen_message rq (snd (xs ! n)))\<rparr>"
    by (auto simp: fetch_output_def)
  then show ?thesis
    unfolding fetch_output_def Inl sum.case
    by (intro exI [of _ "Suc n"] exI [of _ "rs # rss"] exI [of _ rest]) (simp add: assms(1))
next
  case (Inr u)
  with assms(2) obtain rss where "list_all2 (answered E v rq has) xs rss" "c' = c\<lparr>cn_done := cn_done c @ rs # rss\<rparr>"
    by (auto simp: fetch_output_def)
  then show ?thesis
    unfolding fetch_output_def Inr sum.case by (intro exI [of _ "rs # rss"]) (simp add: assms(1))
qed

lemma load_body_facts:
  assumes "load_body rq m (w, b) = (Inr buf, (w', b'))"
  shows "b' = b \<and> tree w' = tree w \<and> (need_buf rq \<longrightarrow> maildir_has (tree w) (mb_root b) (m_key m) buf)"
proof (cases "need_buf rq")
  case True
  with assms obtain o: "maildir_open (mb_root b) (m_key m) w = (Inr buf, w')" and "b' = b"
    by (auto simp: load_body_def message_data_def io_oks the_mbox_def io_gets_def on_world_def split: prod.splits)
  with tripleD_ok [OF triple_open refl o] show ?thesis by simp
qed (use assms in \<open>simp add: load_body_def io_ret_def\<close>)

lemma seen_message_key [simp]: "m_key (seen_message rq m) = m_key m"
  by (simp add: seen_message_def mark_seen_def)

lemma fetch_loop:
  assumes "maildir_ok (tree w) (mb_root b)" and "\<forall>k c. maildir_has (tree w) (mb_root b) k c = has k c"
    and "cn_faults c = []" and "cn_open c = None"
    and "io_for xs (\<lambda>(seq, m). fetch_one E v rq seq m) ((w, b), c) = (r, (s', c'))"
  shows "io_for xs (fetch_step rq) (w, b) = (r, s') \<and> fetch_output E v rq has xs c r c'"
  using assms
proof (induction xs arbitrary: w b c)
  case Nil
  then show ?case by (auto simp: io_ret_def fetch_output_Nil)
next
  case (Cons x xs)
  obtain seq m where x: "x = (seq, m)" by fastforce
  obtain r1 w1 b1 where t: "touch_message (marks_seen rq) seq m (w, b) = (r1, (w1, b1))" by (metis prod.exhaust)
  show ?case
  proof (cases r1)
    case (Inl e)
    with t Cons.prems(4,5) show ?thesis
      by (auto simp: x fetch_one_def fetch_step_def io_bind_apply on_mbox_run intro: fetch_output_first)
  next
    case (Inr m1)
    from touch_message_facts [OF Cons.prems(1) t [unfolded Inr]]
    have m1: "m1 = seen_message rq m" and f: "mb_root b1 = mb_root b" "maildir_ok (tree w1) (mb_root b1)"
      "\<forall>k c. maildir_has (tree w1) (mb_root b1) k c = has k c"
      using Cons.prems(2) by (auto simp: seen_message_def)
    obtain r2 w2 b2 where l: "load_body rq m1 (w1, b1) = (r2, (w2, b2))" by (metis prod.exhaust)
    have one: "fetch_one E v rq seq m ((w, b), c) = (case r2 of
        Inl e \<Rightarrow> (Inl e, ((w2, b2), opened c (vw_enc v seq) (index_items rq m1)))
      | Inr buf \<Rightarrow> (Inr (), ((w2, b2), c\<lparr>cn_done := cn_done c @ [\<lparr>rs_seq = vw_enc v seq, rs_items = answer_items E rq m1 buf\<rparr>], cn_open := None\<rparr>)))"
      using Cons.prems(3) t Inr l
      by (simp add: fetch_one_def io_bind_apply on_mbox_run create_message_def conn_step_def io_modify_apply msg_fetch_run split: sum.splits)
    have step: "fetch_step rq x (w, b) = (case r2 of Inl e \<Rightarrow> Inl e | Inr buf \<Rightarrow> Inr (), (w2, b2))"
      using t Inr l by (simp add: x fetch_step_def io_bind_apply fetch_message_load split: sum.splits)
    show ?thesis
    proof (cases r2)
      case (Inl e)
      have nb: "need_buf rq" using l Inl by (simp add: load_body_def io_ret_def split: if_splits)
      have "fetch_output E v rq has (x # xs) c (Inl e) (opened c (vw_enc v seq) (index_items rq m1))"
        unfolding fetch_output_def sum.case
        by (intro exI [of _ 0] exI [of _ "[]"] exI [of _ "Some \<lparr>rs_seq = vw_enc v seq, rs_items = index_items rq m1\<rparr>"])
          (simp add: nb x m1)
      with Inl one step Cons.prems(5) show ?thesis by (auto simp: x io_bind_apply)
    next
      case (Inr buf)
      let ?rs = "\<lparr>rs_seq = vw_enc v seq, rs_items = answer_items E rq m1 buf\<rparr>"
      let ?c = "c\<lparr>cn_done := cn_done c @ [?rs]\<rparr>"
      from load_body_facts [OF l [unfolded Inr]] f m1 have
        b2: "b2 = b1" "tree w2 = tree w1" and ans: "answered E v rq has x ?rs"
        by (auto simp: answered_def x)
      have c: "c\<lparr>cn_done := d, cn_open := None\<rparr> = c\<lparr>cn_done := d\<rparr>" for d using Cons.prems(4) by (cases c) simp
      from Cons.prems(5) one Inr have rest: "io_for xs (\<lambda>(seq, m). fetch_one E v rq seq m) ((w2, b2), ?c) = (r, (s', c'))"
        by (simp add: x io_bind_apply c)
      have "io_for xs (fetch_step rq) (w2, b2) = (r, s') \<and> fetch_output E v rq has xs ?c r c'"
        by (rule Cons.IH [OF _ _ _ _ rest]) (use f b2 Cons.prems(3,4) in simp_all)
      with step Inr ans show ?thesis by (auto simp: io_bind_apply intro: fetch_output_Cons)
    qed
  qed
qed


section \<open>The mark of a FETCH\<close>

lemma flag_seen_not_canonical: "canonical_flag f \<noteq> flag_seen"
proof
  assume "canonical_flag f = flag_seen"
  then have "canonical_flag flag_seen = flag_seen" by (metis canonical_idem)
  moreover have "canonical_flag flag_seen \<noteq> flag_seen" by code_simp
  ultimately show False by simp
qed

lemma has_flag_seen_message [simp]: "has_flag (seen_message rq m) f = has_flag m f"
  using flag_seen_not_canonical [of f] by (auto simp: seen_message_def mark_seen_def has_flag_def)

lemma seen_message_uid [simp]: "m_uid (seen_message rq m) = m_uid m"
  by (simp add: seen_message_def mark_seen_def)

text \<open>What writing to a connection leaves alone.\<close>

definition conn_only :: "'a fio \<Rightarrow> bool" where
  "conn_only f \<longleftrightarrow> (\<forall>s c r s' c'. f (s, c) = (r, (s', c')) \<longrightarrow> s' = s)"

lemma conn_only_bind: "conn_only f \<Longrightarrow> (\<And>x. conn_only (k x)) \<Longrightarrow> conn_only (io_bind f k)"
  unfolding conn_only_def io_bind_apply by (fastforce split: prod.splits sum.splits)

lemma conn_only_writes:
  "conn_only (write_item it)" "conn_only (write_literal l)" "conn_only close_message" "conn_only (create_message q)"
  "conn_only (io_ret x)" "conn_only f \<Longrightarrow> conn_only (io_when b f)"
  by (auto simp: conn_only_def write_item_def conn_step_def io_modify_def write_literal_def conn_call_def
      close_message_def create_message_def io_ret_def io_when_def io_either_def io_ignore_apply io_bind_apply io_fail_def
      split: list.splits sum.splits if_splits)

lemma conn_only_for: "(\<And>x. conn_only (f x)) \<Longrightarrow> conn_only (io_for xs f)"
  by (induction xs) (auto intro: conn_only_bind conn_only_writes)

lemma the_mbox_run: "the_mbox (w, b) = (Inr b, (w, b))"
  by (simp add: the_mbox_def io_gets_def)

text \<open>Answering a message leaves the folder alone; so the list changes by the mark only.\<close>

definition list_kept :: "'a fio \<Rightarrow> bool" where
  "list_kept f \<longleftrightarrow> (\<forall>w b c r w' b' c'. f ((w, b), c) = (r, ((w', b'), c')) \<longrightarrow> b' = b)"

lemma list_kept_bind: "list_kept f \<Longrightarrow> (\<And>x. list_kept (k x)) \<Longrightarrow> list_kept (io_bind f k)"
  unfolding list_kept_def io_bind_apply by (fastforce split: prod.splits sum.splits)

lemma conn_only_list_kept: "conn_only f \<Longrightarrow> list_kept f"
  by (auto simp: conn_only_def list_kept_def)

lemma list_kept_data:
  "list_kept (if d then on_mbox (io_wrap msg (message_data m)) else io_ret [])"
  by (auto simp: list_kept_def on_mbox_run message_data_def io_wrap_apply io_bind_apply the_mbox_run on_world_def io_ret_def
      split: prod.splits sum.splits if_splits)

lemma list_kept_msg_fetch: "list_kept (io_bind (create_message q) (\<lambda>_. msg_fetch E rq m))"
  unfolding msg_fetch_def Let_def
  by (intro list_kept_bind list_kept_data conn_only_list_kept conn_only_writes conn_only_for)

lemma fetch_one_list:
  assumes "fetch_one E v rq seq m ((w, b), c) = (Inr u, ((w', b'), c'))"
  shows "mb_list b' = map (\<lambda>y. if m_uid y = m_uid m \<and> marks_seen rq \<and> \<not> has_flag m flag_seen then mark_seen m else y) (mb_list b)"
proof -
  from assms obtain m1 w1 b1 where t: "touch_message (marks_seen rq) seq m (w, b) = (Inr m1, (w1, b1))"
    and f: "io_bind (create_message (vw_enc v seq)) (\<lambda>_. msg_fetch E rq m1) ((w1, b1), c) = (Inr u, ((w', b'), c'))"
    by (auto simp: fetch_one_def io_oks(1) on_mbox_run split: prod.splits)
  from f have "b' = b1" using list_kept_msg_fetch [unfolded list_kept_def] by blast
  moreover have "mb_list b1 = map (\<lambda>y. if m_uid y = m_uid m \<and> marks_seen rq \<and> \<not> has_flag m flag_seen then mark_seen m else y) (mb_list b)"
    using t by (auto simp: touch_message_def io_oks put_message_def upd_mbox_def io_modify_def mark_seen_def queue_event_def
      persist_flags_locked_def the_mbox_run on_world_def io_ret_def split: prod.splits if_splits)
  ultimately show ?thesis by simp
qed

text \<open>A loop that replaces each message it visits by \<open>g\<close> of it, in a list with distinct UIDs.\<close>

lemma update_loop:
  assumes step: "\<And>seq m s u s'. f (seq, m) s = (Inr u, s') \<Longrightarrow> m \<in> set (L s) \<Longrightarrow> distinct (map m_uid (L s)) \<Longrightarrow>
      L s' = map (\<lambda>y. if y = m then g m else y) (L s)"
    and uid: "\<And>m. m_uid (g m) = m_uid m"
    and run: "io_for xs f s = (Inr (), s')"
    and l: "distinct (map m_uid (L s))" "snd ` set xs \<subseteq> set (L s)" "distinct (map (m_uid \<circ> snd) xs)"
  shows "L s' = map (\<lambda>m. if m \<in> snd ` set xs then g m else m) (L s)"
  using run l
proof (induction xs arbitrary: s)
  case (Cons x xs)
  obtain seq m where x: "x = (seq, m)" by fastforce
  from Cons.prems(1) obtain s1 where one: "f (seq, m) s = (Inr (), s1)" and rest: "io_for xs f s1 = (Inr (), s')"
    by (auto simp: x io_oks(1))
  have l1: "L s1 = map (\<lambda>y. if y = m then g m else y) (L s)"
    by (rule step [OF one]) (use Cons.prems in \<open>simp_all add: x\<close>)
  have uids: "map m_uid (L s1) = map m_uid (L s)" by (simp add: l1 uid)
  have other: "snd y \<noteq> m \<and> m_uid (snd y) \<noteq> m_uid m" if "y \<in> set xs" for y
    using Cons.prems(4) that by (auto simp: x image_iff)
  have "L s' = map (\<lambda>m. if m \<in> snd ` set xs then g m else m) (L s1)"
  proof (rule Cons.IH [OF rest])
    show "snd ` set xs \<subseteq> set (L s1)" using Cons.prems(3) other by (force simp: l1 x)
  qed (use Cons.prems(2,4) uids in simp_all)
  moreover have "g m \<notin> snd ` set xs" using other uid by force
  ultimately show ?case using other by (auto simp: l1 x)
qed (simp add: io_ret_def)

lemma put_list:
  assumes "m \<in> set l" and "distinct (map m_uid l)"
  shows "map (\<lambda>y. if m_uid y = m_uid m then m' else y) l = map (\<lambda>y. if y = m then m' else y) l"
  using distinct_map_eq [OF assms(2) _ assms(1)] by auto

lemma fetch_list_loop:
  assumes "io_for xs (\<lambda>(seq, m). fetch_one E v rq seq m) ((w, b), c) = (Inr (), ((w', b'), c'))"
    and "distinct (map m_uid (mb_list b))" and "snd ` set xs \<subseteq> set (mb_list b)" and "distinct (map (m_uid \<circ> snd) xs)"
  shows "mb_list b' = map (\<lambda>m. if m \<in> snd ` set xs then seen_message rq m else m) (mb_list b)"
proof -
  let ?L = "\<lambda>s :: (world \<times> mbox) \<times> resp_conn. mb_list (snd (fst s))"
  have "?L ((w', b'), c') = map (\<lambda>m. if m \<in> snd ` set xs then seen_message rq m else m) (?L ((w, b), c))"
  proof (rule update_loop [OF _ _ assms(1), of ?L "seen_message rq"], goal_cases)
    case (1 seq m s u s')
    obtain w b c w' b' c' where s: "s = ((w, b), c)" "s' = ((w', b'), c')" by (metis prod.exhaust)
    from fetch_one_list [of E v rq seq m w b c u w' b' c'] 1 put_list [of m "mb_list b" "mark_seen m"]
    show ?case by (auto simp: s seen_message_def)
  qed (use assms(2-4) in simp_all)
  then show ?thesis by simp
qed

lemma chosen_messages_facts:
  assumes "distinct (map m_uid (mb_list b))"
  shows "snd ` set (chosen_messages v ns b) \<subseteq> set (mb_list b)" and "distinct (map (m_uid \<circ> snd) (chosen_messages v ns b))"
proof -
  have "map snd (numbered (mb_list b)) = mb_list b" by (simp add: numbered_def)
  then have "distinct (map (m_uid \<circ> snd) (numbered (mb_list b)))" using assms by (metis map_map)
  then show "distinct (map (m_uid \<circ> snd) (chosen_messages v ns b))"
    unfolding chosen_messages_def by (rule distinct_map_filter)
  have "snd ` set (numbered (mb_list b)) = set (mb_list b)" by (simp add: numbered_def flip: set_map)
  then show "snd ` set (chosen_messages v ns b) \<subseteq> set (mb_list b)" by (auto simp: chosen_messages_def)
qed



section \<open>From delivery to FETCH\<close>

lemma find_in_runs:
  assumes ok: "maildir_ok (tree w) root" and d: "d \<in> {''new'', ''cur''}" "tree w (root @ [d]) = Some None"
    and calm: "faults w = []"
  shows "(\<exists>n. located (tree w) root key (d, n) \<and> find_in root key d w = (Inr (Some (d, n)), w)) \<or>
    (\<forall>n. \<not> located (tree w) root key (d, n)) \<and> find_in root key d w = (Inr None, w)"
proof -
  let ?names = "child_names (nodes w) (root @ [d])"
  let ?es = "map (\<lambda>x. (x, map_of (nodes w) ((root @ [d]) @ [x]) = Some DirN)) ?names"
  have "plain_name d" using d(1) by (auto simp: plain_name_def)
  moreover have "os_read_dir (root @ [d]) w = (Inr ?es, w)"
    using d(2) calm by (simp add: os_read_dir_def may_fail_def is_dir_tree)
  ultimately have run: "find_in root key d w = (Inr (map_option (\<lambda>(n, b). (d, n)) (find (\<lambda>(n, b). fst (split_flags n) = key) ?es)), w)"
    by (simp add: find_in_def io_either_apply pjoin_plain io_ret_def)
  have loc: "located (tree w) root key (d, n) \<longleftrightarrow> n \<in> set ?names \<and> fst (split_flags n) = key" for n
    using d(1) by (auto simp: located_def set_child_names)
  show ?thesis
  proof (cases "find (\<lambda>(n, b). fst (split_flags n) = key) ?es")
    case None
    then have "\<forall>n \<in> set ?names. fst (split_flags n) \<noteq> key" by (auto simp: find_None_iff)
    with run loc None show ?thesis by auto
  next
    case (Some y)
    from find_SomeD [OF this] have "fst y \<in> set ?names" "fst (split_flags (fst y)) = key" by auto
    with run loc Some show ?thesis by (cases y) auto
  qed
qed

lemma open_runs:
  assumes ok: "maildir_ok (tree w) root" and new: "tree w (root @ [''new'']) = Some None"
    and has: "maildir_has (tree w) root key data" and calm: "faults w = []"
  shows "maildir_open root key w = (Inr data, w)"
proof -
  from has obtain d n where loc: "located (tree w) root key (d, n)" and c: "tree w (root @ [d, n]) = Some (Some data)"
    unfolding has_located by blast
  have d: "d \<in> {''new'', ''cur''}" using loc by (simp add: located_def)
  have dir: "tree w (root @ [d]) = Some None" using maildir_ok_file [OF ok d, of n] c by simp
  have this_dir: "find_in root key d w = (Inr (Some (d, n)), w)"
    using find_in_runs [OF ok d dir calm, of key] loc located_unique [OF ok loc] by blast
  have found: "maildir_find root key w = (Inr (d, n), w)"
  proof (cases "d = ''new''")
    case True
    with this_dir show ?thesis by (simp add: maildir_find_def io_bind_apply io_ret_def)
  next
    case False
    then have "\<not> located (tree w) root key (''new'', x)" for x using located_unique [OF ok loc] by blast
    with find_in_runs [OF ok _ new calm, of key] have "find_in root key ''new'' w = (Inr None, w)" by blast
    with False d this_dir show ?thesis by (simp add: maildir_find_def io_bind_apply io_ret_def)
  qed
  have "os_read_file (root @ [d, n]) w = (Inr data, w)"
    using c calm by (auto simp: os_read_file_def may_fail_def tree_file_iff)
  with found located_path [OF loc] show ?thesis by (simp add: maildir_open_def io_bind_apply)
qed

lemma filter_unique:
  "distinct (map f xs) \<Longrightarrow> x \<in> set xs \<Longrightarrow> (\<And>y. y \<in> set xs \<Longrightarrow> P y \<longleftrightarrow> f y = f x) \<Longrightarrow> filter P xs = [x]"
proof (induction xs)
  case (Cons y ys)
  show ?case
  proof (cases "y = x")
    case True
    have "\<not> P z" if "z \<in> set ys" for z
      using Cons.prems(1) Cons.prems(3) [of z] that True by (auto simp: image_iff)
    then have "filter P ys = []" by (simp add: filter_empty_conv)
    with True Cons.prems(3) [of y] show ?thesis by simp
  next
    case False
    with Cons.prems have "f y \<noteq> f x" by force
    with False Cons show ?thesis by simp
  qed
qed simp

text \<open>The whole message without marking it: \<open>BODY.PEEK[]\<close>, or whatever section is asked for.\<close>

definition peek_request :: "body_section \<Rightarrow> fetch_request" where
  "peek_request bs = \<lparr>fr_flags = False, fr_internal_date = False, fr_size = False, fr_envelope = False,
     fr_body_structure = False, fr_body_section = [bs], fr_binary_section = [], fr_binary_size = []\<rparr>"

lemma chosen_uid:
  assumes "distinct (map m_uid (mb_list b))" and "m \<in> set (mb_list b)" and "m_uid m \<noteq> 0"
    and "\<forall>u x. vw_contains v [(u, u)] x \<longleftrightarrow> x = u"
  shows "\<exists>seq. chosen_messages v (UIDSet [(m_uid m, m_uid m)]) b = [(seq, m)]"
proof -
  have "map snd (numbered (mb_list b)) = mb_list b" by (simp add: numbered_def)
  then have d: "distinct (map (m_uid \<circ> snd) (numbered (mb_list b)))" using assms(1) by (metis map_map)
  have "snd ` set (numbered (mb_list b)) = set (mb_list b)" by (simp add: numbered_def flip: set_map)
  with assms(2) obtain seq where s: "(seq, m) \<in> set (numbered (mb_list b))" by force
  have "chosen_messages v (UIDSet [(m_uid m, m_uid m)]) b = [(seq, m)]"
    unfolding chosen_messages_def
    by (rule filter_unique [OF d s]) (use assms(3,4) in \<open>auto simp: static_num_set_def static_num_range_def selected_def\<close>)
  then show ?thesis ..
qed

lemma peek_runs:
  assumes "maildir_open (mb_root b) (m_key m) w = (Inr data, w)" and "chosen_messages v ns b = [(seq, m)]"
    and "bs_peek bs" and "cn_faults c = []" and "cn_open c = None"
  shows "view_fetch E v ns (peek_request bs) ((w, b), c) = (Inr (), ((w, b), c\<lparr>cn_done := cn_done c @
    [\<lparr>rs_seq = vw_enc v seq, rs_items = [ItemUID (m_uid m), ItemBodySection bs (int (length (fe_section E data bs))) (fe_section E data bs)]\<rparr>]\<rparr>))"
proof -
  have no: "marks_seen (peek_request bs) = False" and nb: "need_buf (peek_request bs)"
    using assms(3) by (simp_all add: marks_seen_def need_buf_def peek_request_def)
  have "load_body (peek_request bs) m (w, b) = (Inr data, (w, b))"
    by (simp add: load_body_def nb message_data_def io_wrap_apply io_bind_apply the_mbox_run on_world_def assms(1))
  moreover have "c\<lparr>cn_done := d, cn_open := None\<rparr> = c\<lparr>cn_done := d\<rparr>" for d using assms(5) by (cases c) simp
  moreover have "answer_items E (peek_request bs) m data =
      [ItemUID (m_uid m), ItemBodySection bs (int (length (fe_section E data bs))) (fe_section E data bs)]"
    by (simp add: answer_items_def peek_request_def)
  moreover have "touch_message (marks_seen (peek_request bs)) seq m (w, b) = (Inr m, (w, b))"
    by (simp add: touch_message_def no io_ret_def)
  ultimately show ?thesis
    using assms(4) by (simp add: view_fetch_run assms(2) fetch_one_def io_bind_apply on_mbox_run io_ret_def
      create_message_def conn_step_def io_modify_apply msg_fetch_run)
qed

lemma reload_facts:
  assumes ok: "db_ok (so_fk s) (db w)" "uids_below (db w)" "mbox_ok (db w) b" "maildir_ok (tree w) (mb_root b)"
    and room: "\<And>disk w1. maildir_list (mb_root b) w = (Inr disk, w1) \<Longrightarrow> room_for (db w) (mb_db_id b) (length disk) uid"
    and run: "reload_locked s (w, b) = (Inr u, (w', b'))"
  shows "db_ok (so_fk s) (db w') \<and> uids_below (db w') \<and> tree w' = tree w \<and> mbox_ok (db w') b' \<and>
    mb_root b' = mb_root b \<and> mb_db_id b' = mb_db_id b \<and>
    m_key ` set (mb_list b') = {k. \<exists>c. maildir_has (tree w) (mb_root b) k c} \<and>
    (\<forall>m \<in> set (mb_list b'). m \<in> set (mb_list b) \<or> indexed (db w) (mb_db_id b) m \<or> uid \<le> m_uid m) \<and>
    (\<forall>x \<in> set (mb_list b). m_uid x < uid)"
proof -
  from run obtain l where scan: "scan_disk s b w = (Inr l, w')" and b': "mb_list b' = l" "mb_root b' = mb_root b" "mb_db_id b' = mb_db_id b"
    by (auto simp: reload_run split: prod.splits sum.splits)
  from scan obtain disk w1 where "maildir_list (mb_root b) w = (Inr disk, w1)"
    unfolding scan_disk_def io_oks by blast
  from room [OF this] obtain r where f: "find (\<lambda>r. mbx_id r = mb_db_id b) (mailboxes_t (db w)) = Some r" "mbx_uid_next r = uid"
    by (auto simp: room_for_def)
  then have r: "r \<in> set (mailboxes_t (db w))" "mbx_id r = mb_db_id b" "mbx_uid_next r = uid"
    by (auto simp: find_Some_iff)
  have "m_uid x < uid" if "x \<in> set (mb_list b)" for x
    using ok(2,3) r that by (fastforce simp: mbox_ok_def indexed_def uids_below_def)
  with scan_disk_facts [OF ok room scan] b' show ?thesis by (simp add: mbox_ok_def)
qed

text \<open>UIDs are left for the messages on disk, from \<open>uid\<close> on.\<close>

definition room_to_reload :: "world \<Rightarrow> mbox \<Rightarrow> u32 \<Rightarrow> bool" where
  "room_to_reload w b uid \<longleftrightarrow> (\<forall>disk w1. maildir_list (mb_root b) w = (Inr disk, w1) \<longrightarrow>
     room_for (db w) (mb_db_id b) (length disk) uid)"

text \<open>Whatever message is on disk, the next reload lists it and FETCH gives its bytes.\<close>

lemma stored_mail_fetched:
  assumes "db_ok (so_fk s) (db w)" and "uids_below (db w)" and "mbox_ok (db w) b" and "maildir_ok (tree w) (mb_root b)"
    and "tree w (mb_root b @ [''new'']) = Some None" and "maildir_has (tree w) (mb_root b) key data"
    and "room_to_reload w b uid" and "0 < uid" and nz: "\<forall>r \<in> set (messages_t (db w)). msg_maildir_key r = key \<longrightarrow> msg_uid r \<noteq> 0"
    and "reload_locked s (w, b) = (Inr (), (w2, b2))" and "faults w2 = []"
    and "\<forall>u x. vw_contains v [(u, u)] x \<longleftrightarrow> x = u" and "bs_peek bs" and "\<forall>buf. fe_section E buf bs = buf"
    and "cn_faults c = []" and "cn_open c = None"
  shows "\<exists>m seq. m \<in> set (mb_list b2) \<and> m_key m = key \<and>
    (m \<in> set (mb_list b) \<or> indexed (db w) (mb_db_id b) m \<or> (\<forall>x \<in> set (mb_list b). m_uid x < m_uid m)) \<and>
    view_fetch E v (UIDSet [(m_uid m, m_uid m)]) (peek_request bs) ((w2, b2), c) =
      (Inr (), ((w2, b2), c\<lparr>cn_done := cn_done c @ [\<lparr>rs_seq = vw_enc v seq,
         rs_items = [ItemUID (m_uid m), ItemBodySection bs (int (length data)) data]\<rparr>]\<rparr>))"
proof -
  let ?root = "mb_root b"
  have all: "db_ok (so_fk s) (db w2) \<and> uids_below (db w2) \<and> tree w2 = tree w \<and> mbox_ok (db w2) b2 \<and>
      mb_root b2 = ?root \<and> mb_db_id b2 = mb_db_id b \<and>
      m_key ` set (mb_list b2) = {k. \<exists>c. maildir_has (tree w) ?root k c} \<and>
      (\<forall>m \<in> set (mb_list b2). m \<in> set (mb_list b) \<or> indexed (db w) (mb_db_id b) m \<or> uid \<le> m_uid m) \<and>
      (\<forall>x \<in> set (mb_list b). m_uid x < uid)"
    by (rule reload_facts [OF assms(1-4) _ assms(10)]) (use assms(7) in \<open>simp add: room_to_reload_def\<close>)
  then have facts: "tree w2 = tree w" "mbox_ok (db w2) b2" "mb_root b2 = ?root"
      "m_key ` set (mb_list b2) = {k. \<exists>c. maildir_has (tree w) ?root k c}"
      "\<forall>m \<in> set (mb_list b2). m \<in> set (mb_list b) \<or> indexed (db w) (mb_db_id b) m \<or> uid \<le> m_uid m"
      "\<forall>x \<in> set (mb_list b). m_uid x < uid"
    by simp_all
  have "key \<in> m_key ` set (mb_list b2)" unfolding facts(4) by (intro CollectI exI) (rule assms(6))
  then obtain m where m: "m \<in> set (mb_list b2)" "m_key m = key" by (metis imageE)
  have prov: "m \<in> set (mb_list b) \<or> indexed (db w) (mb_db_id b) m \<or> uid \<le> m_uid m" using facts(5) m(1) by blast
  have nz: "m_uid m \<noteq> 0"
  proof (cases "uid \<le> m_uid m")
    case False
    with prov assms(3) have "indexed (db w) (mb_db_id b) m" by (auto simp: mbox_ok_def)
    with nz m(2) show ?thesis by (auto simp: indexed_def)
  qed (use assms(8) in auto)
  have open_m: "maildir_open (mb_root b2) (m_key m) w2 = (Inr data, w2)"
    unfolding facts(3) m(2) by (rule open_runs) (use facts(1) assms(4-6,11) in simp_all)
  have "distinct (map m_uid (mb_list b2))" using facts(2) by (simp add: mbox_ok_def strict_sorted_distinct)
  then obtain seq where "chosen_messages v (UIDSet [(m_uid m, m_uid m)]) b2 = [(seq, m)]"
    using chosen_uid [OF _ m(1) nz assms(12)] by blast
  from peek_runs [OF open_m this assms(13,15,16), of E] assms(14)
  have run: "view_fetch E v (UIDSet [(m_uid m, m_uid m)]) (peek_request bs) ((w2, b2), c) =
      (Inr (), ((w2, b2), c\<lparr>cn_done := cn_done c @ [\<lparr>rs_seq = vw_enc v seq,
         rs_items = [ItemUID (m_uid m), ItemBodySection bs (int (length data)) data]\<rparr>]\<rparr>))" by simp
  have old: "m \<in> set (mb_list b) \<or> indexed (db w) (mb_db_id b) m \<or> (\<forall>x \<in> set (mb_list b). m_uid x < m_uid m)"
    using prov facts(6) by (meson order_less_le_trans)
  show ?thesis by (intro exI [of _ m] exI [of _ seq] conjI m old run)
qed


section \<open>Answers of FETCH and STORE\<close>

text \<open>C18: FETCH answers exactly what was asked and does to the folder what \<open>fetch_messages\<close> says. On
  a well-formed maildir and a connection that does not fail, every chosen message, in list order, gets
  one response: its number for this session, its UID, the items of the request and, where the request
  needs the message, the bytes stored under its key, with the mark already among its flags. An error
  ends the command at one message after complete answers to those before it; the response of a
  message whose file could not be read stays open.\<close>

theorem fetch_answers:
  assumes "maildir_ok (tree w) (mb_root b)" and "cn_faults c = []" and "cn_open c = None"
  shows "case view_fetch E v ns rq ((w, b), c) of (r, (s', c')) \<Rightarrow>
     fetch_messages v ns (effect_of rq) (w, b) = (r, s') \<and>
     fetch_output E v rq (maildir_has (tree w) (mb_root b)) (chosen_messages v ns b) c r c'"
proof -
  obtain r s' c' where run: "view_fetch E v ns rq ((w, b), c) = (r, (s', c'))" by (metis prod.exhaust)
  have "io_for (chosen_messages v ns b) (fetch_step rq) (w, b) = (r, s') \<and>
      fetch_output E v rq (maildir_has (tree w) (mb_root b)) (chosen_messages v ns b) c r c'"
    by (rule fetch_loop [OF assms(1) _ assms(2,3) run [unfolded view_fetch_run]]) simp
  with run show ?thesis by (simp add: fetch_messages_steps)
qed

text \<open>The response of a message whose file is gone is started and never finished.\<close>

theorem missing_file_leaves_open:
  assumes "\<forall>k. \<not> maildir_has (tree w) (mb_root b) (m_key m) k" and "need_buf rq" and "cn_faults c = []"
  shows "\<exists>e s'. io_bind (create_message q) (\<lambda>_. msg_fetch E rq m) ((w, b), c) =
    (Inl e, (s', opened c q (index_items rq m)))"
proof -
  obtain r w' b' where l: "load_body rq m (w, b) = (r, (w', b'))" by (metis prod.exhaust)
  have "\<nexists>buf. r = Inr buf" using load_body_facts l assms(1,2) by blast
  with l show ?thesis
    by (cases r) (simp_all add: io_bind_apply create_message_def conn_step_def io_modify_apply msg_fetch_run assms(3))
qed

lemma fetch_one_effect:
  assumes "cn_faults c = []" and "fetch_one E v rq seq m (s, c) = (r, (s', c'))"
  shows "fetch_step rq (seq, m) s = (r, s') \<and> cn_faults c' = []"
proof -
  obtain r1 s1 where t: "touch_message (marks_seen rq) seq m s = (r1, s1)" by (metis surj_pair)
  show ?thesis
  proof (cases r1)
    case (Inr m1)
    obtain r2 s2 where l: "load_body rq m1 s1 = (r2, s2)" by (metis surj_pair)
    show ?thesis using assms t Inr l
      by (cases r2) (auto simp: fetch_one_def fetch_step_def io_bind_apply on_mbox_run create_message_def conn_step_def
          io_modify_apply msg_fetch_run fetch_message_load)
  qed (use assms t in \<open>auto simp: fetch_one_def fetch_step_def io_bind_apply on_mbox_run\<close>)
qed

lemma fetch_effect_loop:
  assumes "cn_faults c = []" and "io_for xs (\<lambda>(seq, m). fetch_one E v rq seq m) (s, c) = (r, (s', c'))"
  shows "io_for xs (fetch_step rq) s = (r, s')"
  using assms
proof (induction xs arbitrary: s c)
  case (Cons x xs)
  obtain seq m where x: "x = (seq, m)" by fastforce
  obtain r1 s1 c1 where one: "fetch_one E v rq seq m (s, c) = (r1, (s1, c1))" by (metis prod.exhaust)
  note eff = fetch_one_effect [OF Cons.prems(1) one]
  show ?case
    by (cases r1) (use Cons.IH [of c1 s1] Cons.prems(2) one eff in \<open>auto simp: x io_bind_apply\<close>)
qed (simp add: io_ret_def)

lemma view_store_effect:
  assumes "cn_faults c = []" and "view_store E v ns op fs silent (s, c) = (r, (s', c'))"
  shows "store_messages v ns op fs silent s = (r, s')"
proof -
  obtain r1 w1 b1 where st: "store_messages v ns op fs True s = (r1, (w1, b1))" by (metis prod.exhaust)
  have rq: "effect_of flags_request = \<lparr>fo_mark_seen = False, fo_need_body = False\<rparr>"
    by (simp add: effect_of_def marks_seen_def need_buf_def flags_request_def)
  have split: "store_messages v ns op fs silent s = io_bind (store_messages v ns op fs True)
      (\<lambda>_. if silent then io_ret () else fetch_messages v ns (effect_of flags_request)) s"
    by (auto simp: store_messages_def rq io_bind_apply io_ret_def split: prod.splits sum.splits)
  show ?thesis
  proof (cases r1)
    case (Inr u)
    with assms st show ?thesis unfolding split
      by (cases silent) (auto simp: view_store_def io_bind_apply on_mbox_run io_ret_def view_fetch_run
          fetch_messages_steps dest: fetch_effect_loop)
  qed (use assms st in \<open>auto simp: split view_store_def io_bind_apply on_mbox_run\<close>)
qed


lemma store_list:
  assumes "store_messages v ns op fs True (w, b) = (Inr u, (w', b'))" and "distinct (map m_uid (mb_list b))"
  shows "mb_list b' = map (\<lambda>m. if m \<in> snd ` set (chosen_messages v ns b) then store_flags op fs m else m) (mb_list b)"
proof -
  let ?f = "\<lambda>(seq, m). let m' = store_flags op fs m in
       io_bind (put_message m') (\<lambda>_.
       io_bind (persist_flags_locked m') (\<lambda>_.
       queue_event (FlagsEv seq (m_uid m') (m_flags m') True)))"
  let ?L = "\<lambda>s :: world \<times> mbox. mb_list (snd s)"
  have uid: "m_uid (store_flags op fs m) = m_uid m" for m by (cases op) simp_all
  from assms(1) have run: "io_for (chosen_messages v ns b) ?f (w, b) = (Inr (), (w', b'))"
    by (simp add: store_messages_def for_each_locked_def io_oks(1) the_mbox_run chosen_messages_def io_ret_ok)
  have "?L (w', b') = map (\<lambda>m. if m \<in> snd ` set (chosen_messages v ns b) then store_flags op fs m else m) (?L (w, b))"
  proof (rule update_loop [OF _ uid run, of ?L], goal_cases)
    case (1 seq m s u s')
    obtain w b w' b' where s: "s = (w, b)" "s' = (w', b')" by (metis prod.exhaust)
    from 1(1) have "mb_list b' = map (\<lambda>y. if m_uid y = m_uid m then store_flags op fs m else y) (mb_list b)"
      by (auto simp: s Let_def io_oks put_message_def upd_mbox_def io_modify_def queue_event_def uid
          persist_flags_locked_def the_mbox_run on_world_def io_ret_def split: prod.splits)
    with 1 put_list [of m "mb_list b" "store_flags op fs m"] show ?case by (simp add: s)
  qed (use assms(2) chosen_messages_facts [OF assms(2)] in simp_all)
  then show ?thesis by simp
qed


lemma flags_answer:
  assumes "cn_faults c = []" and "cn_open c = None"
  shows "io_for xs (\<lambda>(seq, m). fetch_one E v flags_request seq m) (s, c) = (Inr (), (s, c\<lparr>cn_done := cn_done c @
    map (\<lambda>(seq, m). \<lparr>rs_seq = vw_enc v seq, rs_items = [ItemUID (m_uid m), ItemFlags (m_flags m)]\<rparr>) xs\<rparr>))"
  using assms
proof (induction xs arbitrary: c)
  case (Cons x xs)
  have "touch_message (marks_seen flags_request) seq m s = (Inr m, s)" for seq m
    by (simp add: touch_message_def marks_seen_def flags_request_def io_ret_def)
  moreover have "load_body flags_request m s = (Inr [], s)" for m
    by (simp add: load_body_def need_buf_def flags_request_def io_ret_def)
  moreover have "answer_items E flags_request m buf = [ItemUID (m_uid m), ItemFlags (m_flags m)]" for m buf
    by (simp add: answer_items_def flags_request_def)
  moreover have "c\<lparr>cn_done := d, cn_open := None\<rparr> = c\<lparr>cn_done := d\<rparr>" for d using Cons.prems(2) by (cases c) simp
  ultimately have one: "fetch_one E v flags_request seq m (s, c) = (Inr (), (s, c\<lparr>cn_done := cn_done c @
      [\<lparr>rs_seq = vw_enc v seq, rs_items = [ItemUID (m_uid m), ItemFlags (m_flags m)]\<rparr>]\<rparr>))" for seq m
    using Cons.prems(1)
    by (simp add: fetch_one_def io_bind_apply on_mbox_run create_message_def conn_step_def io_modify_apply msg_fetch_run)
  show ?case using Cons by (cases x) (simp add: io_bind_apply one)
qed (simp add: io_ret_def)

text \<open>The choice depends on the UIDs and the length of the list only.\<close>

lemma chosen_map:
  assumes "mb_list b' = map g (mb_list b)" and "\<And>m. m_uid (g m) = m_uid m"
  shows "chosen_messages v ns b' = map (\<lambda>(seq, m). (seq, g m)) (chosen_messages v ns b)"
proof -
  have "fold (\<lambda>m mx. if mx < m_uid m then m_uid m else mx) (map g l) a = fold (\<lambda>m mx. if mx < m_uid m then m_uid m else mx) l a"
    for l a by (induction l arbitrary: a) (simp_all add: assms(2))
  then have "static_num_set b' = static_num_set b"
    by (simp add: fun_eq_iff static_num_set_def assms(1) num_messages_def uid_next_locked_def max_uid_def split: num_set.splits)
  moreover have "numbered (mb_list b') = map (\<lambda>(seq, m). (seq, g m)) (numbered (mb_list b))"
    by (simp add: numbered_def assms(1) zip_map2)
  moreover have "selected v ns seq (g m) = selected v ns seq m" for ns seq m
    by (simp add: selected_def assms(2) split: num_set.splits)
  ultimately show ?thesis
    by (simp add: chosen_messages_def filter_map comp_def case_prod_unfold)
qed

text \<open>STORE changes the chosen messages and tells the client. A successful STORE that is not silent
  replaces, in a list of distinct UIDs, each chosen message by \<open>store_flags\<close> of it and no other, and
  writes one response per chosen message, in order, with its UID and its new flags.\<close>

theorem store_answers:
  assumes "distinct (map m_uid (mb_list b))" and "cn_faults c = []" and "cn_open c = None"
    and "view_store E v ns op fs False ((w, b), c) = (Inr (), ((w', b'), c'))"
  shows "mb_list b' = map (\<lambda>m. if m \<in> snd ` set (chosen_messages v ns b) then store_flags op fs m else m) (mb_list b) \<and>
    c' = c\<lparr>cn_done := cn_done c @ map (\<lambda>(seq, m). \<lparr>rs_seq = vw_enc v seq,
      rs_items = [ItemUID (m_uid m), ItemFlags (m_flags (store_flags op fs m))]\<rparr>) (chosen_messages v ns b)\<rparr>"
proof -
  let ?C = "chosen_messages v ns b"
  let ?g = "\<lambda>m. if m \<in> snd ` set ?C then store_flags op fs m else m"
  from assms(4) obtain w1 b1 where st: "store_messages v ns op fs True (w, b) = (Inr (), (w1, b1))"
    and f: "view_fetch E v ns flags_request ((w1, b1), c) = (Inr (), ((w', b'), c'))"
    by (auto simp: view_store_def io_oks(1) on_mbox_run split: prod.splits)
  note l1 = store_list [OF st assms(1)]
  have uid: "m_uid (?g m) = m_uid m" for m by (cases op) simp_all
  from f have b': "b' = b1" and c': "c' = c\<lparr>cn_done := cn_done c @ map (\<lambda>(seq, m). \<lparr>rs_seq = vw_enc v seq,
      rs_items = [ItemUID (m_uid m), ItemFlags (m_flags m)]\<rparr>) (chosen_messages v ns b1)\<rparr>"
    by (auto simp: view_fetch_run flags_answer [OF assms(2,3)])
  have "chosen_messages v ns b1 = map (\<lambda>(seq, m). (seq, ?g m)) ?C" by (rule chosen_map [OF l1 uid])
  also have "\<dots> = map (\<lambda>(seq, m). (seq, store_flags op fs m)) ?C" by (rule map_cong) force+
  finally have ch: "chosen_messages v ns b1 = map (\<lambda>(seq, m). (seq, store_flags op fs m)) ?C" .
  have "m_uid (store_flags op fs m) = m_uid m" for m by (cases op) simp_all
  with l1 b' c' show ?thesis by (simp add: ch comp_def case_prod_unfold)
qed

section \<open>One connection\<close>

definition sample_env :: fetch_env where
  "sample_env = \<lparr>fe_read_header = (\<lambda>_. None), fe_envelope = (\<lambda>_. ''e''), fe_structure = (\<lambda>_. ''s''),
     fe_section = (\<lambda>buf _. buf), fe_binary = (\<lambda>buf _. buf), fe_binary_size = (\<lambda>buf _. word_of_nat (length buf))\<rparr>"

definition read_request :: fetch_request where
  "read_request = \<lparr>fr_flags = True, fr_internal_date = False, fr_size = False, fr_envelope = True,
     fr_body_structure = False, fr_body_section = [\<lparr>bs_text = '''', bs_peek = False\<rparr>], fr_binary_section = [], fr_binary_size = []\<rparr>"

definition fresh_conn :: resp_conn where
  "fresh_conn = \<lparr>cn_done = [], cn_open = None, cn_faults = []\<rparr>"

definition one_message :: mbox where
  "one_message = small_mbox\<lparr>mb_list := [\<lparr>m_uid = 5, m_key = ''7.a'', m_t = 0, m_size = 2, m_flags = []\<rparr>]\<rparr>"

definition sample_fetch :: "(goerr + unit) \<times> ((world \<times> mbox) \<times> resp_conn)" where
  "sample_fetch = view_fetch sample_env plain_view (UIDSet [(5, 5)]) read_request ((small_state, one_message), fresh_conn)"

lemma sample_fetch_ok: "fst sample_fetch = Inr ()"
  by code_simp

lemma fetch_answers_witness:
  "\<exists>s' buf. sample_fetch = (Inr (), (s', \<lparr>cn_done = [\<lparr>rs_seq = 1, rs_items = [ItemUID 5, ItemFlags [flag_seen],
     ItemEnvelope None, ItemBodySection \<lparr>bs_text = '''', bs_peek = False\<rparr> (int (length buf)) buf]\<rparr>],
     cn_open = None, cn_faults = []\<rparr>)) \<and> maildir_has (tree small_state) [''m''] ''7.a'' buf"
proof -
  let ?E = "sample_env" and ?v = plain_view and ?ns = "UIDSet [(5, 5)]" and ?rq = read_request
  let ?m = "\<lparr>m_uid = 5, m_key = ''7.a'', m_t = 0, m_size = 2, m_flags = []\<rparr>"
  obtain s' c' where run: "view_fetch ?E ?v ?ns ?rq ((small_state, one_message), fresh_conn) = (Inr (), (s', c'))"
    using sample_fetch_ok unfolding sample_fetch_def by (metis prod.collapse)
  have ok: "maildir_ok (tree small_state) (mb_root one_message)" by (simp add: one_message_def small_mbox_def)
  have ch: "chosen_messages ?v ?ns one_message = [(1, ?m)]" by code_simp
  from fetch_answers [OF ok, where c = fresh_conn and E = ?E and v = ?v and ns = ?ns and rq = ?rq] run ch
  have "fetch_output ?E ?v ?rq (maildir_has (tree small_state) [''m'']) [(1, ?m)] fresh_conn (Inr ()) c'"
    by (simp add: fresh_conn_def one_message_def small_mbox_def)
  then obtain buf where "maildir_has (tree small_state) [''m''] ''7.a'' buf"
    and c': "c' = fresh_conn\<lparr>cn_done := [\<lparr>rs_seq = 1, rs_items = answer_items ?E ?rq (seen_message ?rq ?m) buf\<rparr>]\<rparr>"
    by (auto simp: fetch_output_def answered_def list_all2_Cons1 need_buf_def read_request_def fresh_conn_def plain_view_def)
  moreover have "answer_items ?E ?rq (seen_message ?rq ?m) buf = [ItemUID 5, ItemFlags [flag_seen],
     ItemEnvelope None, ItemBodySection \<lparr>bs_text = '''', bs_peek = False\<rparr> (int (length buf)) buf]"
    by (simp add: answer_items_def read_request_def seen_message_def marks_seen_def mark_seen_def has_flag_def
        add_flag_def envelope_from_buf_def sample_env_def)
  ultimately show ?thesis using run by (auto simp: sample_fetch_def fresh_conn_def)
qed


lemma store_answers_witness:
  "\<exists>w' b' c'. view_store sample_env plain_view (SeqSet [(1, 0)]) FlagsAdd [''$Work''] False ((small_state, one_message), fresh_conn) =
     (Inr (), ((w', b'), c')) \<and> cn_done c' = [\<lparr>rs_seq = 1, rs_items = [ItemUID 5, ItemFlags [''$work'']]\<rparr>]"
proof -
  let ?r = "view_store sample_env plain_view (SeqSet [(1, 0)]) FlagsAdd [''$Work''] False ((small_state, one_message), fresh_conn)"
  have "fst ?r = Inr ()" by code_simp
  then obtain w' b' c' where run: "?r = (Inr (), ((w', b'), c'))" by (metis prod.collapse)
  have d: "distinct (map m_uid (mb_list one_message))" "cn_faults fresh_conn = []" "cn_open fresh_conn = None"
    by (simp_all add: one_message_def fresh_conn_def)
  have "chosen_messages plain_view (SeqSet [(1, 0)]) one_message =
      [(1, \<lparr>m_uid = 5, m_key = ''7.a'', m_t = 0, m_size = 2, m_flags = []\<rparr>)]" by code_simp
  moreover have "canonical_flag ''$Work'' = ''$work''" by code_simp
  ultimately show ?thesis using store_answers [OF d run] run
    by (auto simp: fresh_conn_def plain_view_def add_flag_def)
qed




text \<open>
  UIDNEXT is computed from the list, not read from the row that hands out the UIDs: once the message with the
  highest UID is expunged, a lower UIDNEXT is announced than before, and than the UID the next message gets.
\<close>

lemma uid_next_goes_back:
  "let b = one_message\<lparr>mb_list := map (store_flags FlagsAdd [flag_deleted]) (mb_list one_message)\<rparr>;
       after = expunge plain_view None (small_state, b) in
     fst after = Inr [1] \<and> uid_next_locked (mb_list b) = 6 \<and> uid_next_locked (mb_list (snd (snd after))) = 1"
  by code_simp

end
