(* ===== verification/MailPath.thy ===== *)
theory MailPath
  imports Fetch MailFlowInv
begin

text \<open>
  The way of a message through the components: from DATA on the inbound server through the maildir, the
  reload of the recipient's folder and its row in the index to the literal of a FETCH.
\<close>

text \<open>What a recipient finds: the deposit is there, whatever copy was forwarded after it.\<close>

lemma taken_present:
  assumes "extended w ds w'" and "taken B c v body D (rcpt, u) ds" and "addr_split rcpt = (l, domain, ok)"
  shows "\<exists>k now. maildir_has (tree w') (maildir_of (ib_config B) domain l (if av_quarantine v then ''Junk'' else ''INBOX'')) k
    (inbound_full B c rcpt now (av_results v) body)"
proof -
  let ?r = "maildir_of (ib_config B) domain l (if av_quarantine v then ''Junk'' else ''INBOX'')"
  from assms(2,3) obtain now k fs where
    ds: "ds = InBox ?r k (inbound_full B c rcpt now (av_results v) body) # fs"
    and fs: "forwarded B D rcpt (usr_id u) (inbound_full B c rcpt now (av_results v) body) fs"
    by (auto simp: taken_def)
  let ?full = "inbound_full B c rcpt now (av_results v) body"
  have "maildir_has (tree w') ?r k ?full"
  proof (cases "Inl (?r, k) \<in> place ` set fs")
    case True
    with fs have "fs = [InBox ?r k ?full]"
      by (auto simp: forwarded_def remnant_def split: if_splits)
    with extendedD(3) [OF assms(1), of "[InBox ?r k ?full]" "InBox ?r k ?full" "[]"] ds show ?thesis by simp
  next
    case False
    with extendedD(3) [OF assms(1), of "[]" "InBox ?r k ?full" fs] ds show ?thesis by simp
  qed
  then show ?thesis by blast
qed

lemma inbound_data_stored:
  assumes "in_order False cmds" and "run_all (run_inbound B c) cmds (w0, new_inbound) = (w, s)"
    and "inbound_data B c (Inr body) (w, s) = (Inr (), (w', s'))"
    and "is_rcpts s = [rcpt]" and "addr_split rcpt = (l, domain, ok)"
    and "v = verify_message (ib_auth B) (cf_hostname (ib_config B)) (peer_ip c) (helo_of c) (is_from s) body"
  shows "db w' = db w \<and> (\<exists>k now. maildir_has (tree w')
    (maildir_of (ib_config B) domain l (if av_quarantine v then ''Junk'' else ''INBOX'')) k (inbound_full B c rcpt now (av_results v) body))"
proof -
  have "paired B (db w0) False new_inbound" by (simp add: paired_def new_inbound_def)
  from inbound_steps [OF this assms(1,2)] assms(4)
  have pr: "list_all2 (accepted_rcpt B (db w)) (is_rcpts s) (is_rcpt_users s)" by simp
  from inbound_data_run [OF assms(3)] assms(4)
  have "inbound_loop B c v body (is_rcpt_users s) 0 [rcpt] w = (Inr (), w')" by (simp add: assms(6))
  from inbound_loop_extends [OF this] list_all2_lengthD [OF pr] assms(4)
  obtain dss where "extended w (concat dss) w'" "list_all2 (taken B c v body (db w)) (zip [rcpt] (is_rcpt_users s)) dss"
    by fastforce
  moreover from pr assms(4) obtain u where "is_rcpt_users s = [u]" by (auto simp: list_all2_Cons1)
  ultimately obtain ds where "extended w ds w'" "taken B c v body (db w) (rcpt, u) ds"
    by (auto simp: list_all2_Cons1)
  from taken_present [OF this assms(5)] extendedD(5) [OF this(1)] show ?thesis by blast
qed



section \<open>One message\<close>

definition mail_world :: world where
  "mail_world = blank_world\<lparr>db := small_db\<rparr>"

definition mail_session :: "world \<times> inbound_session" where
  "mail_session = run_all (run_inbound small_inbound None) [InMail ''c@z.net'', InRcpt ''Bob@x.org''] (mail_world, new_inbound)"

definition mail_data :: "(goerr + unit) \<times> (world \<times> inbound_session)" where
  "mail_data = inbound_data small_inbound None (Inr ''hi'') mail_session"

definition bobs_inbox :: mbox where
  "bobs_inbox = small_mbox\<lparr>mb_root := maildir_of (ib_config small_inbound) ''x.org'' ''bob'' ''INBOX''\<rparr>"

definition mail_nodes :: "string \<Rightarrow> bytes \<Rightarrow> (path \<times> node) list" where
  "mail_nodes name full = (let r = [''data'', ''mail'', ''x.org'', ''bob''] in
     map (\<lambda>i. (take i r, DirN)) [1, 2, 3, 4] @
     [(r @ [''tmp''], DirN), (r @ [''new''], DirN), (r @ [''cur''], DirN), (r @ [''new'', name], FileN full 7)])"

lemma mail_nodes_ok:
  assumes "plain_name name"
  shows "maildir_ok (tree_of (mail_nodes name full)) [''data'', ''mail'', ''x.org'', ''bob'']"
  unfolding maildir_ok_def using assms
  by (auto simp: mail_nodes_def tree_of_def plain_name_def split: if_splits)

lemma mail_data_nodes:
  "nodes (fst (snd mail_data)) = mail_nodes ''00000000000000000007.00000000000000003_1.mx''
     (inbound_full small_inbound None ''bob@x.org'' 7 ''mx'' ''hi'')"
  by code_simp

lemma mail_data_runs:
  "fst mail_data = Inr ()" "is_rcpts (snd mail_session) = [''bob@x.org'']"
  "fst (reload_locked \<lparr>so_driver = Sqlite, so_fk = True\<rparr> (fst (snd mail_data), bobs_inbox)) = Inr ()"
  "faults (fst (snd (reload_locked \<lparr>so_driver = Sqlite, so_fk = True\<rparr> (fst (snd mail_data), bobs_inbox)))) = []"
  "map_sum (\<lambda>_. ()) length (fst (maildir_list (mb_root bobs_inbox) (fst (snd mail_data)))) = Inr 1"
  "mb_root bobs_inbox = [''data'', ''mail'', ''x.org'', ''bob'']"
  by code_simp+



end
