(* ===== verification/Render.thy ===== *)
theory Render
  imports Webmail
begin

text \<open>
  The template functions and the page writer of \<open>internal/webmail/render.go\<close>. What \<open>html/template\<close> makes
  of a page is the library; here is what the code computes for it: sizes of attachments, dates of the message
  list, page numbers, and the reply when a template fails half way. 64-bit integers wrap as in Go; a quotient
  of \<open>float64\<close> values is kept exact, as its divisor is a power of two, after the rounding of the conversion.

  What is shown: \<open>fmtSize\<close> never indexes outside its table of units and prints the value in that unit to the
  nearest tenth; and where \<open>fmtDate\<close> compares days of two different time zones.
\<close>

section \<open>Numbers\<close>

definition wrap64 :: "int \<Rightarrow> int" where
  "wrap64 n = signed_take_bit 63 n"

definition tmpl_add :: "int \<Rightarrow> int \<Rightarrow> int" where "tmpl_add a b = wrap64 (a + b)"
definition tmpl_sub :: "int \<Rightarrow> int \<Rightarrow> int" where "tmpl_sub a b = wrap64 (a - b)"

text \<open>The integer nearest to \<open>n / d\<close>, the even one of two equally near.\<close>

definition round_half_even :: "int \<Rightarrow> int \<Rightarrow> int" where
  "round_half_even n d = (let q = n div d; r = n mod d in
     if 2 * r < d then q else if d < 2 * r then q + 1 else if even q then q else q + 1)"

text \<open>\<open>float64(n)\<close> of a number that is not negative: 53 significant bits.\<close>

function f64_shift :: "int \<Rightarrow> nat" where
  "f64_shift n = (if n < 2 ^ 53 then 0 else Suc (f64_shift (n div 2)))"
  by auto
termination by (relation "measure nat") auto

declare f64_shift.simps [simp del]

definition f64_of_int :: "int \<Rightarrow> int" where
  "f64_of_int n = round_half_even n (2 ^ f64_shift n) * 2 ^ f64_shift n"

section \<open>Sizes\<close>

text \<open>The loop with \<open>m\<close>, \<open>div\<close> and \<open>exp\<close>.\<close>

function size_loop :: "int \<Rightarrow> int \<Rightarrow> nat \<Rightarrow> int \<times> nat" where
  "size_loop m d e = (if 1024 \<le> m then size_loop (m div 1024) (wrap64 (d * 1024)) (Suc e) else (d, e))"
  by auto
termination by (relation "measure (\<lambda>(m, d, e). nat m)") auto

declare size_loop.simps [simp del]

definition size_units :: string where "size_units = ''KMGTPE''"

text \<open>\<open>None\<close> is the panic of an index out of range.\<close>

definition fmt_size :: "int \<Rightarrow> string option" where
  "fmt_size n =
     (if n < 1024 then Some (show_int n @ '' B'')
      else case size_loop (n div 1024) 1024 0 of (d, e) \<Rightarrow>
        let t = round_half_even (10 * f64_of_int n) d in
        if e < length size_units
        then Some (show_int (t div 10) @ ''.'' @ show_int (t mod 10) @ '' '' @ [size_units ! e] @ ''B'')
        else None)"

section \<open>Dates\<close>

text \<open>A time has an instant, in nanoseconds since 1970, and the offset of its own zone in seconds.\<close>

record gotime =
  gt_ns :: int
  gt_offset :: int

text \<open>Days since 1970 and the second of the day, on a clock with an offset.\<close>

definition day_at :: "int \<Rightarrow> int \<Rightarrow> int" where "day_at ns offset = (ns div 10 ^ 9 + offset) div 86400"
definition second_at :: "int \<Rightarrow> int \<Rightarrow> int" where "second_at ns offset = (ns div 10 ^ 9 + offset) mod 86400"

text \<open>Year, month and day of the Gregorian calendar, which repeats after 146097 days.\<close>

definition civil :: "int \<Rightarrow> int \<times> int \<times> int" where
  "civil days =
     (let z = days + 719468; era = z div 146097; doe = z mod 146097;
          yoe = (doe - doe div 1460 + doe div 36524 - doe div 146096) div 365;
          doy = doe - (365 * yoe + yoe div 4 - yoe div 100);
          mp = (5 * doy + 2) div 153;
          d = doy - (153 * mp + 2) div 5 + 1;
          m = (if mp < 10 then mp + 3 else mp - 9)
      in (yoe + era * 400 + (if m \<le> 2 then 1 else 0), m, d))"

definition leap :: "int \<Rightarrow> bool" where
  "leap y \<longleftrightarrow> y mod 4 = 0 \<and> (y mod 100 \<noteq> 0 \<or> y mod 400 = 0)"

definition year_day :: "int \<times> int \<times> int \<Rightarrow> int" where
  "year_day = (\<lambda>(y, m, d).
     [0, 31, 59, 90, 120, 151, 181, 212, 243, 273, 304, 334] ! nat (m - 1) + (if leap y \<and> 2 < m then 1 else 0) + d)"

definition month_name :: "int \<Rightarrow> string" where
  "month_name m = [''Jan'', ''Feb'', ''Mar'', ''Apr'', ''May'', ''Jun'', ''Jul'', ''Aug'', ''Sep'', ''Oct'', ''Nov'', ''Dec''] ! nat (m - 1)"

definition weekday_name :: "int \<Rightarrow> string" where
  "weekday_name days = [''Sun'', ''Mon'', ''Tue'', ''Wed'', ''Thu'', ''Fri'', ''Sat''] ! nat ((days + 4) mod 7)"

text \<open>The layouts \<open>3:04 PM\<close> and \<open>Jan 2\<close>.\<close>

definition format_time :: "int \<Rightarrow> string" where
  "format_time s = (let h = s div 3600; h12 = (if h mod 12 = 0 then 12 else h mod 12) in
     show_int h12 @ '':'' @ show_int_pad 2 (s div 60 mod 60) @ (if h < 12 then '' AM'' else '' PM''))"

definition format_day :: "int \<Rightarrow> string" where
  "format_day days = (case civil days of (y, m, d) \<Rightarrow> month_name m @ '' '' @ show_int d)"

text \<open>The zero time is midnight of January 1 of year 1.\<close>

definition time_is_zero :: "gotime \<Rightarrow> bool" where
  "time_is_zero t \<longleftrightarrow> gt_ns t = - 62135596800 * 10 ^ 9"

text \<open>\<open>zone\<close> is the offset of the server's local zone at an instant. The instant of the three readings of
  the clock in \<open>fmtDate\<close> is one.\<close>

definition fmt_date :: "(int \<Rightarrow> int) \<Rightarrow> int \<Rightarrow> gotime \<Rightarrow> string" where
  "fmt_date zone now t =
     (if time_is_zero t then ''''
      else let today = civil (day_at now (zone now)); day = civil (day_at (gt_ns t) (gt_offset t)) in
        if now - gt_ns t < 20 * 3600 * 10 ^ 9 \<and> year_day today = year_day day \<and> fst today = fst day
        then format_time (second_at (gt_ns t) (zone (gt_ns t)))
        else format_day (day_at (gt_ns t) (zone (gt_ns t))))"

definition fmt_date_long :: "(int \<Rightarrow> int) \<Rightarrow> gotime \<Rightarrow> string" where
  "fmt_date_long zone t =
     (if time_is_zero t then ''''
      else let days = day_at (gt_ns t) (zone (gt_ns t)) in
        weekday_name days @ '', '' @ format_day days @ '', '' @ show_int_pad 4 (fst (civil days)) @ '' at '' @
        format_time (second_at (gt_ns t) (zone (gt_ns t))))"

section \<open>Writing a page\<close>

record http_page =
  hp_status :: nat
  hp_type :: string
  hp_body :: string

text \<open>
  What the template wrote before it ended, and whether it ended without an error. The first byte written sends
  the status and the type, so an error message after it only adds to the body.
\<close>

definition render_page :: "string \<Rightarrow> bool \<Rightarrow> http_page" where
  "render_page written ok =
     (let msg = ''internal server error'' @ [CHR 0x0A] in
      if ok then \<lparr>hp_status = 200, hp_type = ''text/html; charset=utf-8'', hp_body = written\<rparr>
      else if written = '''' then \<lparr>hp_status = 500, hp_type = ''text/plain; charset=utf-8'', hp_body = msg\<rparr>
      else \<lparr>hp_status = 200, hp_type = ''text/html; charset=utf-8'', hp_body = written @ msg\<rparr>)"

section \<open>Rounding\<close>

lemma round_half_even_bounds:
  assumes "0 < d"
  shows "2 * \<bar>round_half_even n d * d - n\<bar> \<le> d"
proof -
  have n: "n = (n div d) * d + n mod d" by simp
  have r: "0 \<le> n mod d" "n mod d < d" using assms by simp_all
  have "round_half_even n d * d - n = (if 2 * (n mod d) < d then - (n mod d) else if d < 2 * (n mod d) then d - n mod d
      else if even (n div d) then - (n mod d) else d - n mod d)"
    by (subst (5) n) (simp add: round_half_even_def Let_def algebra_simps)
  with r show ?thesis by (auto split: if_splits)
qed

lemma div_mult_le: "0 < d \<Longrightarrow> n div d * d \<le> n" for n d :: int
  using div_mult_mod_eq [of n d] pos_mod_sign [of d n] by linarith

lemma round_half_even_ge:
  assumes "0 < d" and "c * d \<le> n"
  shows "c \<le> round_half_even n d"
proof -
  have "c \<le> n div d" using zdiv_mono1 [OF assms(2,1)] assms(1) by simp
  then show ?thesis by (auto simp: round_half_even_def Let_def)
qed

lemma round_half_even_le:
  assumes "0 < d" and "n \<le> c * d"
  shows "round_half_even n d \<le> c"
proof (cases "n = c * d")
  case True
  with assms(1) show ?thesis by (simp add: round_half_even_def)
next
  case False
  with assms(2) have "n < c * d" by simp
  moreover have "n div d * d \<le> n" using assms(1) by (rule div_mult_le)
  ultimately have "n div d * d < c * d" by linarith
  then have "n div d < c" using assms(1) by simp
  then show ?thesis by (auto simp: round_half_even_def Let_def)
qed

lemma f64_shift_spec:
  "0 \<le> n \<Longrightarrow> n < 2 ^ (53 + f64_shift n) \<and> (0 < f64_shift n \<longrightarrow> 2 ^ (52 + f64_shift n) \<le> n)"
proof (induction n rule: f64_shift.induct)
  case (1 n)
  show ?case
  proof (cases "n < 2 ^ 53")
    case True
    then show ?thesis by (subst (1 2 3) f64_shift.simps) simp
  next
    case False
    let ?k = "f64_shift (n div 2)"
    have k: "f64_shift n = Suc ?k" using False by (subst f64_shift.simps) simp
    from 1 False have IH: "n div 2 < 2 ^ (53 + ?k)" "0 < ?k \<longrightarrow> 2 ^ (52 + ?k) \<le> n div 2" by simp_all
    have "2 ^ (52 + ?k) \<le> n div 2"
    proof (cases "?k = 0")
      case True
      with False show ?thesis by simp
    qed (use IH in simp)
    then have "2 * 2 ^ (52 + ?k) \<le> n" by linarith
    moreover have "n < 2 * 2 ^ (53 + ?k)" using IH(1) by linarith
    moreover have "(2 :: int) ^ (53 + Suc ?k) = 2 * 2 ^ (53 + ?k)" "(2 :: int) ^ (52 + Suc ?k) = 2 * 2 ^ (52 + ?k)"
      by (simp_all only: add_Suc_right power_Suc)
    ultimately show ?thesis unfolding k by linarith
  qed
qed

lemma f64_small: "n < 2 ^ 53 \<Longrightarrow> f64_of_int n = n"
  by (simp add: f64_of_int_def f64_shift.simps round_half_even_def)

text \<open>Rounding to 53 bits does not leave an interval between powers of two.\<close>

lemma f64_between:
  assumes "2 ^ a \<le> n" and "n < 2 ^ b" and "b \<le> a + 52"
  shows "2 ^ a \<le> f64_of_int n \<and> f64_of_int n \<le> 2 ^ b"
proof -
  let ?k = "f64_shift n"
  have n: "0 \<le> n" by (rule order_trans [OF _ assms(1)]) simp
  have ka: "?k \<le> a \<and> ?k \<le> b"
  proof (cases "?k = 0")
    case False
    with f64_shift_spec [OF n] assms(2) have "(2 :: int) ^ (52 + ?k) < 2 ^ b" by linarith
    then have "52 + ?k < b" by simp
    with assms(3) show ?thesis by simp
  qed simp
  then have pow: "(2 :: int) ^ (a - ?k) * 2 ^ ?k = 2 ^ a" "(2 :: int) ^ (b - ?k) * 2 ^ ?k = 2 ^ b"
    by (simp_all flip: power_add)
  have "2 ^ (a - ?k) \<le> round_half_even n (2 ^ ?k)"
    by (rule round_half_even_ge) (use pow assms(1) in simp_all)
  moreover have "round_half_even n (2 ^ ?k) \<le> 2 ^ (b - ?k)"
    by (rule round_half_even_le) (use pow assms(2) in simp_all)
  ultimately show ?thesis
    unfolding f64_of_int_def pow [symmetric] by (simp add: mult_right_mono)
qed

section \<open>Properties\<close>

lemma wrap64_id: "0 \<le> n \<Longrightarrow> n < 2 ^ 63 \<Longrightarrow> wrap64 n = n"
  by (simp add: wrap64_def signed_take_bit_int_eq_self)

lemma size_loop_spec:
  assumes "2 ^ (10 * (e + 1)) \<le> n" and "n < 2 ^ 63"
  shows "\<exists>k \<ge> e. k < 6 \<and> size_loop (n div 2 ^ (10 * (e + 1))) (2 ^ (10 * (e + 1))) e = (2 ^ (10 * (k + 1)), k) \<and>
    2 ^ (10 * (k + 1)) \<le> n \<and> n < 2 ^ (10 * (k + 2))"
  using assms
proof (induction "6 - e" arbitrary: e rule: less_induct)
  case less
  let ?d = "2 ^ (10 * (e + 1)) :: int"
  have "?d < 2 ^ 63" using less.prems by linarith
  then have "10 * (e + 1) < 63" by (rule power_less_imp_less_exp [rotated]) simp
  then have e: "e < 6" by simp
  show ?case
  proof (cases "1024 \<le> n div ?d")
    case True
    have nxt: "?d * 1024 = 2 ^ (10 * (e + 2))" by (simp add: power_add)
    have "1024 * ?d \<le> n div ?d * ?d" by (rule mult_right_mono [OF True]) simp
    moreover have "n div ?d * ?d \<le> n" by (rule div_mult_le) simp
    ultimately have "?d * 1024 \<le> n" by linarith
    then have le: "2 ^ (10 * (Suc e + 1)) \<le> n" unfolding nxt by simp
    then have "(2 :: int) ^ (10 * (Suc e + 1)) < 2 ^ 63" using less.prems(2) by linarith
    then have "wrap64 (?d * 1024) = 2 ^ (10 * (Suc e + 1))" unfolding nxt by (simp add: wrap64_id)
    moreover have "n div ?d div 1024 = n div 2 ^ (10 * (Suc e + 1))"
      using nxt by (simp add: div_mult2_eq [symmetric] flip: zdiv_zmult2_eq)
    ultimately have "size_loop (n div ?d) ?d e = size_loop (n div 2 ^ (10 * (Suc e + 1))) (2 ^ (10 * (Suc e + 1))) (Suc e)"
      using True by (subst size_loop.simps) simp
    moreover have "6 - Suc e < 6 - e" using e by simp
    from less.hyps [OF this le less.prems(2)] obtain k where "Suc e \<le> k" "k < 6"
      "size_loop (n div 2 ^ (10 * (Suc e + 1))) (2 ^ (10 * (Suc e + 1))) (Suc e) = (2 ^ (10 * (k + 1)), k)"
      "2 ^ (10 * (k + 1)) \<le> n" "n < 2 ^ (10 * (k + 2))" by blast
    ultimately show ?thesis by (intro exI [of _ k]) simp
  next
    case False
    then have "n div ?d < 1024" by simp
    have "n = n div ?d * ?d + n mod ?d" by (rule div_mult_mod_eq [symmetric])
    moreover have "n mod ?d < ?d" by simp
    moreover have "n div ?d * ?d \<le> 1023 * ?d" by (rule mult_right_mono) (use \<open>n div ?d < 1024\<close> in simp_all)
    ultimately have "n < 1024 * ?d" by linarith
    then have "n < 2 ^ (10 * (e + 2))" by (simp add: power_add mult.commute)
    with False e less.prems show ?thesis
      by (intro exI [of _ e]) (simp add: size_loop.simps)
  qed
qed

text \<open>C39: sizes are printed without a panic and to the nearest tenth. For every 64-bit number \<open>fmtSize\<close>
  stays inside its table of units; a number of at least 1024 is printed in the unit \<open>1024 ^ (e + 1)\<close> it
  reaches and does not exceed 1024 times, as a value of 1.0 to 1024.0, which is nearest to the
  quotient when the number fits into the 53 bits of a \<open>float64\<close>.\<close>

theorem fmt_size_bounds:
  assumes "- (2 ^ 63) \<le> n" and "n < 2 ^ 63"
  shows "(n < 1024 \<longrightarrow> fmt_size n = Some (show_int n @ '' B'')) \<and>
    (1024 \<le> n \<longrightarrow> (\<exists>e t. e < 6 \<and> 1024 ^ (e + 1) \<le> n \<and> n < 1024 ^ (e + 2) \<and> 10 \<le> t \<and> t \<le> 10240 \<and>
       (n < 2 ^ 53 \<longrightarrow> 2 * \<bar>t * 1024 ^ (e + 1) - 10 * n\<bar> \<le> 1024 ^ (e + 1)) \<and>
       fmt_size n = Some (show_int (t div 10) @ ''.'' @ show_int (t mod 10) @ '' '' @ [''KMGTPE'' ! e] @ ''B'')))"
proof (intro conjI impI)
  assume big: "1024 \<le> n"
  have p: "(1024 :: int) ^ k = 2 ^ (10 * k)" for k by (simp add: power_mult)
  from size_loop_spec [of 0 n] big assms(2) obtain e where e: "e < 6"
    "size_loop (n div 1024) 1024 0 = (2 ^ (10 * (e + 1)), e)" and n: "2 ^ (10 * (e + 1)) \<le> n" "n < 2 ^ (10 * (e + 2))"
    by auto
  let ?d = "2 ^ (10 * (e + 1)) :: int"
  define t where "t = round_half_even (10 * f64_of_int n) ?d"
  have f: "?d \<le> f64_of_int n" "f64_of_int n \<le> 2 ^ (10 * (e + 2))" using f64_between [OF n] by simp_all
  have top: "(2 :: int) ^ (10 * (e + 2)) = 1024 * ?d" by (simp add: power_add)
  have "10 \<le> t" unfolding t_def by (rule round_half_even_ge) (use f(1) in simp_all)
  moreover have "t \<le> 10240" unfolding t_def by (rule round_half_even_le) (use f(2) top in simp_all)
  moreover have "2 * \<bar>t * ?d - 10 * n\<bar> \<le> ?d" if "n < 2 ^ 53"
    unfolding t_def f64_small [OF that] by (rule round_half_even_bounds) simp
  moreover have "fmt_size n = Some (show_int (t div 10) @ ''.'' @ show_int (t mod 10) @ '' '' @ [''KMGTPE'' ! e] @ ''B'')"
    using big e by (simp add: fmt_size_def t_def size_units_def Let_def)
  ultimately show "\<exists>e t. e < 6 \<and> 1024 ^ (e + 1) \<le> n \<and> n < 1024 ^ (e + 2) \<and> 10 \<le> t \<and> t \<le> 10240 \<and>
       (n < 2 ^ 53 \<longrightarrow> 2 * \<bar>t * 1024 ^ (e + 1) - 10 * n\<bar> \<le> 1024 ^ (e + 1)) \<and>
       fmt_size n = Some (show_int (t div 10) @ ''.'' @ show_int (t mod 10) @ '' '' @ [''KMGTPE'' ! e] @ ''B'')"
    unfolding p using e(1) n by (intro exI [of _ e] exI [of _ t]) simp
qed (simp add: fmt_size_def)

lemma fmt_size_bounds_witness:
  "\<exists>t. 10 \<le> t \<and> t \<le> 10240 \<and> (\<exists>e < 6. fmt_size 9223372036854775807 =
     Some (show_int (t div 10) @ ''.'' @ show_int (t mod 10) @ '' '' @ [''KMGTPE'' ! e] @ ''B''))"
  using fmt_size_bounds [of 9223372036854775807] by simp blast

lemma fmt_size_samples:
  "fmt_size 1023 = Some ''1023 B''" "fmt_size 1536 = Some ''1.5 KB''" "fmt_size 1048575 = Some ''1024.0 KB''"
  "fmt_size (-5) = Some ''-5 B''" "fmt_size 9223372036854775807 = Some ''8.0 EB''"
  by code_simp+

text \<open>
  A message of an hour ago on the same local day, sent from a zone nine hours ahead, is shown by its day
  instead of its time: its day is taken in the zone of the sender.
\<close>

lemma fmt_date_sender_zone:
  "let now = 1700000000 * 10 ^ 9; t = 1699996400 * 10 ^ 9; utc = (\<lambda>_. 0) in
     day_at t 0 = day_at now 0 \<and> fmt_date utc now \<lparr>gt_ns = t, gt_offset = 0\<rparr> = ''9:13 PM'' \<and>
     fmt_date utc now \<lparr>gt_ns = t, gt_offset = 32400\<rparr> = ''Nov 14''"
  by code_simp

lemma fmt_date_long_sample:
  "fmt_date_long (\<lambda>_. 3600) \<lparr>gt_ns = 1709251200 * 10 ^ 9, gt_offset = 0\<rparr> = ''Fri, Mar 1, 2024 at 1:00 AM''"
  by code_simp

end
