(* ===== verification/Runtime.thy ===== *)
theory Runtime
  imports Serve WebmailSafe
begin

text \<open>
  The running program: what the goroutines that \<open>serve\<close> starts do to the state they share. The outside world,
  the backend with the cached folders of all users and the limiters are shared; each IMAP, SMTP and browser
  session has its own state. A step is one command of one connection, one request, one pass of the queue or
  one sweep of the limiters; the locks of the components make each of them one step.
\<close>

record live =
  lv_web :: web
  lv_imap :: "session list"
  lv_inbound :: "inbound_session list"
  lv_submission :: "submission list"
  lv_submission_limiter :: limiter
  lv_relay :: outside

text \<open>The servers as they start: nobody is connected, nothing is cached, the limiters are fresh.\<close>

definition started :: "system \<Rightarrow> outside \<Rightarrow> live" where
  "started S u = \<lparr>lv_web = served_web S, lv_imap = [], lv_inbound = [], lv_submission = [],
     lv_submission_limiter = sy_submission_limiter S, lv_relay = u\<rparr>"

text \<open>A connection is named by its position; one that was closed sends no further commands.\<close>

datatype event =
    ImapLogin "string option" string string
  | ImapCommand nat imap_op
  | WebRequest route web_request
  | InboundConnect
  | InboundCommand nat "conn option" inbound_cmd
  | SubmissionConnect
  | SubmissionCommand nat "conn option" submission_cmd
  | QueuePass
  | LimiterSweep int

fun handle :: "system \<Rightarrow> net \<Rightarrow> event \<Rightarrow> world \<times> live \<Rightarrow> world \<times> live" where
  "handle S N (ImapLogin peer name password) (w, L) =
     (case login (wm_backend (sy_webmail S)) peer name password (w, wb_srv (lv_web L)) of (r, (w', s')) \<Rightarrow>
        (w', L\<lparr>lv_web := (lv_web L)\<lparr>wb_srv := s'\<rparr>,
               lv_imap := (case r of Inl e \<Rightarrow> lv_imap L | Inr ui \<Rightarrow> lv_imap L @ [new_user_session ui])\<rparr>))"
| "handle S N (ImapCommand k a) (w, L) =
     (if length (lv_imap L) \<le> k then (w, L)
      else case imap_cmd (wm_backend (sy_webmail S)) a (lv_imap L ! k) (w, wb_srv (lv_web L)) of (r, (w', s')) \<Rightarrow>
        (w', L\<lparr>lv_web := (lv_web L)\<lparr>wb_srv := s'\<rparr>,
               lv_imap := (case r of Inl e \<Rightarrow> lv_imap L | Inr ss \<Rightarrow> (lv_imap L)[k := ss])\<rparr>))"
| "handle S N (WebRequest rt q) (w, L) =
     (case serve (sy_webmail S) rt q (w, lv_web L) of (r, (w', b')) \<Rightarrow> (w', L\<lparr>lv_web := b'\<rparr>))"
| "handle S N InboundConnect (w, L) = (w, L\<lparr>lv_inbound := lv_inbound L @ [new_inbound]\<rparr>)"
| "handle S N (InboundCommand k c a) (w, L) =
     (if length (lv_inbound L) \<le> k then (w, L)
      else case run_inbound (sy_inbound S) c a (w, lv_inbound L ! k) of (r, (w', s')) \<Rightarrow>
        (w', L\<lparr>lv_inbound := (lv_inbound L)[k := s']\<rparr>))"
| "handle S N SubmissionConnect (w, L) =
     (w, L\<lparr>lv_submission := lv_submission L @ [new_submission (Some (lv_submission_limiter L))]\<rparr>)"
| "handle S N (SubmissionCommand k c a) (w, L) =
     (if length (lv_submission L) \<le> k then (w, L)
      else case run_submission (sy_submission S) c a
          (w, (lv_submission L ! k)\<lparr>ss_limiter := Some (lv_submission_limiter L)\<rparr>) of (r, (w', s')) \<Rightarrow>
        (w', L\<lparr>lv_submission := (lv_submission L)[k := s'],
               lv_submission_limiter := (case ss_limiter s' of None \<Rightarrow> lv_submission_limiter L | Some l \<Rightarrow> l)\<rparr>))"
| "handle S N QueuePass (w, L) =
     (case process_all N (sy_queue S) (w, lv_relay L) of (r, (w', u')) \<Rightarrow> (w', L\<lparr>lv_relay := u'\<rparr>))"
| "handle S N (LimiterSweep now) (w, L) =
     (w, L\<lparr>lv_submission_limiter := cleanup now (lv_submission_limiter L),
           lv_web := (lv_web L)\<lparr>wb_limiter := map_option (cleanup now) (wb_limiter (lv_web L)),
             wb_srv := (wb_srv (lv_web L))\<lparr>sv_limiter := map_option (cleanup now) (sv_limiter (wb_srv (lv_web L)))\<rparr>\<rparr>\<rparr>)"

definition serving :: "system \<Rightarrow> net \<Rightarrow> event list \<Rightarrow> world \<times> live \<Rightarrow> world \<times> live" where
  "serving S N es t = fold (handle S N) es t"

end
