(* ===== verification/RuntimeInv.thy ===== *)
theory RuntimeInv
  imports Runtime ServeInv
begin

text \<open>
  What holds in every run of the servers together: who may act as a user, and that the data of a user
  stays as it is until somebody signs in with that user's password or an administrator's.
\<close>

section \<open>The users stay who they are\<close>

definition idents :: "database \<Rightarrow> (int \<times> string \<times> bool) list" where
  "idents d = map (\<lambda>u. (usr_id u, usr_email u, usr_is_admin u)) (users_t d)"

definition same_idents :: "database \<Rightarrow> database \<Rightarrow> bool" where
  "same_idents d d' \<longleftrightarrow> idents d' = idents d"

lemma same_idents_refl [simp]: "same_idents d d"
  by (simp add: same_idents_def)

interpretation idw: effect "db_rel same_idents"
  by unfold_locales (auto simp: db_rel_def same_idents_def)

lemma same_idents_users: "users_t d' = users_t d \<Longrightarrow> same_idents d d'"
  by (simp add: same_idents_def idents_def)

lemma idents_ops:
  "keeps (db_rel same_idents) (get_mailbox u n)" "keeps (db_rel same_idents) (list_mailboxes u)"
  "keeps (db_rel same_idents) (ensure_mailbox s u n)" "keeps (db_rel same_idents) (delete_mailbox s mid)"
  "keeps (db_rel same_idents) (rename_mailbox mid n)" "keeps (db_rel same_idents) (delete_message_by_key mid k)"
  "keeps (db_rel same_idents) (get_user_by_id i)" "keeps (db_rel same_idents) (get_user_by_email e)"
  "keeps (db_rel same_idents) (get_forwarding i)" "keeps (db_rel same_idents) (set_forwarding s i en to)"
  "keeps (db_rel same_idents) (set_password Bc i pw)"
proof -
  show g: "keeps (db_rel same_idents) (get_mailbox u n)" for u n
    unfolding get_mailbox_def not_found_def if_no_rows_def by (intro idw.keeps_rules db_rel_get same_idents_refl)
  show "keeps (db_rel same_idents) (list_mailboxes u)"
    unfolding list_mailboxes_def by (intro db_rel_select same_idents_refl)
  show "keeps (db_rel same_idents) (ensure_mailbox s u n)"
    unfolding ensure_mailbox_def Let_def
    by (cases "so_driver s") (auto intro!: idw.keeps_rules g db_rel_exec db_rel_same [OF keeps_time_now] same_idents_users
        simp: insert_mailbox_def Let_def split: if_splits)
  show "keeps (db_rel same_idents) (delete_mailbox s mid)"
    unfolding delete_mailbox_def by (intro db_rel_exec) (auto simp: delete_mailboxes_def Let_def intro: same_idents_users)
  show "keeps (db_rel same_idents) (rename_mailbox mid n)"
    unfolding rename_mailbox_def
    by (intro db_rel_exec) (auto simp: update_mailbox_name_def update_mailbox_def Let_def split: if_splits intro: same_idents_users)
  show "keeps (db_rel same_idents) (delete_message_by_key mid k)"
    unfolding delete_message_by_key_def by (intro db_rel_exec) (auto simp: delete_messages_def intro: same_idents_users)
  show "keeps (db_rel same_idents) (get_user_by_id i)" "keeps (db_rel same_idents) (get_user_by_email e)"
    "keeps (db_rel same_idents) (get_forwarding i)"
    unfolding get_user_by_id_def get_user_by_email_def get_forwarding_def not_found_def if_no_rows_def
    by (intro idw.keeps_rules db_rel_get same_idents_refl)+
  show "keeps (db_rel same_idents) (set_forwarding s i en to)"
    unfolding set_forwarding_def Let_def
    by (auto split: driver.splits if_splits intro!: db_rel_exec same_idents_users simp: upsert_forwarding_def Let_def)
  have hash: "keeps same_db (hash_password Bc pw)"
    unfolding hash_password_def by (intro fs_effects keeps_case_option)
  have "same_idents d (d\<lparr>users_t := map (\<lambda>r. if usr_id r = i then r\<lparr>usr_password_hash := h\<rparr> else r) (users_t d)\<rparr>)" for d h
    by (auto simp: same_idents_def idents_def)
  then show "keeps (db_rel same_idents) (set_password Bc i pw)"
    unfolding set_password_def by (intro idw.keeps_bind db_rel_same [OF hash] db_rel_exec) auto
qed

section \<open>Effects on the shared state\<close>

text \<open>What every command and every request outside the administration does: accounts stay who they are, here and
  in the database. The state is polymorphic, so the same rules serve IMAP and webmail.\<close>

definition named :: "world \<times> 'b \<Rightarrow> world \<times> 'b \<Rightarrow> bool" where
  "named s t \<longleftrightarrow> same_idents (db (fst s)) (db (fst t))"

interpretation nm: effect named
  by unfold_locales (auto simp: named_def same_idents_def)

lemma named_world: "keeps (db_rel same_idents) m \<Longrightarrow> keeps named (on_world m)"
  by (auto simp: keeps_def named_def db_rel_def on_world_def split: prod.splits) (metis snd_conv)

lemma named_fs: "keeps same_db m \<Longrightarrow> keeps named (on_world m)"
  by (rule named_world, rule db_rel_same) simp_all

lemma named_modify: "keeps named the_srv" "keeps named the_web" "keeps named (upd_srv f)" "keeps named (upd_web g)" "keeps named (upd_user ui h)"
  by (auto simp: keeps_def named_def the_srv_def the_web_def upd_srv_def upd_web_def upd_user_def io_gets_def io_modify_def)

lemma named_srv:
  assumes "keeps named m"
  shows "keeps named (on_srv m)"
  unfolding keeps_def
proof
  fix s :: "world \<times> web"
  obtain w b where s: "s = (w, b)" by fastforce
  obtain x w' t where "m (w, wb_srv b) = (x, (w', t))" by (metis surj_pair)
  with keepsD [OF assms, of "(w, wb_srv b)"] show "named s (snd (on_srv m s))"
    by (simp add: s on_srv_def named_def)
qed

lemma named_at_box:
  assumes "\<And>mid. keeps (box_eff mid) m"
  shows "keeps named (at_box i m)"
  unfolding keeps_def
proof
  fix t :: "world \<times> srv"
  obtain w s where t: "t = (w, s)" by fastforce
  obtain r w' b where run: "m (w, sv_heap s ! i) = (r, (w', b))" by (metis surj_pair)
  with keepsD [OF assms, of "mb_db_id (sv_heap s ! i)" "(w, sv_heap s ! i)"]
  have "users_t (db w') = users_t (db w)" by (simp add: box_eff_def db_rel_def box_change_def)
  with run show "named t (snd (at_box i m t))" by (simp add: t at_box_def named_def same_idents_users)
qed

lemma named_box: "keeps named (box i)"
  unfolding box_def the_mbox_def by (rule named_at_box) (rule boxeff.keeps_rules)

lemma named_new_mailbox: "keeps (db_rel same_idents) (new_mailbox s root r)"
  using new_mailbox_change [of r s root] by (auto simp: keeps_def db_rel_def box_change_def intro: same_idents_users)

lemma named_mailbox: "keeps named (load_box B ui n r)" "keeps named (mailbox_locked B ui n)" "keeps named (mailbox B ui n)"
proof -
  show l: "keeps named (load_box B ui n r)" for n r
    unfolding load_box_def Let_def by (intro nm.keeps_rules named_modify named_world named_new_mailbox)
  show "keeps named (mailbox_locked B ui n)" "keeps named (mailbox B ui n)"
    unfolding mailbox_def mailbox_locked_def Let_def
    by (intro nm.keeps_bind named_modify keeps_case_option nm.keeps_rules named_world idents_ops l)+
qed

lemmas named_effects = nm.keeps_rules named_modify named_box named_mailbox idents_ops [THEN named_world]
  named_fs [OF maildir_same_db(3)] named_fs [OF maildir_same_db(4)]
  named_at_box [OF reload_eff] named_at_box [OF append_eff] named_at_box [OF expunge_locked_eff]
  named_at_box [OF put_eff] named_at_box [OF persist_eff] named_at_box [OF box_eff_upd]

section \<open>IMAP commands\<close>

text \<open>The accounts in memory, by the rules of \<open>WebmailSafe\<close>, and in the database.\<close>

definition imap_eff :: "world \<times> srv \<Rightarrow> world \<times> srv \<Rightarrow> bool" where
  "imap_eff s t \<longleftrightarrow> same_users s t \<and> named s t"

interpretation ie: effect imap_eff
  by unfold_locales (auto simp: imap_eff_def same_users_def named_def same_idents_def)

lemma imap_effI: "keeps same_users m \<Longrightarrow> keeps named m \<Longrightarrow> keeps imap_eff m"
  by (simp add: keeps_def imap_eff_def)

lemma ie_at_box: "(\<And>mid. keeps (box_eff mid) m) \<Longrightarrow> keeps imap_eff (at_box i m)"
  by (rule imap_effI [OF su_at_box named_at_box])

lemma ie_world: "keeps (db_rel same_idents) f \<Longrightarrow> keeps imap_eff (on_world f)"
  by (rule imap_effI [OF su_world named_world])

lemma ie_fs: "keeps same_db f \<Longrightarrow> keeps imap_eff (on_world f)"
  by (rule imap_effI [OF su_world named_fs])

lemma ie_ops:
  "keeps imap_eff the_srv" "keeps imap_eff (box i)" "keeps imap_eff (load_box B ui n r)" "keeps imap_eff (mailbox_locked B ui n)"
  "keeps imap_eff (mailbox B ui n)" "(\<And>u. mu_row (h u) = mu_row u) \<Longrightarrow> keeps imap_eff (upd_user ui h)"
  using su_mailbox [unfolded mailbox_def]
  by (auto intro!: imap_effI su_srv named_modify su_box named_box su_load_box named_mailbox su_mailbox su_upd_user)

lemma box_eff_rename: "keeps (box_eff mid) (rename_mbox n)"
  unfolding rename_mbox_def by (rule box_eff_upd) simp

lemma box_eff_append_literal: "keeps (box_eff mid) (append_literal s bs t fl)"
  unfolding append_literal_def by (intro boxeff.keeps_rules append_eff)

lemmas ie_effects = ie.keeps_rules ie_ops idents_ops [THEN ie_world] maildir_same_db [THEN ie_fs] keeps_syscalls [THEN ie_fs]
  ie_at_box keeps_case_prod keeps_case_option
  reload_eff append_eff status_eff list_eff subscribed_eff box_eff_append_literal expunge_locked_eff fetch_eff store_eff expunge_eff
  poll_eff view_idle_eff box_eff_rename box_eff_upd

lemma ie_imap_cmd: "keeps imap_eff (imap_cmd B a ss)"
proof -
  have copy: "keeps imap_eff (copy_one B root dest m)" for root dest m
    unfolding copy_one_def by (intro ie_effects)
  have dest: "keeps imap_eff (copy_dest B ss n)" for n
    unfolding copy_dest_def by (intro ie_effects)
  have "keeps imap_eff (user_status B ui n so)" "keeps imap_eff (user_list B ui r ps lo)" "keeps imap_eff (user_append B ui n bs t fl)"
    "keeps imap_eff (user_create B ui n)" "keeps imap_eff (user_delete B ui n)" "keeps imap_eff (user_rename B ui n m)"
    "keeps imap_eff (user_subscribe B ui n)" "keeps imap_eff (user_unsubscribe B ui n)" "keeps imap_eff (session_select B ss n v)"
    "keeps imap_eff (session_copy B ss ns n)" "keeps imap_eff (session_move B ss ns n)" "keeps imap_eff (session_poll B ss)"
    "keeps imap_eff (session_idle B ss k)" for ui n m so r ps lo bs t fl v ns k
    unfolding user_status_def user_list_def user_append_def user_create_def user_delete_def user_rename_def user_subscribe_def
      user_unsubscribe_def session_select_def session_copy_def session_move_def session_poll_def session_idle_def Let_def
    by (intro ie_effects copy dest; simp)+
  note cmds = this
  have at: "keeps imap_eff (at_selected ss f)" if "\<And>v mid. keeps (box_eff mid) (f v)" for f :: "view \<Rightarrow> 'b mio"
    unfolding at_selected_def by (intro ie_effects that)
  show ?thesis
    by (cases a) (auto intro!: ie.keeps_rules cmds at fetch_eff store_eff expunge_eff split: prod.splits)
qed

section \<open>Requests\<close>

lemma named_summaries: "keeps named (on_world (summarize L root m))" "keeps named (on_world (search_summaries L root c ms))"
  by (intro named_fs same_db_summarize same_db_search_summaries)+

lemmas web_effects = named_effects named_summaries insertI1 insertI2

lemma named_account:
  "keeps named (change_password B a cur new)" "keeps named (folders B a)"
  "keeps named (list_messages_page B L a f p z)" "keeps named (get_summary B L a f u)"
  "keeps named (search_text B L a f q)" "keeps named (get_message B L a f u)"
  "keeps named (get_attachment B L a f u n)" "keeps named (account_append B a f raw fl)"
  "keeps named (account_set_flags B a f u fl)" "keeps named (account_delete B a f u)"
  unfolding change_password_def folders_def list_messages_page_def get_summary_def search_text_def get_message_def
    get_attachment_def account_append_def account_set_flags_def account_delete_def account_expunge_def move_to_def Let_def
  by (auto intro!: web_effects named_world [OF idw.keeps_wrap] idents_ops split: option.splits prod.splits sum.splits)

lemma named_pages: "keeps named (build_page_data ML a f u p q)" "keeps named (new_account_data ML a)"
  unfolding build_page_data_def new_account_data_def Let_def
  by (auto intro!: web_effects named_account split: option.splits prod.splits sum.splits)

lemma named_outside: "keeps named (on_world (send_mail S from rcpts data))" "keeps named (on_world (build_outgoing_message M f t c s b i r as))"
proof -
  have "keeps (db_rel same_idents) (send_mail S from rcpts data)"
    unfolding keeps_def db_rel_def
  proof
    fix w
    obtain x w' where "send_mail S from rcpts data w = (x, w')" by fastforce
    with send_mail_extends [OF this] show "same_idents (db w) (db (snd (send_mail S from rcpts data w)))"
      by (auto dest!: extendedD(5))
  qed
  then show "keeps named (on_world (send_mail S from rcpts data))" by (rule named_world)
  show "keeps named (on_world (build_outgoing_message M f t c s b i r as))" by (intro named_fs same_db_outgoing)
qed

lemma named_session: "keeps named (session_delete tok)" "keeps named (session_get tok)"
proof -
  show d: "keeps named (session_delete tok)" for tok unfolding session_delete_def by (rule named_modify)
  show "keeps named (session_get tok)"
    unfolding session_get_def by (auto split: option.splits intro!: web_effects named_fs [OF keeps_time_now] d)
qed

lemma named_handlers:
  "keeps named (handle_folder M f r a)" "keeps named (handle_search M f r a)" "keeps named (handle_message M f u r a)"
  "keeps named (handle_flag M f u r a)" "keeps named (handle_delete M f u r a)" "keeps named (handle_attachment M f u p r a)"
  "keeps named (handle_account_page M r a)" "keeps named (handle_password_change M r a)" "keeps named (handle_forwarding M r a)"
  "keeps named (handle_compose_form M r a)" "keeps named (handle_compose_submit M r a)"
  unfolding handle_folder_def handle_search_def handle_message_def handle_flag_def handle_delete_def handle_attachment_def
    handle_account_page_def handle_password_change_def handle_forwarding_def handle_compose_form_def handle_compose_submit_def
    compose_error_def Let_def
  by (auto intro!: web_effects named_srv [OF named_account(1)] named_srv [OF named_account(4)] named_srv [OF named_account(6)]
      named_srv [OF named_account(7)] named_srv [OF named_account(8)] named_srv [OF named_account(9)] named_srv [OF named_account(10)]
      named_pages [THEN named_srv] named_outside named_session split: option.splits prod.splits sum.splits)

lemma named_require: "(\<And>a. keeps named (h r a)) \<Longrightarrow> keeps named (require_session h r)"
  unfolding require_session_def by (auto intro!: web_effects named_session split: option.splits)

lemma named_serve:
  assumes "\<not> admin_route rt" and "rt \<noteq> LoginSubmit"
  shows "keeps named (serve M rt r)"
  using assms by (cases rt)
    (auto simp: handle_login_form_def handle_logout_def handle_root_def admin_route_def
      intro!: named_require named_handlers web_effects named_session split: option.splits)

section \<open>Mail leaves the directory alone\<close>

definition same_data :: "world \<times> 'b \<Rightarrow> world \<times> 'b \<Rightarrow> bool" where
  "same_data s t \<longleftrightarrow> db (fst t) = db (fst s)"

interpretation sd: effect same_data
  by unfold_locales (auto simp: same_data_def)

interpretation sdw: effect "db_rel (=)"
  by unfold_locales (auto simp: db_rel_def)

lemma data_world: "keeps (db_rel (=)) m \<Longrightarrow> keeps same_data (on_world m)" "keeps (db_rel (=)) m \<Longrightarrow> keeps same_data (q_world m)"
  by (auto simp: keeps_def same_data_def db_rel_def on_world_def q_world_def split: prod.splits) (metis snd_conv)+

lemma data_fs: "keeps same_db m \<Longrightarrow> keeps (db_rel (=)) m"
  by (rule db_rel_same) simp_all

lemma data_get: "keeps (db_rel (=)) (db_get f)"
  by (rule db_rel_get) simp

lemma data_directory: "keeps (db_rel (=)) (get_user_by_email e)" "keeps (db_rel (=)) (get_forwarding i)" "keeps (db_rel (=)) get_relay_settings"
  unfolding get_user_by_email_def get_forwarding_def get_relay_settings_def not_found_def if_no_rows_def
  by (intro sdw.keeps_rules data_get)+

lemma data_enqueue: "keeps (db_rel (=)) (enqueue f t d)"
  using enqueue_same_store by (simp add: keeps_def same_store_def db_rel_def)

lemma data_inbound: "keeps same_data (run_inbound B c a)"
proof -
  have fwd: "keeps (db_rel (=)) (inbound_forward B rcpt uid full)" for rcpt uid full
    unfolding inbound_forward_def
    by (auto intro!: sdw.keeps_rules data_directory data_enqueue data_fs [OF deliver_same_db] split: prod.splits)
  have loop: "keeps (db_rel (=)) (inbound_loop B c v body us i rs)" for v body us i rs
    by (induction rs arbitrary: i)
      (auto intro!: sdw.keeps_rules fwd data_fs [OF deliver_same_db] data_fs [OF keeps_time_now] simp: Let_def split: prod.splits)
  have s: "keeps same_data the_session" "keeps same_data (set_session g)" for g :: "'s \<Rightarrow> 's"
    by (auto simp: keeps_def same_data_def the_session_def set_session_def io_gets_def io_modify_def)
  show ?thesis
    by (cases a) (auto simp: inbound_mail_def inbound_rcpt_def inbound_data_def inbound_reset_def Let_def
      intro!: sd.keeps_rules s data_world data_directory loop split: prod.splits sum.splits)
qed

lemma data_queue: "keeps same_data (process_all N (mail_queue fmt cfg))"
proof -
  let ?q = "mail_queue fmt cfg"
  note w = data_world(2)
  have out: "keeps same_data (call c)" "keeps same_data (q_out f)" for c f
    by (auto simp: keeps_def same_data_def call_def q_out_def io_modify_def Let_def)
  have tr: "keeps same_data (transaction f t d)" for f t d unfolding transaction_def by (intro sd.keeps_rules out)
  have hosts: "keeps same_data (try_hosts ?q f t d le hs)" for f t d le hs
    by (induction hs arbitrary: le)
      (auto simp: try_host_def try_addr_def intro!: sd.keeps_rules out tr split: option.splits)
  have smart: "keeps (db_rel (=)) smart_host"
    unfolding smart_host_def by (auto intro!: sdw.keeps_rules data_directory)
  have deliver: "keeps same_data (Queue.deliver N ?q f t d)" for f t d
    unfolding Queue.deliver_def deliver_direct_def try_smart_host_def try_smart_host_with_tls_def Let_def
    by (auto simp: mail_queue_def intro!: sd.keeps_rules out tr hosts [unfolded mail_queue_def] w smart split: option.splits prod.splits sum.splits)
  have sys: "keeps (db_rel (=)) (syscall m)" if "keeps (db_rel (=)) m" for m :: "'x wio"
    using that by (rule db_rel_may_fail) simp
  have md: "keeps (db_rel (=)) (io_modify f)" if "\<And>w. db (f w) = db w" for f
    using that by (simp add: keeps_def db_rel_def io_modify_def)
  have spool: "keeps (db_rel (=)) (remove i)" "keeps (db_rel (=)) (save it)" "keeps (db_rel (=)) (load i)" "keeps (db_rel (=)) (read_eml i)" for i it
    unfolding remove_def save_def load_def read_eml_def
    by (auto intro!: sdw.keeps_rules sys md) (auto simp: keeps_def db_rel_def split: option.splits)
  have bounce: "keeps (db_rel (=)) (bounce fmt cfg it d r)" for it d r
    unfolding bounce_def Let_def by (auto intro!: sdw.keeps_rules data_directory data_fs [OF deliver_same_db] data_fs [OF keeps_time_now] split: prod.splits)
  have give_up: "keeps same_data (give_up ?q it d r)" for it d r
    using keepsD [OF bounce, of _ it d r] unfolding give_up_def count_relay_def
    by (auto intro!: sd.keeps_rules out w spool) (auto simp: keeps_def same_data_def db_rel_def mail_queue_def on_permanent_failure_def io_modify_def)
  have later: "keeps same_data (retry_later ?q it)" for it
    unfolding retry_later_def count_relay_def
    by (auto intro!: sd.keeps_rules sdw.keeps_rules out w spool data_fs [OF keeps_time_now] split: option.splits)
  show ?thesis
    unfolding process_all_def process_one_def attempt_def count_relay_def Let_def
    by (intro sd.keeps_rules w sys out deliver give_up later spool data_fs [OF keeps_time_now] sdw.keeps_rules)
qed

section \<open>Signing in\<close>

text \<open>The users in memory are those of the directory: the row of an account has the identifier and the role the
  directory gives for its address.\<close>

definition current :: "database \<Rightarrow> srv \<Rightarrow> bool" where
  "current d s \<longleftrightarrow> (\<forall>(e, ui) \<in> set (sv_index s). \<forall>u. find (\<lambda>u. usr_email u = e) (users_t d) = Some u \<longrightarrow>
     usr_id u = account_id s ui \<and> usr_is_admin u = account_is_admin s ui)"

lemma find_idents:
  "map_option (\<lambda>u. (usr_id u, usr_email u, usr_is_admin u)) (find (\<lambda>u. usr_email u = e) us) =
     find (\<lambda>(i, e', a). e' = e) (map (\<lambda>u. (usr_id u, usr_email u, usr_is_admin u)) us)"
  by (induction us) auto

lemma account_row: "account_id s a = usr_id (mu_row (sv_users s ! a))" "account_is_admin s a = usr_is_admin (mu_row (sv_users s ! a))"
  by (simp_all add: account_id_def account_is_admin_def)

lemma same_accounts:
  assumes "same_users (w, s) (w', s')" and "a < length (sv_users s)"
  shows "account_id s' a = account_id s a" "account_is_admin s' a = account_is_admin s a"
proof -
  have "map mu_row (sv_users s') = map mu_row (sv_users s)" using assms(1) by (simp add: same_users_def)
  with assms(2) have "mu_row (sv_users s' ! a) = mu_row (sv_users s ! a)" by (metis length_map nth_map)
  then show "account_id s' a = account_id s a" "account_is_admin s' a = account_is_admin s a" by (simp_all add: account_row)
qed

lemma current_kept:
  assumes cur: "current (db w) s" and ix: "indexed_users s" and su: "same_users (w, s) (w', s')"
    and ids: "same_idents (db w) (db w')"
  shows "current (db w') s'"
  unfolding current_def
proof (intro ballI, clarify)
  fix e ui u
  assume e: "(e, ui) \<in> set (sv_index s')" and u: "find (\<lambda>u. usr_email u = e) (users_t (db w')) = Some u"
  have in_s: "(e, ui) \<in> set (sv_index s)" using e su by (simp add: same_users_def)
  have "map_option (\<lambda>u. (usr_id u, usr_email u, usr_is_admin u)) (find (\<lambda>u. usr_email u = e) (users_t (db w'))) =
      map_option (\<lambda>u. (usr_id u, usr_email u, usr_is_admin u)) (find (\<lambda>u. usr_email u = e) (users_t (db w)))"
    using ids unfolding find_idents same_idents_def idents_def by simp
  with u obtain v where v: "find (\<lambda>u. usr_email u = e) (users_t (db w)) = Some v" "usr_id v = usr_id u" "usr_is_admin v = usr_is_admin u"
    by (cases "find (\<lambda>u. usr_email u = e) (users_t (db w))") auto
  have "ui < length (sv_users s)" using ix in_s unfolding indexed_users_def by fast
  note a = same_accounts [OF su this]
  have "usr_id v = account_id s ui \<and> usr_is_admin v = account_is_admin s ui"
    using cur [unfolded current_def, THEN bspec, OF in_s] v(1) by simp
  then show "usr_id u = account_id s' ui \<and> usr_is_admin u = account_is_admin s' ui" by (simp add: a v(2,3))
qed

lemma user_for_current:
  assumes run: "user_for u (w, s) = (Inr ui, (w', s'))" and ix: "indexed_users s" and cur: "current d s"
    and u: "find (\<lambda>x. usr_email x = usr_email u) (users_t d) = Some u" "to_lower (usr_email u) = usr_email u"
  shows "current d s' \<and> account_id s' ui = usr_id u \<and> account_is_admin s' ui = usr_is_admin u \<and>
    (\<forall>a < length (sv_users s). account_id s' a = account_id s a \<and> account_is_admin s' a = account_is_admin s a)"
proof (cases "map_of (sv_index s) (usr_email u)")
  case (Some i)
  with run u have "s' = s" "ui = i" by (auto simp: user_for_def the_srv_def io_simps Let_def)
  moreover have "(usr_email u, i) \<in> set (sv_index s)" using Some by (rule map_of_SomeD)
  ultimately show ?thesis using cur u(1) unfolding current_def by fastforce
next
  case None
  with run u have s': "s' = s\<lparr>sv_users := sv_users s @ [\<lparr>mu_row = u, mu_boxes = []\<rparr>],
      sv_index := AList.update (usr_email u) (length (sv_users s)) (sv_index s)\<rparr>" and ui: "ui = length (sv_users s)"
    by (auto simp: user_for_def the_srv_def upd_srv_def io_simps Let_def)
  have old: "a < length (sv_users s) \<Longrightarrow> account_id s' a = account_id s a \<and> account_is_admin s' a = account_is_admin s a" for a
    by (simp add: s' account_row nth_append)
  have new: "account_id s' ui = usr_id u" "account_is_admin s' ui = usr_is_admin u" by (simp_all add: s' ui account_row)
  have "usr_id x = account_id s' i \<and> usr_is_admin x = account_is_admin s' i"
    if e: "(e, i) \<in> set (sv_index s')" and x: "find (\<lambda>y. usr_email y = e) (users_t d) = Some x" for e i x
  proof -
    have "(e, i) = (usr_email u, ui) \<or> (e, i) \<in> set (sv_index s)"
      using e alist_update_set [of "(e, i)"] unfolding s' ui by auto
    then show ?thesis
    proof
      assume "(e, i) = (usr_email u, ui)"
      with x u new show ?thesis by simp
    next
      assume i: "(e, i) \<in> set (sv_index s)"
      then have "i < length (sv_users s)" using ix unfolding indexed_users_def by fast
      with old [of i] i x cur show ?thesis unfolding current_def by fastforce
    qed
  qed
  with old new show ?thesis unfolding current_def by blast
qed

lemma authenticate_cases:
  assumes "authenticate B email pw (w, s) = (Inr a, (w', s'))"
  shows "\<exists>u w1. right_password (bk_bcrypt B) (db w) (to_lower (trim_space email)) pw u \<and> user_for u (w1, s) = (Inr a, (w', s'))"
proof -
  obtain y w1 where u: "get_user_by_email (to_lower (trim_space email)) w = (y, w1)" by fastforce
  with assms obtain u where y: "y = Inr u" "verify_password (bk_bcrypt B) u pw" "user_for u (w1, s) = (Inr a, (w', s'))"
    by (cases y) (auto simp: authenticate_def io_simps on_world_def split: if_splits)
  with get_user_run(2) [OF u y(1)] show ?thesis by (auto simp: right_password_def verify_password_def to_lower_idem)
qed

lemma login_cases:
  assumes "login B peer name pw (w, s) = (r, (w', s'))"
  shows "db w' = db w \<and> ((\<exists>e l. r = Inl e \<and> s' = s\<lparr>sv_limiter := l\<rparr>) \<or>
    (\<exists>u l ui w1. r = Inr ui \<and> \<not> login_blocked w s (client_ip peer) \<and>
       right_password (bk_bcrypt B) (db w) (to_lower (trim_space name)) pw u \<and>
       user_for u (w1, s\<lparr>sv_limiter := l\<rparr>) = (Inr ui, (w', s'))))"
proof -
  let ?ip = "client_ip peer" and ?e = "to_lower (trim_space name)"
  obtain w0 where lim: "limited ?ip (w, s) = (Inr (login_blocked w s ?ip), (w0, s))" and w0: "db w0 = db w"
    using limited_run unfolding same_db_def by blast
  show ?thesis
  proof (cases "login_blocked w s ?ip")
    case True
    with assms lim have "r = Inl auth_failed" "s' = s" "w' = w0" by (simp_all add: login_def Let_def io_bind_apply io_fail_def)
    then have "r = Inl auth_failed \<and> s' = s\<lparr>sv_limiter := sv_limiter s\<rparr>" "db w' = db w" using w0 by simp_all
    then show ?thesis by blast
  next
    case False
    from check_run [of ?e "bk_bcrypt B" pw w0 s] obtain x w2 where
      check: "io_either (on_world (get_user_by_email ?e)) (\<lambda>_. io_ret None)
          (\<lambda>u. io_ret (if verify_password (bk_bcrypt B) u pw then Some u else None)) (w0, s) = (Inr x, (w2, s))"
      and db2: "db w2 = db w" and x: "\<And>u. x = Some u \<Longrightarrow> right_password (bk_bcrypt B) (db w) ?e pw u"
      by (auto simp: w0 to_lower_idem)
    show ?thesis
    proof (cases x)
      case None
      obtain w3 now where f: "note_failure ?ip (w2, s) = (Inr (), (w3, s\<lparr>sv_limiter :=
          if ?ip = '''' then sv_limiter s else map_option (record_failure now ?ip) (sv_limiter s)\<rparr>))" "same_db w2 w3"
        using note_failure_run by blast
      with assms False lim check None db2 show ?thesis
        by (auto simp: login_def Let_def io_bind_apply io_fail_def same_db_def)
    next
      case (Some u)
      let ?l = "if ?ip = '''' then sv_limiter s else map_option (record_success ?ip) (sv_limiter s)"
      obtain ui s2 where uf: "user_for u (w2, s\<lparr>sv_limiter := ?l\<rparr>) = (Inr ui, (w2, s2))" using user_for_total by blast
      with assms False lim check Some have "r = Inr ui" "w' = w2" "s' = s2"
        by (auto simp: login_def Let_def io_bind_apply note_success_run)
      with uf False db2 x [OF Some] show ?thesis by blast
    qed
  qed
qed

section \<open>Runs of the servers\<close>

text \<open>Nothing dangles, neither in the webmail nor in the IMAP connections; \<open>conn_user\<close> is whom a connection is logged in as.\<close>

definition conn_user :: "live \<Rightarrow> session \<Rightarrow> int" where
  "conn_user L ss = account_id (wb_srv (lv_web L)) (ss_user ss)"

definition live_ok :: "world \<times> live \<Rightarrow> bool" where
  "live_ok = (\<lambda>(w, L). web_ok (w, lv_web L) \<and>
     (\<forall>ss \<in> set (lv_imap L). session_ok (db w) (wb_srv (lv_web L)) (conn_user L ss) ss))"

text \<open>The user whose password an event gives, if the limiter lets the attempt through.\<close>

definition with_password :: "bcrypt \<Rightarrow> database \<Rightarrow> string \<Rightarrow> string \<Rightarrow> user_row option" where
  "with_password bc d email pw =
     (case find (\<lambda>u. usr_email u = email) (users_t d) of
        None \<Rightarrow> None | Some u \<Rightarrow> if bc_compare bc (usr_password_hash u) pw then Some u else None)"

fun presented :: "system \<Rightarrow> world \<times> live \<Rightarrow> event \<Rightarrow> user_row option" where
  "presented S (w, L) (ImapLogin peer name password) =
     (if login_blocked w (wb_srv (lv_web L)) (client_ip peer) then None
      else with_password (bk_bcrypt (wm_backend (sy_webmail S))) (db w) (to_lower (trim_space name)) password)"
| "presented S (w, L) (WebRequest LoginSubmit r) =
     (if \<not> rq_form_ok r \<or> web_refused (sy_webmail S) w (lv_web L) r then None
      else with_password (bk_bcrypt (wm_backend (sy_webmail S))) (db w)
        (to_lower (trim_space (form_value r ''email''))) (form_value r ''password''))"
| "presented S t e = None"

text \<open>The users whose passwords were given in the course of a run.\<close>

fun signs_in :: "system \<Rightarrow> net \<Rightarrow> event list \<Rightarrow> world \<times> live \<Rightarrow> user_row list" where
  "signs_in S N [] t = []"
| "signs_in S N (e # es) t =
     (case presented S t e of None \<Rightarrow> [] | Some u \<Rightarrow> [u]) @ signs_in S N es (handle S N e t)"

text \<open>Nobody acts for the user \<open>v\<close> or as an administrator.\<close>

definition unattended :: "int \<Rightarrow> world \<times> live \<Rightarrow> bool" where
  "unattended v = (\<lambda>(w, L). current (db w) (wb_srv (lv_web L)) \<and> (\<forall>ss \<in> set (lv_imap L). conn_user L ss \<noteq> v) \<and>
     (\<forall>(tok, s) \<in> set (wb_sessions (lv_web L)). account_id (wb_srv (lv_web L)) (ws_account s) \<noteq> v \<and>
        \<not> account_is_admin (wb_srv (lv_web L)) (ws_account s)))"

lemma right_with_password: "right_password bc d e pw u \<longleftrightarrow> with_password bc d e pw = Some u"
  by (auto simp: right_password_def with_password_def split: option.splits if_splits)

lemma live_ok_held:
  "live_ok (w, L) \<longleftrightarrow> web_ok (w, lv_web L) \<and>
     held ((\<lambda>ss. (ss_user ss, conn_user L ss)) ` set (lv_imap L))
       {(i, conn_user L ss) | i v ss. ss \<in> set (lv_imap L) \<and> ss_selected ss = Some (i, v)} (db w) (wb_srv (lv_web L))"
  by (fastforce simp: live_ok_def held_def session_ok_def)

text \<open>What a step does that leaves the accounts, the connections and the sessions alone.\<close>

lemma quiet_step:
  assumes "live_ok (w, L)" and "db w' = db w" and "lv_imap L' = lv_imap L" and "wb_sessions (lv_web L') = wb_sessions (lv_web L)"
    and "sv_heap (wb_srv (lv_web L')) = sv_heap (wb_srv (lv_web L))" "sv_users (wb_srv (lv_web L')) = sv_users (wb_srv (lv_web L))"
      "sv_index (wb_srv (lv_web L')) = sv_index (wb_srv (lv_web L))"
  shows "live_ok (w', L')" "unattended v (w, L) \<Longrightarrow> unattended v (w', L')" "rows_of v (db w') = rows_of v (db w)"
proof -
  have a: "account_id (wb_srv (lv_web L')) a = account_id (wb_srv (lv_web L)) a"
    "account_is_admin (wb_srv (lv_web L')) a = account_is_admin (wb_srv (lv_web L)) a" for a
    using assms(6) by (simp_all add: account_row)
  then have c: "conn_user L' ss = conn_user L ss" for ss by (simp add: conn_user_def)
  show "live_ok (w', L')"
    using assms by (auto simp: live_ok_def web_ok_def srv_ok_def indexed_users_def session_ok_def usr_ok_def ptr_ok_def c)
  show "unattended v (w', L')" if "unattended v (w, L)"
    using that assms by (simp add: unattended_def current_def a c)
  show "rows_of v (db w') = rows_of v (db w)" using assms(2) by simp
qed

text \<open>A login: at most one account more, of the user whose password was given.\<close>

lemma signed_in_step:
  assumes ok: "live_ok (w, L)" and rp: "right_password bc (db w) (to_lower e) pw u"
    and run: "user_for u (w1, (wb_srv (lv_web L))\<lparr>sv_limiter := l\<rparr>) = (Inr ui, (w2, s'))" and db: "db w' = db w"
    and web: "wb_srv (lv_web L') = s'"
    and imap: "set (lv_imap L') \<subseteq> set (lv_imap L) \<union> {new_user_session ui}"
    and sess: "\<And>tok s. (tok, s) \<in> set (wb_sessions (lv_web L')) \<Longrightarrow> (tok, s) \<in> set (wb_sessions (lv_web L)) \<or> ws_account s = ui"
  shows "live_ok (w', L')"
    and "usr_id u \<noteq> v \<Longrightarrow> \<not> usr_is_admin u \<Longrightarrow> unattended v (w, L) \<Longrightarrow> unattended v (w', L')"
proof -
  let ?s = "(wb_srv (lv_web L))\<lparr>sv_limiter := l\<rparr>"
  have ix: "indexed_users ?s" and so: "srv_ok (db w) ?s" using ok by (simp_all add: live_ok_def web_ok_def indexed_users_def srv_ok_def)
  have u: "usr_email u = to_lower e" using rp by (auto simp: right_password_def find_Some_iff)
  from user_for_run [OF ix, of u w1] run have new: "indexed_users s'" "ui < length (sv_users s')" by auto
  note grown = user_for_srv [OF run so]
  have old: "session_ok (db w') s' (conn_user L' ss) ss \<and> conn_user L' ss = conn_user L ss" if "ss \<in> set (lv_imap L)" for ss
  proof -
    from ok that have s: "session_ok (db w) (wb_srv (lv_web L)) (conn_user L ss) ss" by (simp add: live_ok_def)
    then have "held {(ss_user ss, conn_user L ss)} {(i, conn_user L ss) | i v. ss_selected ss = Some (i, v)} (db w) ?s"
      by (auto simp: held_def session_ok_def usr_ok_def ptr_ok_def)
    with grown have "held {(ss_user ss, conn_user L ss)} {(i, conn_user L ss) | i v. ss_selected ss = Some (i, v)} (db w) s'" by blast
    then have "session_ok (db w) s' (conn_user L ss) ss" by (auto simp: held_def session_ok_def)
    moreover from this have "conn_user L' ss = conn_user L ss" by (simp add: conn_user_def web session_ok_def usr_ok_def account_row)
    ultimately show ?thesis by (simp add: db)
  qed
  have mine: "session_ok (db w') s' (conn_user L' (new_user_session ui)) (new_user_session ui)"
    using new(2) by (simp add: session_ok_def new_user_session_def usr_ok_def conn_user_def web account_row)
  have len: "ws_account s < length (sv_users s')" if "(tok, s) \<in> set (wb_sessions (lv_web L'))" for tok s
    using sess [OF that] ok new(2) grown by (fastforce simp: live_ok_def web_ok_def)
  show "live_ok (w', L')"
    using old mine len new(1) grown imap by (auto simp: live_ok_def web_ok_def web db)
  show "unattended v (w', L')" if v: "usr_id u \<noteq> v" "\<not> usr_is_admin u" and att: "unattended v (w, L)"
  proof -
    have cur: "current (db w) ?s" using att by (simp add: unattended_def current_def account_row)
    have f: "find (\<lambda>x. usr_email x = usr_email u) (users_t (db w)) = Some u" using rp u by (simp add: right_password_def)
    from user_for_current [OF run ix cur f] u have c: "current (db w) s'" "account_id s' ui = usr_id u" "account_is_admin s' ui = usr_is_admin u"
      and keep: "\<forall>a < length (sv_users ?s). account_id s' a = account_id ?s a \<and> account_is_admin s' a = account_is_admin ?s a"
      by (simp_all add: to_lower_idem)
    have "conn_user L' ss \<noteq> v" if "ss \<in> set (lv_imap L')" for ss
    proof (cases "ss \<in> set (lv_imap L)")
      case True
      with old [OF True] att show ?thesis by (auto simp: unattended_def)
    next
      case False
      with that imap have "ss = new_user_session ui" by blast
      with v(1) c(2) show ?thesis by (simp add: conn_user_def new_user_session_def web)
    qed
    moreover have "account_id s' (ws_account s) \<noteq> v \<and> \<not> account_is_admin s' (ws_account s)"
      if t: "(tok, s) \<in> set (wb_sessions (lv_web L'))" for tok s
    proof (cases "ws_account s = ui")
      case False
      with sess [OF t] have s: "(tok, s) \<in> set (wb_sessions (lv_web L))" by simp
      with ok have "ws_account s < length (sv_users ?s)" by (fastforce simp: live_ok_def web_ok_def)
      with keep s att show ?thesis by (fastforce simp: unattended_def account_row)
    qed (use c v in simp)
    ultimately show ?thesis using c(1) by (auto simp: unattended_def web db)
  qed
qed

text \<open>A guarded page of the administration, asked for by somebody else, does nothing.\<close>

lemma admin_refused:
  assumes "admin_route rt" and "\<not> administers (w, b) rt r"
  shows "same_web (w, b) (snd (serve M rt r (w, b)))"
proof -
  obtain h where "serve M rt r = require_admin h r" using admin_serve [OF assms(1), of M r] by blast
  moreover have "same_web (w, b) (snd (require_admin h r (w, b)))"
  proof (cases "signed_in w b r")
    case None
    with require_admin_run [of w b r h] show ?thesis by fastforce
  next
    case (Some a)
    with assms have "\<not> account_is_admin (wb_srv b) a" by (simp add: administers_def)
    with Some require_admin_run [of w b r h] show ?thesis by fastforce
  qed
  ultimately show ?thesis by simp
qed

lemma unattended_acting:
  assumes "unattended v (w, L)"
  shows "acting (w, lv_web L) r \<noteq> Some v" "\<not> administers (w, lv_web L) rt r"
proof -
  have "account_id (wb_srv (lv_web L)) a \<noteq> v \<and> \<not> account_is_admin (wb_srv (lv_web L)) a" if s: "signed_in w (lv_web L) r = Some a" for a
  proof -
    obtain tok s where "(tok, s) \<in> set (wb_sessions (lv_web L))" "ws_account s = a"
      using s by (auto simp: signed_in_def split: option.splits if_splits dest!: map_of_SomeD)
    with assms show ?thesis by (auto simp: unattended_def)
  qed
  then show "acting (w, lv_web L) r \<noteq> Some v" "\<not> administers (w, lv_web L) rt r"
    by (auto simp: acting_def administers_def split: option.splits)
qed

lemma imap_command_step:
  assumes ok: "live_ok (w, L)" and k: "k < length (lv_imap L)"
    and run: "imap_cmd B a (lv_imap L ! k) (w, wb_srv (lv_web L)) = (r, (w', s'))"
    and L': "L' = L\<lparr>lv_web := (lv_web L)\<lparr>wb_srv := s'\<rparr>, lv_imap := (case r of Inl e \<Rightarrow> lv_imap L | Inr ss \<Rightarrow> (lv_imap L)[k := ss])\<rparr>"
  shows "live_ok (w', L')" and "unattended v (w, L) \<Longrightarrow> unattended v (w', L') \<and> rows_of v (db w') = rows_of v (db w)"
proof -
  let ?s = "wb_srv (lv_web L)" and ?who = "map (conn_user L) (lv_imap L)"
  from keepsD [OF ie_imap_cmd, of "(w, ?s)" B a "lv_imap L ! k"] run
  have su: "same_users (w, ?s) (w', s')" and ids: "same_idents (db w) (db w')" by (simp_all add: imap_eff_def named_def)
  have sess: "sessions_ok (w, ?s) ?who (lv_imap L)"
    using ok by (auto simp: sessions_ok_def live_ok_def web_ok_def list_all2_map1 list_all2_same)
  note step = imap_step_isolated [OF sess k run]
  have st: "settled (w, lv_web L) (w', lv_web L')" using su by (simp add: settled_def L')
  have web: "web_ok (w', lv_web L')"
    using settled_web_ok [OF _ st] ok step(1) by (simp add: live_ok_def sessions_ok_def L')
  have len: "length (lv_imap L') = length (lv_imap L)" by (simp add: L' split: sum.splits)
  have conn: "session_ok (db w') s' (?who ! j) (lv_imap L' ! j) \<and> conn_user L' (lv_imap L' ! j) = ?who ! j" if "j < length (lv_imap L)" for j
  proof -
    have "session_ok (db w') s' (?who ! j) (lv_imap L' ! j)"
      using list_all2_nthD [OF step(1) [unfolded sessions_ok_def, THEN conjunct2], of j] that by (simp add: L')
    then show ?thesis by (simp add: conn_user_def L' session_ok_def usr_ok_def account_row)
  qed
  have all: "session_ok (db w') s' (conn_user L' ss) ss" if "ss \<in> set (lv_imap L')" for ss
    using that conn len by (metis in_set_conv_nth)
  have srv: "wb_srv (lv_web L') = s'" by (simp add: L')
  show "live_ok (w', L')" using web all by (simp add: live_ok_def srv)
  show "unattended v (w', L') \<and> rows_of v (db w') = rows_of v (db w)" if att: "unattended v (w, L)"
  proof
    have ne: "?who ! j \<noteq> v" if "j < length (lv_imap L)" for j using att that by (simp add: unattended_def)
    with k step(2) [of v] show "rows_of v (db w') = rows_of v (db w)" by metis
    have "conn_user L' ss \<noteq> v" if "ss \<in> set (lv_imap L')" for ss
      using that conn len ne by (metis in_set_conv_nth)
    moreover have "current (db w') s'"
      using current_kept [OF _ _ su ids] att ok by (simp add: unattended_def live_ok_def web_ok_def)
    moreover have "account_id s' (ws_account x) \<noteq> v \<and> \<not> account_is_admin s' (ws_account x)"
      if x: "(tok, x) \<in> set (wb_sessions (lv_web L))" for tok x
    proof -
      have "ws_account x < length (sv_users ?s)" using ok x by (fastforce simp: live_ok_def web_ok_def)
      from same_accounts [OF su this] x att show ?thesis by (auto simp: unattended_def)
    qed
    ultimately show "unattended v (w', L')" by (auto simp: unattended_def L')
  qed
qed

lemma web_request_step:
  assumes ok: "live_ok (w, L)" and run: "serve M rt r (w, lv_web L) = (x, (w', b'))" and L': "L' = L\<lparr>lv_web := b'\<rparr>"
    and login: "rt \<noteq> LoginSubmit"
  shows "live_ok (w', L')" and "unattended v (w, L) \<Longrightarrow> unattended v (w', L') \<and> rows_of v (db w') = rows_of v (db w)"
proof -
  let ?b = "lv_web L"
  have web: "web_ok (w, ?b)" using ok by (simp add: live_ok_def)
  note step = serve_ok [OF web run]
  have st: "settled (w, ?b) (w', b')" using keepsD [OF settled_serve [OF login, of M r], of "(w, ?b)"] run by simp
  then have su: "same_users (w, wb_srv ?b) (w', wb_srv b')" and sub: "set (wb_sessions b') \<subseteq> set (wb_sessions ?b)"
    by (simp_all add: settled_def)
  have in_mem: "ss_user ss < length (sv_users (wb_srv ?b))" if "ss \<in> set (lv_imap L)" for ss
    using ok that by (auto simp: live_ok_def session_ok_def usr_ok_def)
  have conn: "conn_user L' ss = conn_user L ss" if "ss \<in> set (lv_imap L)" for ss
    using same_accounts(1) [OF su in_mem [OF that]] by (simp add: conn_user_def L')
  have im: "lv_imap L' = lv_imap L" "lv_web L' = b'" by (simp_all add: L')
  have img: "(\<lambda>ss. (ss_user ss, conn_user L' ss)) ` set (lv_imap L) = (\<lambda>ss. (ss_user ss, conn_user L ss)) ` set (lv_imap L)"
    "{(i, conn_user L' ss) | i v ss. ss \<in> set (lv_imap L) \<and> ss_selected ss = Some (i, v)} =
     {(i, conn_user L ss) | i v ss. ss \<in> set (lv_imap L) \<and> ss_selected ss = Some (i, v)}"
    using conn by (auto intro!: image_cong) metis+
  show "live_ok (w', L')"
    using ok step unfolding live_ok_held img im by blast
  show "unattended v (w', L') \<and> rows_of v (db w') = rows_of v (db w)" if att: "unattended v (w, L)"
  proof
    note no = unattended_acting [OF att]
    show "rows_of v (db w') = rows_of v (db w)" using step no by blast
    have ids: "same_idents (db w) (db w')"
    proof (cases "admin_route rt")
      case True
      from admin_refused [OF True no(2), where M = M and r = r] run show ?thesis by (simp add: same_web_def idle_def)
    next
      case False
      from keepsD [OF named_serve [OF False login, of M r], of "(w, ?b)"] run show ?thesis by (simp add: named_def)
    qed
    have "current (db w') (wb_srv b')"
      using current_kept [OF _ _ su ids] att ok by (simp add: unattended_def live_ok_def web_ok_def)
    moreover have "conn_user L' ss \<noteq> v" if "ss \<in> set (lv_imap L)" for ss
      using att that conn [OF that] by (simp add: unattended_def)
    moreover have "account_id (wb_srv b') (ws_account y) \<noteq> v \<and> \<not> account_is_admin (wb_srv b') (ws_account y)"
      if y: "(tok, y) \<in> set (wb_sessions b')" for tok y
    proof -
      have old: "(tok, y) \<in> set (wb_sessions ?b)" using y sub by blast
      then have "ws_account y < length (sv_users (wb_srv ?b))" using web by (fastforce simp: web_ok_def)
      from same_accounts [OF su this] old att show ?thesis by (auto simp: unattended_def)
    qed
    ultimately show "unattended v (w', L')" by (auto simp: unattended_def im)
  qed
qed

text \<open>Both logins, and then every event.\<close>

lemma web_login_step:
  assumes ok: "live_ok (w, L)" and run: "serve (sy_webmail S) LoginSubmit r (w, lv_web L) = (x, (w', b'))"
    and L': "L' = L\<lparr>lv_web := b'\<rparr>"
  shows "live_ok (w', L')" and "\<forall>u. presented S (w, L) (WebRequest LoginSubmit r) = Some u \<longrightarrow> usr_id u \<noteq> v \<and> \<not> usr_is_admin u \<Longrightarrow>
      unattended v (w, L) \<Longrightarrow> unattended v (w', L') \<and> rows_of v (db w') = rows_of v (db w)"
proof -
  let ?M = "sy_webmail S" and ?b = "lv_web L"
  from run have "handle_login_submit ?M r (w, ?b) = (x, (w', b'))" by simp
  note lr = login_run [OF this]
  have db: "db w' = db w" using lr by (simp add: idle_def)
  have im: "lv_web L' = b'" "lv_imap L' = lv_imap L" by (simp_all add: L')
  from lr consider "wb_srv b' = wb_srv ?b" "wb_sessions b' = wb_sessions ?b"
    | w0 w1 a where "rq_form_ok r" "\<not> web_refused ?M w ?b r" "db w0 = db w"
      "authenticate (wm_backend ?M) (form_value r ''email'') (form_value r ''password'') (w0, wb_srv ?b) = (Inr a, (w1, wb_srv b'))"
      "wb_sessions b' = wb_sessions ?b \<or> (\<exists>tok. wb_sessions b' = AList.update tok \<lparr>ws_account = a, ws_expires = clock w' + session_ttl\<rparr> (wb_sessions ?b))"
    unfolding idle_def by blast
  then have "live_ok (w', L') \<and> ((\<forall>u. presented S (w, L) (WebRequest LoginSubmit r) = Some u \<longrightarrow> usr_id u \<noteq> v \<and> \<not> usr_is_admin u) \<longrightarrow>
      unattended v (w, L) \<longrightarrow> unattended v (w', L'))"
  proof cases
    case 1
    with quiet_step [OF ok db, where L' = L'] im show ?thesis by auto
  next
    case 2
    let ?e = "trim_space (form_value r ''email'')"
    from authenticate_cases [OF 2(4)] 2(3) obtain u w2 where
      u: "right_password (bk_bcrypt (wm_backend ?M)) (db w) (to_lower ?e) (form_value r ''password'') u"
        "user_for u (w2, wb_srv ?b) = (Inr a, (w1, wb_srv b'))" by auto
    have uf: "user_for u (w2, (wb_srv ?b)\<lparr>sv_limiter := sv_limiter (wb_srv ?b)\<rparr>) = (Inr a, (w1, wb_srv b'))" using u(2) by simp
    have sess: "(tok, s) \<in> set (wb_sessions ?b) \<or> ws_account s = a" if "(tok, s) \<in> set (wb_sessions b')" for tok s
      using 2(5) that by (auto dest!: alist_update_set)
    have pr: "presented S (w, L) (WebRequest LoginSubmit r) = Some u"
      using u(1) 2(1,2) by (simp add: right_with_password)
    from signed_in_step [OF ok u(1) uf db, where L' = L'] im sess pr
    show ?thesis by auto
  qed
  with db show "live_ok (w', L')" and "\<forall>u. presented S (w, L) (WebRequest LoginSubmit r) = Some u \<longrightarrow> usr_id u \<noteq> v \<and> \<not> usr_is_admin u \<Longrightarrow>
      unattended v (w, L) \<Longrightarrow> unattended v (w', L') \<and> rows_of v (db w') = rows_of v (db w)" by auto
qed

lemma imap_login_step:
  assumes ok: "live_ok (w, L)" and run: "login (wm_backend (sy_webmail S)) peer n pw (w, wb_srv (lv_web L)) = (r, (w', s'))"
    and L': "L' = L\<lparr>lv_web := (lv_web L)\<lparr>wb_srv := s'\<rparr>,
      lv_imap := (case r of Inl e \<Rightarrow> lv_imap L | Inr ui \<Rightarrow> lv_imap L @ [new_user_session ui])\<rparr>"
  shows "live_ok (w', L')" and "\<forall>u. presented S (w, L) (ImapLogin peer n pw) = Some u \<longrightarrow> usr_id u \<noteq> v \<and> \<not> usr_is_admin u \<Longrightarrow>
      unattended v (w, L) \<Longrightarrow> unattended v (w', L') \<and> rows_of v (db w') = rows_of v (db w)"
proof -
  note lc = login_cases [OF run]
  have db: "db w' = db w" using lc by blast
  from lc consider e l where "r = Inl e" "s' = (wb_srv (lv_web L))\<lparr>sv_limiter := l\<rparr>"
    | u l ui w1 where "r = Inr ui" "\<not> login_blocked w (wb_srv (lv_web L)) (client_ip peer)"
      "right_password (bk_bcrypt (wm_backend (sy_webmail S))) (db w) (to_lower (trim_space n)) pw u"
      "user_for u (w1, (wb_srv (lv_web L))\<lparr>sv_limiter := l\<rparr>) = (Inr ui, (w', s'))" by blast
  then have "live_ok (w', L') \<and> ((\<forall>u. presented S (w, L) (ImapLogin peer n pw) = Some u \<longrightarrow> usr_id u \<noteq> v \<and> \<not> usr_is_admin u) \<longrightarrow>
      unattended v (w, L) \<longrightarrow> unattended v (w', L'))"
  proof cases
    case 1
    with quiet_step [OF ok db, where L' = L'] show ?thesis by (auto simp: L')
  next
    case 2
    have pr: "presented S (w, L) (ImapLogin peer n pw) = Some u" using 2(2,3) by (simp add: right_with_password)
    from signed_in_step [OF ok 2(3,4) db, where L' = L'] pr 2(1) show ?thesis by (auto simp: L')
  qed
  with db show "live_ok (w', L')" and "\<forall>u. presented S (w, L) (ImapLogin peer n pw) = Some u \<longrightarrow> usr_id u \<noteq> v \<and> \<not> usr_is_admin u \<Longrightarrow>
      unattended v (w, L) \<Longrightarrow> unattended v (w', L') \<and> rows_of v (db w') = rows_of v (db w)" by auto
qed

text \<open>Events of the mail servers, the queue and the limiters leave the directory and the accounts alone.\<close>

fun of_mailboxes :: "event \<Rightarrow> bool" where
  "of_mailboxes (ImapLogin p n pw) = True"
| "of_mailboxes (ImapCommand k a) = True"
| "of_mailboxes (WebRequest rt r) = True"
| "of_mailboxes e = False"

lemma mail_event_quiet:
  assumes "\<not> of_mailboxes e" and "handle S N e (w, L) = (w', L')" and "sy_queue S = mail_queue fmt cfg"
  shows "db w' = db w" and "lv_imap L' = lv_imap L" and "wb_sessions (lv_web L') = wb_sessions (lv_web L)"
    and "sv_heap (wb_srv (lv_web L')) = sv_heap (wb_srv (lv_web L))" and "sv_users (wb_srv (lv_web L')) = sv_users (wb_srv (lv_web L))"
    and "sv_index (wb_srv (lv_web L')) = sv_index (wb_srv (lv_web L))"
proof -
  have "db w' = db w \<and> lv_imap L' = lv_imap L \<and> wb_sessions (lv_web L') = wb_sessions (lv_web L) \<and>
    sv_heap (wb_srv (lv_web L')) = sv_heap (wb_srv (lv_web L)) \<and> sv_users (wb_srv (lv_web L')) = sv_users (wb_srv (lv_web L)) \<and>
    sv_index (wb_srv (lv_web L')) = sv_index (wb_srv (lv_web L))"
  proof (cases e)
    case (InboundCommand k c a)
    have "db (fst (snd (run_inbound (sy_inbound S) c a (w, lv_inbound L ! k)))) = db w"
      using keepsD [OF data_inbound, of "(w, lv_inbound L ! k)" "sy_inbound S" c a] by (simp add: same_data_def)
    with assms(2) InboundCommand show ?thesis by (auto split: if_splits prod.splits)
  next
    case (SubmissionCommand k c a)
    let ?s = "(lv_submission L ! k)\<lparr>ss_limiter := Some (lv_submission_limiter L)\<rparr>"
    obtain x w1 s1 where step: "run_submission (sy_submission S) c a (w, ?s) = (x, (w1, s1))" by (metis surj_pair)
    from submission_step [OF step] have "db w1 = db w" by (auto dest: extendedD(5))
    with assms(2) SubmissionCommand step show ?thesis by (auto split: if_splits)
  next
    case QueuePass
    have "db (fst (snd (process_all N (sy_queue S) (w, lv_relay L)))) = db w"
      using keepsD [OF data_queue, of "(w, lv_relay L)" N fmt cfg] assms(3) by (simp add: same_data_def)
    with assms(2) QueuePass show ?thesis by (auto split: prod.splits)
  qed (use assms(1,2) in auto)
  then show "db w' = db w" "lv_imap L' = lv_imap L" "wb_sessions (lv_web L') = wb_sessions (lv_web L)"
    "sv_heap (wb_srv (lv_web L')) = sv_heap (wb_srv (lv_web L))" "sv_users (wb_srv (lv_web L')) = sv_users (wb_srv (lv_web L))"
    "sv_index (wb_srv (lv_web L')) = sv_index (wb_srv (lv_web L))" by blast+
qed

lemma handle_step:
  assumes ok: "live_ok (w, L)" and run: "handle S N e (w, L) = (w', L')" and q: "sy_queue S = mail_queue fmt cfg"
  shows "live_ok (w', L') \<and> ((\<forall>u. presented S (w, L) e = Some u \<longrightarrow> usr_id u \<noteq> v \<and> \<not> usr_is_admin u) \<longrightarrow> unattended v (w, L) \<longrightarrow>
    unattended v (w', L') \<and> rows_of v (db w') = rows_of v (db w))"
proof (cases "of_mailboxes e")
  case False
  from quiet_step [OF ok mail_event_quiet [OF False run q]] show ?thesis by blast
next
  case True
  then show ?thesis
  proof (cases e)
    case (ImapLogin p n pw)
    with run obtain r s' where "login (wm_backend (sy_webmail S)) p n pw (w, wb_srv (lv_web L)) = (r, (w', s'))"
      "L' = L\<lparr>lv_web := (lv_web L)\<lparr>wb_srv := s'\<rparr>, lv_imap := (case r of Inl e \<Rightarrow> lv_imap L | Inr ui \<Rightarrow> lv_imap L @ [new_user_session ui])\<rparr>"
      by (auto split: prod.splits)
    from imap_login_step [OF ok this] ImapLogin show ?thesis by blast
  next
    case (ImapCommand k a)
    show ?thesis
    proof (cases "k < length (lv_imap L)")
      case True
      with run ImapCommand obtain r s' where "imap_cmd (wm_backend (sy_webmail S)) a (lv_imap L ! k) (w, wb_srv (lv_web L)) = (r, (w', s'))"
        "L' = L\<lparr>lv_web := (lv_web L)\<lparr>wb_srv := s'\<rparr>, lv_imap := (case r of Inl e \<Rightarrow> lv_imap L | Inr ss \<Rightarrow> (lv_imap L)[k := ss])\<rparr>"
        by (auto split: prod.splits)
      from imap_command_step [OF ok True this] show ?thesis by blast
    qed (use run ok ImapCommand in simp)
  next
    case (WebRequest rt r)
    with run obtain x b' where s: "serve (sy_webmail S) rt r (w, lv_web L) = (x, (w', b'))" "L' = L\<lparr>lv_web := b'\<rparr>"
      by (auto split: prod.splits)
    show ?thesis
    proof (cases "rt = LoginSubmit")
      case True
      with web_login_step [OF ok s(1) [unfolded True] s(2)] WebRequest show ?thesis by blast
    next
      case False
      from web_request_step [OF ok s False] show ?thesis by blast
    qed
  qed simp_all
qed

section \<open>From the start of the program on\<close>

lemma serving_unattended:
  assumes "live_ok t" and "sy_queue S = mail_queue fmt cfg" and "unattended v t"
    and "\<forall>u \<in> set (signs_in S N es t). usr_id u \<noteq> v \<and> \<not> usr_is_admin u"
  shows "live_ok (serving S N es t) \<and> unattended v (serving S N es t) \<and> rows_of v (db (fst (serving S N es t))) = rows_of v (db (fst t))"
  using assms
proof (induction es arbitrary: t)
  case Nil
  then show ?case by (simp add: serving_def)
next
  case (Cons e es)
  obtain w L where t: "t = (w, L)" by fastforce
  obtain w' L' where h: "handle S N e (w, L) = (w', L')" by fastforce
  from Cons.prems(4) have "\<forall>u. presented S (w, L) e = Some u \<longrightarrow> usr_id u \<noteq> v \<and> \<not> usr_is_admin u" by (simp add: t)
  with handle_step [OF Cons.prems(1) [unfolded t] h Cons.prems(2), of v] Cons.prems(3) t
  have s: "live_ok (w', L')" "unattended v (w', L')" "rows_of v (db w') = rows_of v (db w)" by simp_all
  have "\<forall>u \<in> set (signs_in S N es (w', L')). usr_id u \<noteq> v \<and> \<not> usr_is_admin u" using Cons.prems(4) by (simp add: t h)
  from Cons.IH [OF s(1) Cons.prems(2) s(2) this] s(3) show ?case by (simp add: serving_def t h)
qed

lemma served_system:
  assumes "main_cmd P (''serve'' # args) (w, a) = (Inr (Serving S), (w', a'))"
  shows "\<exists>l cfg. sy_imap S = new_backend l \<and> sy_sessions S = [] \<and> sy_queue S = mail_queue (pg_fmt_date P) cfg"
proof -
  have run: "cmd_serve P args (w, a) = (Inr (Inr S), (w', a'))"
    using assms by (auto simp: main_cmd_def Let_def io_oks split: sum.splits) (metis sum.exhaust)
  obtain vals where parse: "parse_flags [(''config'', False)] args [] = Inr vals"
    using run by (cases "parse_flags [(''config'', False)] args []") (auto simp: cmd_serve_def exit_ok)
  from run obtain cfg s tls q key trusted sub imap v v' where S: "S = build_system P cfg s tls q key trusted sub imap"
    and q: "open_mail_queue (pg_fmt_date P) cfg v = (Inr q, v')"
    unfolding cmd_serve_def parse sum.case by (auto simp: prog_oks on_world_ok split: prod.splits)
  from q have "q = mail_queue (pg_fmt_date P) cfg"
    by (auto simp: open_mail_queue_def queue_new_def mail_queue_def io_oks)
  with S show ?thesis by (auto simp: build_system_def new_session_store_def Let_def)
qed

text \<open>
  C1: Nobody's data changes unless somebody gives that user's password or an administrator's. After \<open>serve\<close> came up, let
  any events follow, in any order and whatever fails: logins, IMAP commands, web requests with any cookies and forms, those of the
  administration included, mail coming in, submissions, passes of the queue. If no login form and no LOGIN that the limiters let through carried
  the password of the user \<open>v\<close> or of an administrator, then in the database the row, the folders, the messages and the forwarding
  of \<open>v\<close> are as they were.
\<close>

theorem data_needs_password:
  assumes "main_cmd P (''serve'' # args) t0 = (Inr (Serving S), (w, a))" and "boxes_keyed (db w)"
    and "\<forall>u \<in> set (signs_in S N es (w, started S out)). usr_id u \<noteq> v \<and> \<not> usr_is_admin u"
  shows "rows_of v (db (fst (serving S N es (w, started S out)))) = rows_of v (db w)"
proof -
  obtain w0 a0 where "t0 = (w0, a0)" by fastforce
  with served_system [of P args w0 a0 S w a] assms(1) obtain l cfg where
    S: "sy_imap S = new_backend l" "sy_sessions S = []" "sy_queue S = mail_queue (pg_fmt_date P) cfg" by blast
  have "live_ok (w, started S out)" "unattended v (w, started S out)"
    using assms(2) by (simp_all add: live_ok_def unattended_def started_def served_web_def S web_ok_def srv_ok_def indexed_users_def
        current_def new_backend_def)
  from serving_unattended [OF this(1) S(3) this(2) assms(3)] show ?thesis by simp
qed

text \<open>Ann has a mailbox with the folder Junk when the server starts; she signs in and works, and somebody guesses at the
  administrator's password.\<close>

definition ann_world :: world where
  "ann_world = demo_world\<lparr>db := empty_db\<lparr>domains_t := [\<lparr>dom_id = 1, dom_name = ''x.org''\<rparr>], domains_seq := 1,
     users_t := [\<lparr>usr_id = 1, usr_domain_id = 1, usr_local_part = ''ann'', usr_email = ''ann@x.org'', usr_password_hash = ''$pw'',
       usr_is_admin = False\<rparr>], users_seq := 1,
     mailboxes_t := [\<lparr>mbx_id = 1, mbx_user_id = 1, mbx_name = ''Junk'', mbx_uid_validity = 1, mbx_uid_next = 1, mbx_subscribed = True\<rparr>],
     mailboxes_seq := 1\<rparr>\<rparr>"

definition ann_works :: "event list" where
  "ann_works = [ImapLogin (Some ''9.9.9.9'') ''Ann@X.org'' ''pw'', ImapCommand 0 (CmdDelete ''Junk''),
     WebRequest LoginSubmit (small_request None [(''email'', ''root@x.org''), (''password'', ''guess'')]),
     WebRequest (AdminDelete ''2'') (small_request None [])]"

definition quiet_net :: net where
  "quiet_net = \<lparr>net_mx = \<lambda>_. Inr [], net_host = \<lambda>_. None, net_err_text = \<lambda>_. ''no host''\<rparr>"

definition nothing_sent :: outside where
  "nothing_sent = \<lparr>o_replies = [], o_wire = [], o_relays = [], o_failures = [], o_depth = 0\<rparr>"

lemma ann_works_demo:
  "case main_cmd demo_program [''serve''] (ann_world, small_acme_state) of (y, (w, a)) \<Rightarrow> (case y of
     Inr (Serving S) \<Rightarrow> map usr_id (users_t (db w)) = [1, 2] \<and> boxes_keyed (db w) \<and>
       map (\<lambda>u. (usr_id u, usr_is_admin u)) (signs_in S quiet_net ann_works (w, started S nothing_sent)) = [(1, False)]
   | _ \<Rightarrow> False)"
  by code_simp

lemma data_needs_password_witness:
  "\<exists>S w a. main_cmd demo_program [''serve''] (ann_world, small_acme_state) = (Inr (Serving S), (w, a)) \<and> map usr_id (users_t (db w)) = [1, 2] \<and>
     rows_of 2 (db (fst (serving S quiet_net ann_works (w, started S nothing_sent)))) = rows_of 2 (db w)"
proof -
  obtain y w a where run: "main_cmd demo_program [''serve''] (ann_world, small_acme_state) = (y, (w, a))" by (metis surj_pair)
  with ann_works_demo obtain S where y: "y = Inr (Serving S)" and ids: "map usr_id (users_t (db w)) = [1, 2]" and k: "boxes_keyed (db w)"
    and si: "map (\<lambda>u. (usr_id u, usr_is_admin u)) (signs_in S quiet_net ann_works (w, started S nothing_sent)) = [(1, False)]"
    by (auto split: sum.splits outcome.splits)
  have "\<forall>u \<in> set (signs_in S quiet_net ann_works (w, started S nothing_sent)). usr_id u \<noteq> 2 \<and> \<not> usr_is_admin u" using si by auto
  from data_needs_password [OF run [unfolded y] k this] run [unfolded y] ids show ?thesis by (intro exI conjI)
qed

end
