(* ===== verification/Spec2Isabelle.thy ===== *)
theory Spec2Isabelle
  imports GoText Address Config RateLimit Maildir Store MailboxInv Bounce MoveInv SearchInv WebApiInv RealIP MailFlowInv ComposeInv AdminInv ServeInv MailPath Render RuntimeInv
begin

text \<open>
  A verification of Mailroom, a mail server in Go: SMTP servers for mail from outside and from its own users, a
  queue that relays mail to other servers, an IMAP server and a webmail over the same mailboxes, and the commands
  that administer it. This theory imports all others; what follows says what they model and show.

  \<^bold>\<open>The parts and how they interact.\<close> Mail comes in at \<open>internal/smtpserver\<close>. The inbound server takes mail for local
  addresses, has it verified (\<open>internal/inboundauth\<close>), puts it into a folder of the recipient (\<open>internal/maildir\<close>)
  and forwards a copy through the queue where the user asked for that. The submission server authenticates users against
  the directory (\<open>internal/store\<close>) and hands their mail to \<open>internal/mailsend\<close>, which signs it (\<open>internal/dkimsign\<close>),
  delivers it to local recipients and queues the rest (\<open>internal/queue\<close>). What the queue gives up on comes back as
  a bounce (\<open>cmd/mailserver\<close>). \<open>internal/imapbackend\<close> keeps a list of messages per folder in memory, over the files of
  the maildir and an index in the database, and serves it to IMAP connections and, through \<open>webapi.go\<close>, to the
  handlers of \<open>internal/webmail\<close>. Every login asks a limiter (\<open>internal/ratelimit\<close>) about the address of the client, which
  \<open>internal/realip\<close> finds behind proxies. \<open>cmd/mailserver/main.go\<close> reads the configuration (\<open>internal/config\<close>), opens the
  directory, gets a certificate (\<open>internal/tlsutil\<close>, \<open>internal/acmedns\<close>) and wires all of it.

  \<^bold>\<open>How code is modelled.\<close> An operation is a function from a state to a result, a value or a Go error, and the next state
  (\<open>Prelude\<close>: the type \<open>io\<close>, its combinators, triples for what an operation achieves and the locale \<open>effect\<close> for what it leaves
  alone). What is outside the process (\<open>World\<close>) is a record: the tree of files, the spool, the tables of the database, clock
  and random source. Every system call and every statement may fail: the state holds a schedule of failures, and a
  statement for all states is one for failures at any point. Structs are records, pointers that are shared are
  indices into a heap, maps are association lists. Mutexes make an operation under a lock one step, so concurrent use is a
  sequence of operations. Integers have their width where the code can overflow: UIDs are 32-bit words,
  the counter of file names a 64-bit word, and the arithmetic of pages wraps as a Go \<open>int\<close> does. A panic is an error of its own.
  Strings are lists of bytes, and case mapping is that of ASCII.

  \<^bold>\<open>The theories.\<close>

  \<^item> \<open>Prelude\<close>, \<open>GoStrings\<close>, \<open>GoText\<close>, \<open>NetIP\<close>: computations, and the parts of Go's standard library that the code uses on
    strings, numbers, paths and addresses, with the round trips of printing and parsing.
  \<^item> \<open>World\<close>: the outside state and the system calls, each with its triple.
  \<^item> \<open>Address\<close>, \<open>Config\<close>: \<open>address.go\<close> and \<open>config.go\<close>.
  \<^item> \<open>RateLimit\<close>: the limiter, with a specification by the history of failures that it refines (a simulation).
  \<^item> \<open>Maildir\<close>: delivery, listing, opening, flags and removal of message files. A delivery is atomic under every schedule of
    failures and succeeds without them. The locale \<open>message_store\<close> is the interface its clients rely on.
  \<^item> \<open>Store\<close>: the tables with the constraints of the schema, every statement of \<open>store.go\<close>, \<open>mailbox.go\<close>, \<open>forwarding.go\<close>
    and \<open>relay_settings.go\<close> on both drivers. Constraints hold after every sequence of operations (locale \<open>machine\<close>).
  \<^item> \<open>Flags\<close>, \<open>Mailbox\<close>, \<open>MailboxInv\<close>: flags, and one IMAP folder. Reloading reconciles list, index and disk and never gives a UID
    a second time; APPEND persists; EXPUNGE tells clients the right numbers.
  \<^item> \<open>Fetch\<close>: FETCH and the answer of STORE, with the responses written to the client. The abstract FETCH of \<open>Mailbox\<close>, which the
    sessions use, is what this one does to the folder; delivered mail can be fetched byte for byte; and a message that was
    read still counts as unseen.
  \<^item> \<open>Search\<close>, \<open>SearchInv\<close>: SEARCH always answers, and a number set means to it what it means to FETCH.
  \<^item> \<open>User\<close>, \<open>UserInv\<close>, \<open>MoveInv\<close>: the users of the running server, their folders and connections. No command of other
    connections changes a row of a user; MOVE loses no message; LOGIN is guarded by limiter and password.
  \<^item> \<open>WebApi\<close>, \<open>WebApiInv\<close>: the account of the webmail: pages, message texts, attachments, search, move and delete.
  \<^item> \<open>Queue\<close>, \<open>QueueInv\<close>, \<open>Bounce\<close>: the queue on disk, the SMTP client's side of relaying, the smart host, bounces. Every message
    leaves the queue acknowledged or reported, none is lost in a pass, and the password of the smart host is only sent
    over verified TLS. The locales \<open>relaying\<close> and \<open>configured\<close> state what the queue needs of its wiring.
  \<^item> \<open>InboundAuth\<close>: SPF, DKIM and DMARC of inbound mail, and when it goes to Junk.
  \<^item> \<open>RealIP\<close>: the client address behind proxies, which the client cannot forge.
  \<^item> \<open>MailFlow\<close>, \<open>MailFlowInv\<close>: \<open>mailsend\<close> and the two SMTP servers. The inbound server relays nothing but forwards, and
    delivers to every accepted recipient; nothing is submitted without a password. \<open>MailPath\<close>: what a client sends is what the
    recipient fetches.
  \<^item> \<open>Webmail\<close>, \<open>Compose\<close>: the sessions, routes and handlers of the webmail. \<open>WebmailInv\<close>: what the guards let through.
    \<open>WebmailSafe\<close>: where sessions come from, well-formed states, and that a browser reaches the data of its own account
    alone. \<open>ComposeInv\<close>: no header can be injected. \<open>AdminInv\<close>: what deleting a mailbox removes, and two gaps.
  \<^item> \<open>Render\<close>: the functions the templates call, for sizes, dates and page numbers, and the page that fails half way.
  \<^item> \<open>Certs\<close>, \<open>CertsInv\<close>: the DKIM key, static and self-signed certificates, and the ACME manager, which never stops serving
    and does not ask for a certificate it has.
  \<^item> \<open>Serve\<close>, \<open>ServeInv\<close>: the command line, the start of the program and its end: a mailbox that was created can be used, the configured administrator
    signs in, and a second start changes nothing.

  \<^item> \<open>Runtime\<close>, \<open>RuntimeInv\<close>: the servers running together on the state they share, an event at a time. From the start on, no
    interleaving of events changes the data of a user unless somebody gives that user's password or an administrator's.

  In each theory the model comes first, then the invariants and effects of its operations, then the properties,
  marked by a number, each with a run of the model that shows its hypotheses can hold.

  \<^bold>\<open>Bounds.\<close> No function of the model has fuel. Loops of the code are recursive functions that end: over the lists
  they walk, or by a measure (the walk up the domain in \<open>InboundAuth\<close>). Loops that run until they are cancelled
  (\<open>queue_run\<close>, \<open>acme_run\<close>, \<open>view_idle\<close>, \<open>limiter_run\<close>) take the number of their ticks, and the properties hold for every number or give one
  that is enough: \<open>queue_drains\<close> computes it from the retry intervals and the
  limit of retries.

  \<^bold>\<open>Parameters.\<close> Libraries outside the repository are arguments of the definitions that use them: bcrypt, the YAML and JSON
  decoders, MIME parsing and writing (go-message), the matching of LIST patterns, the update tracker and the sections of a message (go-imap), the SMTP client and DNS (as
  recorded calls and lists of outcomes), DKIM, SPF and DMARC evaluation, the public suffix list, RSA, PEM and X.509, the ACME client, and the PROXY
  protocol. What a property assumes of one is a hypothesis of it: that bcrypt accepts the password a hash was made
  from, that a codec reads back what it wrote.

  \<^bold>\<open>Not modelled.\<close> Templates and static files: a reply is the data handed to them, and \<open>Render\<close> has what the code computes
  for them. The collectors of
  \<open>internal/metrics\<close> and all logging, which change nothing that the program reads. The matching of URLs and parsing of forms and cookies by
  \<open>net/http\<close>, and the protocols of go-smtp and go-imap: requests and commands arrive parsed. What the update tracker of go-imap
  sends of the queued updates, and what the response writer makes of the items of a FETCH. Data races: the code takes its locks, and the model has no other interleaving.
\<close>

end
